(* ===== verification/Prelude.thy ===== *)
theory Prelude
  imports Main "HOL-Library.AList"
begin

section \<open>Shared types, containers and lemmas\<close>

text \<open>
  What every component of the model uses: results that may carry a thrown error, and the
  insertion-ordered containers of JavaScript.  A JS \<open>Map\<close> (and a plain object used as a
  dictionary) is an association list: \<open>map_of\<close> is \<open>get\<close>, \<open>AList.update\<close> is \<open>set\<close> (an
  existing key keeps its position, a new one goes to the end), \<open>AList.delete\<close> is \<open>delete\<close>.
  A JS \<open>Set\<close> is a list in insertion order without repetitions.  Strings are lists of
  characters: the code units of the source's strings, limited to the first 256 of them.
\<close>

named_theorems js_simps \<open>lookup and membership laws of the ordered containers\<close>
named_theorems result_simps \<open>laws of results that may be errors\<close>

type_synonym ('k, 'v) js_map = "('k \<times> 'v) list"
type_synonym 'a js_set = "'a list"

subsection \<open>Results: a thrown error or a value\<close>

definition bind_result :: "'e + 'a \<Rightarrow> ('a \<Rightarrow> 'e + 'b) \<Rightarrow> 'e + 'b" where
  "bind_result r f = (case r of Inl e \<Rightarrow> Inl e | Inr x \<Rightarrow> f x)"

lemma bind_result_simps [simp, result_simps]:
  "bind_result (Inl e) f = Inl e"
  "bind_result (Inr x) f = f x"
  by (simp_all add: bind_result_def)

lemma bind_result_Inr [result_simps]:
  "bind_result r f = Inr y \<longleftrightarrow> (\<exists>x. r = Inr x \<and> f x = Inr y)"
  by (cases r) auto

lemma bind_result_Inl [result_simps]:
  "bind_result r f = Inl e \<longleftrightarrow> r = Inl e \<or> (\<exists>x. r = Inr x \<and> f x = Inl e)"
  by (cases r) auto

text \<open>Mapping a function that may throw over a list: the first error ends the loop.\<close>

fun traverse :: "('a \<Rightarrow> 'e + 'b) \<Rightarrow> 'a list \<Rightarrow> 'e + 'b list" where
  "traverse f [] = Inr []"
| "traverse f (x # xs) =
     bind_result (f x) (\<lambda>y. bind_result (traverse f xs) (\<lambda>ys. Inr (y # ys)))"

lemma traverse_Inr:
  "traverse f xs = Inr ys \<longleftrightarrow> list_all2 (\<lambda>x y. f x = Inr y) xs ys"
  by (induction xs arbitrary: ys) (auto simp: result_simps list_all2_Cons1)

lemma traverse_Inr_map:
  "traverse f xs = Inr ys \<Longrightarrow> (\<And>x y. f x = Inr y \<Longrightarrow> g y = h x) \<Longrightarrow> map g ys = map h xs"
  by (induction xs arbitrary: ys) (auto simp: result_simps)

lemma traverse_Inr_memE:
  assumes "traverse f xs = Inr ys" and "y \<in> set ys"
  obtains x where "x \<in> set xs" and "f x = Inr y"
  using assms by (auto simp: traverse_Inr list_all2_conv_all_nth in_set_conv_nth) metis

lemma traverse_Inr_mem:
  "traverse f xs = Inr ys \<Longrightarrow> x \<in> set xs \<Longrightarrow> \<exists>y \<in> set ys. f x = Inr y"
  by (induction xs arbitrary: ys) (auto simp: result_simps)

lemma traverse_total:
  "(\<And>x. x \<in> set xs \<Longrightarrow> \<exists>y. f x = Inr y) \<Longrightarrow> \<exists>ys. traverse f xs = Inr ys"
  by (induction xs) (force simp: result_simps)+

subsection \<open>Ordered sets\<close>

definition set_add :: "'a \<Rightarrow> 'a js_set \<Rightarrow> 'a js_set" where
  "set_add x xs = (if x \<in> set xs then xs else xs @ [x])"

definition set_delete :: "'a \<Rightarrow> 'a js_set \<Rightarrow> 'a js_set" where
  "set_delete x xs = filter (\<lambda>y. y \<noteq> x) xs"

text \<open>\<open>new Set(iterable)\<close>.\<close>

definition set_of_list :: "'a list \<Rightarrow> 'a js_set" where
  "set_of_list xs = foldl (\<lambda>s x. set_add x s) [] xs"

lemma set_set_add [simp, js_simps]: "set (set_add x xs) = insert x (set xs)"
  by (auto simp: set_add_def)

lemma distinct_set_add [simp, js_simps]: "distinct (set_add x xs) \<longleftrightarrow> distinct xs"
  by (auto simp: set_add_def)

lemma set_set_delete [simp, js_simps]: "set (set_delete x xs) = set xs - {x}"
  by (auto simp: set_delete_def)

lemma distinct_set_delete [simp, js_simps]: "distinct xs \<Longrightarrow> distinct (set_delete x xs)"
  by (simp add: set_delete_def)

lemma length_set_delete_le [simp]: "length (set_delete x xs) \<le> length xs"
  by (simp add: set_delete_def)

lemma length_set_delete: "x \<in> set xs \<Longrightarrow> length (set_delete x xs) < length xs"
  by (auto simp: set_delete_def intro: length_filter_less)

lemma length_set_delete_bound: "length xs \<le> n \<Longrightarrow> length (set_delete x xs) \<le> n"
  by (rule le_trans [OF length_set_delete_le])

lemma set_delete_notin [simp]: "x \<notin> set xs \<Longrightarrow> set_delete x xs = xs"
  by (auto simp: set_delete_def filter_id_conv)

lemma foldl_set_add:
  "set (foldl (\<lambda>s x. set_add x s) ys xs) = set ys \<union> set xs
   \<and> (distinct ys \<longrightarrow> distinct (foldl (\<lambda>s x. set_add x s) ys xs))"
  by (induction xs arbitrary: ys) auto

lemma set_set_of_list [simp, js_simps]: "set (set_of_list xs) = set xs"
  by (simp add: set_of_list_def foldl_set_add)

lemma distinct_set_of_list [simp, js_simps]: "distinct (set_of_list xs)"
  by (simp add: set_of_list_def foldl_set_add)

lemma set_of_list_empty [simp]: "set_of_list xs = [] \<longleftrightarrow> xs = []"
  using set_set_of_list [of xs] by (metis set_empty)

lemma set_add_not_Nil [simp]: "set_add x xs \<noteq> []"
  by (auto simp: set_add_def)

subsection \<open>Ordered maps\<close>

text \<open>\<open>new Map(entries)\<close> and \<open>Object.fromEntries(entries)\<close>: later entries overwrite.\<close>

definition map_of_entries :: "('k \<times> 'v) list \<Rightarrow> ('k, 'v) js_map" where
  "map_of_entries es = foldl (\<lambda>m (k, v). AList.update k v m) [] es"

definition get_or :: "'v \<Rightarrow> ('k, 'v) js_map \<Rightarrow> 'k \<Rightarrow> 'v" where
  "get_or d m k = (case map_of m k of None \<Rightarrow> d | Some v \<Rightarrow> v)"

lemma map_of_update [simp, js_simps]: "map_of (AList.update k v m) = (map_of m)(k \<mapsto> v)"
  by (rule update_conv')

lemma map_of_delete [simp, js_simps]: "map_of (AList.delete k m) = (map_of m)(k := None)"
  by (rule delete_conv')

lemma get_or_update [simp, js_simps]:
  "get_or d (AList.update k v m) k' = (if k' = k then v else get_or d m k')"
  by (simp add: get_or_def)

lemma get_or_Nil [simp, js_simps]: "get_or d [] k = d"
  by (simp add: get_or_def)

lemma fst_set_update [simp]: "fst ` set (AList.update k v m) = insert k (fst ` set m)"
  by (metis dom_map_of_conv_image_fst dom_fun_upd map_of_update option.distinct(1))

lemma map_of_foldl_update:
  "map_of (foldl (\<lambda>m (k, v). AList.update k v m) m es) = map_of (rev es @ m)"
proof (induction es arbitrary: m)
  case (Cons e es)
  then show ?case by (cases e) (auto simp: map_add_def fun_eq_iff split: option.splits)
qed simp

lemma map_of_map_of_entries [simp, js_simps]:
  "map_of (map_of_entries es) = map_of (rev es)"
  by (simp add: map_of_entries_def map_of_foldl_update)

subsection \<open>Lists in dependency order\<close>

text \<open>
  \<open>in_order E before xs\<close>: every element of \<open>xs\<close> comes after its \<open>E\<close>-predecessors, those in
  \<open>before\<close> counting as already there.
\<close>

fun in_order :: "('a \<times> 'a) set \<Rightarrow> 'a set \<Rightarrow> 'a list \<Rightarrow> bool" where
  "in_order E before [] = True"
| "in_order E before (x # xs) = (E\<inverse> `` {x} \<subseteq> before \<and> in_order E (insert x before) xs)"

lemma in_order_append:
  "in_order E before (xs @ ys) \<longleftrightarrow> in_order E before xs \<and> in_order E (before \<union> set xs) ys"
  by (induction xs arbitrary: before) simp_all

lemma in_order_snoc:
  "in_order E before (xs @ [x]) \<longleftrightarrow> in_order E before xs \<and> E\<inverse> `` {x} \<subseteq> before \<union> set xs"
  by (simp add: in_order_append)

lemma in_order_subset: "in_order E before xs \<Longrightarrow> E' \<subseteq> E \<Longrightarrow> in_order E' before xs"
  by (induction xs arbitrary: before) (auto simp: subset_iff)

lemma in_order_split:
  "in_order E before (xs @ x # ys) \<Longrightarrow> (s, x) \<in> E \<Longrightarrow> s \<in> before \<union> set xs"
  by (auto simp: in_order_append)

text \<open>A finite set in which every element has a predecessor contains a cycle.\<close>

lemma acyclic_minimal:
  assumes "acyclic E" and "finite E" and "S \<noteq> {}"
  obtains x where "x \<in> S" and "\<And>y. (y, x) \<in> E \<Longrightarrow> y \<notin> S"
proof -
  have "wf E" using assms(1,2) by (simp add: finite_acyclic_wf)
  moreover obtain y where "y \<in> S" using assms(3) by blast
  ultimately obtain z where "z \<in> S" "\<And>y. (y, z) \<in> E \<Longrightarrow> y \<notin> S"
    by (rule wfE_min) blast
  with that show thesis by blast
qed

lemma in_order_acyclic:
  assumes "in_order E {} xs" and "Range E \<subseteq> set xs"
  shows "acyclic E"
proof (rule acyclicI_order [where f = "\<lambda>x. - int (length (takeWhile (\<lambda>y. y \<noteq> x) xs))"])
  fix s t assume st: "(s, t) \<in> E"
  then have "t \<in> set xs" using assms(2) by auto
  then obtain ys zs where xs: "xs = ys @ t # zs" "t \<notin> set ys" by (metis split_list_first)
  with assms(1) st have "s \<in> set ys" by (metis in_order_split sup_bot_left)
  then obtain us vs where ys: "ys = us @ s # vs" "s \<notin> set us" by (metis split_list_first)
  have "takeWhile (\<lambda>y. y \<noteq> s) xs = us"
    using ys by (auto simp: xs takeWhile_append)
  moreover have "takeWhile (\<lambda>y. y \<noteq> t) xs = ys"
    using xs(2) by (auto simp: xs(1) takeWhile_append)
  ultimately show "- int (length (takeWhile (\<lambda>y. y \<noteq> t) xs))
                   < - int (length (takeWhile (\<lambda>y. y \<noteq> s) xs))"
    by (simp add: ys)
qed

subsection \<open>Counting\<close>

lemma length_filter_split:
  "length (filter (\<lambda>x. P x \<and> \<not> Q x) xs) + length (filter (\<lambda>x. P x \<and> Q x) xs)
   = length (filter P xs)"
  by (induction xs) auto

lemma count_list_filter_map:
  "count_list (map g (filter P xs)) n = length (filter (\<lambda>x. P x \<and> g x = n) xs)"
  by (induction xs) auto

lemma distinct_same_length:
  "distinct xs \<Longrightarrow> set xs \<subseteq> set ys \<Longrightarrow> length xs = length ys \<Longrightarrow> distinct ys \<Longrightarrow> set xs = set ys"
  by (intro card_subset_eq) (simp_all add: distinct_card)

end
