(* ===== verification/Json.thy ===== *)
theory Json
  imports Prelude Complex_Main "HOL-Library.Sublist"
begin

section \<open>JavaScript values and string helpers\<close>

text \<open>
  The values a workflow carries (\<open>unknown\<close> in the source): \<open>undefined\<close>, JSON values, and
  objects as ordered lists of own enumerable properties.  A JS number is NaN, an infinity or a
  rational number; every finite double is one, and the code below only tests, compares and
  copies numbers.  The string helpers are the methods of \<open>String.prototype\<close> the code calls.
\<close>

datatype js_num = NaN | Infinite bool | Finite rat

datatype json =
    JUndefined
  | JNull
  | JBool bool
  | JNumber js_num
  | JString string
  | JArray "json list"
  | JObject "(string \<times> json) list"

type_synonym json_record = "(string, json) js_map"

definition nullish :: "json \<Rightarrow> bool" where
  "nullish v \<longleftrightarrow> v = JUndefined \<or> v = JNull"

text \<open>\<open>a ?? b\<close>.\<close>

definition coalesce :: "json \<Rightarrow> json \<Rightarrow> json" where
  "coalesce a b = (if nullish a then b else a)"

fun truthy :: "json \<Rightarrow> bool" where
  "truthy JUndefined = False"
| "truthy JNull = False"
| "truthy (JBool b) = b"
| "truthy (JNumber n) = (n \<noteq> NaN \<and> n \<noteq> Finite 0)"
| "truthy (JString s) = (s \<noteq> [])"
| "truthy (JArray _) = True"
| "truthy (JObject _) = True"

text \<open>Truthiness of a value of type \<open>string | undefined\<close>.\<close>

definition truthy_str :: "string option \<Rightarrow> bool" where
  "truthy_str s \<longleftrightarrow> (case s of None \<Rightarrow> False | Some t \<Rightarrow> t \<noteq> [])"

lemma truthy_str_simps [simp]:
  "truthy_str None = False" "truthy_str (Some t) = (t \<noteq> [])"
  by (simp_all add: truthy_str_def)

fun type_of :: "json \<Rightarrow> string" where
  "type_of JUndefined = ''undefined''"
| "type_of JNull = ''object''"
| "type_of (JBool _) = ''boolean''"
| "type_of (JNumber _) = ''number''"
| "type_of (JString _) = ''string''"
| "type_of (JArray _) = ''object''"
| "type_of (JObject _) = ''object''"

text \<open>Own properties of a plain object; other values have none the code reads by name.\<close>

fun fields_of :: "json \<Rightarrow> json_record" where
  "fields_of (JObject fs) = fs"
| "fields_of _ = []"

definition get_prop :: "json_record \<Rightarrow> string \<Rightarrow> json" where
  "get_prop fs k = (case map_of fs k of None \<Rightarrow> JUndefined | Some v \<Rightarrow> v)"

definition has_own :: "(string, 'v) js_map \<Rightarrow> string \<Rightarrow> bool" where
  "has_own fs k \<longleftrightarrow> map_of fs k \<noteq> None"

definition js_space :: "char \<Rightarrow> bool" where
  "js_space c \<longleftrightarrow> (let n = of_char c :: nat in n \<in> {9, 10, 11, 12, 13, 32, 160})"

definition trim :: "string \<Rightarrow> string" where
  "trim s = rev (dropWhile js_space (rev (dropWhile js_space s)))"

definition lower_char :: "char \<Rightarrow> char" where
  "lower_char c =
     (let n = of_char c :: nat
      in if (65 \<le> n \<and> n \<le> 90) \<or> (192 \<le> n \<and> n \<le> 222 \<and> n \<noteq> 215) then char_of (n + 32) else c)"

definition to_lower :: "string \<Rightarrow> string" where
  "to_lower s = map lower_char s"

definition starts_with :: "string \<Rightarrow> string \<Rightarrow> bool" where
  "starts_with s p \<longleftrightarrow> prefix p s"

definition ends_with :: "string \<Rightarrow> string \<Rightarrow> bool" where
  "ends_with s p \<longleftrightarrow> suffix p s"

definition is_digit :: "char \<Rightarrow> bool" where
  "is_digit c \<longleftrightarrow> (let n = of_char c :: nat in 48 \<le> n \<and> n \<le> 57)"

definition is_hex_digit :: "char \<Rightarrow> bool" where
  "is_hex_digit c \<longleftrightarrow>
     (let n = of_char c :: nat
      in (48 \<le> n \<and> n \<le> 57) \<or> (97 \<le> n \<and> n \<le> 102) \<or> (65 \<le> n \<and> n \<le> 70))"

definition is_alnum :: "char \<Rightarrow> bool" where
  "is_alnum c \<longleftrightarrow>
     (let n = of_char c :: nat
      in (48 \<le> n \<and> n \<le> 57) \<or> (97 \<le> n \<and> n \<le> 122) \<or> (65 \<le> n \<and> n \<le> 90))"

text \<open>\<open>String(n)\<close> for a natural number, and \<open>s.replace\<close> of every occurrence of a character.\<close>

fun show_nat :: "nat \<Rightarrow> string" where
  "show_nat n = (if n < 10 then [char_of (48 + n)] else show_nat (n div 10) @ [char_of (48 + n mod 10)])"

declare show_nat.simps [simp del]

definition replace_char :: "char \<Rightarrow> char \<Rightarrow> string \<Rightarrow> string" where
  "replace_char a b s = map (\<lambda>c. if c = a then b else c) s"

definition quoted :: "string \<Rightarrow> string" where
  "quoted s = CHR 0x27 # s @ [CHR 0x27]"

text \<open>\<open>s.split(sep)\<close> for a separator of one character, and \<open>parts.join(sep)\<close>.\<close>

fun split_on :: "char \<Rightarrow> string \<Rightarrow> string list" where
  "split_on c [] = [[]]"
| "split_on c (x # xs) =
     (if x = c then [] # split_on c xs
      else (case split_on c xs of [] \<Rightarrow> [[x]] | p # ps \<Rightarrow> (x # p) # ps))"

fun join_with :: "string \<Rightarrow> string list \<Rightarrow> string" where
  "join_with sep [] = []"
| "join_with sep [s] = s"
| "join_with sep (s # t # ss) = s @ sep @ join_with sep (t # ss)"

lemma split_on_not_Nil [simp]: "split_on c s \<noteq> []"
  by (induction s) (auto split: list.splits)

lemma join_with_Cons_char: "join_with sep ((x # p) # ps) = x # join_with sep (p # ps)"
  by (cases ps) auto

lemma join_split: "join_with [c] (split_on c s) = s"
proof (induction s)
  case (Cons x xs)
  then show ?case
    by (cases "split_on c xs") (auto simp: join_with_Cons_char neq_Nil_conv)
qed simp

lemma get_prop_update [simp]: "get_prop (AList.update k v m) k' = (if k' = k then v else get_prop m k')"
  by (simp add: get_prop_def)

lemma has_own_update [simp]: "has_own (AList.update k v m) k' \<longleftrightarrow> k' = k \<or> has_own m k'"
  by (simp add: has_own_def)

lemma has_own_delete [simp]: "has_own (AList.delete k m) k' \<longleftrightarrow> k' \<noteq> k \<and> has_own m k'"
  by (simp add: has_own_def)

lemma has_own_iff: "has_own m k \<longleftrightarrow> k \<in> fst ` set m"
  by (simp add: has_own_def map_of_eq_None_iff)

end
