(* ===== verification/Graph_Types.thy ===== *)
theory Graph_Types
  imports Json
begin

section \<open>Workflow graphs and compiled definitions\<close>

text \<open>
  The data of the workflow language: the graph the builder saves
  (\<open>packages/shared/src/workflow-graph.ts\<close>) and the definition the compiler makes of it
  (\<open>backend/src/dsl/types.ts\<close>, read again by the worker as
  \<open>worker/src/temporal/types.ts\<close>).  An optional field is an \<open>option\<close>; a field that the
  compiler copies from untyped configuration keeps the type \<open>json\<close> until the schema has
  checked it.
\<close>

type_synonym node_ref = string

datatype edge_kind = SuccessEdge | ErrorEdge

datatype join_strategy = JoinAll | JoinAny | JoinFirst

record graph_edge =
  ge_id :: string
  ge_source :: node_ref
  ge_target :: node_ref
  ge_source_handle :: "string option"
  ge_target_handle :: "string option"
  ge_kind :: "edge_kind option"

record graph_node =
  gn_id :: node_ref
  gn_type :: string
  gn_label :: string
  gn_config :: json_record

record workflow_graph =
  wg_name :: string
  wg_description :: "string option"
  wg_nodes :: "graph_node list"
  wg_edges :: "graph_edge list"

record input_mapping =
  im_source_ref :: node_ref
  im_source_handle :: string

record action =
  ac_ref :: node_ref
  ac_component :: string
  ac_params :: json_record
  ac_overrides :: json_record
  ac_depends_on :: "node_ref list"
  ac_mappings :: "(string, input_mapping) js_map"
  ac_retry :: "json option"

record workflow_edge =
  we_id :: string
  we_source :: node_ref
  we_target :: node_ref
  we_source_handle :: "string option"
  we_target_handle :: "string option"
  we_kind :: edge_kind

record node_metadata =
  nm_ref :: node_ref
  nm_mode :: json
  nm_label :: "string option"
  nm_join :: "join_strategy option"
  nm_stream :: "string option"
  nm_group :: "string option"
  nm_max_concurrency :: "rat option"
  nm_tool_config :: json
  nm_connected_tools :: "node_ref list option"

record definition_core =
  df_version :: nat
  df_title :: string
  df_description :: "string option"
  df_entrypoint :: node_ref
  df_nodes :: "(node_ref, node_metadata) js_map"
  df_edges :: "workflow_edge list"
  df_dependency_counts :: "(node_ref, nat) js_map"
  df_actions :: "action list"

record loop_body =
  lb_for_each :: node_ref
  lb_entry :: node_ref
  lb_exits :: "node_ref list"
  lb_capture :: input_mapping
  lb_item_binding :: "(node_ref \<times> string) option"
  lb_definition :: definition_core

record workflow_definition = definition_core +
  df_loop_bodies :: "(node_ref, loop_body) js_map"

text \<open>\<open>data.edges\<close> of \<open>WorkflowGraphSchema\<close>: a port other than \<open>tools\<close> has one source.\<close>

definition edge_target_handle :: "graph_edge \<Rightarrow> string option" where
  "edge_target_handle e =
     (case ge_target_handle e of Some h \<Rightarrow> Some h | None \<Rightarrow> ge_source_handle e)"

fun unique_port_inputs :: "graph_edge list \<Rightarrow> string js_set \<Rightarrow> bool" where
  "unique_port_inputs [] seen = True"
| "unique_port_inputs (e # es) seen =
     (let h = edge_target_handle e in
      if \<not> truthy_str h \<or> h = Some ''tools'' then unique_port_inputs es seen
      else let key = ge_target e @ '':'' @ the h
           in if key \<in> set seen then False
              else unique_port_inputs es (set_add key seen))"

end
