(* ===== verification/Loop_Body.thy ===== *)
theory Loop_Body
  imports Graph_Types
begin

section \<open>Loop bodies and the topological order\<close>

text \<open>
  \<open>backend/src/dsl/loop-body.ts\<close>: the nodes a For Each node repeats are taken out of the
  graph into a definition of their own, and the rest is put in an order in which every action
  comes after the actions it depends on.  A thrown \<open>Error\<close> is a value of \<open>compile_error\<close>.
\<close>

datatype compile_error =
    NotRegistered string
  | RequiredInputMissing string string
  | MultipleBodyEdges node_ref
  | LoopBackMissing node_ref
  | UnknownBodyNode node_ref
  | TooManyForEach
  | BodyEdgeMissing node_ref
  | LoopBodyEmpty node_ref
  | GraphHasCycle
  | CompiledActionMissing node_ref
  | EntryPointMissing
  | EntryPointMismatch node_ref
  | ValidationFailed "string list"
  | SchemaRejected
  | CodeThrew

definition FOR_EACH_COMPONENT_ID :: string where
  "FOR_EACH_COMPONENT_ID = ''core.workflow.for-each''"

definition LOOP_BODY_SOURCE_HANDLE :: string where
  "LOOP_BODY_SOURCE_HANDLE = ''body''"

definition LOOP_BACK_TARGET_HANDLE :: string where
  "LOOP_BACK_TARGET_HANDLE = ''loopBack''"

definition is_for_each_node :: "graph_node \<Rightarrow> bool" where
  "is_for_each_node n \<longleftrightarrow> gn_type n = FOR_EACH_COMPONENT_ID"

subsection \<open>Collecting the body\<close>

text \<open>The edges the inner loop of \<open>collectBodyNodeIds\<close> follows out of \<open>c\<close>.\<close>

definition body_successors ::
  "node_ref \<Rightarrow> graph_edge list \<Rightarrow> node_ref \<Rightarrow> node_ref js_set \<Rightarrow> node_ref list" where
  "body_successors fe es c visited =
     map ge_target (filter (\<lambda>e. ge_source e = c \<and> ge_target e \<noteq> fe
                                 \<and> ge_target e \<notin> set visited) es)"

lemma set_body_successors:
  "set (body_successors fe es c vis) =
     {v. \<exists>e \<in> set es. ge_source e = c \<and> ge_target e = v \<and> v \<noteq> fe \<and> v \<notin> set vis}"
  by (auto simp: body_successors_def)

function collect_body ::
  "node_ref \<Rightarrow> graph_edge list \<Rightarrow> node_ref list \<Rightarrow> node_ref js_set \<Rightarrow> node_ref js_set" where
  "collect_body fe es [] visited = visited"
| "collect_body fe es (c # queue) visited =
     (if c = fe \<or> c \<in> set visited then collect_body fe es queue visited
      else let visited' = set_add c visited
           in collect_body fe es (queue @ body_successors fe es c visited') visited')"
  by pat_completeness auto

lemma collect_body_measure:
  assumes "c \<notin> set visited"
  shows "card (set q \<union> set (body_successors fe es c (set_add c visited)) \<union> ge_target ` set es
               - insert c (set visited))
         < card (insert c (set q \<union> ge_target ` set es) - set visited)"
proof (rule psubset_card_mono)
  show "set q \<union> set (body_successors fe es c (set_add c visited)) \<union> ge_target ` set es
          - insert c (set visited)
        \<subset> insert c (set q \<union> ge_target ` set es) - set visited"
    using assms by (auto simp: set_body_successors)
qed simp

lemma collect_body_measure_le:
  "card (set q \<union> ge_target ` set es - set visited)
   \<le> card (insert c (set q \<union> ge_target ` set es) - set visited)"
  by (rule card_mono) auto

termination collect_body
proof (relation "measures [\<lambda>(fe, es, q, vis). card (set q \<union> ge_target ` set es - set vis),
                           \<lambda>(fe, es, q, vis). length q]", goal_cases)
  case 1
  then show ?case by simp
next
  case (2 fe es c queue visited)
  then show ?case
    using collect_body_measure_le [of queue es visited c] by (auto simp: le_less)
next
  case (3 fe es c queue visited visited')
  then show ?case
    using collect_body_measure [of c visited queue fe es] by simp
qed

definition collect_body_node_ids :: "node_ref \<Rightarrow> node_ref \<Rightarrow> graph_edge list \<Rightarrow> node_ref js_set" where
  "collect_body_node_ids fe entry es = collect_body fe es [entry] []"

subsection \<open>The body entry and the edges back\<close>

definition find_body_entry_edge ::
  "node_ref \<Rightarrow> graph_edge list \<Rightarrow> compile_error + graph_edge option" where
  "find_body_entry_edge fe es =
     (case filter (\<lambda>e. ge_source e = fe
                       \<and> ge_source_handle e = Some LOOP_BODY_SOURCE_HANDLE) es of
        [] \<Rightarrow> (case filter (\<lambda>e. ge_source e = fe \<and> ge_target e \<noteq> fe) es of
                 [e] \<Rightarrow> Inr (Some e)
               | _ \<Rightarrow> Inr None)
      | [e] \<Rightarrow> Inr (Some e)
      | _ \<Rightarrow> Inl (MultipleBodyEdges fe))"

definition is_loop_back :: "node_ref \<Rightarrow> graph_edge \<Rightarrow> bool" where
  "is_loop_back fe e \<longleftrightarrow>
     ge_target e = fe \<and> ge_target_handle e = Some LOOP_BACK_TARGET_HANDLE"

definition find_loop_back_edges ::
  "node_ref \<Rightarrow> node_ref js_set \<Rightarrow> graph_edge list \<Rightarrow> graph_edge list" where
  "find_loop_back_edges fe body es =
     filter (\<lambda>e. is_loop_back fe e \<and> ge_source e \<in> set body) es"

subsection \<open>The definition of the body\<close>

definition compiled_edge :: "graph_edge \<Rightarrow> workflow_edge" where
  "compiled_edge e =
     \<lparr>we_id = ge_id e, we_source = ge_source e, we_target = ge_target e,
      we_source_handle = ge_source_handle e, we_target_handle = ge_target_handle e,
      we_kind = (case ge_kind e of None \<Rightarrow> SuccessEdge | Some k \<Rightarrow> k)\<rparr>"

definition body_edge :: "node_ref \<Rightarrow> node_ref js_set \<Rightarrow> graph_edge \<Rightarrow> bool" where
  "body_edge fe body e \<longleftrightarrow>
     (let loop_back = is_loop_back fe e;
          body_entry = (ge_source e = fe \<and> ge_source_handle e = Some LOOP_BODY_SOURCE_HANDLE)
      in if loop_back \<or> body_entry then False
         else ge_source e \<in> set body \<and> ge_target e \<in> set body)"

definition body_action ::
  "node_ref js_set \<Rightarrow> (node_ref, action) js_map \<Rightarrow> node_ref \<Rightarrow> compile_error + action" where
  "body_action body actions_by_ref n =
     (case map_of actions_by_ref n of
        None \<Rightarrow> Inl (UnknownBodyNode n)
      | Some a \<Rightarrow> Inr (a\<lparr>ac_depends_on := filter (\<lambda>d. d \<in> set body) (ac_depends_on a)\<rparr>))"

definition dependency_counts :: "action list \<Rightarrow> (node_ref, nat) js_map" where
  "dependency_counts actions =
     map_of_entries (map (\<lambda>a. (ac_ref a, length (ac_depends_on a))) actions)"

definition build_loop_body ::
  "node_ref \<Rightarrow> node_ref js_set \<Rightarrow> node_ref \<Rightarrow> graph_edge list \<Rightarrow> graph_edge \<Rightarrow> graph_edge list
   \<Rightarrow> (node_ref, node_metadata) js_map \<Rightarrow> (node_ref, action) js_map
   \<Rightarrow> compile_error + loop_body" where
  "build_loop_body fe body entry loop_backs entry_edge es nodes actions_by_ref =
     (case loop_backs of
        [] \<Rightarrow> Inl (LoopBackMissing fe)
      | primary # _ \<Rightarrow>
          bind_result (traverse (body_action body actions_by_ref) body) (\<lambda>actions.
            Inr \<lparr>lb_for_each = fe, lb_entry = entry,
                 lb_exits = set_of_list (map ge_source loop_backs),
                 lb_capture =
                   \<lparr>im_source_ref = ge_source primary,
                    im_source_handle =
                      (case ge_source_handle primary of None \<Rightarrow> ''__self__'' | Some h \<Rightarrow> h)\<rparr>,
                 lb_item_binding =
                   Some (ge_target entry_edge,
                         case ge_target_handle entry_edge of
                           None \<Rightarrow> ''currentItem'' | Some h \<Rightarrow> h),
                 lb_definition =
                   \<lparr>df_version = 2, df_title = ''Loop body for '' @ fe, df_description = None,
                    df_entrypoint = entry,
                    df_nodes =
                      map_of_entries
                        (concat (map (\<lambda>n. case map_of nodes n of
                                            None \<Rightarrow> [] | Some md \<Rightarrow> [(n, md)]) body)),
                    df_edges = map compiled_edge (filter (body_edge fe body) es),
                    df_dependency_counts = dependency_counts actions,
                    df_actions = actions\<rparr>\<rparr>))"

subsection \<open>Taking the body out of the graph\<close>

record loop_extraction =
  le_main_nodes :: "node_ref list"
  le_main_edges :: "graph_edge list"
  le_loop_bodies :: "(node_ref, loop_body) js_map"

definition main_edge :: "node_ref \<Rightarrow> node_ref js_set \<Rightarrow> graph_edge \<Rightarrow> bool" where
  "main_edge fe body e \<longleftrightarrow>
     (let loop_back = is_loop_back fe e;
          body_entry = (ge_source e = fe
                        \<and> (ge_source_handle e = Some LOOP_BODY_SOURCE_HANDLE
                           \<or> ge_target e \<in> set body))
      in if loop_back \<or> body_entry then False
         else \<not> (ge_source e \<in> set body \<and> ge_target e \<in> set body))"

definition extract_loop_bodies ::
  "graph_node list \<Rightarrow> graph_edge list \<Rightarrow> (node_ref, node_metadata) js_map
   \<Rightarrow> (node_ref, action) js_map \<Rightarrow> compile_error + loop_extraction" where
  "extract_loop_bodies nodes es metadata actions_by_ref =
     (case filter is_for_each_node nodes of
        [] \<Rightarrow> Inr \<lparr>le_main_nodes = map gn_id nodes, le_main_edges = es, le_loop_bodies = []\<rparr>
      | [n] \<Rightarrow>
          let fe = gn_id n in
          bind_result (find_body_entry_edge fe es) (\<lambda>found.
            case found of
              None \<Rightarrow> Inl (BodyEdgeMissing fe)
            | Some entry_edge \<Rightarrow>
                let body = collect_body_node_ids fe (ge_target entry_edge) es in
                if body = [] then Inl (LoopBodyEmpty fe)
                else
                  bind_result
                    (build_loop_body fe body (ge_target entry_edge)
                       (find_loop_back_edges fe body es) entry_edge es metadata actions_by_ref)
                    (\<lambda>lb. Inr \<lparr>le_main_nodes =
                                 filter (\<lambda>i. i = fe \<or> i \<notin> set body) (map gn_id nodes),
                               le_main_edges = filter (main_edge fe body) es,
                               le_loop_bodies = [(fe, lb)]\<rparr>))
      | _ \<Rightarrow> Inl TooManyForEach)"

subsection \<open>Kahn's topological sort\<close>

record kahn =
  kn_incoming :: "(node_ref, int) js_map"
  kn_queue :: "node_ref list"

definition loop_back_pairs :: "(node_ref, loop_body) js_map \<Rightarrow> string js_set" where
  "loop_back_pairs bodies =
     set_of_list (concat (map (\<lambda>(_, lb). map (\<lambda>x. x @ ''->'' @ lb_for_each lb) (lb_exits lb)) bodies))"

definition add_edge ::
  "(node_ref, int) js_map \<times> (node_ref, node_ref list) js_map \<Rightarrow> node_ref \<times> node_ref
   \<Rightarrow> (node_ref, int) js_map \<times> (node_ref, node_ref list) js_map" where
  "add_edge m e =
     (case (m, e) of ((incoming, adjacency), (s, t)) \<Rightarrow>
        if map_of incoming t = None \<or> map_of incoming s = None then (incoming, adjacency)
        else (AList.update t (get_or 0 incoming t + 1) incoming,
              AList.update s (get_or [] adjacency s @ [t]) adjacency))"

text \<open>The body of the inner \<open>for\<close>: one neighbour of the node just taken.\<close>

definition relax :: "kahn \<Rightarrow> node_ref \<Rightarrow> kahn" where
  "relax k n =
     (let left = get_or 1 (kn_incoming k) n - 1;
          k' = k\<lparr>kn_incoming := AList.update n left (kn_incoming k)\<rparr>
      in if left = 0 then k'\<lparr>kn_queue := kn_queue k' @ [n]\<rparr> else k')"

definition kahn_weight :: "(node_ref, node_ref list) js_map \<Rightarrow> kahn \<Rightarrow> nat" where
  "kahn_weight adjacency k =
     length (kn_queue k)
     + card {n \<in> \<Union>(set ` snd ` set adjacency). get_or 1 (kn_incoming k) n > 0}"

lemma relax_weight:
  assumes "n \<in> \<Union>(set ` snd ` set adjacency)"
  shows "kahn_weight adjacency (relax k n) \<le> kahn_weight adjacency k"
proof -
  let ?U = "\<Union>(set ` snd ` set adjacency)"
  let ?P = "\<lambda>k. {m \<in> ?U. get_or 1 (kn_incoming k) m > 0}"
  let ?left = "get_or 1 (kn_incoming k) n - 1"
  have fin: "finite (?P k)" by auto
  show ?thesis
  proof (cases "?left = 0")
    case True
    then have "?P (relax k n) \<subseteq> ?P k - {n}" and "n \<in> ?P k"
      using assms by (auto simp: relax_def Let_def split: if_splits)
    then have "card (?P (relax k n)) < card (?P k)"
      using fin by (intro psubset_card_mono) auto
    with True show ?thesis
      by (simp add: kahn_weight_def relax_def Let_def)
  next
    case False
    then have "?P (relax k n) \<subseteq> ?P k"
      by (auto simp: relax_def Let_def split: if_splits)
    then have "card (?P (relax k n)) \<le> card (?P k)"
      using fin by (intro card_mono)
    with False show ?thesis
      by (simp add: kahn_weight_def relax_def Let_def)
  qed
qed

lemma foldl_relax_weight:
  "set ns \<subseteq> \<Union>(set ` snd ` set adjacency) \<Longrightarrow>
   kahn_weight adjacency (foldl relax k ns) \<le> kahn_weight adjacency k"
proof (induction ns arbitrary: k)
  case (Cons n ns)
  then have "kahn_weight adjacency (foldl relax (relax k n) ns) \<le> kahn_weight adjacency (relax k n)"
    by simp
  also have "\<dots> \<le> kahn_weight adjacency k"
    using Cons.prems by (intro relax_weight) simp
  finally show ?case by simp
qed simp

lemma get_or_adjacency: "set (get_or [] adjacency n) \<subseteq> \<Union>(set ` snd ` set adjacency)"
proof (cases "map_of adjacency n")
  case (Some ns)
  then have "ns \<in> snd ` set adjacency"
    by (metis image_eqI map_of_SomeD snd_conv)
  with Some show ?thesis by (auto simp: get_or_def)
qed (simp add: get_or_def)

function kahn_loop ::
  "(node_ref, node_ref list) js_map \<Rightarrow> kahn \<Rightarrow> node_ref list \<Rightarrow> node_ref list" where
  "kahn_loop adjacency k result =
     (case kn_queue k of
        [] \<Rightarrow> result
      | current # rest \<Rightarrow>
          kahn_loop adjacency
            (foldl relax (k\<lparr>kn_queue := rest\<rparr>) (get_or [] adjacency current))
            (result @ [current]))"
  by pat_completeness auto
termination
proof (relation "measure (\<lambda>(adjacency, k, _). kahn_weight adjacency k)", goal_cases)
  case (2 adjacency k result current rest)
  have "kahn_weight adjacency
          (foldl relax (k\<lparr>kn_queue := rest\<rparr>) (get_or [] adjacency current))
        \<le> kahn_weight adjacency (k\<lparr>kn_queue := rest\<rparr>)"
    by (rule foldl_relax_weight) (rule get_or_adjacency)
  with 2 show ?case by (simp add: kahn_weight_def)
qed simp

declare kahn_loop.simps [simp del]

definition kahn_tables ::
  "node_ref list \<Rightarrow> (node_ref \<times> node_ref) list
   \<Rightarrow> (node_ref, int) js_map \<times> (node_ref, node_ref list) js_map" where
  "kahn_tables nodes pairs =
     foldl add_edge (map_of_entries (map (\<lambda>i. (i, 0)) nodes), map_of_entries (map (\<lambda>i. (i, [])) nodes))
       pairs"

definition kahn_sort :: "node_ref list \<Rightarrow> (node_ref \<times> node_ref) list \<Rightarrow> compile_error + node_ref list" where
  "kahn_sort nodes pairs =
     (let (incoming, adjacency) = kahn_tables nodes pairs;
          result = kahn_loop adjacency
                     \<lparr>kn_incoming = incoming,
                      kn_queue = filter (\<lambda>i. get_or 0 incoming i = 0) nodes\<rparr> []
      in if length result \<noteq> length nodes then Inl GraphHasCycle else Inr result)"

definition topo_sort_without_loop_back_cycles ::
  "node_ref list \<Rightarrow> graph_edge list \<Rightarrow> (node_ref, loop_body) js_map \<Rightarrow> compile_error + node_ref list" where
  "topo_sort_without_loop_back_cycles nodes es bodies =
     kahn_sort nodes
       (map (\<lambda>e. (ge_source e, ge_target e))
          (filter (\<lambda>e. ge_source e @ ''->'' @ ge_target e \<notin> set (loop_back_pairs bodies)) es))"

subsection \<open>What the body is\<close>

definition body_step :: "node_ref \<Rightarrow> graph_edge list \<Rightarrow> (node_ref \<times> node_ref) set" where
  "body_step fe es =
     {(u, v). \<exists>e \<in> set es. ge_source e = u \<and> ge_target e = v \<and> v \<noteq> fe}"

lemma body_step_iff:
  "(u, v) \<in> body_step fe es \<longleftrightarrow> (\<exists>e \<in> set es. ge_source e = u \<and> ge_target e = v \<and> v \<noteq> fe)"
  by (simp add: body_step_def)

lemma body_successors_step:
  "set (body_successors fe es c vis) = body_step fe es `` {c} - set vis"
  by (auto simp: set_body_successors body_step_iff)

lemma collect_body_sound:
  "set (collect_body fe es q vis)
   \<subseteq> set vis \<union> (body_step fe es)\<^sup>* `` (set q - {fe})"
proof (induction fe es q vis rule: collect_body.induct)
  case (2 fe es c queue visited)
  show ?case
  proof (cases "c = fe \<or> c \<in> set visited")
    case True
    with "2.IH"(1) show ?thesis by auto
  next
    case False
    let ?R = "body_step fe es"
    have "?R\<^sup>* `` (set (queue @ body_successors fe es c (set_add c visited)) - {fe})
          \<subseteq> ?R\<^sup>* `` (set (c # queue) - {fe})"
      using False
      by (auto simp: body_successors_step intro: converse_rtrancl_into_rtrancl)
    moreover have "c \<in> ?R\<^sup>* `` (set (c # queue) - {fe})" using False by auto
    moreover have "set (collect_body fe es (c # queue) visited)
          \<subseteq> insert c (set visited)
            \<union> ?R\<^sup>* `` (set (queue @ body_successors fe es c (set_add c visited)) - {fe})"
      using "2.IH"(2) [OF False refl] False by (simp add: Let_def)
    ultimately show ?thesis by blast
  qed
qed auto

declare collect_body.simps(2) [simp del]

lemma collect_body_Cons:
  "collect_body fe es (c # queue) visited =
     (if c = fe \<or> c \<in> set visited then collect_body fe es queue visited
      else collect_body fe es (queue @ body_successors fe es c (set_add c visited))
             (set_add c visited))"
  by (simp add: collect_body.simps(2) Let_def)

lemma collect_body_visited: "set vis \<subseteq> set (collect_body fe es q vis)"
  by (induction fe es q vis rule: collect_body.induct) (auto simp: collect_body_Cons)

lemma collect_body_queue: "set q - {fe} \<subseteq> set (collect_body fe es q vis)"
proof (induction fe es q vis rule: collect_body.induct)
  case (2 fe es c queue visited)
  show ?case
  proof (cases "c = fe \<or> c \<in> set visited")
    case True
    with "2.IH"(1) show ?thesis
      using collect_body_visited [of visited fe es queue] by (auto simp: collect_body_Cons)
  next
    case False
    let ?v = "set_add c visited"
    let ?q = "queue @ body_successors fe es c ?v"
    have "c \<in> set (collect_body fe es ?q ?v)"
      using collect_body_visited [of ?v fe es ?q] by auto
    with "2.IH"(2) [OF False refl] False show ?thesis by (auto simp: collect_body_Cons)
  qed
qed simp

lemma collect_body_closed:
  "body_step fe es `` set vis \<subseteq> set vis \<union> set q \<Longrightarrow>
   body_step fe es `` set (collect_body fe es q vis) \<subseteq> set (collect_body fe es q vis)"
proof (induction fe es q vis rule: collect_body.induct)
  case (2 fe es c queue visited)
  have not_fe: "fe \<notin> body_step fe es `` X" for X by (auto simp: body_step_iff)
  show ?case
  proof (cases "c = fe \<or> c \<in> set visited")
    case True
    with "2.prems" not_fe [of "set visited"]
    have "body_step fe es `` set visited \<subseteq> set visited \<union> set queue" by auto
    from "2.IH"(1) [OF True this] True show ?thesis by (simp add: collect_body_Cons)
  next
    case False
    have "body_step fe es `` set (set_add c visited)
          \<subseteq> set (set_add c visited) \<union> set (queue @ body_successors fe es c (set_add c visited))"
      using "2.prems" by (auto simp: body_successors_step)
    with "2.IH"(2) [OF False refl] False show ?thesis by (simp add: collect_body_Cons)
  qed
qed auto

lemma collect_body_distinct: "distinct vis \<Longrightarrow> distinct (collect_body fe es q vis)"
  by (induction fe es q vis rule: collect_body.induct) (auto simp: collect_body_Cons)

lemma fe_notin_collect_body: "fe \<notin> set vis \<Longrightarrow> fe \<notin> set (collect_body fe es q vis)"
  by (induction fe es q vis rule: collect_body.induct) (auto simp: collect_body_Cons)

lemma distinct_collect_body_node_ids: "distinct (collect_body_node_ids fe entry es)"
  unfolding collect_body_node_ids_def by (rule collect_body_distinct) simp

lemma fe_notin_body: "fe \<notin> set (collect_body_node_ids fe entry es)"
  unfolding collect_body_node_ids_def by (rule fe_notin_collect_body) simp

lemma body_closed:
  "body_step fe es `` set (collect_body_node_ids fe entry es)
   \<subseteq> set (collect_body_node_ids fe entry es)"
  unfolding collect_body_node_ids_def by (rule collect_body_closed) simp

text \<open>
  The loop body is what can be reached from its entry node: \<open>collectBodyNodeIds\<close> returns,
  without repetition, exactly the nodes reachable from the body entry along edges that do not
  lead back into the For Each node, and nothing when the entry is the For Each node itself.
\<close>

theorem collect_body_node_ids_reachable:
  "set (collect_body_node_ids fe entry es) = (body_step fe es)\<^sup>* `` ({entry} - {fe})
   \<and> distinct (collect_body_node_ids fe entry es)"
proof
  let ?B = "set (collect_body_node_ids fe entry es)"
  show "?B = (body_step fe es)\<^sup>* `` ({entry} - {fe})"
  proof
    show "?B \<subseteq> (body_step fe es)\<^sup>* `` ({entry} - {fe})"
      unfolding collect_body_node_ids_def using collect_body_sound [of fe es "[entry]" "[]"] by auto
    have "{entry} - {fe} \<subseteq> ?B"
      unfolding collect_body_node_ids_def using collect_body_queue [of "[entry]" fe es "[]"] by auto
    then have "(body_step fe es)\<^sup>* `` ({entry} - {fe}) \<subseteq> (body_step fe es)\<^sup>* `` ?B"
      by (rule Image_mono [OF subset_refl])
    also have "\<dots> = ?B" by (rule Image_closed_trancl) (rule body_closed)
    finally show "(body_step fe es)\<^sup>* `` ({entry} - {fe}) \<subseteq> ?B" .
  qed
qed (rule distinct_collect_body_node_ids)

subsection \<open>Correctness of the topological sort\<close>

definition edges_among :: "node_ref list \<Rightarrow> (node_ref \<times> node_ref) list \<Rightarrow> (node_ref \<times> node_ref) list" where
  "edges_among nodes pairs = filter (\<lambda>(s, t). s \<in> set nodes \<and> t \<in> set nodes) pairs"

lemma set_edges_among: "set (edges_among nodes pairs) = set pairs \<inter> set nodes \<times> set nodes"
  by (auto simp: edges_among_def)

text \<open>The two tables: in-degrees, and the targets of each node in edge order.\<close>

lemma map_of_entries_const:
  "map_of (map_of_entries (map (\<lambda>i. (i, c)) nodes)) n = (if n \<in> set nodes then Some c else None)"
proof -
  have "map_of (map (\<lambda>i. (i, c)) xs) n = (if n \<in> set xs then Some c else None)" for xs
    by (induction xs) auto
  from this [of "rev nodes"] show ?thesis by (simp add: rev_map)
qed

lemma kahn_tables_spec:
  assumes "kahn_tables nodes pairs = (incoming, adjacency)"
  shows "map_of incoming n = (if n \<in> set nodes
           then Some (int (length (filter (\<lambda>(s, t). t = n) (edges_among nodes pairs)))) else None)
         \<and> get_or [] adjacency n = map snd (filter (\<lambda>(s, t). s = n) (edges_among nodes pairs))"
  using assms
proof (induction pairs arbitrary: incoming adjacency n rule: rev_induct)
  case Nil
  then show ?case
    by (auto simp: kahn_tables_def edges_among_def map_of_entries_const get_or_def
             simp del: map_of_map_of_entries)
next
  case (snoc p pairs)
  obtain inc adj where tabs: "kahn_tables nodes pairs = (inc, adj)" by fastforce
  obtain s t where p: "p = (s, t)" by fastforce
  note IH = snoc.IH [OF tabs]
  from snoc.prems tabs have "(incoming, adjacency) = add_edge (inc, adj) (s, t)"
    by (simp add: kahn_tables_def p)
  then show ?case
    using IH [of n] IH [of s] IH [of t]
    by (auto simp: add_edge_def p edges_among_def get_or_def split: if_splits)
qed

text \<open>Relaxing every neighbour of a node.\<close>

lemma foldl_relax:
  assumes "\<And>n. n \<in> set ns \<Longrightarrow> int (count_list ns n) \<le> get_or 1 (kn_incoming k) n"
  shows "\<exists>new. kn_queue (foldl relax k ns) = kn_queue k @ new \<and> distinct new
           \<and> set new = {n \<in> set ns. get_or 1 (kn_incoming k) n = int (count_list ns n)}
           \<and> (\<forall>n. get_or 1 (kn_incoming (foldl relax k ns)) n
                   = get_or 1 (kn_incoming k) n - int (count_list ns n))"
  using assms
proof (induction ns arbitrary: k)
  case (Cons m ns)
  let ?k = "relax k m"
  let ?inc = "get_or 1 (kn_incoming k)"
  have inc: "get_or 1 (kn_incoming ?k) n = (if n = m then ?inc m - 1 else ?inc n)" for n
    by (simp add: relax_def Let_def)
  have "int (count_list ns n) \<le> get_or 1 (kn_incoming ?k) n" if "n \<in> set ns" for n
    using Cons.prems [of n] that by (auto simp: inc)
  from Cons.IH [OF this] obtain new where
    new: "kn_queue (foldl relax ?k ns) = kn_queue ?k @ new" "distinct new"
      "set new = {n \<in> set ns. get_or 1 (kn_incoming ?k) n = int (count_list ns n)}"
      "\<forall>n. get_or 1 (kn_incoming (foldl relax ?k ns)) n
           = get_or 1 (kn_incoming ?k) n - int (count_list ns n)"
    by blast
  have counts: "get_or 1 (kn_incoming (foldl relax k (m # ns))) n
                = ?inc n - int (count_list (m # ns) n)" for n
    using new(4) by (simp add: inc)
  show ?case
  proof (cases "?inc m = 1")
    case True
    have "m \<notin> set ns"
    proof
      assume "m \<in> set ns"
      then have "1 \<le> count_list ns m"
        using count_list_0_iff [of ns m] by linarith
      with Cons.prems [of m] True show False by simp
    qed
    moreover from True have "kn_queue ?k = kn_queue k @ [m]" by (simp add: relax_def Let_def)
    ultimately show ?thesis
      using new counts True by (intro exI [of _ "m # new"]) (auto simp: inc split: if_splits)
  next
    case False
    then have queue: "kn_queue ?k = kn_queue k" by (simp add: relax_def Let_def)
    have "set new = {n \<in> set (m # ns). ?inc n = int (count_list (m # ns) n)}"
    proof -
      have "n \<in> set ns \<and> get_or 1 (kn_incoming ?k) n = int (count_list ns n)
            \<longleftrightarrow> n \<in> set (m # ns) \<and> ?inc n = int (count_list (m # ns) n)" for n
        using False count_list_0_iff [of ns m] by (cases "n = m") (auto simp: inc)
      with new(3) show ?thesis by simp
    qed
    with queue new(1,2) counts show ?thesis
      by (intro exI [of _ new] conjI allI) (simp_all only: foldl_Cons)
  qed
qed simp


text \<open>
  The invariant of the loop: the in-degree table counts the edges from nodes still to come;
  what is done or queued is exactly what has none left; what is done is in dependency order.
\<close>

definition kahn_inv ::
  "node_ref list \<Rightarrow> (node_ref \<times> node_ref) list \<Rightarrow> kahn \<Rightarrow> node_ref list \<Rightarrow> bool" where
  "kahn_inv nodes F k res \<longleftrightarrow>
     (\<forall>n \<in> set nodes. get_or 1 (kn_incoming k) n
        = int (length (filter (\<lambda>(s, t). t = n \<and> s \<notin> set res) F)))
     \<and> distinct (res @ kn_queue k)
     \<and> set (res @ kn_queue k) = {n \<in> set nodes. \<forall>s. (s, n) \<in> set F \<longrightarrow> s \<in> set res}
     \<and> in_order (set F) {} res"

lemma kahn_inv_step:
  assumes inv: "kahn_inv nodes F k res" and q: "kn_queue k = c # rest"
    and F: "set F \<subseteq> set nodes \<times> set nodes"
    and adj: "\<And>n. get_or [] adjacency n = map snd (filter (\<lambda>(s, t). s = n) F)"
  shows "kahn_inv nodes F (foldl relax (k\<lparr>kn_queue := rest\<rparr>) (get_or [] adjacency c)) (res @ [c])"
proof -
  let ?ns = "get_or [] adjacency c" and ?k = "k\<lparr>kn_queue := rest\<rparr>"
  let ?inc = "get_or 1 (kn_incoming k)"
  let ?left = "\<lambda>res n. length (filter (\<lambda>(s, t). t = n \<and> s \<notin> set res) F)"
  have inc: "?inc n = int (?left res n)" if "n \<in> set nodes" for n
    using inv that by (simp add: kahn_inv_def)
  note inv' = inv [unfolded kahn_inv_def q]
  have dist: "distinct (res @ c # rest)"
    and ready: "set (res @ c # rest) = {n \<in> set nodes. \<forall>s. (s, n) \<in> set F \<longrightarrow> s \<in> set res}"
    and ord: "in_order (set F) {} res"
    using inv' by simp_all
  from dist have c: "c \<notin> set res" by simp
  have ns: "set ?ns \<subseteq> set nodes" using F by (auto simp: adj)
  have cnt: "count_list ?ns n = length (filter (\<lambda>(s, t). s = c \<and> t = n) F)" for n
    by (simp add: adj count_list_filter_map case_prod_unfold)
  have split: "?left (res @ [c]) n + count_list ?ns n = ?left res n" for n
  proof -
    have "filter (\<lambda>x. (snd x = n \<and> fst x \<notin> set res) \<and> fst x = c) F
          = filter (\<lambda>x. fst x = c \<and> snd x = n) F"
      using c(1) by (intro filter_cong) auto
    moreover have "filter (\<lambda>x. (snd x = n \<and> fst x \<notin> set res) \<and> \<not> fst x = c) F
          = filter (\<lambda>x. snd x = n \<and> fst x \<notin> set (res @ [c])) F"
      by (intro filter_cong) auto
    ultimately show ?thesis
      using length_filter_split [of "\<lambda>x. snd x = n \<and> fst x \<notin> set res" "\<lambda>x. fst x = c" F]
      by (simp add: cnt case_prod_unfold)
  qed
  have "int (count_list ?ns n) \<le> get_or 1 (kn_incoming ?k) n" if "n \<in> set ?ns" for n
    using that ns split [of n] inc [of n] by auto
  from foldl_relax [OF this] obtain new where
    new: "kn_queue (foldl relax ?k ?ns) = rest @ new" "distinct new"
      "set new = {n \<in> set ?ns. ?inc n = int (count_list ?ns n)}"
      "\<forall>n. get_or 1 (kn_incoming (foldl relax ?k ?ns)) n = ?inc n - int (count_list ?ns n)"
    by auto
  have set_new: "set new = {n \<in> set nodes. (c, n) \<in> set F
                             \<and> (\<forall>s. (s, n) \<in> set F \<longrightarrow> s \<in> set (res @ [c]))}"
  proof -
    have "?inc n = int (count_list ?ns n)
          \<longleftrightarrow> (\<forall>s. (s, n) \<in> set F \<longrightarrow> s \<in> set (res @ [c]))" if "n \<in> set nodes" for n
    proof -
      have "?inc n = int (count_list ?ns n) \<longleftrightarrow> ?left (res @ [c]) n = 0"
        using that inc [of n] split [of n] by auto
      also have "\<dots> \<longleftrightarrow> (\<forall>s. (s, n) \<in> set F \<longrightarrow> s \<in> set (res @ [c]))"
        by (auto simp: filter_empty_conv)
      finally show ?thesis .
    qed
    moreover have "n \<in> set ?ns \<longleftrightarrow> (c, n) \<in> set F" for n by (force simp: adj)
    ultimately show ?thesis using new(3) ns by blast
  qed
  have disj: "set new \<inter> set (res @ c # rest) = {}"
    using ready set_new c(1) by blast
  have "set (res @ [c] @ rest @ new)
        = {n \<in> set nodes. \<forall>s. (s, n) \<in> set F \<longrightarrow> s \<in> set (res @ [c])}"
    (is "?L = ?R")
  proof
    show "?L \<subseteq> ?R" using ready set_new by auto
    show "?R \<subseteq> ?L"
    proof
      fix n assume n: "n \<in> ?R"
      show "n \<in> ?L"
      proof (cases "(c, n) \<in> set F")
        case True
        with n set_new show ?thesis by auto
      next
        case False
        with n have "n \<in> set (res @ c # rest)" unfolding ready by auto
        then show ?thesis by auto
      qed
    qed
  qed
  moreover have "in_order (set F) {} (res @ [c])"
    using ord ready by (auto simp: in_order_snoc)
  moreover have "distinct (res @ [c] @ rest @ new)" using dist disj new(2) by auto
  moreover have "\<forall>n \<in> set nodes. get_or 1 (kn_incoming (foldl relax ?k ?ns)) n
                  = int (?left (res @ [c]) n)"
  proof
    fix n assume "n \<in> set nodes"
    then show "get_or 1 (kn_incoming (foldl relax ?k ?ns)) n = int (?left (res @ [c]) n)"
      using new(4) inc [of n] split [of n] by simp
  qed
  ultimately show ?thesis by (simp add: kahn_inv_def new(1))
qed

lemma kahn_loop_inv:
  assumes "kahn_inv nodes F k res"
    and F: "set F \<subseteq> set nodes \<times> set nodes"
    and adj: "\<And>n. get_or [] adjacency n = map snd (filter (\<lambda>(s, t). s = n) F)"
  shows "\<exists>k'. kn_queue k' = [] \<and> kahn_inv nodes F k' (kahn_loop adjacency k res)"
  using assms
proof (induction adjacency k res rule: kahn_loop.induct)
  case (1 adjacency k res)
  show ?case
  proof (cases "kn_queue k")
    case Nil
    with 1 show ?thesis by (auto simp: kahn_loop.simps [of adjacency k res])
  next
    case (Cons c rest)
    from kahn_inv_step [OF "1.prems"(1) Cons F "1.prems"(3)]
    show ?thesis using "1.IH" [OF Cons _ F "1.prems"(3)] Cons
      by (simp add: kahn_loop.simps [of adjacency k res])
  qed
qed

lemma kahn_result:
  assumes "distinct nodes"
  obtains res where "distinct res" and "in_order (set (edges_among nodes pairs)) {} res"
    and "set res = {n \<in> set nodes. \<forall>s. (s, n) \<in> set (edges_among nodes pairs) \<longrightarrow> s \<in> set res}"
    and "kahn_sort nodes pairs
         = (if length res \<noteq> length nodes then Inl GraphHasCycle else Inr res)"
proof -
  obtain incoming adjacency where tabs: "kahn_tables nodes pairs = (incoming, adjacency)"
    by fastforce
  note spec = kahn_tables_spec [OF tabs]
  let ?F = "edges_among nodes pairs"
  let ?k = "\<lparr>kn_incoming = incoming, kn_queue = filter (\<lambda>i. get_or 0 incoming i = 0) nodes\<rparr>"
  have "kahn_inv nodes ?F ?k []"
    unfolding kahn_inv_def using assms spec
    by (auto simp: get_or_def filter_empty_conv)
  from kahn_loop_inv [OF this, of adjacency] spec
  have "\<exists>k'. kn_queue k' = [] \<and> kahn_inv nodes ?F k' (kahn_loop adjacency ?k [])"
    by (auto simp: edges_among_def)
  then show thesis
    by (intro that [of "kahn_loop adjacency ?k []"]) (auto simp: kahn_inv_def kahn_sort_def tabs)
qed

text \<open>
  C30. The topological sort is correct and complete: for distinct node ids it returns every
  node exactly once, each after all nodes that have an edge to it, and it reports a cycle
  exactly when the edges between the nodes contain one.
\<close>

theorem kahn_sort_correct:
  assumes "distinct nodes"
  shows "case kahn_sort nodes pairs of
           Inr order \<Rightarrow> distinct order \<and> set order = set nodes
                        \<and> in_order (set (edges_among nodes pairs)) {} order
                        \<and> acyclic (set (edges_among nodes pairs))
         | Inl e \<Rightarrow> e = GraphHasCycle \<and> \<not> acyclic (set (edges_among nodes pairs))"
proof -
  let ?F = "set (edges_among nodes pairs)"
  from assms obtain res where res: "distinct res" "in_order ?F {} res"
    "set res = {n \<in> set nodes. \<forall>s. (s, n) \<in> ?F \<longrightarrow> s \<in> set res}"
    "kahn_sort nodes pairs = (if length res \<noteq> length nodes then Inl GraphHasCycle else Inr res)"
    by (rule kahn_result)
  have sub: "set res \<subseteq> set nodes" using res(3) by blast
  show ?thesis
  proof (cases "length res = length nodes")
    case True
    then have all: "set res = set nodes"
      using distinct_same_length [OF res(1) sub] assms by simp
    moreover have "acyclic ?F"
      by (rule in_order_acyclic [OF res(2)]) (auto simp: all set_edges_among)
    ultimately show ?thesis using res True by simp
  next
    case False
    have "\<not> acyclic ?F"
    proof
      assume ac: "acyclic ?F"
      have "set nodes - set res \<noteq> {}"
        using False sub res(1) assms by (metis Diff_eq_empty_iff distinct_card subset_antisym)
      then obtain x where x: "x \<in> set nodes - set res" "\<And>y. (y, x) \<in> ?F \<Longrightarrow> y \<notin> set nodes - set res"
        using acyclic_minimal [OF ac finite_set] by metis
      then have "x \<in> set res" using res(3) by (auto simp: set_edges_among)
      with x(1) show False by simp
    qed
    with res False show ?thesis by simp
  qed
qed

theorem kahn_sort_correct_witness:
  "case kahn_sort [''c'', ''a'', ''b''] [(''a'', ''b''), (''b'', ''c''), (''a'', ''x'')] of
     Inr order \<Rightarrow> distinct order \<and> set order = set [''c'', ''a'', ''b'']
       \<and> in_order (set (edges_among [''c'', ''a'', ''b'']
                           [(''a'', ''b''), (''b'', ''c''), (''a'', ''x'')])) {} order
       \<and> acyclic (set (edges_among [''c'', ''a'', ''b'']
                           [(''a'', ''b''), (''b'', ''c''), (''a'', ''x'')]))
   | Inl e \<Rightarrow> e = GraphHasCycle
       \<and> \<not> acyclic (set (edges_among [''c'', ''a'', ''b'']
                           [(''a'', ''b''), (''b'', ''c''), (''a'', ''x'')]))"
  by (rule kahn_sort_correct) simp


subsection \<open>The extraction\<close>

lemma find_body_entry_edge_Some:
  "find_body_entry_edge fe es = Inr (Some e) \<Longrightarrow> e \<in> set es \<and> ge_source e = fe"
  by (auto simp: find_body_entry_edge_def filter_eq_Cons_iff split: list.splits)

lemma build_loop_body_Inr:
  assumes "build_loop_body fe body entry lbs ee es nodes acts = Inr lb"
  obtains primary more actions where "lbs = primary # more"
    and "traverse (body_action body acts) body = Inr actions"
    and "df_actions (lb_definition lb) = actions"
    and "df_edges (lb_definition lb) = map compiled_edge (filter (body_edge fe body) es)"
    and "df_dependency_counts (lb_definition lb) = dependency_counts actions"
    and "lb_exits lb = set_of_list (map ge_source lbs)" and "lb_for_each lb = fe"
    and "im_source_ref (lb_capture lb) = ge_source primary" and "lb_entry lb = entry"
  using assms by (auto simp: build_loop_body_def result_simps split: list.splits)

lemma extract_loop_bodies_Inr:
  assumes "extract_loop_bodies nodes es md acts = Inr x"
  shows "(filter is_for_each_node nodes = [] \<and> le_main_nodes x = map gn_id nodes
          \<and> le_main_edges x = es \<and> le_loop_bodies x = [])
    \<or> (\<exists>n ee lb. let fe = gn_id n; entry = ge_target ee; body = collect_body_node_ids fe entry es
        in filter is_for_each_node nodes = [n] \<and> find_body_entry_edge fe es = Inr (Some ee)
           \<and> body \<noteq> []
           \<and> build_loop_body fe body entry (find_loop_back_edges fe body es) ee es md acts = Inr lb
           \<and> le_main_nodes x = filter (\<lambda>i. i = fe \<or> i \<notin> set body) (map gn_id nodes)
           \<and> le_main_edges x = filter (main_edge fe body) es
           \<and> le_loop_bodies x = [(fe, lb)])"
  using assms
  by (auto simp: extract_loop_bodies_def result_simps Let_def split: list.splits option.splits
        if_splits)

lemma entry_in_body: "entry \<noteq> fe \<Longrightarrow> entry \<in> set (collect_body_node_ids fe entry es)"
  by (simp add: collect_body_node_ids_reachable)

lemma body_not_Nil: "collect_body_node_ids fe entry es \<noteq> [] \<Longrightarrow> entry \<noteq> fe"
  by (auto simp: collect_body_node_ids_def collect_body_Cons)

text \<open>
  C31. Extracting the body splits the graph: main nodes and body nodes are disjoint and cover
  every node; the body runs each of its nodes once, starts at its entry, ends in a node that
  feeds the iteration result back, and neither its dependencies nor its edges leave it; no
  edge of the main graph stays inside the body.
\<close>

theorem extract_loop_bodies_sound:
  assumes ok: "extract_loop_bodies nodes es metadata actions_by_ref = Inr x"
    and keyed: "\<And>r a. map_of actions_by_ref r = Some a \<Longrightarrow> ac_ref a = r"
    and lb: "(fe, lb) \<in> set (le_loop_bodies x)"
  shows "let body = map ac_ref (df_actions (lb_definition lb)) in
    distinct body \<and> set body \<inter> set (le_main_nodes x) = {}
    \<and> gn_id ` set nodes \<subseteq> set body \<union> set (le_main_nodes x)
    \<and> lb_entry lb \<in> set body \<and> lb_exits lb \<noteq> [] \<and> set (lb_exits lb) \<subseteq> set body
    \<and> im_source_ref (lb_capture lb) \<in> set (lb_exits lb)
    \<and> (\<forall>a \<in> set (df_actions (lb_definition lb)). set (ac_depends_on a) \<subseteq> set body)
    \<and> (\<forall>e \<in> set (df_edges (lb_definition lb)). we_source e \<in> set body \<and> we_target e \<in> set body)
    \<and> (\<forall>e \<in> set (le_main_edges x). \<not> (ge_source e \<in> set body \<and> ge_target e \<in> set body))"
proof -
  from extract_loop_bodies_Inr [OF ok] lb obtain ee where
    ne: "collect_body_node_ids fe (ge_target ee) es \<noteq> []" and
    build: "build_loop_body fe (collect_body_node_ids fe (ge_target ee) es) (ge_target ee)
              (find_loop_back_edges fe (collect_body_node_ids fe (ge_target ee) es) es)
              ee es metadata actions_by_ref = Inr lb" and
    main: "le_main_nodes x = filter (\<lambda>i. i = fe \<or> i \<notin> set (collect_body_node_ids fe (ge_target ee) es))
                               (map gn_id nodes)"
      "le_main_edges x = filter (main_edge fe (collect_body_node_ids fe (ge_target ee) es)) es"
    by (auto simp: Let_def)
  define body where "body = collect_body_node_ids fe (ge_target ee) es"
  note defs = ne build main
  from build [folded body_def] obtain primary more actions where
    b: "find_loop_back_edges fe body es = primary # more"
    "traverse (body_action body actions_by_ref) body = Inr actions"
    "df_actions (lb_definition lb) = actions"
    "df_edges (lb_definition lb) = map compiled_edge (filter (body_edge fe body) es)"
    "lb_exits lb = set_of_list (map ge_source (primary # more))"
    "im_source_ref (lb_capture lb) = ge_source primary" "lb_entry lb = ge_target ee"
    by (rule build_loop_body_Inr) auto
  have "ac_ref y = r" if "body_action body actions_by_ref r = Inr y" for r y
    using that by (auto simp: body_action_def keyed split: option.splits)
  then have refs: "map ac_ref actions = body"
    using traverse_Inr_map [OF b(2), of ac_ref "\<lambda>r. r"] by simp
  have deps: "set (ac_depends_on a) \<subseteq> set body" if "a \<in> set actions" for a
    using b(2) that
    by (elim traverse_Inr_memE) (auto simp: body_action_def split: option.splits)
  have exits: "ge_source e \<in> set body" if "e \<in> set (primary # more)" for e
    using that unfolding b(1) [symmetric] by (auto simp: find_loop_back_edges_def)
  have "ge_target ee \<in> set body" using body_not_Nil [OF ne] entry_in_body by (simp add: body_def)
  with refs deps exits b(3-) main [folded body_def]
  show ?thesis
    unfolding Let_def b(3) refs
    by (auto simp: body_def distinct_collect_body_node_ids fe_notin_body [folded body_def]
          body_edge_def main_edge_def compiled_edge_def Let_def)
qed

text \<open>A loop over one node, for the witness below.\<close>

definition sample_action :: "node_ref \<Rightarrow> action" where
  "sample_action r = \<lparr>ac_ref = r, ac_component = ''c'', ac_params = [], ac_overrides = [],
     ac_depends_on = [''f''], ac_mappings = [], ac_retry = None\<rparr>"

definition sample_loop_nodes :: "graph_node list" where
  "sample_loop_nodes =
     [\<lparr>gn_id = ''f'', gn_type = FOR_EACH_COMPONENT_ID, gn_label = [], gn_config = []\<rparr>,
      \<lparr>gn_id = ''b'', gn_type = ''c'', gn_label = [], gn_config = []\<rparr>,
      \<lparr>gn_id = ''z'', gn_type = ''c'', gn_label = [], gn_config = []\<rparr>]"

definition sample_loop_edges :: "graph_edge list" where
  "sample_loop_edges =
     [\<lparr>ge_id = ''1'', ge_source = ''f'', ge_target = ''b'', ge_source_handle = Some ''body'',
       ge_target_handle = Some ''in'', ge_kind = None\<rparr>,
      \<lparr>ge_id = ''2'', ge_source = ''b'', ge_target = ''f'', ge_source_handle = None,
       ge_target_handle = Some ''loopBack'', ge_kind = None\<rparr>]"

definition sample_extraction :: "compile_error + loop_extraction" where
  "sample_extraction = extract_loop_bodies sample_loop_nodes sample_loop_edges []
     [(''f'', sample_action ''f''), (''b'', sample_action ''b''), (''z'', sample_action ''z'')]"

theorem extract_loop_bodies_sound_witness:
  "\<exists>x lb. sample_extraction = Inr x \<and> (''f'', lb) \<in> set (le_loop_bodies x)
     \<and> (let body = map ac_ref (df_actions (lb_definition lb)) in
        distinct body \<and> set body \<inter> set (le_main_nodes x) = {}
        \<and> lb_entry lb \<in> set body)"
proof -
  have "case sample_extraction of
          Inr x \<Rightarrow> map fst (le_loop_bodies x) = [''f''] | Inl _ \<Rightarrow> False"
    by code_simp
  then obtain x lb where x: "sample_extraction = Inr x" "(''f'', lb) \<in> set (le_loop_bodies x)"
    by (auto split: sum.splits)
  have keyed: "ac_ref a = r"
    if "map_of [(''f'', sample_action ''f''), (''b'', sample_action ''b''),
                (''z'', sample_action ''z'')] r = Some a" for r a
    using that by (auto simp: sample_action_def split: if_splits)
  show ?thesis
    using extract_loop_bodies_sound [OF x(1) [unfolded sample_extraction_def] keyed x(2)] x
    by (auto simp: Let_def)
qed

end
