(* ===== verification/Scheduler.thy ===== *)
theory Scheduler
  imports Graph_Types
begin

section \<open>The workflow scheduler\<close>

text \<open>
  \<open>worker/src/temporal/workflow-scheduler.ts\<close>: \<open>runWorkflowWithScheduler\<close> runs the actions
  of a definition in batches, follows success and error edges, skips inactive branches and
  cancels what a failure makes unreachable.

  The mutable maps and sets of the function are the fields of \<open>sched_state\<close>; the four tables
  built from the edges are constant and live in \<open>tables\<close>.  The callback \<open>run\<close> is a
  parameter that takes and returns a world of any type, so it may be any interleaving of
  concurrent activities; with each outcome it gives the time the action completed.  The
  callback \<open>onNodeSkipped\<close> is taken to resolve.  \<open>ss_trace\<close> records, in order, what the
  scheduler does: the calls of the two callbacks, and how it settles or cancels each action.
\<close>

subsection \<open>Failure reasons\<close>

text \<open>
  What an activity may reject with: an \<open>Error\<close> with its name, message and cause, \<open>undefined\<close>
  or \<open>null\<close>, a string, an object (with its JSON text, unless \<open>JSON.stringify\<close> throws, and its
  string form), or another value with its string form.
\<close>

datatype failure_reason =
    ReasonError string string "failure_reason option"
  | ReasonNone
  | ReasonString string
  | ReasonObject "string option" string
  | ReasonOther string

record failure_details =
  fd_message :: string
  fd_name :: "string option"

definition is_generic_failure_wrapper :: "string \<Rightarrow> string \<Rightarrow> bool" where
  "is_generic_failure_wrapper nm msg \<longleftrightarrow>
     (let n = to_lower nm; m = to_lower msg
      in n = ''activityfailure'' \<or> n = ''workflowfailure'' \<or> n = ''applicationfailure''
         \<or> m = ''activity task failed'' \<or> m = ''workflow task failed'')"

definition own_details :: "string \<Rightarrow> string \<Rightarrow> failure_details" where
  "own_details nm msg =
     \<lparr>fd_message = msg, fd_name = (if nm \<noteq> [] \<and> nm \<noteq> ''Error'' then Some nm else None)\<rparr>"

fun normalize_failure_reason :: "failure_reason \<Rightarrow> failure_details" where
  "normalize_failure_reason (ReasonError nm msg None) = own_details nm msg"
| "normalize_failure_reason (ReasonError nm msg (Some ReasonNone)) = own_details nm msg"
| "normalize_failure_reason (ReasonError nm msg (Some cause)) =
     (if is_generic_failure_wrapper nm msg then normalize_failure_reason cause
      else own_details nm msg)"
| "normalize_failure_reason ReasonNone = \<lparr>fd_message = ''Unknown failure'', fd_name = None\<rparr>"
| "normalize_failure_reason (ReasonString s) = \<lparr>fd_message = s, fd_name = None\<rparr>"
| "normalize_failure_reason (ReasonObject (Some j) s) = \<lparr>fd_message = j, fd_name = None\<rparr>"
| "normalize_failure_reason (ReasonObject None s) = \<lparr>fd_message = s, fd_name = None\<rparr>"
| "normalize_failure_reason (ReasonOther s) = \<lparr>fd_message = s, fd_name = None\<rparr>"

subsection \<open>State\<close>

record failure_info =
  fl_at :: node_ref
  fl_reason :: failure_details

record run_context =
  rc_strategy :: join_strategy
  rc_triggered_by :: "node_ref option"
  rc_failure :: "failure_info option"

record node_state =
  ns_strategy :: join_strategy
  ns_success_parents :: "node_ref js_set"
  ns_skipped_parents :: "node_ref js_set"
  ns_failure_parents :: "node_ref js_set"
  ns_inactive_failure_parents :: "node_ref js_set"
  ns_triggered_by_success :: bool
  ns_failure_triggered :: bool
  ns_error_triggered_by :: "node_ref option"
  ns_error_failure :: "failure_info option"
  ns_skipped :: bool
  ns_total_success_parents :: nat

record ready_item =
  ri_ref :: node_ref
  ri_context :: run_context

datatype sched_event =
    Started node_ref run_context
  | Completed node_ref
  | Failed node_ref
  | SkippedNode node_ref
  | CancelledNode node_ref

record sched_state =
  ss_ready :: "ready_item list"
  ss_pending :: "node_ref js_set"
  ss_nodes :: "(node_ref, node_state) js_map"
  ss_failed :: "(node_ref, failure_reason) js_map"
  ss_handled :: "(node_ref, node_ref js_set) js_map"
  ss_trace :: "sched_event list"

record tables =
  tb_success_edges :: "(node_ref, workflow_edge list) js_map"
  tb_failure_dependents :: "(node_ref, node_ref list) js_map"
  tb_success_parents :: "(node_ref, node_ref js_set) js_map"
  tb_failure_parents :: "(node_ref, node_ref js_set) js_map"

definition add_table_edge :: "tables \<Rightarrow> workflow_edge \<Rightarrow> tables" where
  "add_table_edge t e =
     (if we_kind e = ErrorEdge then
        t\<lparr>tb_failure_dependents :=
            AList.update (we_source e)
              (get_or [] (tb_failure_dependents t) (we_source e) @ [we_target e])
              (tb_failure_dependents t),
          tb_failure_parents :=
            AList.update (we_target e)
              (set_add (we_source e) (get_or [] (tb_failure_parents t) (we_target e)))
              (tb_failure_parents t)\<rparr>
      else
        t\<lparr>tb_success_edges :=
            AList.update (we_source e) (get_or [] (tb_success_edges t) (we_source e) @ [e])
              (tb_success_edges t),
          tb_success_parents :=
            AList.update (we_target e)
              (set_add (we_source e) (get_or [] (tb_success_parents t) (we_target e)))
              (tb_success_parents t)\<rparr>)"

definition build_tables :: "workflow_edge list \<Rightarrow> tables" where
  "build_tables es =
     foldl add_table_edge
       \<lparr>tb_success_edges = [], tb_failure_dependents = [], tb_success_parents = [],
        tb_failure_parents = []\<rparr> es"

definition success_targets :: "tables \<Rightarrow> node_ref \<Rightarrow> node_ref js_set" where
  "success_targets tb r = set_of_list (map we_target (get_or [] (tb_success_edges tb) r))"

definition failure_children :: "tables \<Rightarrow> node_ref \<Rightarrow> node_ref list" where
  "failure_children tb r = get_or [] (tb_failure_dependents tb) r"

definition join_strategy_of :: "'a definition_core_scheme \<Rightarrow> node_ref \<Rightarrow> join_strategy" where
  "join_strategy_of d r =
     (case map_of (df_nodes d) r of
        None \<Rightarrow> JoinAll
      | Some md \<Rightarrow> (case nm_join md of None \<Rightarrow> JoinAll | Some j \<Rightarrow> j))"

definition initial_node_state :: "'a definition_core_scheme \<Rightarrow> tables \<Rightarrow> node_ref \<Rightarrow> node_state" where
  "initial_node_state d tb r =
     (let sp = get_or [] (tb_success_parents tb) r; fp = get_or [] (tb_failure_parents tb) r
      in \<lparr>ns_strategy = join_strategy_of d r, ns_success_parents = sp, ns_skipped_parents = [],
          ns_failure_parents = fp, ns_inactive_failure_parents = [],
          ns_triggered_by_success = (sp = []), ns_failure_triggered = False,
          ns_error_triggered_by = None, ns_error_failure = None, ns_skipped = False,
          ns_total_success_parents = length sp\<rparr>)"

definition add_initial_action ::
  "'a definition_core_scheme \<Rightarrow> tables \<Rightarrow> sched_state \<Rightarrow> node_ref \<Rightarrow> sched_state" where
  "add_initial_action d tb s r =
     (let st = initial_node_state d tb r;
          s1 = s\<lparr>ss_pending := set_add r (ss_pending s),
                 ss_nodes := AList.update r st (ss_nodes s)\<rparr>;
          item = \<lparr>ri_ref = r,
                  ri_context = \<lparr>rc_strategy = ns_strategy st, rc_triggered_by = None,
                                rc_failure = None\<rparr>\<rparr>
      in if ns_success_parents st = [] \<and> ns_failure_parents st = [] then
           (if r = df_entrypoint d then s1\<lparr>ss_ready := item # ss_ready s1\<rparr>
            else s1\<lparr>ss_ready := ss_ready s1 @ [item]\<rparr>)
         else s1)"

definition initial_state :: "'a definition_core_scheme \<Rightarrow> tables \<Rightarrow> sched_state" where
  "initial_state d tb =
     foldl (add_initial_action d tb)
       \<lparr>ss_ready = [], ss_pending = [], ss_nodes = [], ss_failed = [], ss_handled = [],
        ss_trace = []\<rparr> (map ac_ref (df_actions d))"

subsection \<open>Notifying the children of a settled action\<close>

datatype parent_event = ParentFulfilled | ParentSkipped

definition put_node :: "node_ref \<Rightarrow> node_state \<Rightarrow> sched_state \<Rightarrow> sched_state" where
  "put_node r st s = s\<lparr>ss_nodes := AList.update r st (ss_nodes s)\<rparr>"

definition push_ready :: "node_ref \<Rightarrow> run_context \<Rightarrow> sched_state \<Rightarrow> sched_state" where
  "push_ready r c s = s\<lparr>ss_ready := ss_ready s @ [\<lparr>ri_ref = r, ri_context = c\<rparr>]\<rparr>"

definition log_event :: "sched_event \<Rightarrow> sched_state \<Rightarrow> sched_state" where
  "log_event e s = s\<lparr>ss_trace := ss_trace s @ [e]\<rparr>"

definition queue_ready_if_satisfied_by_failure_state ::
  "node_ref \<Rightarrow> node_ref \<Rightarrow> node_state \<Rightarrow> sched_state \<Rightarrow> sched_state" where
  "queue_ready_if_satisfied_by_failure_state child parent st s =
     (if ns_failure_parents st \<noteq> [] then
        (if \<not> truthy_str (ns_error_triggered_by st) then s
         else push_ready child
                \<lparr>rc_strategy = ns_strategy st, rc_triggered_by = ns_error_triggered_by st,
                 rc_failure = ns_error_failure st\<rparr> s)
      else push_ready child
             \<lparr>rc_strategy = ns_strategy st,
              rc_triggered_by = (if ns_strategy st = JoinAll then None else Some parent),
              rc_failure = None\<rparr> s)"

text \<open>The state of a child from which one parent is struck off.\<close>

definition strike_parent :: "node_ref \<Rightarrow> parent_event \<Rightarrow> node_state \<Rightarrow> node_state" where
  "strike_parent parent ev st =
     st\<lparr>ns_success_parents := set_delete parent (ns_success_parents st),
        ns_skipped_parents := (if ev = ParentSkipped then set_add parent (ns_skipped_parents st)
                               else ns_skipped_parents st)\<rparr>"

text \<open>The head of \<open>handleSkip\<close>: the action leaves \<open>pending\<close>, is marked, and is reported.\<close>

definition mark_skipped :: "node_ref \<Rightarrow> sched_state \<Rightarrow> sched_state" where
  "mark_skipped r s =
     (let s1 = s\<lparr>ss_pending := set_delete r (ss_pending s)\<rparr>;
          s2 = (case map_of (ss_nodes s1) r of
                  None \<Rightarrow> s1 | Some st \<Rightarrow> put_node r (st\<lparr>ns_skipped := True\<rparr>) s1)
      in log_event (SkippedNode r) s2)"

text \<open>
  \<open>processChild\<close>, \<open>handleSkip\<close> (with its loop over the children, \<open>skip_children\<close>) and
  \<open>markInactiveFailureDependents\<close> call one another.
\<close>

function (sequential)
  process_child :: "tables \<Rightarrow> node_ref \<Rightarrow> node_ref \<Rightarrow> parent_event \<Rightarrow> sched_state \<Rightarrow> sched_state"
  and handle_skip :: "tables \<Rightarrow> node_ref \<Rightarrow> sched_state \<Rightarrow> sched_state"
  and skip_children :: "tables \<Rightarrow> node_ref \<Rightarrow> node_ref list \<Rightarrow> sched_state \<Rightarrow> sched_state"
  and mark_inactive :: "tables \<Rightarrow> node_ref \<Rightarrow> node_ref list \<Rightarrow> sched_state \<Rightarrow> sched_state"
where
  "process_child tb child parent ev s =
     (if child \<notin> set (ss_pending s) then s
      else case map_of (ss_nodes s) child of
        None \<Rightarrow> s
      | Some st0 \<Rightarrow>
          if ns_failure_triggered st0 \<or> ns_skipped st0 then s
          else if parent \<notin> set (ns_success_parents st0) then s
          else
            let st = strike_parent parent ev st0; s1 = put_node child st s;
                fire = (let st' = st\<lparr>ns_triggered_by_success := True\<rparr>
                        in queue_ready_if_satisfied_by_failure_state child parent st'
                             (put_node child st' s1))
            in if ns_strategy st = JoinAll then
                 (if ns_success_parents st = [] then
                    (if ns_skipped_parents st \<noteq> [] then handle_skip tb child s1
                     else if \<not> ns_triggered_by_success st then fire
                     else s1)
                  else s1)
               else
                 (if ev = ParentFulfilled \<and> \<not> ns_triggered_by_success st then fire
                  else if ns_success_parents st = [] then
                    (if \<not> ns_triggered_by_success st then handle_skip tb child s1 else s1)
                  else s1))"
| "handle_skip tb r s =
     (if r \<notin> set (ss_pending s) then s
      else skip_children tb r (success_targets tb r)
             (mark_inactive tb r (failure_children tb r) (mark_skipped r s)))"
| "skip_children tb r [] s = s"
| "skip_children tb r (c # cs) s =
     skip_children tb r cs (process_child tb c r ParentSkipped s)"
| "mark_inactive tb r [] s = s"
| "mark_inactive tb r (c # cs) s =
     (case map_of (ss_nodes s) c of
        None \<Rightarrow> mark_inactive tb r cs s
      | Some st \<Rightarrow>
          if c \<notin> set (ss_pending s) \<or> truthy_str (ns_error_triggered_by st)
             \<or> ns_failure_triggered st \<or> ns_skipped st
          then mark_inactive tb r cs s
          else
            let st' = st\<lparr>ns_inactive_failure_parents :=
                           set_add r (ns_inactive_failure_parents st)\<rparr>;
                s1 = put_node c st' s
            in if length (ns_inactive_failure_parents st') = length (ns_failure_parents st')
               then mark_inactive tb r cs (handle_skip tb c s1)
               else mark_inactive tb r cs s1)"
  by pat_completeness auto

lemma put_node_simps [simp]:
  "ss_pending (put_node r st s) = ss_pending s" "ss_trace (put_node r st s) = ss_trace s"
  "ss_ready (put_node r st s) = ss_ready s" "ss_failed (put_node r st s) = ss_failed s"
  "ss_handled (put_node r st s) = ss_handled s"
  "map_of (ss_nodes (put_node r st s)) = (map_of (ss_nodes s))(r \<mapsto> st)"
  by (simp_all add: put_node_def)

lemma push_ready_simps [simp]:
  "ss_pending (push_ready r c s) = ss_pending s" "ss_trace (push_ready r c s) = ss_trace s"
  "ss_nodes (push_ready r c s) = ss_nodes s" "ss_failed (push_ready r c s) = ss_failed s"
  "ss_handled (push_ready r c s) = ss_handled s"
  "ss_ready (push_ready r c s) = ss_ready s @ [\<lparr>ri_ref = r, ri_context = c\<rparr>]"
  by (simp_all add: push_ready_def)

lemma log_event_simps [simp]:
  "ss_pending (log_event e s) = ss_pending s" "ss_trace (log_event e s) = ss_trace s @ [e]"
  "ss_ready (log_event e s) = ss_ready s" "ss_failed (log_event e s) = ss_failed s"
  "ss_handled (log_event e s) = ss_handled s" "ss_nodes (log_event e s) = ss_nodes s"
  by (simp_all add: log_event_def)

lemma mark_skipped_pending [simp]: "ss_pending (mark_skipped r s) = set_delete r (ss_pending s)"
  by (simp add: mark_skipped_def Let_def split: option.splits)

lemma queue_ready_pending [simp]:
  "ss_pending (queue_ready_if_satisfied_by_failure_state c p st s) = ss_pending s"
  by (simp add: queue_ready_if_satisfied_by_failure_state_def)

lemma propagation_pending_dom:
  shows "process_child_handle_skip_skip_children_mark_inactive_dom (Inl (Inl (tb, c, p, ev, s))) \<Longrightarrow>
         length (ss_pending (process_child tb c p ev s)) \<le> length (ss_pending s)"
    and "process_child_handle_skip_skip_children_mark_inactive_dom (Inl (Inr (tb, r, s))) \<Longrightarrow>
         length (ss_pending (handle_skip tb r s)) \<le> length (ss_pending s)"
    and "process_child_handle_skip_skip_children_mark_inactive_dom (Inr (Inl (tb, r, cs, s))) \<Longrightarrow>
         length (ss_pending (skip_children tb r cs s)) \<le> length (ss_pending s)"
    and "process_child_handle_skip_skip_children_mark_inactive_dom (Inr (Inr (tb, r, cs, s))) \<Longrightarrow>
         length (ss_pending (mark_inactive tb r cs s)) \<le> length (ss_pending s)"
proof (induction tb c p ev s and tb r s and tb r cs s and tb r cs s
       rule: process_child_handle_skip_skip_children_mark_inactive.pinduct)
  case (1 tb child parent ev s)
  then show ?case
    by (auto simp: process_child.psimps Let_def split: option.splits)
next
  case (2 tb r s)
  show ?case
  proof (cases "r \<in> set (ss_pending s)")
    case True
    with 2 have "length (ss_pending (handle_skip tb r s)) \<le> length (set_delete r (ss_pending s))"
      by (simp add: handle_skip.psimps)
    also have "\<dots> \<le> length (ss_pending s)" by simp
    finally show ?thesis .
  next
    case False
    with 2 show ?thesis by (simp add: handle_skip.psimps)
  qed
next
  case (3 tb r s)
  then show ?case by (simp add: skip_children.psimps)
next
  case (4 tb r c cs s)
  then show ?case by (simp add: skip_children.psimps)
next
  case (5 tb r s)
  then show ?case by (simp add: mark_inactive.psimps)
next
  case (6 tb r c cs s)
  show ?case
  proof (cases "map_of (ss_nodes s) c")
    case None
    with 6 show ?thesis by (simp add: mark_inactive.psimps)
  next
    case (Some st)
    show ?thesis
    proof (cases "c \<notin> set (ss_pending s) \<or> truthy_str (ns_error_triggered_by st)
             \<or> ns_failure_triggered st \<or> ns_skipped st")
      case True
      with 6 Some show ?thesis by (auto simp: mark_inactive.psimps)
    next
      case False
      note IH = "6.IH"(3,4,5) [OF Some False refl refl]
      show ?thesis
      proof (cases "length (set_add r (ns_inactive_failure_parents st)) = length (ns_failure_parents st)")
        case True
        with IH(1,2) False Some "6.hyps" show ?thesis
          by (simp add: mark_inactive.psimps Let_def)
      next
        case eq: False
        with IH(3) False Some "6.hyps" show ?thesis
          by (simp add: mark_inactive.psimps Let_def)
      qed
    qed
  qed
qed

termination process_child
proof (relation "measures
    [case_sum (case_sum (\<lambda>(tb, c, p, ev, s). length (ss_pending s)) (\<lambda>(tb, r, s). length (ss_pending s)))
              (case_sum (\<lambda>(tb, r, cs, s). length (ss_pending s)) (\<lambda>(tb, r, cs, s). length (ss_pending s))),
     case_sum (case_sum (\<lambda>_. 1) (\<lambda>_. 0))
              (case_sum (\<lambda>(tb, r, cs, s). Suc (length cs)) (\<lambda>(tb, r, cs, s). Suc (length cs)))]",
    goal_cases)
qed (auto split: option.splits dest!: propagation_pending_dom
       intro: le_neq_implies_less le_less_trans [OF _ length_set_delete])


lemmas propagation_induct = process_child_handle_skip_skip_children_mark_inactive.induct

declare process_child.simps [simp del] handle_skip.simps [simp del]
  mark_inactive.simps(2) [simp del]

text \<open>What \<open>processChild\<close> does with the struck state: wait, queue the child, or skip it.\<close>

datatype child_decision = Stay | Fire | Skip

definition child_decision :: "parent_event \<Rightarrow> node_state \<Rightarrow> child_decision" where
  "child_decision ev st =
     (if ns_strategy st = JoinAll then
        (if ns_success_parents st \<noteq> [] then Stay
         else if ns_skipped_parents st \<noteq> [] then Skip
         else if \<not> ns_triggered_by_success st then Fire else Stay)
      else if ns_triggered_by_success st then Stay
      else if ev = ParentFulfilled then Fire
      else if ns_success_parents st = [] then Skip else Stay)"

definition accepts_parent :: "sched_state \<Rightarrow> node_ref \<Rightarrow> node_ref \<Rightarrow> node_state \<Rightarrow> bool" where
  "accepts_parent s child parent st \<longleftrightarrow>
     child \<in> set (ss_pending s) \<and> map_of (ss_nodes s) child = Some st
     \<and> \<not> ns_failure_triggered st \<and> \<not> ns_skipped st \<and> parent \<in> set (ns_success_parents st)"

definition fire_child :: "node_ref \<Rightarrow> node_ref \<Rightarrow> node_state \<Rightarrow> sched_state \<Rightarrow> sched_state" where
  "fire_child child parent st s =
     (let st' = st\<lparr>ns_triggered_by_success := True\<rparr>
      in queue_ready_if_satisfied_by_failure_state child parent st' (put_node child st' s))"

lemma process_child_cases:
  obtains (ignored) "\<forall>st. \<not> accepts_parent s c p st" "process_child tb c p ev s = s"
  | (stay) st where "accepts_parent s c p st" "child_decision ev (strike_parent p ev st) = Stay"
      "process_child tb c p ev s = put_node c (strike_parent p ev st) s"
  | (fire) st where "accepts_parent s c p st" "child_decision ev (strike_parent p ev st) = Fire"
      "process_child tb c p ev s
       = fire_child c p (strike_parent p ev st) (put_node c (strike_parent p ev st) s)"
  | (skip) st where "accepts_parent s c p st" "child_decision ev (strike_parent p ev st) = Skip"
      "process_child tb c p ev s = handle_skip tb c (put_node c (strike_parent p ev st) s)"
proof (cases "\<exists>st. accepts_parent s c p st")
  case False
  then have "process_child tb c p ev s = s"
    by (auto simp: process_child.simps accepts_parent_def split: option.splits)
  with False show thesis by (intro ignored) simp_all
next
  case True
  then obtain st where st: "accepts_parent s c p st" by blast
  then have "process_child tb c p ev s =
      (case child_decision ev (strike_parent p ev st) of
         Stay \<Rightarrow> put_node c (strike_parent p ev st) s
       | Fire \<Rightarrow> fire_child c p (strike_parent p ev st) (put_node c (strike_parent p ev st) s)
       | Skip \<Rightarrow> handle_skip tb c (put_node c (strike_parent p ev st) s))"
    by (cases ev) (auto simp: process_child.simps accepts_parent_def child_decision_def
                     fire_child_def Let_def)
  with st that show thesis
    by (cases "child_decision ev (strike_parent p ev st)") auto
qed

lemma mark_inactive_Cons_cases:
  obtains (ignored) "map_of (ss_nodes s) c = None
        \<or> (\<exists>st. map_of (ss_nodes s) c = Some st
               \<and> (c \<notin> set (ss_pending s) \<or> truthy_str (ns_error_triggered_by st)
                  \<or> ns_failure_triggered st \<or> ns_skipped st))"
      "mark_inactive tb r (c # cs) s = mark_inactive tb r cs s"
  | (wait) st where "map_of (ss_nodes s) c = Some st" "c \<in> set (ss_pending s)"
      "\<not> ns_failure_triggered st" "\<not> ns_skipped st" "\<not> truthy_str (ns_error_triggered_by st)"
      "length (set_add r (ns_inactive_failure_parents st)) \<noteq> length (ns_failure_parents st)"
      "mark_inactive tb r (c # cs) s
       = mark_inactive tb r cs
           (put_node c (st\<lparr>ns_inactive_failure_parents := set_add r (ns_inactive_failure_parents st)\<rparr>) s)"
  | (skip) st where "map_of (ss_nodes s) c = Some st" "c \<in> set (ss_pending s)"
      "\<not> ns_failure_triggered st" "\<not> ns_skipped st" "\<not> truthy_str (ns_error_triggered_by st)"
      "length (set_add r (ns_inactive_failure_parents st)) = length (ns_failure_parents st)"
      "mark_inactive tb r (c # cs) s
       = mark_inactive tb r cs (handle_skip tb c
           (put_node c (st\<lparr>ns_inactive_failure_parents := set_add r (ns_inactive_failure_parents st)\<rparr>) s))"
proof (cases "map_of (ss_nodes s) c")
  case None
  then show thesis by (intro ignored) (simp_all add: mark_inactive.simps(2))
next
  case (Some st)
  show thesis
  proof (cases "c \<notin> set (ss_pending s) \<or> truthy_str (ns_error_triggered_by st)
           \<or> ns_failure_triggered st \<or> ns_skipped st")
    case True
    with Some show thesis by (intro ignored) (auto simp: mark_inactive.simps(2))
  next
    case False
    with Some show thesis
      by (cases "length (set_add r (ns_inactive_failure_parents st)) = length (ns_failure_parents st)")
        (auto simp: mark_inactive.simps(2) Let_def intro: wait skip)
  qed
qed

subsection \<open>Success\<close>

definition edge_active :: "string list option \<Rightarrow> workflow_edge \<Rightarrow> bool" where
  "edge_active active_ports e =
     (case active_ports of
        None \<Rightarrow> True
      | Some ports \<Rightarrow>
          (case we_source_handle e of None \<Rightarrow> ''default'' | Some h \<Rightarrow> h) \<in> set ports)"

definition handle_success :: "tables \<Rightarrow> node_ref \<Rightarrow> string list option \<Rightarrow> sched_state \<Rightarrow> sched_state" where
  "handle_success tb r active_ports s =
     (let es = get_or [] (tb_success_edges tb) r;
          triggered = set_of_list (map we_target (filter (edge_active active_ports) es));
          skipped = set_of_list (map we_target (filter (\<lambda>e. \<not> edge_active active_ports e) es));
          final_skipped = filter (\<lambda>c. c \<notin> set triggered) skipped;
          s1 = foldl (\<lambda>s c. process_child tb c r ParentFulfilled s) s triggered;
          s2 = foldl (\<lambda>s c. process_child tb c r ParentSkipped s) s1 final_skipped
      in mark_inactive tb r (failure_children tb r) s2)"

subsection \<open>Failure\<close>

definition trigger_failure_child :: "node_ref \<Rightarrow> failure_info \<Rightarrow> sched_state \<Rightarrow> node_ref \<Rightarrow> sched_state" where
  "trigger_failure_child current failure s child =
     (case map_of (ss_nodes s) child of
        None \<Rightarrow> s
      | Some st0 \<Rightarrow>
          if ns_failure_triggered st0 then s
          else
            let st = st0\<lparr>ns_error_triggered_by := Some current, ns_error_failure := Some failure\<rparr>;
                s1 = put_node child st s;
                s2 = s1\<lparr>ss_handled :=
                          AList.update child
                            (set_add current (get_or [] (ss_handled s1) child)) (ss_handled s1)\<rparr>
            in if ns_success_parents st = [] \<and> \<not> ns_skipped st
               then push_ready child
                      \<lparr>rc_strategy = ns_strategy st, rc_triggered_by = Some current,
                       rc_failure = Some failure\<rparr> s2
               else s2)"

definition cancel_child :: "node_ref \<Rightarrow> node_ref \<Rightarrow> node_state \<Rightarrow> sched_state \<Rightarrow> sched_state" where
  "cancel_child current child st s =
     (let s1 = s\<lparr>ss_pending := set_delete child (ss_pending s)\<rparr>;
          s2 = put_node child (st\<lparr>ns_failure_triggered := True\<rparr>) s1;
          s3 = s2\<lparr>ss_failed :=
                    AList.update child
                      (ReasonError ''WorkflowSchedulerError''
                         (''Cancelled due to upstream failure at '' @ current) None)
                      (ss_failed s2)\<rparr>
      in log_event (CancelledNode child) s3)"

text \<open>The loop over the success children of a failed action; it returns what it cancelled.\<close>

fun fail_children ::
  "tables \<Rightarrow> node_ref \<Rightarrow> bool \<Rightarrow> node_ref list \<Rightarrow> sched_state \<Rightarrow> sched_state \<times> node_ref list" where
  "fail_children tb current has_handler [] s = (s, [])"
| "fail_children tb current has_handler (child # cs) s =
     (case map_of (ss_nodes s) child of
        None \<Rightarrow> fail_children tb current has_handler cs s
      | Some st0 \<Rightarrow>
          if ns_failure_triggered st0 \<or> current \<notin> set (ns_success_parents st0)
             \<or> child \<notin> set (ss_pending s)
          then fail_children tb current has_handler cs s
          else if has_handler then
            fail_children tb current has_handler cs
              (process_child tb child current ParentSkipped s)
          else
            let st = st0\<lparr>ns_success_parents := set_delete current (ns_success_parents st0)\<rparr>;
                s1 = put_node child st s;
                should_cancel =
                  (ns_strategy st = JoinAll
                   \<or> (ns_success_parents st = [] \<and> \<not> ns_triggered_by_success st))
            in if \<not> should_cancel then fail_children tb current has_handler cs s1
               else
                 (case fail_children tb current has_handler cs (cancel_child current child st s1) of
                    (s2, cancelled) \<Rightarrow> (s2, child # cancelled)))"

text \<open>One node taken from the failure queue: its error branches start, its others end.\<close>

definition mark_failed :: "node_ref \<Rightarrow> sched_state \<Rightarrow> sched_state" where
  "mark_failed r s =
     (case map_of (ss_nodes s) r of
        None \<Rightarrow> s | Some st \<Rightarrow> put_node r (st\<lparr>ns_failure_triggered := True\<rparr>) s)"

definition fail_node :: "tables \<Rightarrow> node_ref \<Rightarrow> sched_state \<Rightarrow> sched_state \<times> node_ref list" where
  "fail_node tb current s =
     (let s1 = mark_failed current s;
          children = failure_children tb current;
          failure = \<lparr>fl_at = current,
                     fl_reason = normalize_failure_reason (get_or ReasonNone (ss_failed s1) current)\<rparr>;
          s2 = foldl (trigger_failure_child current failure) s1 children
      in fail_children tb current (children \<noteq> []) (success_targets tb current) s2)"

subsection \<open>State predicates the updates preserve\<close>

text \<open>
  An action is settled in the trace, and how: a parent that strikes itself off as fulfilled
  has completed; one that strikes itself off as skipped was skipped or failed, was cancelled,
  or completed with that branch inactive.
\<close>

definition settled_in :: "sched_event list \<Rightarrow> node_ref \<Rightarrow> bool" where
  "settled_in t r \<longleftrightarrow>
     Completed r \<in> set t \<or> Failed r \<in> set t \<or> SkippedNode r \<in> set t \<or> CancelledNode r \<in> set t"

definition parent_event_in ::
  "node_ref set \<Rightarrow> sched_event list \<Rightarrow> node_ref \<Rightarrow> parent_event \<Rightarrow> bool" where
  "parent_event_in branching t r ev \<longleftrightarrow>
     (if ev = ParentFulfilled then Completed r \<in> set t
      else (Completed r \<in> set t \<and> r \<in> branching)
           \<or> Failed r \<in> set t \<or> SkippedNode r \<in> set t \<or> CancelledNode r \<in> set t)"

definition failed_in :: "sched_event list \<Rightarrow> node_ref \<Rightarrow> bool" where
  "failed_in t r \<longleftrightarrow> Failed r \<in> set t \<or> CancelledNode r \<in> set t"

lemma failed_in_settled: "failed_in t r \<Longrightarrow> settled_in t r"
  by (auto simp: failed_in_def settled_in_def)

lemma parent_event_in_settled: "parent_event_in B t r ev \<Longrightarrow> settled_in t r"
  by (auto simp: parent_event_in_def settled_in_def split: if_splits)

lemma trace_facts_mono:
  "set t \<subseteq> set t' \<Longrightarrow> settled_in t r \<Longrightarrow> settled_in t' r"
  "set t \<subseteq> set t' \<Longrightarrow> parent_event_in B t r ev \<Longrightarrow> parent_event_in B t' r ev"
  "set t \<subseteq> set t' \<Longrightarrow> failed_in t r \<Longrightarrow> failed_in t' r"
  by (auto simp: settled_in_def parent_event_in_def failed_in_def)

definition inactive_mark :: "node_ref \<Rightarrow> node_state \<Rightarrow> node_state" where
  "inactive_mark r st =
     st\<lparr>ns_inactive_failure_parents := set_add r (ns_inactive_failure_parents st)\<rparr>"

definition open_node :: "sched_state \<Rightarrow> node_ref \<Rightarrow> node_state \<Rightarrow> bool" where
  "open_node s c st \<longleftrightarrow> map_of (ss_nodes s) c = Some st \<and> c \<in> set (ss_pending s)
     \<and> \<not> ns_failure_triggered st \<and> \<not> ns_skipped st"

lemma accepts_parent_open:
  "accepts_parent s c p st \<longleftrightarrow> open_node s c st \<and> p \<in> set (ns_success_parents st)"
  by (auto simp: accepts_parent_def open_node_def)

text \<open>
  Work the propagation still owes: a settled parent has not yet been reported to a child
  along a success edge or an error edge, or a started action has not been settled.
\<close>

datatype token =
    OweSuccess node_ref node_ref
  | OweFailure node_ref node_ref
  | Running node_ref

definition owed :: "tables \<Rightarrow> node_ref \<Rightarrow> token set" where
  "owed tb r = OweSuccess r ` set (success_targets tb r) \<union> OweFailure r ` set (failure_children tb r)"

definition running_refs :: "token set \<Rightarrow> node_ref set" where
  "running_refs Q = {r. Running r \<in> Q}"

lemma running_refs_simps [simp]:
  "running_refs {} = {}" "running_refs (Q \<union> Q') = running_refs Q \<union> running_refs Q'"
  "running_refs (Q - {OweSuccess p c}) = running_refs Q"
  "running_refs (Q - {OweFailure p c}) = running_refs Q"
  "running_refs (Q - OweSuccess p ` R) = running_refs Q"
  "running_refs (Q - OweFailure p ` R) = running_refs Q"
  "running_refs (Q - {Running r}) = running_refs Q - {r}"
  "running_refs (OweSuccess p ` R) = {}" "running_refs (OweFailure p ` R) = {}"
  "running_refs (owed tb r) = {}" "running_refs (Running ` R) = R"
  by (auto simp: running_refs_def owed_def)

definition grows ::
  "(token set \<Rightarrow> sched_state \<Rightarrow> bool) \<Rightarrow> token set \<Rightarrow> sched_state \<Rightarrow> sched_state \<Rightarrow> bool" where
  "grows I O1 s s' \<longleftrightarrow> I O1 s' \<and> set (ss_trace s) \<subseteq> set (ss_trace s')"

lemma growsD:
  "grows I O1 s s' \<Longrightarrow> I O1 s'" "grows I O1 s s' \<Longrightarrow> set (ss_trace s) \<subseteq> set (ss_trace s')"
  by (simp_all add: grows_def)

lemma growsI: "I O1 s' \<Longrightarrow> ss_trace s' = ss_trace s \<Longrightarrow> grows I O1 s s'"
  by (simp add: grows_def)

lemma grows_trans: "grows I O1 s s' \<Longrightarrow> grows I O2 s' s'' \<Longrightarrow> grows I O2 s s''"
  by (auto simp: grows_def)

lemma mark_skipped_trace [simp]: "ss_trace (mark_skipped r s) = ss_trace s @ [SkippedNode r]"
  by (simp add: mark_skipped_def Let_def split: option.splits)

lemma fire_child_trace [simp]: "ss_trace (fire_child c p st s) = ss_trace s"
  by (simp add: fire_child_def queue_ready_if_satisfied_by_failure_state_def Let_def)

lemma fire_child_pending [simp]: "ss_pending (fire_child c p st s) = ss_pending s"
  by (simp add: fire_child_def Let_def)

text \<open>
  The contract of a state predicate \<open>I\<close>, given the work owed, with the steps of the
  propagation: each primitive update of the state keeps it and pays for itself, provided the
  parent is settled as \<open>E\<close> and \<open>D\<close> read it off the trace.  Inside, it follows that the propagation
  as a whole keeps it and leaves no new debt.
\<close>

locale propagation_invariant =
  fixes tb :: tables
    and E :: "sched_event list \<Rightarrow> node_ref \<Rightarrow> parent_event \<Rightarrow> bool"
    and D :: "sched_event list \<Rightarrow> node_ref \<Rightarrow> node_ref \<Rightarrow> bool"
    and I :: "token set \<Rightarrow> sched_state \<Rightarrow> bool"
  assumes event_mono: "set t \<subseteq> set t' \<Longrightarrow> E t r ev \<Longrightarrow> E t' r ev"
  and event_skipped: "SkippedNode r \<in> set t \<Longrightarrow> E t r ParentSkipped"
  and settled_mono: "set t \<subseteq> set t' \<Longrightarrow> D t r c \<Longrightarrow> D t' r c"
  and settled_skipped: "SkippedNode r \<in> set t \<Longrightarrow> c \<in> set (failure_children tb r) \<Longrightarrow> D t r c"
  and weaken: "I Q s \<Longrightarrow> Q \<subseteq> Q' \<Longrightarrow> running_refs Q' = running_refs Q \<Longrightarrow> I Q' s"
  and success_ignored:
    "\<lbrakk>I Q s; E (ss_trace s) p ev; \<forall>st. \<not> accepts_parent s c p st\<rbrakk> \<Longrightarrow> I (Q - {OweSuccess p c}) s"
  and failure_ignored:
    "\<lbrakk>I Q s; D (ss_trace s) r c;
      \<forall>st. \<not> (open_node s c st \<and> \<not> truthy_str (ns_error_triggered_by st))\<rbrakk>
     \<Longrightarrow> I (Q - {OweFailure r c}) s"
  and strike_stay:
    "\<lbrakk>I Q s; E (ss_trace s) p ev; accepts_parent s c p st;
      child_decision ev (strike_parent p ev st) = Stay\<rbrakk>
     \<Longrightarrow> I (Q - {OweSuccess p c}) (put_node c (strike_parent p ev st) s)"
  and strike_fire:
    "\<lbrakk>I Q s; E (ss_trace s) p ev; accepts_parent s c p st;
      child_decision ev (strike_parent p ev st) = Fire\<rbrakk>
     \<Longrightarrow> I (Q - {OweSuccess p c})
           (fire_child c p (strike_parent p ev st) (put_node c (strike_parent p ev st) s))"
  and strike_skip:
    "\<lbrakk>I Q s; E (ss_trace s) p ev; accepts_parent s c p st;
      child_decision ev (strike_parent p ev st) = Skip\<rbrakk>
     \<Longrightarrow> I (Q - {OweSuccess p c} \<union> owed tb c)
           (mark_skipped c (put_node c (strike_parent p ev st) s))"
  and inactive_wait:
    "\<lbrakk>I Q s; D (ss_trace s) r c; open_node s c st;
      \<not> truthy_str (ns_error_triggered_by st);
      length (ns_inactive_failure_parents (inactive_mark r st)) \<noteq> length (ns_failure_parents st)\<rbrakk>
     \<Longrightarrow> I (Q - {OweFailure r c}) (put_node c (inactive_mark r st) s)"
  and inactive_skip:
    "\<lbrakk>I Q s; D (ss_trace s) r c; open_node s c st;
      \<not> truthy_str (ns_error_triggered_by st);
      length (ns_inactive_failure_parents (inactive_mark r st)) = length (ns_failure_parents st)\<rbrakk>
     \<Longrightarrow> I (Q - {OweFailure r c} \<union> owed tb c) (mark_skipped c (put_node c (inactive_mark r st) s))"
begin

lemma propagation':
  shows "tb' = tb \<Longrightarrow> I Q s \<Longrightarrow> E (ss_trace s) p ev \<Longrightarrow>
         grows I (Q - {OweSuccess p c}) s (process_child tb' c p ev s)"
    and "tb' = tb \<Longrightarrow> r \<in> set (ss_pending s) \<Longrightarrow> I (Q \<union> owed tb r) (mark_skipped r s) \<Longrightarrow>
         grows I Q s (handle_skip tb' r s)"
    and "tb' = tb \<Longrightarrow> I Q s \<Longrightarrow> E (ss_trace s) r ParentSkipped \<Longrightarrow>
         grows I (Q - OweSuccess r ` set cs) s (skip_children tb' r cs s)"
    and "tb' = tb \<Longrightarrow> I Q s \<Longrightarrow> \<forall>c \<in> set cs. D (ss_trace s) r c \<Longrightarrow>
         grows I (Q - OweFailure r ` set cs) s (mark_inactive tb' r cs s)"
proof (induction tb' c p ev s and tb' r s and tb' r cs s and tb' r cs s arbitrary: Q and Q and Q and Q
       rule: propagation_induct)
  case (1 tb' c p ev s)
  show ?case
  proof (cases rule: process_child_cases [where tb = tb' and c = c and p = p and ev = ev and s = s])
    case ignored
    with "1.prems" show ?thesis by (auto intro!: growsI success_ignored)
  next
    case (stay st)
    with "1.prems" strike_stay show ?thesis by (auto intro: growsI)
  next
    case (fire st)
    with "1.prems" strike_fire show ?thesis by (auto intro: growsI)
  next
    case (skip st)
    let ?s = "put_node c (strike_parent p ev st) s"
    have "I (Q - {OweSuccess p c} \<union> owed tb c) (mark_skipped c ?s)"
      using strike_skip "1.prems" skip by blast
    moreover have "c \<in> set (ss_pending ?s)" using skip(1) by (simp add: accepts_parent_def)
    ultimately have "grows I (Q - {OweSuccess p c}) ?s (handle_skip tb' c ?s)"
      using "1.IH" "1.prems"(1) skip(1,2)
      by (cases "ns_strategy (strike_parent p ev st) = JoinAll")
        (auto simp: accepts_parent_def child_decision_def split: if_splits)
    with skip(3) show ?thesis by (simp add: grows_def)
  qed
next
  case (2 tb' r s)
  let ?s1 = "mark_skipped r s"
  let ?Q = "Q \<union> owed tb r"
  have ok: "E (ss_trace ?s1) r ParentSkipped" by (rule event_skipped) simp
  have st: "\<forall>c \<in> set (failure_children tb r). D (ss_trace ?s1) r c" by (simp add: settled_skipped)
  have 0: "set (ss_trace s) \<subseteq> set (ss_trace ?s1)" by auto
  have 1: "grows I (?Q - OweFailure r ` set (failure_children tb r)) ?s1
             (mark_inactive tb' r (failure_children tb r) ?s1)"
    using "2.IH"(1) [of ?Q] "2.prems" st by simp
  from "2.IH"(2) [OF _ "2.prems"(1)] growsD(1) [OF 1] event_mono [OF growsD(2) [OF 1] ok] "2.prems"
  have 2: "grows I (?Q - OweFailure r ` set (failure_children tb r)
                    - OweSuccess r ` set (success_targets tb r))
             (mark_inactive tb' r (failure_children tb r) ?s1) (handle_skip tb' r s)"
    by (simp add: handle_skip.simps)
  have "I Q (handle_skip tb' r s)"
  proof (rule weaken [OF growsD(1) [OF 2]])
    show "?Q - OweFailure r ` set (failure_children tb r) - OweSuccess r ` set (success_targets tb r) \<subseteq> Q"
      by (auto simp: owed_def)
  qed simp
  with 0 growsD(2) [OF 1] growsD(2) [OF 2] show ?case by (auto simp: grows_def)
next
  case (3 tb' r s)
  then show ?case by (simp add: grows_def)
next
  case (4 tb' r c cs s)
  have Q: "Q - OweSuccess r ` set (c # cs) = Q - {OweSuccess r c} - OweSuccess r ` set cs"
    by auto
  have 1: "grows I (Q - {OweSuccess r c}) s (process_child tb' c r ParentSkipped s)"
    using "4.IH"(1) "4.prems" by simp
  from "4.IH"(2) [OF "4.prems"(1) growsD(1) [OF 1] event_mono [OF growsD(2) [OF 1] "4.prems"(3)]]
  have "grows I (Q - OweSuccess r ` set (c # cs)) (process_child tb' c r ParentSkipped s)
          (skip_children tb' r (c # cs) s)"
    unfolding Q by (simp only: skip_children.simps)
  with 1 show ?case by (rule grows_trans)
next
  case (5 tb' r s)
  then show ?case by (simp add: grows_def)
next
  case (6 tb' r c cs s)
  have Q: "Q - OweFailure r ` set (c # cs) = Q - {OweFailure r c} - OweFailure r ` set cs"
    by auto
  show ?case
  proof (cases rule: mark_inactive_Cons_cases
        [where tb = tb' and r = r and c = c and cs = cs and s = s])
    case ignored
    then have "I (Q - {OweFailure r c}) s"
      using "6.prems" by (intro failure_ignored) (auto simp: open_node_def)
    with "6.prems" "6.IH"(1,2) ignored show ?thesis unfolding Q by auto
  next
    case (wait st)
    let ?s = "put_node c (inactive_mark r st) s"
    have "I (Q - {OweFailure r c}) ?s" using "6.prems" wait
      by (intro inactive_wait) (auto simp: open_node_def inactive_mark_def)
    then have "grows I (Q - {OweFailure r c} - OweFailure r ` set cs) ?s (mark_inactive tb' r cs ?s)"
      using "6.IH"(5) "6.prems" wait by (simp add: inactive_mark_def)
    with wait(7) show ?thesis unfolding Q by (simp add: grows_def inactive_mark_def)
  next
    case (skip st)
    let ?s = "put_node c (inactive_mark r st) s"
    let ?t = "handle_skip tb' c ?s"
    have "I (Q - {OweFailure r c} \<union> owed tb c) (mark_skipped c ?s)" using "6.prems" skip
      by (intro inactive_skip) (auto simp: open_node_def inactive_mark_def)
    then have 1: "grows I (Q - {OweFailure r c}) ?s ?t"
      using "6.IH"(3) "6.prems"(1) skip by (simp add: inactive_mark_def)
    then have "grows I (Q - {OweFailure r c} - OweFailure r ` set cs) ?t (mark_inactive tb' r cs ?t)"
      using "6.IH"(4) "6.prems"(1) skip settled_mono [OF growsD(2) [OF 1], of r] "6.prems"
      by (simp add: growsD inactive_mark_def)
    with 1 skip(7) show ?thesis unfolding Q by (auto simp: grows_def inactive_mark_def)
  qed
qed

lemmas propagation = propagation' [OF refl]

end

subsection \<open>The failure queue and the main loop\<close>

interpretation pending_bound:
  propagation_invariant tb "\<lambda>_ _ _. True" "\<lambda>_ _ _. True" "\<lambda>_ s. length (ss_pending s) \<le> n" for tb n
  by unfold_locales (simp_all add: length_set_delete_bound)

lemma propagation_pending_length:
  "length (ss_pending (process_child tb c p ev s)) \<le> length (ss_pending s)"
  "length (ss_pending (mark_inactive tb r cs s)) \<le> length (ss_pending s)"
  using pending_bound.propagation(1,4) [of s "length (ss_pending s)"] by (simp_all add: grows_def)

lemma trigger_failure_child_pending [simp]:
  "ss_pending (trigger_failure_child cur f s c) = ss_pending s"
  by (simp add: trigger_failure_child_def Let_def split: option.splits)

lemma foldl_trigger_pending [simp]:
  "ss_pending (foldl (trigger_failure_child cur f) s cs) = ss_pending s"
  by (induction cs arbitrary: s) simp_all

lemma cancel_child_pending [simp]: "ss_pending (cancel_child cur c st s) = set_delete c (ss_pending s)"
  by (simp add: cancel_child_def Let_def)

lemma mark_failed_pending [simp]: "ss_pending (mark_failed r s) = ss_pending s"
  by (simp add: mark_failed_def split: option.splits)

lemma fail_children_length:
  "fail_children tb cur h cs s = (s', out) \<Longrightarrow>
   length (ss_pending s') + length out \<le> length (ss_pending s)"
proof (induction tb cur h cs s arbitrary: s' out rule: fail_children.induct)
  case (2 tb cur h child cs s)
  show ?case
  proof (cases "map_of (ss_nodes s) child")
    case None
    with 2 show ?thesis by simp
  next
    case (Some st0)
    let ?skip = "ns_failure_triggered st0 \<or> cur \<notin> set (ns_success_parents st0)
                 \<or> child \<notin> set (ss_pending s)"
    let ?st = "st0\<lparr>ns_success_parents := set_delete cur (ns_success_parents st0)\<rparr>"
    let ?cancel = "ns_strategy ?st = JoinAll
                   \<or> (ns_success_parents ?st = [] \<and> \<not> ns_triggered_by_success ?st)"
    consider "?skip" | "\<not> ?skip" "h" | "\<not> ?skip" "\<not> h" "\<not> ?cancel" | "\<not> ?skip" "\<not> h" "?cancel"
      by blast
    then show ?thesis
    proof cases
      case 1
      with 2 Some show ?thesis by simp
    next
      case a: 2
      with "2.IH"(3) [OF Some a] "2.prems" Some propagation_pending_length(1)
      show ?thesis by (fastforce intro: order.trans)
    next
      case a: 3
      with "2.IH"(4) [OF Some a(1,2) refl refl refl] "2.prems" Some show ?thesis by simp
    next
      case a: 4
      obtain s2 out2 where rec: "fail_children tb cur h cs (cancel_child cur child ?st (put_node child ?st s))
        = (s2, out2)" by fastforce
      from a(1) have "length (set_delete child (ss_pending s)) < length (ss_pending s)"
        by (intro length_set_delete) simp
      with a "2.IH"(5) [OF Some a(1,2) refl refl refl, of s2 out2] "2.prems" Some rec show ?thesis
        by (auto simp: Let_def)
    qed
  qed
qed simp

function fail_loop :: "tables \<Rightarrow> node_ref list \<Rightarrow> node_ref js_set \<Rightarrow> sched_state \<Rightarrow> sched_state" where
  "fail_loop tb [] seen s = s"
| "fail_loop tb (current # queue) seen s =
     (if current \<in> set seen then fail_loop tb queue seen s
      else (case fail_node tb current s of
              (s', cancelled) \<Rightarrow>
                fail_loop tb (queue @ cancelled) (set_add current seen) s'))"
  by pat_completeness auto

lemma fail_node_length:
  "fail_node tb cur s = (s', out) \<Longrightarrow> length (ss_pending s') + length out \<le> length (ss_pending s)"
  by (auto simp: fail_node_def Let_def dest: fail_children_length)

termination fail_loop
proof (relation "measure (\<lambda>(tb, queue, seen, s). length queue + length (ss_pending s))", goal_cases)
  case (3 tb current queue seen s)
  from fail_node_length [OF 3(2) [symmetric]] show ?case by simp
qed auto

definition handle_failure :: "tables \<Rightarrow> node_ref \<Rightarrow> sched_state \<Rightarrow> sched_state" where
  "handle_failure tb r s = fail_loop tb [r] [] s"

subsection \<open>Batches\<close>

datatype outcome = Fulfilled "string list option" | Rejected failure_reason

record settled =
  st_ref :: node_ref
  st_context :: run_context
  st_outcome :: outcome
  st_completed_at :: nat

record 'w scheduler_options =
  so_run :: "node_ref \<Rightarrow> run_context \<Rightarrow> 'w \<Rightarrow> (outcome \<times> nat) \<times> 'w"
  so_preserve_cancellation :: bool
  so_is_cancellation :: "failure_reason \<Rightarrow> bool"

datatype sched_result =
    SchedFinished
  | SchedDeadlock
  | SchedCancelled failure_reason
  | SchedFailed "(node_ref, failure_reason) js_map"

text \<open>The loop over the batch: an action runs if it is still pending, and then no longer is.\<close>

fun take_batch ::
  "ready_item list \<Rightarrow> node_ref js_set \<Rightarrow> ready_item list \<times> node_ref js_set" where
  "take_batch [] p = ([], p)"
| "take_batch (i # is) p =
     (if ri_ref i \<notin> set p then take_batch is p
      else (case take_batch is (set_delete (ri_ref i) p) of (ex, p') \<Rightarrow> (i # ex, p')))"

definition start_batch :: "node_ref \<Rightarrow> sched_state \<Rightarrow> ready_item list \<times> sched_state" where
  "start_batch entry s =
     (let batch = sort_key (\<lambda>i. if ri_ref i = entry then 0 else 1 :: nat) (ss_ready s)
      in case take_batch batch (ss_pending s) of
           (ex, p) \<Rightarrow>
             (ex, s\<lparr>ss_ready := [], ss_pending := p,
                    ss_trace := ss_trace s @ map (\<lambda>i. Started (ri_ref i) (ri_context i)) ex\<rparr>))"

fun run_batch ::
  "(node_ref \<Rightarrow> run_context \<Rightarrow> 'w \<Rightarrow> (outcome \<times> nat) \<times> 'w) \<Rightarrow> ready_item list \<Rightarrow> 'w
   \<Rightarrow> settled list \<times> 'w" where
  "run_batch run [] w = ([], w)"
| "run_batch run (i # is) w =
     (case run (ri_ref i) (ri_context i) w of
        ((out, t), w1) \<Rightarrow>
          (case run_batch run is w1 of
             (rest, w2) \<Rightarrow>
               (\<lparr>st_ref = ri_ref i, st_context = ri_context i, st_outcome = out,
                 st_completed_at = t\<rparr> # rest, w2)))"

definition clear_handled :: "node_ref \<Rightarrow> sched_state \<Rightarrow> sched_state" where
  "clear_handled r s =
     (case map_of (ss_handled s) r of
        None \<Rightarrow> s
      | Some sources \<Rightarrow>
          s\<lparr>ss_failed := foldl (\<lambda>m k. AList.delete k m) (ss_failed s) sources,
            ss_handled := AList.delete r (ss_handled s)\<rparr>)"

definition record_failure :: "node_ref \<Rightarrow> failure_reason \<Rightarrow> sched_state \<Rightarrow> sched_state" where
  "record_failure r reason s =
     log_event (Failed r) (s\<lparr>ss_failed := AList.update r reason (ss_failed s)\<rparr>)"

definition settle :: "tables \<Rightarrow> sched_state \<Rightarrow> settled \<Rightarrow> sched_state" where
  "settle tb s o1 =
     (case st_outcome o1 of
        Fulfilled ports \<Rightarrow>
          handle_success tb (st_ref o1) ports
            (log_event (Completed (st_ref o1)) (clear_handled (st_ref o1) s))
      | Rejected reason \<Rightarrow>
          handle_failure tb (st_ref o1) (record_failure (st_ref o1) reason s))"

definition find_cancellation :: "'w scheduler_options \<Rightarrow> settled list \<Rightarrow> failure_reason option" where
  "find_cancellation opts outcomes =
     (if \<not> so_preserve_cancellation opts then None
      else (case filter (\<lambda>o1. case st_outcome o1 of
                               Rejected reason \<Rightarrow> so_is_cancellation opts reason
                             | Fulfilled _ \<Rightarrow> False) outcomes of
              [] \<Rightarrow> None
            | o1 # _ \<Rightarrow> (case st_outcome o1 of Rejected reason \<Rightarrow> Some reason | Fulfilled _ \<Rightarrow> None)))"

lemma clear_handled_pending [simp]: "ss_pending (clear_handled r s) = ss_pending s"
  by (simp add: clear_handled_def split: option.splits)

lemma record_failure_pending [simp]: "ss_pending (record_failure r e s) = ss_pending s"
  by (simp add: record_failure_def)

lemma foldl_pending_length:
  "(\<And>s c. length (ss_pending (f s c)) \<le> length (ss_pending s)) \<Longrightarrow>
   length (ss_pending (foldl f s cs)) \<le> length (ss_pending s)"
  by (induction cs arbitrary: s) (auto intro: order.trans)

lemma handle_success_length:
  "length (ss_pending (handle_success tb r ports s)) \<le> length (ss_pending s)"
  unfolding handle_success_def Let_def
  by (intro order.trans [OF propagation_pending_length(2)]
        order.trans [OF foldl_pending_length] foldl_pending_length propagation_pending_length(1))

lemma fail_loop_length: "length (ss_pending (fail_loop tb q seen s)) \<le> length (ss_pending s)"
proof (induction tb q seen s rule: fail_loop.induct)
  case (2 tb current queue seen s)
  then show ?case
    using fail_node_length [of tb current s]
    by (cases "fail_node tb current s") (fastforce intro: order.trans)
qed simp

lemma settle_length: "length (ss_pending (settle tb s o1)) \<le> length (ss_pending s)"
  using handle_success_length [of tb "st_ref o1" _ "log_event (Completed (st_ref o1)) (clear_handled (st_ref o1) s)"]
    fail_loop_length [of tb "[st_ref o1]" "[]" "record_failure (st_ref o1) _ s"]
  by (auto simp: settle_def handle_failure_def split: outcome.splits)

lemma take_batch_length:
  "take_batch is p = (ex, p') \<Longrightarrow> length p' \<le> length p \<and> (ex \<noteq> [] \<longrightarrow> length p' < length p)"
proof (induction "is" p arbitrary: ex p' rule: take_batch.induct)
  case (2 i "is" p)
  then show ?case
    using length_set_delete [of "ri_ref i" p] by (fastforce split: if_splits prod.splits)
qed simp

lemma start_batch_length:
  "start_batch entry s = (ex, s') \<Longrightarrow>
   length (ss_pending s') \<le> length (ss_pending s)
   \<and> (ex \<noteq> [] \<longrightarrow> length (ss_pending s') < length (ss_pending s)) \<and> ss_ready s' = []"
  by (auto simp: start_batch_def Let_def split: prod.splits dest: take_batch_length)

subsection \<open>The main loop\<close>

function sched_loop ::
  "node_ref \<Rightarrow> tables \<Rightarrow> 'w scheduler_options \<Rightarrow> sched_state \<Rightarrow> 'w
   \<Rightarrow> sched_result \<times> sched_state \<times> 'w" where
  "sched_loop entry tb opts s w =
     (if ss_pending s = [] then
        (if ss_failed s = [] then SchedFinished else SchedFailed (ss_failed s), s, w)
      else if ss_ready s = [] then (SchedDeadlock, s, w)
      else
        (case start_batch entry s of
           (ex, s1) \<Rightarrow>
             if ex = [] then sched_loop entry tb opts s1 w
             else
               (case run_batch (so_run opts) ex w of
                  (outcomes, w1) \<Rightarrow>
                    (let outcomes' = sort_key st_completed_at outcomes
                     in case find_cancellation opts outcomes' of
                          Some reason \<Rightarrow> (SchedCancelled reason, s1, w1)
                        | None \<Rightarrow> sched_loop entry tb opts (foldl (settle tb) s1 outcomes') w1))))"
  by pat_completeness auto
termination sched_loop
proof (relation "measures [\<lambda>(_, _, _, s, _). length (ss_pending s), \<lambda>(_, _, _, s, _). length (ss_ready s)]",
    goal_cases)
  case 1
  show ?case by simp
next
  case 2
  from start_batch_length [OF 2(3) [symmetric]] 2 show ?case by (auto simp: le_less)
next
  case 3
  have "length (ss_pending (foldl (settle tb) s1 os)) < n" if "length (ss_pending s1) < n"
    for tb s1 os n
    using foldl_pending_length [of "settle tb" s1 os, OF settle_length] that by (rule le_less_trans)
  with start_batch_length [OF 3(3) [symmetric]] 3(4) show ?case by simp
qed

declare sched_loop.simps [simp del]

definition run_workflow_with_scheduler ::
  "'a definition_core_scheme \<Rightarrow> 'w scheduler_options \<Rightarrow> 'w \<Rightarrow> sched_result \<times> sched_state \<times> 'w" where
  "run_workflow_with_scheduler d opts w =
     (let tb = build_tables (df_edges d)
      in sched_loop (df_entrypoint d) tb opts (initial_state d tb) w)"

end
