(* ===== verification/Scheduler_Contract.thy ===== *)
theory Scheduler_Contract
  imports Scheduler "HOL-Library.Multiset"
begin

section \<open>The contract of the scheduler's invariants\<close>

text \<open>
  What has to be shown once for every invariant of the scheduler, and the invariants that are.
  The locale \<open>scheduler_invariant\<close> extends the contract of the propagation with the updates
  of the failure queue and of the main loop; inside it, an invariant that holds initially with
  nothing owed holds at every turn of the loop and at its end.
\<close>

subsection \<open>The contract\<close>

definition owed_all :: "tables \<Rightarrow> node_ref list \<Rightarrow> token set" where
  "owed_all tb rs = (\<Union>r \<in> set rs. owed tb r)"

lemma running_refs_owed_all [simp]: "running_refs (owed_all tb rs) = {}"
  by (auto simp: owed_all_def running_refs_def owed_def)

lemma owed_all_simps [simp]:
  "owed_all tb [] = {}" "owed_all tb (r # rs) = owed tb r \<union> owed_all tb rs"
  "owed_all tb (rs @ rs') = owed_all tb rs \<union> owed_all tb rs'"
  by (auto simp: owed_all_def)

definition should_cancel :: "node_state \<Rightarrow> bool" where
  "should_cancel st \<longleftrightarrow>
     ns_strategy st = JoinAll \<or> (ns_success_parents st = [] \<and> \<not> ns_triggered_by_success st)"

definition unstrike :: "node_ref \<Rightarrow> node_state \<Rightarrow> node_state" where
  "unstrike p st = st\<lparr>ns_success_parents := set_delete p (ns_success_parents st)\<rparr>"

text \<open>
  What the outcome of an action may be: only the actions in \<open>F\<close> fail, only those in \<open>B\<close>
  complete with an inactive edge.
\<close>

definition outcome_within ::
  "tables \<Rightarrow> node_ref set \<Rightarrow> node_ref set \<Rightarrow> node_ref \<Rightarrow> outcome \<Rightarrow> bool" where
  "outcome_within tb B F r out \<longleftrightarrow>
     (case out of
        Rejected _ \<Rightarrow> r \<in> F
      | Fulfilled ports \<Rightarrow>
          r \<in> B \<or> (\<forall>e \<in> set (get_or [] (tb_success_edges tb) r). edge_active ports e))"

lemma fail_children_cases:
  obtains (ignored) "\<forall>st. \<not> accepts_parent s c r st"
      "fail_children tb r h (c # cs) s = fail_children tb r h cs s"
  | (handled) "h"
      "fail_children tb r h (c # cs) s
       = fail_children tb r h cs (process_child tb c r ParentSkipped s)"
  | (wait) st where "map_of (ss_nodes s) c = Some st" "\<not> ns_failure_triggered st"
      "c \<in> set (ss_pending s)" "r \<in> set (ns_success_parents st)" "\<not> h"
      "\<not> should_cancel (unstrike r st)"
      "fail_children tb r h (c # cs) s = fail_children tb r h cs (put_node c (unstrike r st) s)"
  | (cancel) st s' out where "map_of (ss_nodes s) c = Some st" "\<not> ns_failure_triggered st"
      "c \<in> set (ss_pending s)" "r \<in> set (ns_success_parents st)" "\<not> h"
      "should_cancel (unstrike r st)"
      "fail_children tb r h cs (cancel_child r c (unstrike r st) (put_node c (unstrike r st) s))
       = (s', out)"
      "fail_children tb r h (c # cs) s = (s', c # out)"
proof (cases "map_of (ss_nodes s) c")
  case None
  then show thesis by (intro ignored) (auto simp: accepts_parent_def)
next
  case (Some st)
  show thesis
  proof (cases "ns_failure_triggered st \<or> r \<notin> set (ns_success_parents st) \<or> c \<notin> set (ss_pending s)")
    case True
    with Some show thesis by (intro ignored) (auto simp: accepts_parent_def)
  next
    case False
    then have st: "\<not> ns_failure_triggered st" "r \<in> set (ns_success_parents st)" "c \<in> set (ss_pending s)"
      by simp_all
    obtain s' out where rest: "fail_children tb r h cs
        (cancel_child r c (unstrike r st) (put_node c (unstrike r st) s)) = (s', out)" by fastforce
    consider "h" | "\<not> h" "should_cancel (unstrike r st)" | "\<not> h" "\<not> should_cancel (unstrike r st)"
      by blast
    then show thesis
    proof cases
      case 1
      with Some st show thesis by (intro handled) simp_all
    next
      case 2
      with Some st rest show thesis
        by (intro cancel [OF Some]) (auto simp: should_cancel_def unstrike_def Let_def)
    next
      case 3
      with Some st show thesis
        by (intro wait [OF Some]) (simp_all add: should_cancel_def unstrike_def Let_def)
    qed
  qed
qed

declare fail_children.simps(2) [simp del]

lemma cancel_child_trace [simp]: "ss_trace (cancel_child r c st s) = ss_trace s @ [CancelledNode c]"
  by (simp add: cancel_child_def Let_def)

lemma trigger_failure_child_trace [simp]: "ss_trace (trigger_failure_child r f s c) = ss_trace s"
  by (simp add: trigger_failure_child_def Let_def split: option.splits)

lemma mark_failed_trace [simp]: "ss_trace (mark_failed r s) = ss_trace s"
  by (simp add: mark_failed_def split: option.splits)

lemma clear_handled_trace [simp]: "ss_trace (clear_handled r s) = ss_trace s"
  by (simp add: clear_handled_def split: option.splits)

lemma record_failure_trace [simp]: "ss_trace (record_failure r e s) = ss_trace s @ [Failed r]"
  by (simp add: record_failure_def)

interpretation pending_within:
  propagation_invariant tb "\<lambda>_ _ _. True" "\<lambda>_ _ _. True" "\<lambda>_ s. set (ss_pending s) \<subseteq> P" for tb P
  by unfold_locales auto

lemma process_child_pending_subset:
  "set (ss_pending (process_child tb c p ev s)) \<subseteq> set (ss_pending s)"
  "set (ss_trace s) \<subseteq> set (ss_trace (process_child tb c p ev s))"
  using pending_within.propagation(1) [of s "set (ss_pending s)"] by (simp_all add: grows_def)

lemma mark_inactive_pending_subset:
  "set (ss_pending (mark_inactive tb r cs s)) \<subseteq> set (ss_pending s)"
  using pending_within.propagation(4) [of s "set (ss_pending s)"] by (simp add: grows_def)

text \<open>What a run of the loop over the failed action's children cancels.\<close>

lemma fail_children_cancelled:
  "fail_children tb r h cs s = (s', out) \<Longrightarrow>
   distinct out \<and> set out \<subseteq> set (ss_pending s) \<and> set out \<inter> set (ss_pending s') = {}
   \<and> set (ss_pending s') \<subseteq> set (ss_pending s) \<and> (\<forall>c \<in> set out. CancelledNode c \<in> set (ss_trace s'))
   \<and> set (ss_trace s) \<subseteq> set (ss_trace s')"
proof (induction cs arbitrary: s s' out)
  case (Cons c cs)
  show ?case
  proof (cases rule: fail_children_cases [where tb = tb and r = r and h = h and c = c and cs = cs and s = s])
    case ignored
    with Cons show ?thesis by auto
  next
    case handled
    with Cons.prems Cons.IH [of "process_child tb c r ParentSkipped s" s' out]
      process_child_pending_subset [where tb = tb and c = c and p = r and ev = ParentSkipped and s = s]
    show ?thesis by auto
  next
    case (wait st)
    with Cons.prems Cons.IH [of "put_node c (unstrike r st) s" s' out] show ?thesis by simp
  next
    case (cancel st s2 out2)
    from Cons.IH [OF cancel(7)] cancel(3,8) Cons.prems show ?thesis by auto
  qed
qed simp

locale scheduler_invariant =
  propagation_invariant tb "parent_event_in B"
    "\<lambda>t r c. settled_in t r \<and> c \<in> set (failure_children tb r)" I
  for tb :: tables and B :: "node_ref set" and F :: "node_ref set" and I :: "token set \<Rightarrow> sched_state \<Rightarrow> bool" +
  assumes completed:
    "\<lbrakk>I Q s; Running r \<in> Q\<rbrakk>
     \<Longrightarrow> I (Q - {Running r} \<union> owed tb r) (log_event (Completed r) (clear_handled r s))"
  and failed:
    "\<lbrakk>I Q s; Running r \<in> Q; r \<in> F\<rbrakk> \<Longrightarrow> I (Q - {Running r} \<union> owed tb r) (record_failure r e s)"
  and marked: "\<lbrakk>I Q s; failed_in (ss_trace s) r\<rbrakk> \<Longrightarrow> I Q (mark_failed r s)"
  and triggered:
    "\<lbrakk>I Q s; failed_in (ss_trace s) r; c \<in> set (failure_children tb r)\<rbrakk>
     \<Longrightarrow> I (Q - {OweFailure r c}) (trigger_failure_child r f s c)"
  and unstruck:
    "\<lbrakk>I Q s; failed_in (ss_trace s) r; map_of (ss_nodes s) c = Some st; \<not> ns_failure_triggered st;
      c \<in> set (ss_pending s); r \<in> set (ns_success_parents st); \<not> should_cancel (unstrike r st)\<rbrakk>
     \<Longrightarrow> I (Q - {OweSuccess r c}) (put_node c (unstrike r st) s)"
  and cancelled:
    "\<lbrakk>I Q s; failed_in (ss_trace s) r; map_of (ss_nodes s) c = Some st; \<not> ns_failure_triggered st;
      c \<in> set (ss_pending s); r \<in> set (ns_success_parents st); should_cancel (unstrike r st)\<rbrakk>
     \<Longrightarrow> I (Q - {OweSuccess r c} \<union> owed tb c)
           (cancel_child r c (unstrike r st) (put_node c (unstrike r st) s))"
  and batch_started:
    "\<lbrakk>I {} s; start_batch entry s = (ex, s1)\<rbrakk> \<Longrightarrow> I (Running ` ri_ref ` set ex) s1"
begin

lemma keep_process_child:
  "I Q s \<Longrightarrow> parent_event_in B (ss_trace s) p ev \<Longrightarrow>
   I (Q - {OweSuccess p c}) (process_child tb c p ev s)
   \<and> set (ss_trace s) \<subseteq> set (ss_trace (process_child tb c p ev s))"
  using propagation(1) [of Q s p ev c] by (simp add: grows_def)

lemma keep_process_children:
  "I Q s \<Longrightarrow> parent_event_in B (ss_trace s) p ev \<Longrightarrow>
   I (Q - OweSuccess p ` set cs) (foldl (\<lambda>s c. process_child tb c p ev s) s cs)
   \<and> set (ss_trace s) \<subseteq> set (ss_trace (foldl (\<lambda>s c. process_child tb c p ev s) s cs))"
proof (induction cs arbitrary: Q s)
  case (Cons c cs)
  note 1 = keep_process_child [OF Cons.prems, of c]
  have "Q - OweSuccess p ` set (c # cs) = Q - {OweSuccess p c} - OweSuccess p ` set cs" by auto
  with Cons.IH [OF conjunct1 [OF 1] event_mono [OF conjunct2 [OF 1] Cons.prems(2)]] 1 show ?case
    by auto
qed simp

lemma keep_trigger_children:
  "I Q s \<Longrightarrow> failed_in (ss_trace s) r \<Longrightarrow> set cs \<subseteq> set (failure_children tb r) \<Longrightarrow>
   I (Q - OweFailure r ` set cs) (foldl (trigger_failure_child r f) s cs)
   \<and> ss_trace (foldl (trigger_failure_child r f) s cs) = ss_trace s"
proof (induction cs arbitrary: Q s)
  case (Cons c cs)
  have "Q - OweFailure r ` set (c # cs) = Q - {OweFailure r c} - OweFailure r ` set cs" by auto
  with Cons.IH [OF triggered [OF Cons.prems(1,2), of c f]] Cons.prems show ?case by simp
qed simp

lemma keep_fail_children:
  "I Q s \<Longrightarrow> failed_in (ss_trace s) r \<Longrightarrow> fail_children tb r h cs s = (s', out) \<Longrightarrow>
   I (Q - OweSuccess r ` set cs \<union> owed_all tb out) s'"
proof (induction cs arbitrary: Q s s' out)
  case (Cons c cs)
  have Q: "Q - OweSuccess r ` set (c # cs) = Q - {OweSuccess r c} - OweSuccess r ` set cs" by auto
  have ev: "parent_event_in B (ss_trace s) r ParentSkipped"
    using Cons.prems(2) by (auto simp: failed_in_def parent_event_in_def)
  show ?case
  proof (cases rule: fail_children_cases [where tb = tb and r = r and h = h and c = c and cs = cs and s = s])
    case ignored
    with Cons.prems(3) have rest: "fail_children tb r h cs s = (s', out)" by simp
    show ?thesis unfolding Q
      by (rule Cons.IH [OF success_ignored [OF Cons.prems(1) ev ignored(1)] Cons.prems(2) rest])
  next
    case handled
    note 1 = keep_process_child [OF Cons.prems(1) ev, of c]
    with Cons.IH [OF conjunct1 [OF 1] trace_facts_mono(3) [OF conjunct2 [OF 1] Cons.prems(2)]]
      handled Cons.prems show ?thesis unfolding Q by simp
  next
    case (wait st)
    from Cons.IH [OF unstruck [OF Cons.prems(1,2) wait(1,2,3,4,6)]] Cons.prems wait show ?thesis
      unfolding Q by simp
  next
    case (cancel st s2 out2)
    have "failed_in (ss_trace (cancel_child r c (unstrike r st) (put_node c (unstrike r st) s))) r"
      using Cons.prems(2) by (auto simp: failed_in_def)
    from Cons.IH [OF cancelled [OF Cons.prems(1,2) cancel(1,2,3,4,6)] this cancel(7)]
    have "I (Q - {OweSuccess r c} \<union> owed tb c - OweSuccess r ` set cs \<union> owed_all tb out2) s2" .
    then have "I (Q - OweSuccess r ` set (c # cs) \<union> owed_all tb (c # out2)) s2"
      unfolding Q by (rule weaken) auto
    with cancel Cons.prems(3) show ?thesis by simp
  qed
qed simp

lemma keep_fail_node:
  assumes "I (Q \<union> owed tb r) s" and "failed_in (ss_trace s) r" and "fail_node tb r s = (s', out)"
  shows "I (Q \<union> owed_all tb out) s'"
proof -
  let ?s1 = "mark_failed r s"
  obtain f where f: "fail_children tb r (failure_children tb r \<noteq> []) (success_targets tb r)
      (foldl (trigger_failure_child r f) ?s1 (failure_children tb r)) = (s', out)"
    using assms(3) by (auto simp: fail_node_def Let_def)
  let ?Q = "Q \<union> owed tb r - OweFailure r ` set (failure_children tb r)"
  have "I (Q \<union> owed tb r) ?s1" using marked assms(1,2) .
  from keep_trigger_children [OF this, of r "failure_children tb r" f] assms(2)
  have 2: "I ?Q (foldl (trigger_failure_child r f) ?s1 (failure_children tb r))"
    "failed_in (ss_trace (foldl (trigger_failure_child r f) ?s1 (failure_children tb r))) r"
    by simp_all
  from keep_fail_children [OF 2 f] show ?thesis
    by (rule weaken) (auto simp: owed_def)
qed

lemma keep_fail_loop:
  assumes "tb' = tb" and "I (Q \<union> owed_all tb q) s" and "\<forall>r \<in> set q. failed_in (ss_trace s) r"
    and "distinct q" and "set q \<inter> set seen = {}" and "(set q \<union> set seen) \<inter> set (ss_pending s) = {}"
  shows "I Q (fail_loop tb' q seen s)"
  using assms
proof (induction tb' q seen s rule: fail_loop.induct)
  case (2 tb' current queue seen s)
  obtain s' out where node: "fail_node tb current s = (s', out)" by fastforce
  let ?s1 = "mark_failed current s"
  obtain f where f: "fail_children tb current (failure_children tb current \<noteq> [])
      (success_targets tb current)
      (foldl (trigger_failure_child current f) ?s1 (failure_children tb current)) = (s', out)"
    using node by (auto simp: fail_node_def Let_def)
  have tr: "ss_trace (foldl (trigger_failure_child current f) ?s1 cs) = ss_trace s" for cs
    by (induction cs rule: rev_induct) simp_all
  from fail_children_cancelled [OF f]
  have out: "distinct out" "set out \<subseteq> set (ss_pending s)" "set out \<inter> set (ss_pending s') = {}"
    "set (ss_pending s') \<subseteq> set (ss_pending s)" "\<forall>c \<in> set out. CancelledNode c \<in> set (ss_trace s')"
    "set (ss_trace s) \<subseteq> set (ss_trace s')" by (simp_all add: tr)
  have "I ((Q \<union> owed_all tb queue) \<union> owed_all tb out) s'"
    using "2.prems" by (intro keep_fail_node [OF _ _ node]) (simp_all add: Un_ac)
  then have I': "I (Q \<union> owed_all tb (queue @ out)) s'" by (simp add: Un_ac)
  have "\<forall>r \<in> set (queue @ out). failed_in (ss_trace s') r"
    using "2.prems"(3) out(5) trace_facts_mono(3) [OF out(6)] by (auto simp: failed_in_def)
  moreover have "distinct (queue @ out)" "set (queue @ out) \<inter> set (set_add current seen) = {}"
    "(set (queue @ out) \<union> set (set_add current seen)) \<inter> set (ss_pending s') = {}"
    using "2.prems"(4-6) out(1-4) by (simp_all, blast+)
  moreover have "current \<notin> set seen" using "2.prems"(5) by simp
  ultimately have "I Q (fail_loop tb' (queue @ out) (set_add current seen) s')"
    using "2.IH"(2) [of s' out] "2.prems"(1) node I' by simp
  with node "2.prems"(1) \<open>current \<notin> set seen\<close> show ?case by simp
qed simp

lemma keep_handle_failure:
  assumes "I Q s" and "Running r \<in> Q" and "r \<notin> set (ss_pending s)" and "r \<in> F"
  shows "I (Q - {Running r}) (handle_failure tb r (record_failure r e s))"
  unfolding handle_failure_def
  using assms failed [OF assms(1,2,4), of e] by (intro keep_fail_loop) (simp_all add: failed_in_def)

lemma keep_handle_success:
  assumes "I (Q \<union> owed tb r) s" and "Completed r \<in> set (ss_trace s)"
    and "outcome_within tb B F r (Fulfilled ports)"
  shows "I Q (handle_success tb r ports s)"
proof -
  let ?es = "get_or [] (tb_success_edges tb) r"
  let ?trig = "set_of_list (map we_target (filter (edge_active ports) ?es))"
  let ?skip = "filter (\<lambda>c. c \<notin> set ?trig)
                 (set_of_list (map we_target (filter (\<lambda>e. \<not> edge_active ports e) ?es)))"
  let ?s1 = "foldl (\<lambda>s c. process_child tb c r ParentFulfilled s) s ?trig"
  let ?s2 = "foldl (\<lambda>s c. process_child tb c r ParentSkipped s) ?s1 ?skip"
  have "parent_event_in B (ss_trace s) r ParentFulfilled"
    using assms(2) by (simp add: parent_event_in_def)
  note 1 = keep_process_children [OF assms(1) this, of ?trig]
  have 2: "I (Q \<union> owed tb r - OweSuccess r ` set ?trig - OweSuccess r ` set ?skip) ?s2
           \<and> set (ss_trace ?s1) \<subseteq> set (ss_trace ?s2)"
  proof (cases "r \<in> B")
    case True
    then have "parent_event_in B (ss_trace ?s1) r ParentSkipped"
      using 1 assms(2) by (auto simp: parent_event_in_def)
    then show ?thesis by (intro keep_process_children conjunct1 [OF 1])
  next
    case False
    then have "?skip = []" using assms(3) by (simp add: outcome_within_def cong: filter_cong)
    with 1 show ?thesis by simp
  qed
  have "settled_in (ss_trace ?s2) r" using 1 2 assms(2) by (auto simp: settled_in_def)
  then have "\<forall>c \<in> set (failure_children tb r).
      settled_in (ss_trace ?s2) r \<and> c \<in> set (failure_children tb r)" by simp
  from propagation(4) [OF conjunct1 [OF 2] this]
  have "I (Q \<union> owed tb r - OweSuccess r ` set ?trig - OweSuccess r ` set ?skip
           - OweFailure r ` set (failure_children tb r)) (handle_success tb r ports s)"
    by (simp add: grows_def handle_success_def Let_def)
  moreover have "set (success_targets tb r) \<subseteq> set ?trig \<union> set ?skip"
    by (auto simp: success_targets_def)
  ultimately show ?thesis
    by (elim weaken) (auto simp: owed_def)
qed

lemma keep_settle:
  assumes "I Q s" and "Running (st_ref o1) \<in> Q" and "st_ref o1 \<notin> set (ss_pending s)"
    and "outcome_within tb B F (st_ref o1) (st_outcome o1)"
  shows "I (Q - {Running (st_ref o1)}) (settle tb s o1)"
proof (cases "st_outcome o1")
  case (Fulfilled ports)
  with keep_handle_success [OF completed [OF assms(1,2)]] assms(4) show ?thesis
    by (simp add: settle_def)
next
  case (Rejected e)
  with keep_handle_failure [OF assms(1-3)] assms(4) show ?thesis
    by (simp add: settle_def outcome_within_def)
qed

end

lemma foldl_pending_subset:
  "(\<And>s c. set (ss_pending (f s c)) \<subseteq> set (ss_pending s)) \<Longrightarrow>
   set (ss_pending (foldl f s cs)) \<subseteq> set (ss_pending s)"
proof (induction cs arbitrary: s)
  case (Cons c cs)
  from Cons.IH [of "f s c"] Cons.prems [of s c] Cons.prems show ?case by fastforce
qed simp

lemma fail_node_pending_subset:
  "fail_node tb r s = (s', out) \<Longrightarrow> set (ss_pending s') \<subseteq> set (ss_pending s)"
  by (auto simp: fail_node_def Let_def dest!: fail_children_cancelled)

lemma fail_loop_pending_subset: "set (ss_pending (fail_loop tb q seen s)) \<subseteq> set (ss_pending s)"
proof (induction tb q seen s rule: fail_loop.induct)
  case (2 tb current queue seen s)
  obtain s' out where node: "fail_node tb current s = (s', out)" by fastforce
  from fail_node_pending_subset [OF node] "2.IH"(1) "2.IH"(2) [OF _ node [symmetric]] node
  show ?case by (cases "current \<in> set seen") auto
qed simp

lemma handle_success_pending_subset:
  "set (ss_pending (handle_success tb r ports s)) \<subseteq> set (ss_pending s)"
  unfolding handle_success_def Let_def
  by (intro order.trans [OF mark_inactive_pending_subset]
        order.trans [OF foldl_pending_subset] foldl_pending_subset process_child_pending_subset(1))

lemma settle_pending_subset: "set (ss_pending (settle tb s o1)) \<subseteq> set (ss_pending s)"
proof (cases "st_outcome o1")
  case (Fulfilled ports)
  with handle_success_pending_subset [of tb "st_ref o1" ports
      "log_event (Completed (st_ref o1)) (clear_handled (st_ref o1) s)"]
  show ?thesis by (simp add: settle_def)
next
  case (Rejected e)
  with fail_loop_pending_subset [of tb "[st_ref o1]" "[]" "record_failure (st_ref o1) e s"]
  show ?thesis by (simp add: settle_def handle_failure_def)
qed

context scheduler_invariant
begin

lemma keep_settle_all:
  "I Q s \<Longrightarrow> Running ` st_ref ` set os \<subseteq> Q \<Longrightarrow> distinct (map st_ref os) \<Longrightarrow>
   st_ref ` set os \<inter> set (ss_pending s) = {} \<Longrightarrow>
   \<forall>o1 \<in> set os. outcome_within tb B F (st_ref o1) (st_outcome o1) \<Longrightarrow>
   I (Q - Running ` st_ref ` set os) (foldl (settle tb) s os)"
proof (induction os arbitrary: Q s)
  case (Cons o1 os)
  have "Q - Running ` st_ref ` set (o1 # os) = Q - {Running (st_ref o1)} - Running ` st_ref ` set os"
    by auto
  moreover have "I (Q - {Running (st_ref o1)}) (settle tb s o1)"
    using Cons.prems by (intro keep_settle) simp_all
  moreover have "Running ` st_ref ` set os \<subseteq> Q - {Running (st_ref o1)}"
    using Cons.prems(2,3) by (auto simp: image_iff)
  moreover have "st_ref ` set os \<inter> set (ss_pending (settle tb s o1)) = {}"
    using Cons.prems(4) settle_pending_subset [of tb s o1] by auto
  ultimately show ?case using Cons.IH Cons.prems by simp
qed simp

end

lemma distinct_map_sort_key: "distinct (map f (sort_key k xs)) \<longleftrightarrow> distinct (map f xs)"
proof -
  have "mset (map f (sort_key k xs)) = mset (map f xs)" by simp
  then show ?thesis by (metis mset_eq_imp_distinct_iff)
qed

lemma run_batch_refs:
  "run_batch run is w = (os, w') \<Longrightarrow> map st_ref os = map ri_ref is"
  by (induction "is" arbitrary: w os w') (auto split: prod.splits)

lemma run_batch_outcomes:
  "run_batch run is w = (os, w') \<Longrightarrow> o1 \<in> set os \<Longrightarrow>
   \<exists>c w1. st_outcome o1 = fst (fst (run (st_ref o1) c w1))"
proof (induction "is" arbitrary: w os w')
  case (Cons i "is")
  obtain out t w1 where run: "run (ri_ref i) (ri_context i) w = ((out, t), w1)" by (metis surj_pair)
  obtain rest w2 where rest: "run_batch run is w1 = (rest, w2)" by fastforce
  from Cons.prems run rest have "o1 \<in> set rest \<or> (st_ref o1 = ri_ref i \<and> st_outcome o1 = out)" by auto
  with Cons.IH [OF rest] run show ?case by (metis fst_conv)
qed simp

lemma take_batch_refs:
  "take_batch is p = (ex, p') \<Longrightarrow>
   distinct (map ri_ref ex) \<and> set ex \<subseteq> set is \<and> ri_ref ` set ex \<subseteq> set p
   \<and> set p' = set p - ri_ref ` set ex \<and> ri_ref ` set is \<inter> set p \<subseteq> ri_ref ` set ex
   \<and> (distinct p \<longrightarrow> distinct p')"
proof (induction "is" p arbitrary: ex p' rule: take_batch.induct)
  case (2 i "is" p)
  show ?case
  proof (cases "ri_ref i \<in> set p")
    case True
    obtain ex1 p1 where rest: "take_batch is (set_delete (ri_ref i) p) = (ex1, p1)" by fastforce
    with True "2.prems" have "ex = i # ex1" "p' = p1" by auto
    with "2.IH"(2) [OF _ rest] True show ?thesis by auto
  next
    case False
    with "2.IH"(1) "2.prems" show ?thesis by auto
  qed
qed simp

lemma start_batch_refs:
  assumes "start_batch entry s = (ex, s1)"
  shows "distinct (map ri_ref ex)" "set ex \<subseteq> set (ss_ready s)" "ri_ref ` set ex \<subseteq> set (ss_pending s)"
    "set (ss_pending s1) = set (ss_pending s) - ri_ref ` set ex"
    "ri_ref ` set (ss_ready s) \<inter> set (ss_pending s) \<subseteq> ri_ref ` set ex"
    "distinct (ss_pending s) \<Longrightarrow> distinct (ss_pending s1)"
    "ss_trace s1 = ss_trace s @ map (\<lambda>i. Started (ri_ref i) (ri_context i)) ex"
    "ss_nodes s1 = ss_nodes s" "ss_failed s1 = ss_failed s" "ss_handled s1 = ss_handled s"
    "ss_ready s1 = []"
  using assms by (auto simp: start_batch_def Let_def split: prod.splits dest!: take_batch_refs)

context scheduler_invariant
begin

lemma keep_batch:
  assumes "I {} s" and "start_batch entry s = (ex, s1)" and "run_batch run ex w = (os, w1)"
    and "set os' = set os" "distinct (map st_ref os')"
    and "\<And>r c w. outcome_within tb B F r (fst (fst (run r c w)))"
  shows "I {} (foldl (settle tb) s1 os')"
proof -
  have refs: "st_ref ` set os = ri_ref ` set ex"
    using run_batch_refs [OF assms(3)] by (metis list.set_map)
  have "I (Running ` st_ref ` set os' - Running ` st_ref ` set os') (foldl (settle tb) s1 os')"
  proof (rule keep_settle_all)
    show "I (Running ` st_ref ` set os') s1"
      using batch_started [OF assms(1,2)] by (simp add: assms(4) refs)
    show "st_ref ` set os' \<inter> set (ss_pending s1) = {}"
      using start_batch_refs(4) [OF assms(2)] by (auto simp: assms(4) refs)
    show "\<forall>o1 \<in> set os'. outcome_within tb B F (st_ref o1) (st_outcome o1)"
      using run_batch_outcomes [OF assms(3)] assms(6) by (metis assms(4))
  qed (use assms(5) in simp_all)
  then show ?thesis by simp
qed

theorem sched_loop_invariant:
  assumes "I {} s" and "\<And>r c w. outcome_within tb B F r (fst (fst (so_run opts r c w)))"
    and "sched_loop entry tb opts s w = (res, s', w')"
  shows "(case res of SchedCancelled _ \<Rightarrow> \<exists>Q. I Q s' | _ \<Rightarrow> I {} s')"
proof -
  have "tb' = tb \<Longrightarrow> I {} s \<Longrightarrow> opts' = opts \<Longrightarrow> sched_loop entry tb' opts' s w = (res, s', w') \<Longrightarrow>
    (case res of SchedCancelled _ \<Rightarrow> \<exists>Q. I Q s' | _ \<Rightarrow> I {} s')" for tb' opts'
  proof (induction entry tb' opts' s w rule: sched_loop.induct)
    case (1 entry tb' opts' s w)
    obtain ex s1 where b: "start_batch entry s = (ex, s1)" by fastforce
    obtain os w1 where r: "run_batch (so_run opts) ex w = (os, w1)" by fastforce
    note S = sched_loop.simps [of entry tb opts s w]
    consider "ss_pending s = [] \<or> ss_ready s = []"
      | "ss_pending s \<noteq> []" "ss_ready s \<noteq> []" "ex = []"
      | (run) "ss_pending s \<noteq> []" "ss_ready s \<noteq> []" "ex \<noteq> []" by blast
    then show ?case
    proof cases
      case 1
      with "1.prems" S show ?thesis by (auto split: if_splits)
    next
      case 2
      with "1.prems" S b "1.IH"(1) batch_started [OF "1.prems"(2) b] show ?thesis by auto
    next
      case run
      let ?os = "sort_key st_completed_at os"
      have next_s: "I {} (foldl (settle tb) s1 ?os)"
      proof (rule keep_batch [OF "1.prems"(2) b r _ _ assms(2)])
        show "distinct (map st_ref ?os)"
          using run_batch_refs [OF r] start_batch_refs(1) [OF b]
          by (metis distinct_map_sort_key)
      qed simp
      show ?thesis
      proof (cases "find_cancellation opts ?os")
        case (Some reason)
        with S run b r "1.prems" batch_started [OF "1.prems"(2) b] show ?thesis by auto
      next
        case None
        with S run b r "1.prems" next_s "1.IH"(2) show ?thesis by auto
      qed
    qed
  qed
  with assms show ?thesis by blast
qed

end

end
