(* ===== verification/Scheduler_Accounting.thy ===== *)
theory Scheduler_Accounting
  imports Scheduler_Contract
begin

section \<open>What the scheduler guarantees\<close>

text \<open>
  Four invariants of the scheduler, each an interpretation of \<open>scheduler_invariant\<close> on the
  model: \<open>accounted\<close> (every action is in exactly one place), \<open>justified\<close> (nothing starts
  before its join strategy and its error edges allow), \<open>live\<close> (a pending action waits for
  something that will happen), and what follows from them for a whole run.
\<close>

subsection \<open>Accounting\<close>

text \<open>The actions that have left \<open>pending\<close>, in order; and those whose outcome is known.\<close>

fun left_of :: "sched_event list \<Rightarrow> node_ref list" where
  "left_of [] = []"
| "left_of (Started r c # t) = r # left_of t"
| "left_of (SkippedNode r # t) = r # left_of t"
| "left_of (CancelledNode r # t) = r # left_of t"
| "left_of (_ # t) = left_of t"

fun ended_of :: "sched_event list \<Rightarrow> node_ref list" where
  "ended_of [] = []"
| "ended_of (Completed r # t) = r # ended_of t"
| "ended_of (Failed r # t) = r # ended_of t"
| "ended_of (_ # t) = ended_of t"

lemma left_of_append [simp]: "left_of (t @ t') = left_of t @ left_of t'"
  by (induction t rule: left_of.induct) simp_all

lemma ended_of_append [simp]: "ended_of (t @ t') = ended_of t @ ended_of t'"
  by (induction t rule: ended_of.induct) simp_all

lemma left_of_Started [simp]: "left_of (map (\<lambda>i. Started (f i) (g i)) xs) = map f xs"
  by (induction xs) simp_all

lemma ended_of_Started [simp]: "ended_of (map (\<lambda>i. Started (f i) (g i)) xs) = []"
  by (induction xs) simp_all

lemma set_left_of:
  "r \<in> set (left_of t) \<longleftrightarrow> (\<exists>c. Started r c \<in> set t) \<or> SkippedNode r \<in> set t \<or> CancelledNode r \<in> set t"
  by (induction t rule: left_of.induct) auto

lemma set_ended_of: "r \<in> set (ended_of t) \<longleftrightarrow> Completed r \<in> set t \<or> Failed r \<in> set t"
  by (induction t rule: ended_of.induct) auto

lemma left_of_exclusive:
  "distinct (left_of t) \<Longrightarrow> Started r c \<in> set t \<Longrightarrow>
   SkippedNode r \<notin> set t \<and> CancelledNode r \<notin> set t"
  by (induction t rule: left_of.induct) (auto simp: set_left_of)

definition flags_ok :: "sched_event list \<Rightarrow> node_ref \<Rightarrow> node_state \<Rightarrow> bool" where
  "flags_ok t r st \<longleftrightarrow>
     (ns_skipped st \<longrightarrow> SkippedNode r \<in> set t) \<and> (ns_failure_triggered st \<longrightarrow> failed_in t r)"

definition accounted :: "node_ref set \<Rightarrow> token set \<Rightarrow> sched_state \<Rightarrow> bool" where
  "accounted A Q s \<longleftrightarrow>
     distinct (ss_pending s @ left_of (ss_trace s))
     \<and> set (ss_pending s) \<union> set (left_of (ss_trace s)) = A
     \<and> distinct (ended_of (ss_trace s))
     \<and> (\<forall>r. (\<exists>c. Started r c \<in> set (ss_trace s)) \<longleftrightarrow> r \<in> set (ended_of (ss_trace s)) \<union> running_refs Q)
     \<and> set (ended_of (ss_trace s)) \<inter> running_refs Q = {}
     \<and> dom (map_of (ss_nodes s)) = A
     \<and> (\<forall>r st. map_of (ss_nodes s) r = Some st \<longrightarrow> flags_ok (ss_trace s) r st)
     \<and> fst ` set (ss_failed s) \<subseteq> {r. failed_in (ss_trace s) r}"

lemma accountedD:
  assumes "accounted A Q s"
  shows accounted_pending: "r \<in> set (ss_pending s) \<Longrightarrow>
      r \<in> A \<and> Running r \<notin> Q \<and> \<not> settled_in (ss_trace s) r \<and> Started r c \<notin> set (ss_trace s)"
    and accounted_running: "Running r \<in> Q \<Longrightarrow> r \<in> A \<and> r \<notin> set (ss_pending s) \<and> \<not> settled_in (ss_trace s) r"
    and accounted_settled: "settled_in (ss_trace s) r \<Longrightarrow> r \<in> A \<and> r \<notin> set (ss_pending s) \<and> Running r \<notin> Q"
    and accounted_cases: "r \<in> A \<Longrightarrow> r \<in> set (ss_pending s) \<or> settled_in (ss_trace s) r \<or> Running r \<in> Q"
    and accounted_nodes: "r \<in> A \<longleftrightarrow> (\<exists>st. map_of (ss_nodes s) r = Some st)"
proof -
  let ?L = "set (left_of (ss_trace s))" and ?E = "set (ended_of (ss_trace s))"
  have d: "set (ss_pending s) \<inter> ?L = {}" and u: "set (ss_pending s) \<union> ?L = A"
    and st: "\<And>r. (\<exists>c. Started r c \<in> set (ss_trace s)) \<longleftrightarrow> r \<in> ?E \<or> Running r \<in> Q"
    and e: "?E \<inter> running_refs Q = {}" and n: "dom (map_of (ss_nodes s)) = A"
    using assms by (auto simp: accounted_def running_refs_def)
  have L: "r \<in> ?L \<longleftrightarrow> r \<in> ?E \<or> Running r \<in> Q \<or> SkippedNode r \<in> set (ss_trace s)
             \<or> CancelledNode r \<in> set (ss_trace s)" for r
    by (simp only: set_left_of st disj_assoc)
  have S: "settled_in (ss_trace s) r \<longleftrightarrow> r \<in> ?E \<or> SkippedNode r \<in> set (ss_trace s)
             \<or> CancelledNode r \<in> set (ss_trace s)" for r
    by (auto simp: settled_in_def set_ended_of)
  show "r \<in> set (ss_pending s) \<Longrightarrow>
      r \<in> A \<and> Running r \<notin> Q \<and> \<not> settled_in (ss_trace s) r \<and> Started r c \<notin> set (ss_trace s)"
    using d u L [of r] S [of r] st [of r] by blast
  have dist: "distinct (left_of (ss_trace s))" using assms by (simp add: accounted_def)
  show "Running r \<in> Q \<Longrightarrow> r \<in> A \<and> r \<notin> set (ss_pending s) \<and> \<not> settled_in (ss_trace s) r"
    and "settled_in (ss_trace s) r \<Longrightarrow> r \<in> A \<and> r \<notin> set (ss_pending s) \<and> Running r \<notin> Q"
    using d u e L [of r] S [of r] st [of r] left_of_exclusive [OF dist, of r]
    by (auto simp: running_refs_def)
  show "r \<in> A \<Longrightarrow> r \<in> set (ss_pending s) \<or> settled_in (ss_trace s) r \<or> Running r \<in> Q"
    using u L [of r] S [of r] by blast
  show "r \<in> A \<longleftrightarrow> (\<exists>st. map_of (ss_nodes s) r = Some st)" using n by auto
qed

lemma accounted_upd:
  assumes "accounted A Q s" and "running_refs Q' = running_refs Q"
    and "ss_pending s' = ss_pending s" and "ss_trace s' = ss_trace s" and "ss_failed s' = ss_failed s"
    and "map_of (ss_nodes s) c = Some st" and "map_of (ss_nodes s') = (map_of (ss_nodes s))(c \<mapsto> st')"
    and "ns_skipped st' = ns_skipped st" and "ns_failure_triggered st' = ns_failure_triggered st"
  shows "accounted A Q' s'"
  using assms(1,6-9) unfolding accounted_def assms(2-5) flags_ok_def by (elim conjE) (auto 0 3)

lemma flags_ok_mono: "flags_ok t c st \<Longrightarrow> set t \<subseteq> set t' \<Longrightarrow> flags_ok t' c st"
  by (auto simp: flags_ok_def failed_in_def)

lemma flags_ok_upd:
  assumes "accounted A Q s" and "nodes c = Some st" and "set (ss_trace s) \<subseteq> set t"
    and "nodes = map_of (ss_nodes s) \<or> nodes = (map_of (ss_nodes s))(r \<mapsto> st1)" and "flags_ok t r st1"
  shows "flags_ok t c st"
proof (cases "nodes = (map_of (ss_nodes s))(r \<mapsto> st1) \<and> c = r")
  case True
  with assms show ?thesis by auto
next
  case False
  with assms(2,4) have "map_of (ss_nodes s) c = Some st" by (auto split: if_splits)
  with assms(1) have "flags_ok (ss_trace s) c st" by (simp add: accounted_def)
  then show ?thesis using assms(3) by (rule flags_ok_mono)
qed

lemma accounted_flags: "accounted A Q s \<Longrightarrow> map_of (ss_nodes s) c = Some st \<Longrightarrow> flags_ok (ss_trace s) c st"
  by (simp add: accounted_def)

lemma accounted_skip:
  assumes "accounted A Q s" and "r \<in> set (ss_pending s)" and "running_refs Q' = running_refs Q"
  shows "accounted A Q' (mark_skipped r s)"
proof -
  obtain st where st: "map_of (ss_nodes s) r = Some st"
    using assms accountedD(1,5) by blast
  then have nodes: "map_of (ss_nodes (mark_skipped r s)) = (map_of (ss_nodes s))(r \<mapsto> st\<lparr>ns_skipped := True\<rparr>)"
    and failed: "ss_failed (mark_skipped r s) = ss_failed s"
    by (simp_all add: mark_skipped_def put_node_def log_event_def)
  have nl: "r \<notin> set (left_of (ss_trace s))" using assms(1,2) by (auto simp: accounted_def)
  have fl: "flags_ok (ss_trace s @ [SkippedNode r]) r (st\<lparr>ns_skipped := True\<rparr>)"
    using accounted_flags [OF assms(1) st] by (auto simp: flags_ok_def failed_in_def)
  have "flags_ok (ss_trace s @ [SkippedNode r]) c st'"
    if "map_of (ss_nodes (mark_skipped r s)) c = Some st'" for c st'
    using flags_ok_upd [where nodes = "map_of (ss_nodes (mark_skipped r s))", OF assms(1) that _ _ fl]
    by (auto simp: nodes)
  moreover have "dom (map_of (ss_nodes (mark_skipped r s))) = A"
    using assms(1) st by (auto simp: nodes accounted_def)
  ultimately show ?thesis
    using assms(1,2) nl by (auto simp: accounted_def failed assms(3) failed_in_def subset_iff)
qed

lemma accounted_cancel:
  assumes "accounted A Q s" and "c \<in> set (ss_pending s)" and "running_refs Q' = running_refs Q"
    and "map_of (ss_nodes s) c = Some st" and "ns_skipped st' = ns_skipped st"
    and "ss_trace s1 = ss_trace s" "ss_pending s1 = ss_pending s" "ss_failed s1 = ss_failed s"
    and "map_of (ss_nodes s1) = (map_of (ss_nodes s))(c \<mapsto> st')"
  shows "accounted A Q' (cancel_child r c st' s1)"
proof -
  let ?s = "cancel_child r c st' s1"
  have nodes: "map_of (ss_nodes ?s) = (map_of (ss_nodes s))(c \<mapsto> st'\<lparr>ns_failure_triggered := True\<rparr>)"
    and failed: "fst ` set (ss_failed ?s) = insert c (fst ` set (ss_failed s))"
    by (simp_all add: cancel_child_def Let_def assms)
  have nl: "c \<notin> set (left_of (ss_trace s))" using assms(1,2) by (auto simp: accounted_def)
  have fl: "flags_ok (ss_trace s @ [CancelledNode c]) c (st'\<lparr>ns_failure_triggered := True\<rparr>)"
    using accounted_flags [OF assms(1,4)] assms(5) by (auto simp: flags_ok_def failed_in_def)
  have "flags_ok (ss_trace s @ [CancelledNode c]) r1 st1" if "map_of (ss_nodes ?s) r1 = Some st1" for r1 st1
    using flags_ok_upd [where nodes = "map_of (ss_nodes ?s)", OF assms(1) that _ _ fl] by (auto simp: nodes)
  moreover have "dom (map_of (ss_nodes ?s)) = A"
    using assms(1,4) by (auto simp: nodes accounted_def)
  ultimately show ?thesis
    using assms(1,2) nl
    by (auto simp: accounted_def failed assms(3,6,7) failed_in_def subset_iff)
qed

lemma accounted_end:
  assumes "accounted A Q s" and "Running r \<in> Q" and "running_refs Q' = running_refs Q - {r}"
    and "ss_pending s' = ss_pending s" "map_of (ss_nodes s') = map_of (ss_nodes s)"
    and "(ss_trace s' = ss_trace s @ [Completed r] \<and> fst ` set (ss_failed s') \<subseteq> fst ` set (ss_failed s))
         \<or> (ss_trace s' = ss_trace s @ [Failed r]
             \<and> fst ` set (ss_failed s') \<subseteq> insert r (fst ` set (ss_failed s)))"
  shows "accounted A Q' s'"
proof -
  have run: "r \<in> running_refs Q" using assms(2) by (simp add: running_refs_def)
  have mono: "set (ss_trace s) \<subseteq> set (ss_trace s')" using assms(6) by auto
  then have "flags_ok (ss_trace s') c st" if "map_of (ss_nodes s') c = Some st" for c st
    using flags_ok_mono accounted_flags [OF assms(1)] that assms(5) by metis
  then have flags: "\<forall>c st. map_of (ss_nodes s') c = Some st \<longrightarrow> flags_ok (ss_trace s') c st" by blast
  have l: "left_of (ss_trace s') = left_of (ss_trace s)"
    and e: "ended_of (ss_trace s') = ended_of (ss_trace s) @ [r]"
    and st: "\<And>r c. Started r c \<in> set (ss_trace s') \<longleftrightarrow> Started r c \<in> set (ss_trace s)"
    using assms(6) by auto
  have "fst ` set (ss_failed s') \<subseteq> fst ` set (ss_failed s) \<union> {c. Failed c \<in> set (ss_trace s')}"
    using assms(6) by auto
  moreover have "fst ` set (ss_failed s) \<subseteq> {c. failed_in (ss_trace s) c}"
    using assms(1) by (simp add: accounted_def)
  ultimately have f: "fst ` set (ss_failed s') \<subseteq> {c. failed_in (ss_trace s') c}"
    using trace_facts_mono(3) [OF mono]
    unfolding failed_in_def by blast
  have "r \<notin> set (ended_of (ss_trace s))" using assms(1) run by (auto simp: accounted_def)
  with assms(1) run flags f show ?thesis
    unfolding accounted_def l e st assms(3-5) by auto
qed

lemma accounted_mark_failed:
  assumes "accounted A Q s" and "failed_in (ss_trace s) r"
  shows "accounted A Q (mark_failed r s)"
proof (cases "map_of (ss_nodes s) r")
  case None
  with assms show ?thesis by (simp add: mark_failed_def)
next
  case (Some st)
  let ?st = "st\<lparr>ns_failure_triggered := True\<rparr>"
  have s: "mark_failed r s = put_node r ?st s" by (simp add: mark_failed_def Some)
  have fl: "flags_ok (ss_trace s) r ?st"
    using accounted_flags [OF assms(1) Some] assms(2) by (simp add: flags_ok_def)
  have "flags_ok (ss_trace s) c st'" if "map_of (ss_nodes (put_node r ?st s)) c = Some st'" for c st'
    using flags_ok_upd [where nodes = "map_of (ss_nodes (put_node r ?st s))", OF assms(1) that _ _ fl]
    by auto
  with assms(1) Some show ?thesis unfolding s accounted_def by auto
qed

lemma accounted_start:
  assumes "accounted A {} s" and "start_batch entry s = (ex, s1)"
  shows "accounted A (Running ` ri_ref ` set ex) s1"
proof -
  note b = start_batch_refs [OF assms(2)]
  have "distinct (ss_pending s1 @ left_of (ss_trace s1))"
    and "set (ss_pending s1) \<union> set (left_of (ss_trace s1)) = A"
    using b(1,3,4,6) assms(1) by (auto simp: accounted_def b(7))
  moreover have "set (ended_of (ss_trace s)) \<inter> ri_ref ` set ex = {}"
    using b(3) accounted_pending [OF assms(1)] by (auto simp: settled_in_def set_ended_of)
  moreover have "(\<exists>c. Started r c \<in> set (ss_trace s1)) \<longleftrightarrow>
      (\<exists>c. Started r c \<in> set (ss_trace s)) \<or> r \<in> ri_ref ` set ex" for r
    by (auto simp: b(7))
  moreover have "flags_ok (ss_trace s1) c st" if "map_of (ss_nodes s) c = Some st" for c st
    using accounted_flags [OF assms(1) that] by (rule flags_ok_mono) (auto simp: b(7))
  ultimately show ?thesis
    using assms(1) by (auto simp: accounted_def b(7-9) failed_in_def)
qed

text \<open>The updates of one child, seen by an invariant that reads its state.\<close>

lemma fire_child_nodes:
  "map_of (ss_nodes (fire_child c p st s)) = (map_of (ss_nodes s))(c \<mapsto> st\<lparr>ns_triggered_by_success := True\<rparr>)"
  "ss_failed (fire_child c p st s) = ss_failed s"
  by (simp_all add: fire_child_def queue_ready_if_satisfied_by_failure_state_def Let_def)

definition error_mark :: "node_ref \<Rightarrow> failure_info \<Rightarrow> node_state \<Rightarrow> node_state" where
  "error_mark r f st = st\<lparr>ns_error_triggered_by := Some r, ns_error_failure := Some f\<rparr>"

lemma trigger_failure_child_cases:
  obtains (ignored) "trigger_failure_child r f s c = s"
      "\<forall>st. map_of (ss_nodes s) c = Some st \<longrightarrow> ns_failure_triggered st"
  | (triggered) st where "map_of (ss_nodes s) c = Some st" "\<not> ns_failure_triggered st"
      "map_of (ss_nodes (trigger_failure_child r f s c)) = (map_of (ss_nodes s))(c \<mapsto> error_mark r f st)"
      "ss_failed (trigger_failure_child r f s c) = ss_failed s"
      "ss_ready (trigger_failure_child r f s c) =
         (if ns_success_parents st = [] \<and> \<not> ns_skipped st
          then ss_ready s @ [\<lparr>ri_ref = c, ri_context =
                 \<lparr>rc_strategy = ns_strategy st, rc_triggered_by = Some r, rc_failure = Some f\<rparr>\<rparr>]
          else ss_ready s)"
      "ss_handled (trigger_failure_child r f s c)
       = AList.update c (set_add r (get_or [] (ss_handled s) c)) (ss_handled s)"
proof (cases "map_of (ss_nodes s) c")
  case None
  then show thesis by (intro ignored) (simp_all add: trigger_failure_child_def)
next
  case (Some st)
  show thesis
  proof (cases "ns_failure_triggered st")
    case True
    with Some show thesis by (intro ignored) (simp_all add: trigger_failure_child_def)
  next
    case False
    with Some show thesis
      by (intro triggered) (auto simp: trigger_failure_child_def Let_def error_mark_def
        put_node_def push_ready_def)
  qed
qed

lemma clear_handled_nodes:
  "map_of (ss_nodes (clear_handled r s)) = map_of (ss_nodes s)"
  "ss_nodes (clear_handled r s) = ss_nodes s"
  "ss_ready (clear_handled r s) = ss_ready s"
  "fst ` set (ss_failed (clear_handled r s)) \<subseteq> fst ` set (ss_failed s)"
proof -
  have "fst ` set (foldl (\<lambda>m k. AList.delete k m) m ks) \<subseteq> fst ` set m"
    for m :: "(node_ref, failure_reason) js_map" and ks :: "node_ref list"
  proof (induction ks arbitrary: m)
    case (Cons k ks)
    from Cons [of "AList.delete k m"] show ?case by (auto simp: AList.delete_eq)
  qed simp
  then show "fst ` set (ss_failed (clear_handled r s)) \<subseteq> fst ` set (ss_failed s)"
    by (simp add: clear_handled_def split: option.splits)
qed (simp_all add: clear_handled_def split: option.splits)

interpretation accounting: scheduler_invariant tb B F "accounted A" for tb B F A
proof (unfold_locales, goal_cases)
  case (1 t t' r ev) then show ?case by (rule trace_facts_mono)
next
  case (2 r t) then show ?case by (simp add: parent_event_in_def)
next
  case (3 t t' r c) then show ?case by (auto intro: trace_facts_mono)
next
  case (4 r t c) then show ?case by (simp add: settled_in_def)
next
  case (5 Q s Q') then show ?case by (simp add: accounted_def)
next
  case (6 Q s p ev c) then show ?case by (simp add: accounted_def)
next
  case (7 Q s r c) then show ?case by (simp add: accounted_def)
next
  case (8 Q s p ev c st)
  then show ?case
    by (intro accounted_upd [OF 8(1), where c = c and st = st]) (auto simp: accepts_parent_def strike_parent_def)
next
  case (9 Q s p ev c st)
  then show ?case
    by (intro accounted_upd [OF 9(1), where c = c and st = st]) (auto simp: accepts_parent_def strike_parent_def fire_child_nodes)
next
  case (10 Q s p ev c st)
  have "accounted A Q (put_node c (strike_parent p ev st) s)" using 10
    by (intro accounted_upd [OF 10(1), where c = c and st = st]) (auto simp: accepts_parent_def strike_parent_def)
  with 10(3) show ?case by (intro accounted_skip) (auto simp: accepts_parent_def)
next
  case (11 Q s r c st)
  then show ?case
    by (intro accounted_upd [OF 11(1), where c = c and st = st]) (auto simp: open_node_def inactive_mark_def)
next
  case (12 Q s r c st)
  have "accounted A Q (put_node c (inactive_mark r st) s)" using 12
    by (intro accounted_upd [OF 12(1), where c = c and st = st]) (auto simp: open_node_def inactive_mark_def)
  with 12(3) show ?case by (intro accounted_skip) (auto simp: open_node_def)
next
  case (13 Q s r)
  then show ?case by (intro accounted_end [OF 13]) (simp_all add: clear_handled_nodes)
next
  case (14 Q s r e)
  then show ?case by (intro accounted_end [OF 14(1,2)]) (simp_all add: record_failure_def)
next
  case (15 Q s r) then show ?case by (rule accounted_mark_failed)
next
  case (16 Q s r c f)
  show ?case
  proof (cases rule: trigger_failure_child_cases [where s = s and c = c and r = r and f = f])
    case ignored
    with 16(1) show ?thesis by (simp add: accounted_def)
  next
    case (triggered st)
    then show ?thesis
      by (intro accounted_upd [OF 16(1), where c = c and st = st and st' = "error_mark r f st"])
        (auto simp: error_mark_def)
  qed
next
  case (17 Q s r c st)
  then show ?case
    by (intro accounted_upd [OF 17(1), where c = c and st = st and st' = "unstrike r st"])
      (auto simp: unstrike_def)
next
  case (18 Q s r c st)
  then show ?case by (intro accounted_cancel [OF 18(1)]) (auto simp: unstrike_def)
next
  case (19 s entry ex s1) then show ?case by (rule accounted_start)
qed

subsection \<open>The initial state and the end of a run\<close>

definition action_refs :: "'a definition_core_scheme \<Rightarrow> node_ref set" where
  "action_refs d = ac_ref ` set (df_actions d)"

lemma add_initial_action_simps:
  "ss_pending (add_initial_action d tb s r) = set_add r (ss_pending s)"
  "ss_nodes (add_initial_action d tb s r) = AList.update r (initial_node_state d tb r) (ss_nodes s)"
  "ss_failed (add_initial_action d tb s r) = ss_failed s"
  "ss_handled (add_initial_action d tb s r) = ss_handled s"
  "ss_trace (add_initial_action d tb s r) = ss_trace s"
  "i \<in> set (ss_ready (add_initial_action d tb s r)) \<longleftrightarrow> i \<in> set (ss_ready s) \<or>
     (i = \<lparr>ri_ref = r, ri_context = \<lparr>rc_strategy = join_strategy_of d r, rc_triggered_by = None,
                                    rc_failure = None\<rparr>\<rparr>
      \<and> get_or [] (tb_success_parents tb) r = [] \<and> get_or [] (tb_failure_parents tb) r = [])"
  by (auto simp: add_initial_action_def Let_def initial_node_state_def)

lemma foldl_add_initial:
  fixes tb d rs s defines "s' \<equiv> foldl (add_initial_action d tb) s rs"
  shows "set (ss_pending s') = set (ss_pending s) \<union> set rs" "distinct (ss_pending s) \<Longrightarrow> distinct (ss_pending s')"
    "map_of (ss_nodes s') r = (if r \<in> set rs then Some (initial_node_state d tb r) else map_of (ss_nodes s) r)"
    "ss_failed s' = ss_failed s" "ss_handled s' = ss_handled s" "ss_trace s' = ss_trace s"
    "i \<in> set (ss_ready s') \<longleftrightarrow> i \<in> set (ss_ready s) \<or>
     (ri_ref i \<in> set rs \<and> ri_context i = \<lparr>rc_strategy = join_strategy_of d (ri_ref i), rc_triggered_by = None,
                                    rc_failure = None\<rparr>
      \<and> get_or [] (tb_success_parents tb) (ri_ref i) = [] \<and> get_or [] (tb_failure_parents tb) (ri_ref i) = [])"
  unfolding s'_def
  by (induction rs arbitrary: s) (auto simp: add_initial_action_simps)

lemma initial_state_simps:
  "set (ss_pending (initial_state d tb)) = action_refs d" "distinct (ss_pending (initial_state d tb))"
  "map_of (ss_nodes (initial_state d tb)) r =
     (if r \<in> action_refs d then Some (initial_node_state d tb r) else None)"
  "ss_failed (initial_state d tb) = []" "ss_handled (initial_state d tb) = []"
  "ss_trace (initial_state d tb) = []"
  "i \<in> set (ss_ready (initial_state d tb)) \<longleftrightarrow>
     ri_ref i \<in> action_refs d \<and> ri_context i = \<lparr>rc_strategy = join_strategy_of d (ri_ref i), rc_triggered_by = None,
                                    rc_failure = None\<rparr>
      \<and> get_or [] (tb_success_parents tb) (ri_ref i) = [] \<and> get_or [] (tb_failure_parents tb) (ri_ref i) = []"
  by (simp_all add: initial_state_def foldl_add_initial action_refs_def)

lemma accounted_initial: "accounted (action_refs d) {} (initial_state d tb)"
  by (auto simp: accounted_def initial_state_simps dom_def flags_ok_def initial_node_state_def Let_def
      split: if_splits)

lemma find_cancellation_Some:
  "find_cancellation opts os = Some e \<Longrightarrow>
   so_preserve_cancellation opts
   \<and> (\<exists>o1 \<in> set os. st_outcome o1 = Rejected e \<and> so_is_cancellation opts e)"
  by (auto simp: find_cancellation_def filter_eq_Cons_iff split: if_splits list.splits outcome.splits)

lemma sched_loop_exit:
  "sched_loop entry tb opts s w = (res, s', w') \<Longrightarrow>
   (case res of
      SchedFinished \<Rightarrow> ss_pending s' = [] \<and> ss_failed s' = []
    | SchedFailed f \<Rightarrow> ss_pending s' = [] \<and> f = ss_failed s' \<and> f \<noteq> []
    | SchedDeadlock \<Rightarrow> ss_pending s' \<noteq> [] \<and> ss_ready s' = []
    | SchedCancelled e \<Rightarrow> so_preserve_cancellation opts \<and> so_is_cancellation opts e
        \<and> (\<exists>r c w1. fst (fst (so_run opts r c w1)) = Rejected e))"
proof (induction entry tb opts s w rule: sched_loop.induct)
  case (1 entry tb opts s w)
  obtain ex s1 where b: "start_batch entry s = (ex, s1)" by fastforce
  obtain os w1 where r: "run_batch (so_run opts) ex w = (os, w1)" by fastforce
  note S = sched_loop.simps [of entry tb opts s w]
  consider "ss_pending s = [] \<or> ss_ready s = []"
    | "ss_pending s \<noteq> []" "ss_ready s \<noteq> []" "ex = []"
    | (run) "ss_pending s \<noteq> []" "ss_ready s \<noteq> []" "ex \<noteq> []" by blast
  then show ?case
  proof cases
    case 1
    with "1.prems" S show ?thesis by (auto split: if_splits)
  next
    case 2
    with "1.prems" S b "1.IH"(1) show ?thesis by auto
  next
    case run
    show ?thesis
    proof (cases "find_cancellation opts (sort_key st_completed_at os)")
      case (Some reason)
      with find_cancellation_Some [OF Some] obtain o1 where
        o1: "o1 \<in> set os" "st_outcome o1 = Rejected reason" "so_is_cancellation opts reason"
          "so_preserve_cancellation opts" by auto
      with run_batch_outcomes [OF r o1(1)] S run b r "1.prems" Some show ?thesis by auto metis
    next
      case None
      with S run b r "1.prems" "1.IH"(2) show ?thesis by auto
    qed
  qed
qed

lemma outcome_UNIV [simp]: "outcome_within tb UNIV UNIV r out"
  by (simp add: outcome_within_def split: outcome.splits)

lemma run_accounted:
  assumes "run_workflow_with_scheduler d opts w = (res, s, w')"
  shows "\<exists>Q. accounted (action_refs d) Q s \<and> ((\<exists>e. res = SchedCancelled e) \<or> Q = {})"
proof -
  have run: "sched_loop (df_entrypoint d) (build_tables (df_edges d)) opts
      (initial_state d (build_tables (df_edges d))) w = (res, s, w')"
    using assms by (simp add: run_workflow_with_scheduler_def Let_def)
  from accounting.sched_loop_invariant [where B = UNIV and F = UNIV, OF accounted_initial _ run] show ?thesis
    by (auto split: sched_result.splits)
qed

subsection \<open>The tables of the edges\<close>

definition success_parents :: "tables \<Rightarrow> node_ref \<Rightarrow> node_ref set" where
  "success_parents tb c = set (get_or [] (tb_success_parents tb) c)"

definition error_parents :: "tables \<Rightarrow> node_ref \<Rightarrow> node_ref set" where
  "error_parents tb c = set (get_or [] (tb_failure_parents tb) c)"

lemma add_table_edge_lookups:
  "get_or [] (tb_success_edges (add_table_edge tb e)) r =
     get_or [] (tb_success_edges tb) r @ (if we_kind e \<noteq> ErrorEdge \<and> we_source e = r then [e] else [])"
  "failure_children (add_table_edge tb e) r =
     failure_children tb r @ (if we_kind e = ErrorEdge \<and> we_source e = r then [we_target e] else [])"
  "get_or [] (tb_success_parents (add_table_edge tb e)) c =
     (if we_kind e \<noteq> ErrorEdge \<and> we_target e = c
      then set_add (we_source e) (get_or [] (tb_success_parents tb) c) else get_or [] (tb_success_parents tb) c)"
  "get_or [] (tb_failure_parents (add_table_edge tb e)) c =
     (if we_kind e = ErrorEdge \<and> we_target e = c
      then set_add (we_source e) (get_or [] (tb_failure_parents tb) c) else get_or [] (tb_failure_parents tb) c)"
  by (simp_all add: add_table_edge_def failure_children_def)

lemma build_tables_spec:
  "get_or [] (tb_success_edges (build_tables es)) r =
     filter (\<lambda>e. we_kind e \<noteq> ErrorEdge \<and> we_source e = r) es"
  "failure_children (build_tables es) r =
     map we_target (filter (\<lambda>e. we_kind e = ErrorEdge \<and> we_source e = r) es)"
  "success_parents (build_tables es) c = we_source ` {e \<in> set es. we_kind e \<noteq> ErrorEdge \<and> we_target e = c}"
  "error_parents (build_tables es) c = we_source ` {e \<in> set es. we_kind e = ErrorEdge \<and> we_target e = c}"
  "distinct (get_or [] (tb_success_parents (build_tables es)) c)"
  "distinct (get_or [] (tb_failure_parents (build_tables es)) c)"
proof (induction es rule: rev_induct)
  case Nil
  {
    case 1 show ?case by (simp add: build_tables_def)
  next
    case 2 show ?case by (simp add: build_tables_def failure_children_def)
  next
    case 3 show ?case by (simp add: build_tables_def success_parents_def)
  next
    case 4 show ?case by (simp add: build_tables_def error_parents_def)
  next
    case 5 show ?case by (simp add: build_tables_def)
  next
    case 6 show ?case by (simp add: build_tables_def)
  }
next
  case (snoc e es)
  have b: "build_tables (es @ [e]) = add_table_edge (build_tables es) e" by (simp add: build_tables_def)
  {
    case 1 from snoc(1) show ?case by (simp add: b add_table_edge_lookups)
  next
    case 2 from snoc(2) show ?case by (simp add: b add_table_edge_lookups)
  next
    case 3 from snoc(3) show ?case by (auto simp: b success_parents_def add_table_edge_lookups image_iff)
  next
    case 4 from snoc(4) show ?case by (auto simp: b error_parents_def add_table_edge_lookups image_iff)
  next
    case 5 from snoc(5) show ?case by (simp add: b add_table_edge_lookups)
  next
    case 6 from snoc(6) show ?case by (simp add: b add_table_edge_lookups)
  }
qed

lemma failure_child_parent:
  "c \<in> set (failure_children (build_tables es) r) \<longleftrightarrow> r \<in> error_parents (build_tables es) c"
  by (auto simp: build_tables_spec)

lemma success_target_parent:
  "c \<in> set (success_targets (build_tables es) r) \<longleftrightarrow> r \<in> success_parents (build_tables es) c"
  by (auto simp: build_tables_spec success_targets_def)

subsection \<open>Every action is accounted for\<close>

text \<open>A small workflow to apply the theorems to: \<open>s\<close> leads to \<open>p\<close> and \<open>q\<close>, which join in \<open>j\<close>.\<close>

definition demo_workflow ::
  "node_ref list \<Rightarrow> (node_ref \<times> edge_kind \<times> node_ref) list \<Rightarrow> (node_ref \<times> join_strategy) list \<Rightarrow> definition_core" where
  "demo_workflow rs es js =
     \<lparr>df_version = 2, df_title = ''demo'', df_description = None, df_entrypoint = hd rs,
      df_nodes = map (\<lambda>(r, j). (r, \<lparr>nm_ref = r, nm_mode = JUndefined, nm_label = None,
                 nm_join = Some j, nm_stream = None, nm_group = None, nm_max_concurrency = None,
                 nm_tool_config = JUndefined, nm_connected_tools = None\<rparr>)) js,
      df_edges = map (\<lambda>(a, k, b). \<lparr>we_id = a @ b, we_source = a, we_target = b,
                 we_source_handle = None, we_target_handle = None, we_kind = k\<rparr>) es,
      df_dependency_counts = [],
      df_actions = map (\<lambda>r. \<lparr>ac_ref = r, ac_component = ''c'', ac_params = [], ac_overrides = [],
                 ac_depends_on = [], ac_mappings = [], ac_retry = None\<rparr>) rs\<rparr>"

definition demo_options :: "(node_ref \<times> outcome \<times> nat) list \<Rightarrow> unit scheduler_options" where
  "demo_options os =
     \<lparr>so_run = (\<lambda>r ctx w. (case map_of os r of None \<Rightarrow> (Fulfilled None, 0) | Some o1 \<Rightarrow> o1, w)),
      so_preserve_cancellation = False, so_is_cancellation = (\<lambda>_. False)\<rparr>"

definition diamond :: definition_core where
  "diamond = demo_workflow [''s'', ''p'', ''q'', ''j'']
     [(''s'', SuccessEdge, ''p''), (''s'', SuccessEdge, ''q''), (''p'', SuccessEdge, ''j''),
      (''q'', SuccessEdge, ''j'')] []"

definition demo_run ::
  "definition_core \<Rightarrow> (node_ref \<times> outcome \<times> nat) list \<Rightarrow> sched_result \<times> node_ref list \<times> node_ref list" where
  "demo_run d os =
     (case run_workflow_with_scheduler d (demo_options os) () of
        (res, s, w) \<Rightarrow> (res, left_of (ss_trace s), ended_of (ss_trace s)))"

lemma diamond_run:
  "demo_run diamond [(''p'', Rejected ReasonNone, 5)] =
     (SchedFailed [(''p'', ReasonNone), (''j'', ReasonError ''WorkflowSchedulerError''
        ''Cancelled due to upstream failure at p'' None)],
      [''s'', ''p'', ''q'', ''j''], [''s'', ''q'', ''p''])"
  by code_simp

text \<open>
  C4: Whatever the activities do, no action is run twice, none is both run and skipped or
  cancelled, and none is lost: the pending actions and those that were started, skipped or
  cancelled are exactly the actions of the definition, without repetitions.  When the
  scheduler returns or throws its aggregate error, nothing is pending and every action that was
  started has completed or failed, once.
\<close>

theorem scheduler_accounts_for_every_action:
  assumes "run_workflow_with_scheduler d opts w = (res, s, w')"
  shows "distinct (ss_pending s @ left_of (ss_trace s))
    \<and> set (ss_pending s @ left_of (ss_trace s)) = action_refs d
    \<and> distinct (ended_of (ss_trace s))
    \<and> (res = SchedFinished \<or> (\<exists>f. res = SchedFailed f) \<longrightarrow>
         ss_pending s = [] \<and> set (ended_of (ss_trace s)) = {r. \<exists>c. Started r c \<in> set (ss_trace s)})"
proof -
  obtain Q where Q: "accounted (action_refs d) Q s" "(\<exists>e. res = SchedCancelled e) \<or> Q = {}"
    using run_accounted [OF assms] by blast
  moreover have "ss_pending s = []" if "res = SchedFinished \<or> (\<exists>f. res = SchedFailed f)"
    using sched_loop_exit that assms by (fastforce simp: run_workflow_with_scheduler_def Let_def)
  moreover have "Q = {}" if "res = SchedFinished \<or> (\<exists>f. res = SchedFailed f)" using Q(2) that by auto
  ultimately show ?thesis by (auto simp: accounted_def)
qed

lemma scheduler_accounts_for_every_action_witness:
  "case run_workflow_with_scheduler diamond (demo_options [(''p'', Rejected ReasonNone, 5)]) () of
     (res, s, w') \<Rightarrow> res \<noteq> SchedFinished \<and> ss_pending s = []
       \<and> set (left_of (ss_trace s)) = {''s'', ''p'', ''q'', ''j''}
       \<and> {r. \<exists>c. Started r c \<in> set (ss_trace s)} = {''s'', ''q'', ''p''}"
proof -
  obtain res s w' where r: "run_workflow_with_scheduler diamond
      (demo_options [(''p'', Rejected ReasonNone, 5)]) () = (res, s, w')" by (metis surj_pair)
  with diamond_run obtain f where res: "res = SchedFailed f" "ended_of (ss_trace s) = [''s'', ''q'', ''p'']"
    by (simp add: demo_run_def)
  have A: "action_refs diamond = {''s'', ''p'', ''q'', ''j''}"
    by (simp add: action_refs_def diamond_def demo_workflow_def)
  have p: "ss_pending s = [] \<and> set (left_of (ss_trace s)) = action_refs diamond
    \<and> {r. \<exists>c. Started r c \<in> set (ss_trace s)} = set (ended_of (ss_trace s))"
    using scheduler_accounts_for_every_action [OF r] res(1) by auto
  show ?thesis
    unfolding r prod.case A [symmetric] using p unfolding res by (simp add: A)
qed

end
