(* ===== verification/Scheduler_Ordering.thy ===== *)
theory Scheduler_Ordering
  imports Scheduler_Accounting
begin

section \<open>The scheduler starts nothing too early\<close>

text \<open>
  The invariant \<open>justified\<close>: what the state of a pending action says about its parents is true
  of the trace, so an action is queued only when its join strategy and its error edges allow.
\<close>

definition start_ok ::
  "tables \<Rightarrow> (node_ref \<Rightarrow> join_strategy) \<Rightarrow> sched_event list \<Rightarrow> node_ref \<Rightarrow> run_context \<Rightarrow> bool" where
  "start_ok tb strat t c ctx \<longleftrightarrow>
     (if strat c = JoinAll then \<forall>p \<in> success_parents tb c. Completed p \<in> set t
      else success_parents tb c = {} \<or> (\<exists>p \<in> success_parents tb c. Completed p \<in> set t))
     \<and> (error_parents tb c = {} \<or>
        (\<exists>p \<in> error_parents tb c. rc_triggered_by ctx = Some p \<and> failed_in t p))"

text \<open>Every start in a trace is justified by what comes before it.\<close>

fun starts_ok ::
  "tables \<Rightarrow> (node_ref \<Rightarrow> join_strategy) \<Rightarrow> sched_event list \<Rightarrow> sched_event list \<Rightarrow> bool" where
  "starts_ok tb strat before [] = True"
| "starts_ok tb strat before (e # t) =
     ((case e of Started c ctx \<Rightarrow> start_ok tb strat before c ctx | _ \<Rightarrow> True)
      \<and> starts_ok tb strat (before @ [e]) t)"

lemma starts_ok_append:
  "starts_ok tb strat b (t @ t') \<longleftrightarrow> starts_ok tb strat b t \<and> starts_ok tb strat (b @ t) t'"
  by (induction t arbitrary: b) auto

lemma start_ok_mono: "start_ok tb strat t c ctx \<Longrightarrow> set t \<subseteq> set t' \<Longrightarrow> start_ok tb strat t' c ctx"
  by (auto simp: start_ok_def failed_in_def split: if_splits)

lemma starts_ok_batch:
  "\<forall>i \<in> set is. start_ok tb strat t (ri_ref i) (ri_context i) \<Longrightarrow>
   starts_ok tb strat t (map (\<lambda>i. Started (ri_ref i) (ri_context i)) is)"
proof (induction "is" arbitrary: t)
  case (Cons i "is")
  from Cons.prems have "\<forall>j \<in> set is. start_ok tb strat (t @ [Started (ri_ref i) (ri_context i)]) (ri_ref j) (ri_context j)"
    by (auto intro: start_ok_mono)
  with Cons show ?case by simp
qed simp

definition node_justified ::
  "tables \<Rightarrow> (node_ref \<Rightarrow> join_strategy) \<Rightarrow> sched_event list \<Rightarrow> node_ref \<Rightarrow> node_state \<Rightarrow> bool" where
  "node_justified tb strat t c st \<longleftrightarrow>
     ns_strategy st = strat c \<and> set (ns_failure_parents st) = error_parents tb c
     \<and> (if strat c = JoinAll
         then (\<forall>p \<in> success_parents tb c.
                 p \<in> set (ns_success_parents st) \<or> p \<in> set (ns_skipped_parents st) \<or> Completed p \<in> set t)
              \<and> (ns_success_parents st = [] \<longrightarrow> ns_skipped_parents st = [])
         else (ns_triggered_by_success st \<longrightarrow>
                 success_parents tb c = {} \<or> (\<exists>p \<in> success_parents tb c. Completed p \<in> set t))
              \<and> (ns_success_parents st = [] \<longrightarrow> ns_triggered_by_success st))
     \<and> set (ns_success_parents st) \<subseteq> success_parents tb c
     \<and> (\<forall>p. ns_error_triggered_by st = Some p \<longrightarrow> p \<in> error_parents tb c \<and> failed_in t p)"

definition item_justified ::
  "tables \<Rightarrow> (node_ref \<Rightarrow> join_strategy) \<Rightarrow> sched_event list \<Rightarrow> ready_item \<Rightarrow> node_state \<Rightarrow> bool" where
  "item_justified tb strat t i st \<longleftrightarrow>
     (if strat (ri_ref i) = JoinAll then ns_success_parents st = [] else ns_triggered_by_success st)
     \<and> (error_parents tb (ri_ref i) = {} \<or>
        (\<exists>p \<in> error_parents tb (ri_ref i). rc_triggered_by (ri_context i) = Some p \<and> failed_in t p))"

definition justified ::
  "tables \<Rightarrow> (node_ref \<Rightarrow> join_strategy) \<Rightarrow> node_ref set \<Rightarrow> token set \<Rightarrow> sched_state \<Rightarrow> bool" where
  "justified tb strat A Q s \<longleftrightarrow>
     accounted A Q s \<and> starts_ok tb strat [] (ss_trace s)
     \<and> (\<forall>c st. map_of (ss_nodes s) c = Some st \<longrightarrow> c \<in> set (ss_pending s) \<longrightarrow>
           node_justified tb strat (ss_trace s) c st)
     \<and> (\<forall>i \<in> set (ss_ready s). \<forall>st. map_of (ss_nodes s) (ri_ref i) = Some st \<longrightarrow>
           ri_ref i \<in> set (ss_pending s) \<longrightarrow> item_justified tb strat (ss_trace s) i st)"

lemma node_justified_mono:
  "node_justified tb strat t c st \<Longrightarrow> set t \<subseteq> set t' \<Longrightarrow> node_justified tb strat t' c st"
  by (auto simp: node_justified_def failed_in_def split: if_splits)

lemma item_justified_mono:
  "item_justified tb strat t i st \<Longrightarrow> set t \<subseteq> set t' \<Longrightarrow>
   (ns_success_parents st = [] \<longrightarrow> ns_success_parents st' = []) \<Longrightarrow>
   (ns_triggered_by_success st \<longrightarrow> ns_triggered_by_success st') \<Longrightarrow> item_justified tb strat t' i st'"
  by (auto simp: item_justified_def failed_in_def split: if_splits)

lemma justified_upd:
  assumes J: "justified tb strat A Q s" and acc: "accounted A Q' s'"
    and pend: "set (ss_pending s') \<subseteq> set (ss_pending s)"
    and tr: "ss_trace s' = ss_trace s @ evs" "starts_ok tb strat (ss_trace s) evs"
    and c: "map_of (ss_nodes s) c = Some st" and nodes: "map_of (ss_nodes s') = (map_of (ss_nodes s))(c \<mapsto> st')"
    and st': "c \<in> set (ss_pending s') \<Longrightarrow> node_justified tb strat (ss_trace s') c st'
        \<and> (ns_success_parents st = [] \<longrightarrow> ns_success_parents st' = [])
        \<and> (ns_triggered_by_success st \<longrightarrow> ns_triggered_by_success st')"
    and ready: "\<And>i. i \<in> set (ss_ready s') \<Longrightarrow> i \<in> set (ss_ready s) \<or>
        (ri_ref i = c \<and> (c \<in> set (ss_pending s') \<longrightarrow> item_justified tb strat (ss_trace s') i st'))"
  shows "justified tb strat A Q' s'"
  unfolding justified_def
proof (intro conjI allI impI ballI)
  have sub: "set (ss_trace s) \<subseteq> set (ss_trace s')" using tr(1) by auto
  show "accounted A Q' s'" by (rule acc)
  show "starts_ok tb strat [] (ss_trace s')"
    using J tr by (simp add: justified_def starts_ok_append)
  show "node_justified tb strat (ss_trace s') r st1"
    if "map_of (ss_nodes s') r = Some st1" "r \<in> set (ss_pending s')" for r st1
  proof (cases "r = c")
    case True
    with that st' nodes show ?thesis by auto
  next
    case False
    with that nodes pend J have "node_justified tb strat (ss_trace s) r st1"
      by (auto simp: justified_def)
    then show ?thesis using sub by (rule node_justified_mono)
  qed
  show "item_justified tb strat (ss_trace s') i st1"
    if i: "i \<in> set (ss_ready s')" "map_of (ss_nodes s') (ri_ref i) = Some st1" "ri_ref i \<in> set (ss_pending s')"
    for i st1
  proof (cases "i \<in> set (ss_ready s)")
    case old: True
    show ?thesis
    proof (cases "ri_ref i = c")
      case True
      with i old c pend J have "item_justified tb strat (ss_trace s) i st" by (auto simp: justified_def)
      with sub st' i nodes True show ?thesis by (auto intro: item_justified_mono)
    next
      case False
      with i old nodes pend J have "item_justified tb strat (ss_trace s) i st1"
        by (auto simp: justified_def)
      then show ?thesis using sub by (rule item_justified_mono) simp_all
    qed
  next
    case False
    with ready [OF i(1)] i nodes show ?thesis by auto
  qed
qed

lemma justified_same:
  assumes J: "justified tb strat A Q s" and acc: "accounted A Q' s'"
    and pend: "set (ss_pending s') \<subseteq> set (ss_pending s)"
    and tr: "ss_trace s' = ss_trace s @ evs" "starts_ok tb strat (ss_trace s) evs"
    and nodes: "map_of (ss_nodes s') = map_of (ss_nodes s)"
    and ready: "set (ss_ready s') \<subseteq> set (ss_ready s)"
  shows "justified tb strat A Q' s'"
proof -
  have sub: "set (ss_trace s) \<subseteq> set (ss_trace s')" using tr(1) by auto
  from J pend have n: "node_justified tb strat (ss_trace s) r st"
    if "map_of (ss_nodes s) r = Some st" "r \<in> set (ss_pending s')" for r st
    using that by (auto simp: justified_def)
  from J pend ready have i: "item_justified tb strat (ss_trace s) i st"
    if "i \<in> set (ss_ready s')" "map_of (ss_nodes s) (ri_ref i) = Some st" "ri_ref i \<in> set (ss_pending s')" for i st
    using that by (auto simp: justified_def subset_iff)
  show ?thesis
    using J acc tr node_justified_mono [OF n sub] item_justified_mono [OF i sub]
    by (auto simp: justified_def starts_ok_append nodes)
qed

lemma justified_accounted: "justified tb strat A Q s \<Longrightarrow> accounted A Q s"
  by (simp add: justified_def)

lemma justified_node:
  "justified tb strat A Q s \<Longrightarrow> map_of (ss_nodes s) c = Some st \<Longrightarrow> c \<in> set (ss_pending s) \<Longrightarrow>
   node_justified tb strat (ss_trace s) c st"
  by (simp add: justified_def)

text \<open>What striking a parent off does to a justified node.\<close>

lemma strike_justified:
  assumes "node_justified tb strat t c st" and "parent_event_in B t p ev"
    and "child_decision ev (strike_parent p ev st) = Stay"
  shows "node_justified tb strat t c (strike_parent p ev st)"
  using assms
  by (cases ev) (auto simp: node_justified_def strike_parent_def child_decision_def
      parent_event_in_def split: if_splits)

lemma fire_justified:
  assumes "node_justified tb strat t c st" and "parent_event_in B t p ev" and "p \<in> set (ns_success_parents st)"
    and "child_decision ev (strike_parent p ev st) = Fire"
  shows "node_justified tb strat t c (strike_parent p ev st\<lparr>ns_triggered_by_success := True\<rparr>)"
    and "strat c = JoinAll \<Longrightarrow> ns_success_parents (strike_parent p ev st) = []"
proof -
  show "strat c = JoinAll \<Longrightarrow> ns_success_parents (strike_parent p ev st) = []"
    using assms by (auto simp: node_justified_def child_decision_def strike_parent_def split: if_splits)
  show "node_justified tb strat t c (strike_parent p ev st\<lparr>ns_triggered_by_success := True\<rparr>)"
    using assms
    by (cases ev) (auto simp: node_justified_def strike_parent_def child_decision_def
        parent_event_in_def split: if_splits)
qed

lemma error_mark_justified:
  "node_justified tb strat t c st \<Longrightarrow> r \<in> error_parents tb c \<Longrightarrow> failed_in t r \<Longrightarrow>
   node_justified tb strat t c (error_mark r f st)"
  by (auto simp: node_justified_def error_mark_def)

lemma unstrike_justified:
  "node_justified tb strat t c st \<Longrightarrow> \<not> should_cancel (unstrike r st) \<Longrightarrow>
   node_justified tb strat t c (unstrike r st)"
  by (auto simp: node_justified_def should_cancel_def unstrike_def split: if_splits)

lemma fire_child_ready:
  "ss_ready (fire_child c p st s) =
     (if ns_failure_parents st \<noteq> []
      then (if \<not> truthy_str (ns_error_triggered_by st) then ss_ready s
            else ss_ready s @ [\<lparr>ri_ref = c, ri_context =
                   \<lparr>rc_strategy = ns_strategy st, rc_triggered_by = ns_error_triggered_by st,
                    rc_failure = ns_error_failure st\<rparr>\<rparr>])
      else ss_ready s @ [\<lparr>ri_ref = c, ri_context =
             \<lparr>rc_strategy = ns_strategy st,
              rc_triggered_by = (if ns_strategy st = JoinAll then None else Some p),
              rc_failure = None\<rparr>\<rparr>])"
  by (simp add: fire_child_def queue_ready_if_satisfied_by_failure_state_def Let_def)

lemma mark_skipped_nodes:
  "map_of (ss_nodes s) c = Some st \<Longrightarrow>
   map_of (ss_nodes (mark_skipped c s)) = (map_of (ss_nodes s))(c \<mapsto> st\<lparr>ns_skipped := True\<rparr>)"
  "ss_ready (mark_skipped c s) = ss_ready s"
  "ss_failed (mark_skipped c s) = ss_failed s"
  by (auto simp: mark_skipped_def Let_def split: option.splits)

lemma cancel_child_nodes:
  "map_of (ss_nodes (cancel_child r c st s)) = (map_of (ss_nodes s))(c \<mapsto> st\<lparr>ns_failure_triggered := True\<rparr>)"
  "ss_ready (cancel_child r c st s) = ss_ready s"
  by (simp_all add: cancel_child_def Let_def)

lemma justified_skip:
  assumes "justified tb strat A Q s" and "accounted A Q' (mark_skipped c (put_node c st' s))"
    and "map_of (ss_nodes s) c = Some st"
  shows "justified tb strat A Q' (mark_skipped c (put_node c st' s))"
  using assms by (intro justified_upd [OF assms(1,2) _ _ _ assms(3)]) (auto simp: mark_skipped_nodes)

lemma unstrike_upd:
  "ns_skipped (unstrike r st) = ns_skipped st" "ns_failure_triggered (unstrike r st) = ns_failure_triggered st"
  "ns_triggered_by_success (unstrike r st) = ns_triggered_by_success st"
  "ns_success_parents st = [] \<Longrightarrow> ns_success_parents (unstrike r st) = []"
  by (simp_all add: unstrike_def set_delete_def)

lemma strike_upd:
  "ns_success_parents st = [] \<Longrightarrow> ns_success_parents (strike_parent p ev st) = []"
  "ns_triggered_by_success (strike_parent p ev st) = ns_triggered_by_success st"
  by (simp_all add: strike_parent_def set_delete_def)

interpretation ordering:
  scheduler_invariant "build_tables es" B F "justified (build_tables es) strat A" for es B F strat A
proof (unfold_locales, goal_cases)
  case (1 t t' r ev) then show ?case by (rule trace_facts_mono)
next
  case (2 r t) then show ?case by (simp add: parent_event_in_def)
next
  case (3 t t' r c) then show ?case by (auto intro: trace_facts_mono)
next
  case (4 r t c) then show ?case by (simp add: settled_in_def)
next
  case (5 Q s Q')
  then show ?case using accounting.weaken by (auto simp: justified_def)
next
  case (6 Q s p ev c)
  then show ?case using accounting.success_ignored by (auto simp: justified_def)
next
  case (7 Q s r c)
  then show ?case using accounting.failure_ignored by (auto simp: justified_def)
next
  case (8 Q s p ev c st)
  then have st: "map_of (ss_nodes s) c = Some st" "c \<in> set (ss_pending s)"
    by (simp_all add: accepts_parent_def)
  show ?case
    using strike_justified [OF justified_node [OF 8(1) st] 8(2,4)]
    by (intro justified_upd [OF 8(1) accounting.strike_stay [OF justified_accounted [OF 8(1)] 8(2-4)] _ _ _ st(1), where st' = "strike_parent p ev st" and evs = "[]"])
      (simp_all add: strike_upd)
next
  case (9 Q s p ev c st)
  then have st: "map_of (ss_nodes s) c = Some st" "c \<in> set (ss_pending s)" "p \<in> set (ns_success_parents st)"
    by (simp_all add: accepts_parent_def)
  let ?st = "strike_parent p ev st\<lparr>ns_triggered_by_success := True\<rparr>"
  note f = fire_justified [OF justified_node [OF 9(1) st(1,2)] 9(2) st(3) 9(4)]
  show ?case
  proof (intro justified_upd [OF 9(1) accounting.strike_fire [OF justified_accounted [OF 9(1)] 9(2-4)] _ _ _ st(1),
        where st' = ?st and evs = "[]"])
    fix i
    assume "i \<in> set (ss_ready (fire_child c p (strike_parent p ev st) (put_node c (strike_parent p ev st) s)))"
    then show "i \<in> set (ss_ready s) \<or> (ri_ref i = c \<and> (c \<in> set (ss_pending
          (fire_child c p (strike_parent p ev st) (put_node c (strike_parent p ev st) s))) \<longrightarrow>
        item_justified (build_tables es) strat
         (ss_trace (fire_child c p (strike_parent p ev st) (put_node c (strike_parent p ev st) s))) i ?st))"
      using f by (auto simp: fire_child_ready item_justified_def node_justified_def truthy_str_def
          split: if_splits option.splits)
  qed (use f in \<open>simp_all add: fire_child_nodes strike_upd\<close>)
next
  case (10 Q s p ev c st)
  then have st: "map_of (ss_nodes s) c = Some st" by (simp add: accepts_parent_def)
  show ?case
    by (rule justified_skip [OF 10(1) accounting.strike_skip [OF justified_accounted [OF 10(1)] 10(2-4)] st])
next
  case (11 Q s r c st)
  then have st: "map_of (ss_nodes s) c = Some st" "c \<in> set (ss_pending s)" by (simp_all add: open_node_def)
  have "node_justified (build_tables es) strat (ss_trace s) c (inactive_mark r st)"
    using justified_node [OF 11(1) st] by (auto simp: node_justified_def inactive_mark_def)
  then show ?case
    by (intro justified_upd [OF 11(1) accounting.inactive_wait [OF justified_accounted [OF 11(1)] 11(2-5)] _ _ _ st(1), where st' = "inactive_mark r st" and evs = "[]"])
      (simp_all add: inactive_mark_def)
next
  case (12 Q s r c st)
  then have st: "map_of (ss_nodes s) c = Some st" by (simp add: open_node_def)
  show ?case
    by (rule justified_skip [OF 12(1) accounting.inactive_skip [OF justified_accounted [OF 12(1)] 12(2-5)] st])
next
  case (13 Q s r)
  then show ?case
    by (intro justified_same [OF 13(1) accounting.completed [OF justified_accounted [OF 13(1)] 13(2)], where evs = "[Completed r]"])
      (simp_all add: clear_handled_nodes)
next
  case (14 Q s r e)
  then show ?case
    by (intro justified_same [OF 14(1) accounting.failed [OF justified_accounted [OF 14(1)] 14(2)], where evs = "[Failed r]"])
      (simp_all add: record_failure_def)
next
  case (15 Q s r)
  note acc = accounting.marked [OF justified_accounted [OF 15(1)] 15(2)]
  show ?case
  proof (cases "map_of (ss_nodes s) r")
    case None
    then show ?thesis using 15(1) by (simp add: mark_failed_def)
  next
    case (Some st)
    have "r \<notin> set (ss_pending s)"
      using accounted_settled [OF justified_accounted [OF 15(1)] failed_in_settled [OF 15(2)]] by simp
    with Some show ?thesis
      by (intro justified_upd [OF 15(1) acc _ _ _ Some, where st' = "st\<lparr>ns_failure_triggered := True\<rparr>" and evs = "[]"]) (simp_all add: mark_failed_def)
  qed
next
  case (16 Q s r c f)
  note acc = accounting.triggered [OF justified_accounted [OF 16(1)] 16(2,3), of f]
  have r: "r \<in> error_parents (build_tables es) c" using 16(3) by (simp add: failure_child_parent)
  show ?case
  proof (cases rule: trigger_failure_child_cases [where s = s and c = c and r = r and f = f])
    case ignored
    with 16 acc show ?thesis by (simp add: justified_def)
  next
    case (triggered st)
    have "node_justified (build_tables es) strat (ss_trace s) c (error_mark r f st)" if "c \<in> set (ss_pending s)"
      using error_mark_justified [OF justified_node [OF 16(1) triggered(1) that] r 16(2)] .
    then show ?thesis
      using 16(2) r triggered
      by (intro justified_upd [OF 16(1) acc _ _ _ triggered(1,3), where evs = "[]"])
        (auto simp: error_mark_def item_justified_def node_justified_def split: if_splits)
  qed
next
  case (17 Q s r c st)
  show ?case
    using unstrike_justified [OF justified_node [OF 17(1,3,5)] 17(7)]
    by (intro justified_upd [OF 17(1) accounting.unstruck [OF justified_accounted [OF 17(1)] 17(2-7)] _ _ _ 17(3), where st' = "unstrike r st" and evs = "[]"])
      (simp_all add: unstrike_upd)
next
  case (18 Q s r c st)
  then show ?case
    by (intro justified_upd [OF 18(1) accounting.cancelled [OF justified_accounted [OF 18(1)] 18(2-7)] _ _ _ 18(3), where st' = "unstrike r st\<lparr>ns_failure_triggered := True\<rparr>" and evs = "[CancelledNode c]"])
      (auto simp: cancel_child_nodes)
next
  case (19 s entry ex s1)
  note b = start_batch_refs [OF 19(2)]
  have "start_ok (build_tables es) strat (ss_trace s) (ri_ref i) (ri_context i)" if "i \<in> set ex" for i
  proof -
    have p: "i \<in> set (ss_ready s)" "ri_ref i \<in> set (ss_pending s)" using that b(2,3) by auto
    obtain st where st: "map_of (ss_nodes s) (ri_ref i) = Some st"
      using accountedD(1,5) [OF justified_accounted [OF 19(1)]] p(2) by blast
    have "item_justified (build_tables es) strat (ss_trace s) i st" using 19(1) p st by (simp add: justified_def)
    with justified_node [OF 19(1) st p(2)] show ?thesis
      by (auto simp: item_justified_def node_justified_def start_ok_def split: if_splits)
  qed
  then show ?case
    by (intro justified_same [OF 19(1) accounting.batch_started [OF justified_accounted [OF 19(1)] 19(2)],
        where evs = "map (\<lambda>i. Started (ri_ref i) (ri_context i)) ex"])
      (auto simp: b intro: starts_ok_batch)
qed

lemma justified_initial:
  "justified (build_tables es) (join_strategy_of d) (action_refs d) {} (initial_state d (build_tables es))"
proof -
  let ?tb = "build_tables es"
  have "node_justified ?tb (join_strategy_of d) [] c (initial_node_state d ?tb c)" for c
    by (auto simp: node_justified_def initial_node_state_def Let_def success_parents_def error_parents_def)
  moreover have "item_justified ?tb (join_strategy_of d) [] i (initial_node_state d ?tb (ri_ref i))"
    if "i \<in> set (ss_ready (initial_state d ?tb))" for i
    using that by (auto simp: item_justified_def initial_state_simps initial_node_state_def Let_def error_parents_def)
  ultimately show ?thesis
    by (auto simp: justified_def accounted_initial initial_state_simps split: if_splits)
qed

lemma sched_run:
  "run_workflow_with_scheduler d opts w = (res, s, w') \<longleftrightarrow>
   sched_loop (df_entrypoint d) (build_tables (df_edges d)) opts
     (initial_state d (build_tables (df_edges d))) w = (res, s, w')"
  by (simp add: run_workflow_with_scheduler_def Let_def)

text \<open>
  What allows an action to start, in terms of the edges of the definition and of what has
  happened before.
\<close>

definition incoming :: "'a definition_core_scheme \<Rightarrow> edge_kind \<Rightarrow> node_ref \<Rightarrow> node_ref set" where
  "incoming d k c = set (map we_source (filter (\<lambda>e. we_kind e = k \<and> we_target e = c) (df_edges d)))"

definition may_start ::
  "'a definition_core_scheme \<Rightarrow> sched_event list \<Rightarrow> node_ref \<Rightarrow> run_context \<Rightarrow> bool" where
  "may_start d before c ctx \<longleftrightarrow>
     (if join_strategy_of d c = JoinAll
      then \<forall>p \<in> incoming d SuccessEdge c. Completed p \<in> set before
      else incoming d SuccessEdge c = {} \<or> (\<exists>p \<in> incoming d SuccessEdge c. Completed p \<in> set before))
     \<and> (incoming d ErrorEdge c = {} \<or>
        (\<exists>p \<in> incoming d ErrorEdge c. rc_triggered_by ctx = Some p \<and> failed_in before p))"

lemma incoming_tables:
  "success_parents (build_tables (df_edges d)) c = incoming d SuccessEdge c"
  "error_parents (build_tables (df_edges d)) c = incoming d ErrorEdge c"
proof -
  have "k \<noteq> ErrorEdge \<longleftrightarrow> k = SuccessEdge" for k by (cases k) simp_all
  then show "success_parents (build_tables (df_edges d)) c = incoming d SuccessEdge c"
    "error_parents (build_tables (df_edges d)) c = incoming d ErrorEdge c"
    by (simp_all add: build_tables_spec incoming_def)
qed

text \<open>
  C5: Nothing starts too early.  An action whose strategy is \<open>all\<close> starts only after every
  source of its success edges has completed; with \<open>any\<close> or \<open>first\<close>, after one of them has.
  An action with error edges starts only after the source of one of them has failed or been
  cancelled, and is told that source as what triggered it.
\<close>

theorem scheduler_starts_in_order:
  assumes "run_workflow_with_scheduler d opts w = (res, s, w')"
    and "ss_trace s = before @ Started c ctx # later"
  shows "may_start d before c ctx"
proof -
  let ?tb = "build_tables (df_edges d)"
  have "case res of SchedCancelled _ \<Rightarrow> \<exists>Q. justified ?tb (join_strategy_of d) (action_refs d) Q s
          | _ \<Rightarrow> justified ?tb (join_strategy_of d) (action_refs d) {} s"
    using ordering.sched_loop_invariant [where B = UNIV and F = UNIV, OF justified_initial _ assms(1) [unfolded sched_run]]
    by simp
  then have "starts_ok ?tb (join_strategy_of d) [] (ss_trace s)"
    by (auto simp: justified_def split: sched_result.splits)
  then have "start_ok ?tb (join_strategy_of d) before c ctx"
    by (simp add: assms(2) starts_ok_append)
  then show ?thesis unfolding start_ok_def may_start_def incoming_tables .
qed

lemma scheduler_starts_in_order_witness:
  "\<exists>before ctx later. ss_trace (fst (snd (run_workflow_with_scheduler diamond (demo_options []) ())))
       = before @ Started ''j'' ctx # later
     \<and> Completed ''p'' \<in> set before \<and> Completed ''q'' \<in> set before"
proof -
  obtain res s w' where r: "run_workflow_with_scheduler diamond (demo_options []) () = (res, s, w')"
    by (metis surj_pair)
  have "demo_run diamond [] = (SchedFinished, [''s'', ''p'', ''q'', ''j''], [''s'', ''p'', ''q'', ''j''])"
    by code_simp
  then have res: "res = SchedFinished" and e: "''j'' \<in> set (ended_of (ss_trace s))"
    by (simp_all add: demo_run_def r)
  have "\<exists>ctx. Started ''j'' ctx \<in> set (ss_trace s)"
    using run_accounted [OF r] e res by (auto simp: accounted_def)
  then obtain ctx where "Started ''j'' ctx \<in> set (ss_trace s)" by blast
  then obtain before later where t: "ss_trace s = before @ Started ''j'' ctx # later"
    by (meson split_list)
  have "{''p'', ''q''} \<subseteq> incoming diamond SuccessEdge ''j''" "join_strategy_of diamond ''j'' = JoinAll"
    by (auto simp: incoming_def diamond_def demo_workflow_def join_strategy_of_def)
  with scheduler_starts_in_order [OF r t] have "Completed ''p'' \<in> set before" "Completed ''q'' \<in> set before"
    by (auto simp: may_start_def)
  with t r show ?thesis by auto
qed

end
