(* ===== verification/Scheduler_Liveness.thy ===== *)
theory Scheduler_Liveness
  imports Scheduler_Ordering
begin

section \<open>The scheduler does not get stuck\<close>

text \<open>
  The invariant \<open>live\<close>: a parent that a pending action still waits for is itself pending, or
  running, or about to be reported to it; and an action that waits for nothing any more is in
  the ready queue.  On an acyclic graph it rules out the scheduler's deadlock error, as long as
  no \<open>any\<close> or \<open>first\<close> join combines an error edge with two success parents.  The last section
  shows that such a join can deadlock.
\<close>

definition sound_joins :: "tables \<Rightarrow> (node_ref \<Rightarrow> join_strategy) \<Rightarrow> node_ref set \<Rightarrow> bool" where
  "sound_joins tb strat A \<longleftrightarrow>
     [] \<notin> A
     \<and> (\<forall>c \<in> A. success_parents tb c \<subseteq> A \<and> error_parents tb c \<subseteq> A
          \<and> (strat c = JoinAll \<or> error_parents tb c = {} \<or> card (success_parents tb c) \<le> 1))"

definition satisfied :: "(node_ref \<Rightarrow> join_strategy) \<Rightarrow> node_ref \<Rightarrow> node_state \<Rightarrow> bool" where
  "satisfied strat c st \<longleftrightarrow>
     (if strat c = JoinAll then ns_success_parents st = [] else ns_triggered_by_success st)"

definition awaited :: "token set \<Rightarrow> node_ref set \<Rightarrow> node_ref \<Rightarrow> bool" where
  "awaited Q P p \<longleftrightarrow> p \<in> P \<or> Running p \<in> Q"

definition node_live ::
  "tables \<Rightarrow> (node_ref \<Rightarrow> join_strategy) \<Rightarrow> token set \<Rightarrow> node_ref set \<Rightarrow> node_ref set
   \<Rightarrow> node_ref \<Rightarrow> node_state \<Rightarrow> bool" where
  "node_live tb strat Q P R c st \<longleftrightarrow>
     (\<forall>p \<in> set (ns_success_parents st). awaited Q P p \<or> OweSuccess p c \<in> Q)
     \<and> (\<forall>p \<in> error_parents tb c.
          awaited Q P p \<or> OweFailure p c \<in> Q \<or> p \<in> set (ns_inactive_failure_parents st)
          \<or> ns_error_triggered_by st \<noteq> None)
     \<and> distinct (ns_inactive_failure_parents st) \<and> distinct (ns_failure_parents st)
     \<and> set (ns_inactive_failure_parents st) \<subseteq> error_parents tb c
     \<and> (error_parents tb c = {} \<or> ns_error_triggered_by st \<noteq> None
        \<or> set (ns_inactive_failure_parents st) \<noteq> error_parents tb c)
     \<and> (satisfied strat c st \<longrightarrow> error_parents tb c = {} \<or> ns_error_triggered_by st \<noteq> None \<longrightarrow> c \<in> R)
     \<and> (strat c = JoinAll \<or> error_parents tb c \<noteq> {} \<longrightarrow>
        ns_triggered_by_success st \<longrightarrow> ns_success_parents st = [])"

definition live ::
  "tables \<Rightarrow> (node_ref \<Rightarrow> join_strategy) \<Rightarrow> node_ref set \<Rightarrow> token set \<Rightarrow> sched_state \<Rightarrow> bool" where
  "live tb strat A Q s \<longleftrightarrow>
     justified tb strat A Q s \<and> sound_joins tb strat A
     \<and> (\<forall>c st. map_of (ss_nodes s) c = Some st \<longrightarrow> c \<in> set (ss_pending s) \<longrightarrow>
           node_live tb strat Q (set (ss_pending s)) (ri_ref ` set (ss_ready s)) c st)"

lemma live_justified: "live tb strat A Q s \<Longrightarrow> justified tb strat A Q s"
  by (simp add: live_def)

lemma live_accounted: "live tb strat A Q s \<Longrightarrow> accounted A Q s"
  by (simp add: live_def justified_def)

lemma live_node:
  "live tb strat A Q s \<Longrightarrow> map_of (ss_nodes s) c = Some st \<Longrightarrow> c \<in> set (ss_pending s) \<Longrightarrow>
   node_live tb strat Q (set (ss_pending s)) (ri_ref ` set (ss_ready s)) c st"
  by (simp add: live_def)

text \<open>Nothing a child waits for is forgotten when tokens are spent on another child.\<close>

definition covers :: "tables \<Rightarrow> node_ref \<Rightarrow> token set \<Rightarrow> node_ref set \<Rightarrow> token set \<Rightarrow> node_ref set \<Rightarrow> bool" where
  "covers tb c Q P Q' P' \<longleftrightarrow>
     (\<forall>p. (p \<in> success_parents tb c \<longrightarrow> awaited Q P p \<or> OweSuccess p c \<in> Q \<longrightarrow>
             awaited Q' P' p \<or> OweSuccess p c \<in> Q')
        \<and> (p \<in> error_parents tb c \<longrightarrow> awaited Q P p \<or> OweFailure p c \<in> Q \<longrightarrow>
             awaited Q' P' p \<or> OweFailure p c \<in> Q'))"

lemma node_live_covers:
  assumes "node_live tb strat Q P R c st" and "covers tb c Q P Q' P'" and "c \<in> R \<longrightarrow> c \<in> R'"
    and "set (ns_success_parents st) \<subseteq> success_parents tb c"
  shows "node_live tb strat Q' P' R' c st"
proof -
  note live = assms(1) [unfolded node_live_def]
  have "\<forall>p \<in> set (ns_success_parents st). awaited Q' P' p \<or> OweSuccess p c \<in> Q'"
    using live assms(2,4) unfolding covers_def by blast
  moreover have "\<forall>p \<in> error_parents tb c. awaited Q' P' p \<or> OweFailure p c \<in> Q'
      \<or> p \<in> set (ns_inactive_failure_parents st) \<or> ns_error_triggered_by st \<noteq> None"
    using live assms(2) unfolding covers_def by blast
  ultimately show ?thesis using live assms(3) unfolding node_live_def by blast
qed

lemma live_upd:
  assumes L: "live tb strat A Q s" and J: "justified tb strat A Q' s'"
    and pend: "set (ss_pending s') \<subseteq> set (ss_pending s)"
    and cov: "\<And>x. x \<noteq> c \<Longrightarrow> covers tb x Q (set (ss_pending s)) Q' (set (ss_pending s'))"
    and ready: "ri_ref ` set (ss_ready s) \<inter> set (ss_pending s') \<subseteq> ri_ref ` set (ss_ready s')"
    and nodes: "map_of (ss_nodes s') = (map_of (ss_nodes s))(c \<mapsto> st')"
    and st': "c \<in> set (ss_pending s') \<Longrightarrow>
       node_live tb strat Q' (set (ss_pending s')) (ri_ref ` set (ss_ready s')) c st'"
  shows "live tb strat A Q' s'"
  unfolding live_def
proof (intro conjI allI impI)
  show "justified tb strat A Q' s'" by (rule J)
  show "sound_joins tb strat A" using L by (simp add: live_def)
  fix x st
  assume x: "map_of (ss_nodes s') x = Some st" "x \<in> set (ss_pending s')"
  show "node_live tb strat Q' (set (ss_pending s')) (ri_ref ` set (ss_ready s')) x st"
  proof (cases "x = c")
    case True
    with x nodes st' show ?thesis by simp
  next
    case False
    with x nodes pend have st: "map_of (ss_nodes s) x = Some st" "x \<in> set (ss_pending s)" by auto
    show ?thesis
    proof (rule node_live_covers [OF live_node [OF L st] cov [OF False]])
      show "x \<in> ri_ref ` set (ss_ready s) \<longrightarrow> x \<in> ri_ref ` set (ss_ready s')" using ready x(2) by auto
      show "set (ns_success_parents st) \<subseteq> success_parents tb x"
        using justified_node [OF live_justified [OF L] st] by (simp add: node_justified_def)
    qed
  qed
qed

lemma live_same:
  assumes L: "live tb strat A Q s" and J: "justified tb strat A Q' s'"
    and pend: "set (ss_pending s') \<subseteq> set (ss_pending s)"
    and cov: "\<And>x. x \<in> set (ss_pending s') \<Longrightarrow> covers tb x Q (set (ss_pending s)) Q' (set (ss_pending s'))"
    and ready: "ri_ref ` set (ss_ready s) \<inter> set (ss_pending s') \<subseteq> ri_ref ` set (ss_ready s')"
    and nodes: "map_of (ss_nodes s') = map_of (ss_nodes s)"
  shows "live tb strat A Q' s'"
  unfolding live_def
proof (intro conjI allI impI)
  show "justified tb strat A Q' s'" by (rule J)
  show "sound_joins tb strat A" using L by (simp add: live_def)
  fix x st
  assume x: "map_of (ss_nodes s') x = Some st" "x \<in> set (ss_pending s')"
  with nodes pend have st: "map_of (ss_nodes s) x = Some st" "x \<in> set (ss_pending s)" by auto
  show "node_live tb strat Q' (set (ss_pending s')) (ri_ref ` set (ss_ready s')) x st"
  proof (rule node_live_covers [OF live_node [OF L st] cov [OF x(2)]])
    show "x \<in> ri_ref ` set (ss_ready s) \<longrightarrow> x \<in> ri_ref ` set (ss_ready s')" using ready x(2) by auto
    show "set (ns_success_parents st) \<subseteq> success_parents tb x"
      using justified_node [OF live_justified [OF L] st] by (simp add: node_justified_def)
  qed
qed

text \<open>Tokens for one edge are spent, tokens for all edges of a settled action are added.\<close>

lemma covers_spent:
  "x \<noteq> c \<Longrightarrow> covers tb x Q P (Q - {OweSuccess p c}) P"
  "x \<noteq> c \<Longrightarrow> covers tb x Q P (Q - {OweFailure p c}) P"
  by (auto simp: covers_def awaited_def)

lemma covers_settled:
  "covers (build_tables es) x Q P (Q - {Running r} \<union> owed (build_tables es) r) P"
  "x \<noteq> c \<Longrightarrow> covers (build_tables es) x Q P (Q - {OweSuccess p c} \<union> owed (build_tables es) c) (P - {c})"
  "x \<noteq> c \<Longrightarrow> covers (build_tables es) x Q P (Q - {OweFailure p c} \<union> owed (build_tables es) c) (P - {c})"
  using success_target_parent [of x es] failure_child_parent [of x es]
  by (auto simp: covers_def awaited_def owed_def)

text \<open>The updates of the child itself.\<close>

lemma node_live_spent:
  "node_live tb strat Q P R c st \<Longrightarrow> p \<notin> set (ns_success_parents st) \<Longrightarrow>
   node_live tb strat (Q - {OweSuccess p c}) P R c st"
  "node_live tb strat Q P R c st \<Longrightarrow> ns_error_triggered_by st \<noteq> None \<Longrightarrow>
   node_live tb strat (Q - {OweFailure p c}) P R c st"
  by (auto simp: node_live_def awaited_def)

lemma strike_live:
  assumes "node_live tb strat Q P R c st" and "node_justified tb strat t c st"
    and "p \<in> set (ns_success_parents st)" and "child_decision ev (strike_parent p ev st) = Stay"
  shows "node_live tb strat (Q - {OweSuccess p c}) P R c (strike_parent p ev st)"
  unfolding node_live_def
proof (intro conjI)
  note live = assms(1) [unfolded node_live_def]
  have n: "strat c = JoinAll \<or> error_parents tb c \<noteq> {} \<Longrightarrow> \<not> ns_triggered_by_success st"
    using live assms(3) by auto
  have s: "ns_strategy st = strat c" using assms(2) by (simp add: node_justified_def)
  show "\<forall>p' \<in> set (ns_success_parents (strike_parent p ev st)).
      awaited (Q - {OweSuccess p c}) P p' \<or> OweSuccess p' c \<in> Q - {OweSuccess p c}"
    using live by (auto simp: strike_parent_def awaited_def)
  show "satisfied strat c (strike_parent p ev st) \<longrightarrow>
      error_parents tb c = {} \<or> ns_error_triggered_by (strike_parent p ev st) \<noteq> None \<longrightarrow> c \<in> R"
    using live assms(4) n s
    by (auto simp: satisfied_def child_decision_def strike_parent_def split: if_splits)
  show "strat c = JoinAll \<or> error_parents tb c \<noteq> {} \<longrightarrow>
      ns_triggered_by_success (strike_parent p ev st) \<longrightarrow> ns_success_parents (strike_parent p ev st) = []"
    using n by (auto simp: strike_parent_def)
qed (use assms(1) in \<open>auto simp: node_live_def strike_parent_def awaited_def\<close>)

lemma fire_live:
  assumes "node_live tb strat Q P R c st" and "node_justified tb strat t c st"
    and "p \<in> set (ns_success_parents st)"
    and "strat c = JoinAll \<Longrightarrow> ns_success_parents (strike_parent p ev st) = []"
    and "strat c = JoinAll \<or> error_parents tb c = {} \<or> card (success_parents tb c) \<le> 1"
    and "finite (success_parents tb c)"
    and "R \<subseteq> R'" and "error_parents tb c = {} \<or> ns_error_triggered_by st \<noteq> None \<Longrightarrow> c \<in> R'"
  shows "node_live tb strat (Q - {OweSuccess p c}) P R' c
           (strike_parent p ev st\<lparr>ns_triggered_by_success := True\<rparr>)"
  unfolding node_live_def
proof (intro conjI)
  note live = assms(1) [unfolded node_live_def]
  show "\<forall>p' \<in> set (ns_success_parents (strike_parent p ev st\<lparr>ns_triggered_by_success := True\<rparr>)).
      awaited (Q - {OweSuccess p c}) P p' \<or> OweSuccess p' c \<in> Q - {OweSuccess p c}"
    using live by (auto simp: strike_parent_def awaited_def)
  have "ns_success_parents (strike_parent p ev st) = []" if "strat c \<noteq> JoinAll" "error_parents tb c \<noteq> {}"
  proof -
    have "card (success_parents tb c) \<le> 1" using that assms(5) by blast
    moreover have "set (ns_success_parents st) \<subseteq> success_parents tb c"
      using assms(2) by (simp add: node_justified_def)
    ultimately have "set (ns_success_parents st) \<subseteq> {p}"
      using assms(3,6) by (metis card_le_Suc0_iff_eq One_nat_def insertCI subset_iff)
    then have "set (set_delete p (ns_success_parents st)) = {}" by auto
    then show ?thesis by (simp add: strike_parent_def del: set_set_delete)
  qed
  then show "strat c = JoinAll \<or> error_parents tb c \<noteq> {} \<longrightarrow>
      ns_triggered_by_success (strike_parent p ev st\<lparr>ns_triggered_by_success := True\<rparr>) \<longrightarrow>
      ns_success_parents (strike_parent p ev st\<lparr>ns_triggered_by_success := True\<rparr>) = []"
    using assms(4) by auto
qed (use assms(1,8) in \<open>auto simp: node_live_def strike_parent_def awaited_def\<close>)

lemma inactive_live:
  assumes "node_live tb strat Q P R c st" and "node_justified tb strat t c st"
    and "r \<in> error_parents tb c"
    and "length (ns_inactive_failure_parents (inactive_mark r st)) \<noteq> length (ns_failure_parents st)"
  shows "node_live tb strat (Q - {OweFailure r c}) P R c (inactive_mark r st)"
  unfolding node_live_def
proof (intro conjI)
  note live = assms(1) [unfolded node_live_def]
  have "set (ns_inactive_failure_parents (inactive_mark r st)) \<noteq> error_parents tb c"
  proof
    assume "set (ns_inactive_failure_parents (inactive_mark r st)) = error_parents tb c"
    then have "card (set (ns_inactive_failure_parents (inactive_mark r st))) = card (set (ns_failure_parents st))"
      using assms(2) by (simp add: node_justified_def)
    moreover have "distinct (ns_inactive_failure_parents (inactive_mark r st))"
      using live by (simp add: inactive_mark_def)
    ultimately show False using live assms(4) by (simp add: distinct_card)
  qed
  then show "error_parents tb c = {} \<or> ns_error_triggered_by (inactive_mark r st) \<noteq> None
      \<or> set (ns_inactive_failure_parents (inactive_mark r st)) \<noteq> error_parents tb c" by blast
qed (use assms(1,3) in \<open>auto simp: node_live_def inactive_mark_def awaited_def satisfied_def\<close>)

lemma error_mark_live:
  assumes "node_live tb strat Q P R c st" and "R \<subseteq> R'" and "ns_success_parents st = [] \<Longrightarrow> c \<in> R'"
    and "r \<in> error_parents tb c"
  shows "node_live tb strat (Q - {OweFailure r c}) P R' c (error_mark r f st)"
proof -
  note live = assms(1) [unfolded node_live_def]
  have "satisfied strat c (error_mark r f st) \<longrightarrow> c \<in> R'"
    using live assms(3,4) by (auto simp: error_mark_def satisfied_def split: if_splits)
  then show ?thesis
    using live unfolding node_live_def by (auto simp: error_mark_def awaited_def)
qed

lemma unstrike_live:
  assumes "node_live tb strat Q P R c st" and "node_justified tb strat t c st"
    and "p \<in> set (ns_success_parents st)" and "\<not> should_cancel (unstrike p st)"
  shows "node_live tb strat (Q - {OweSuccess p c}) P R c (unstrike p st)"
proof -
  note live = assms(1) [unfolded node_live_def]
  have s: "ns_strategy st = strat c" using assms(2) by (simp add: node_justified_def)
  then have "strat c \<noteq> JoinAll" using assms(4) by (auto simp: should_cancel_def unstrike_def)
  then have "satisfied strat c (unstrike p st) = satisfied strat c st"
    by (simp add: satisfied_def unstrike_def)
  moreover have "strat c = JoinAll \<or> error_parents tb c \<noteq> {} \<longrightarrow> \<not> ns_triggered_by_success st"
    using live assms(3) by auto
  ultimately show ?thesis
    using live unfolding node_live_def by (auto simp: unstrike_def awaited_def)
qed

lemma live_sound:
  assumes "live tb strat A Q s" and "c \<in> A"
  shows "strat c = JoinAll \<or> error_parents tb c = {} \<or> card (success_parents tb c) \<le> 1"
    and "p \<in> success_parents tb c \<Longrightarrow> p \<in> A" and "p \<in> error_parents tb c \<Longrightarrow> p \<in> A \<and> p \<noteq> []"
  using assms by (auto simp: live_def sound_joins_def)

lemma finite_success_parents [simp]: "finite (success_parents tb c)"
  by (simp add: success_parents_def)

lemma live_leave:
  assumes L: "live (build_tables es) strat A Q s" and J: "justified (build_tables es) strat A Q' s'"
    and pend: "set (ss_pending s') = set (ss_pending s) - {c}"
    and Q': "Q' = Q - {OweSuccess p c} \<union> owed (build_tables es) c \<or> Q' = Q - {OweFailure p c} \<union> owed (build_tables es) c"
    and ready: "ss_ready s' = ss_ready s"
    and nodes: "map_of (ss_nodes s') = (map_of (ss_nodes s))(c \<mapsto> st')"
  shows "live (build_tables es) strat A Q' s'"
proof (rule live_upd [OF L J _ _ _ nodes])
  show "covers (build_tables es) x Q (set (ss_pending s)) Q' (set (ss_pending s'))" if "x \<noteq> c" for x
    unfolding pend using Q' covers_settled(2,3) [OF that] by (elim disjE) simp_all
qed (use pend ready in auto)

lemma live_spend:
  assumes L: "live tb strat A Q s" and J: "justified tb strat A Q' s"
    and Q': "Q' = Q - {OweSuccess p c} \<or> Q' = Q - {OweFailure p c}"
    and c: "\<And>st. map_of (ss_nodes s) c = Some st \<Longrightarrow> c \<in> set (ss_pending s) \<Longrightarrow>
       node_live tb strat Q' (set (ss_pending s)) (ri_ref ` set (ss_ready s)) c st"
  shows "live tb strat A Q' s"
proof (cases "map_of (ss_nodes s) c")
  case None
  have "c \<notin> set (ss_pending s)"
    using accountedD(1,5) [OF live_accounted [OF L], of c] None by auto
  then have "x \<in> set (ss_pending s) \<Longrightarrow> x \<noteq> c" for x by auto
  then show ?thesis using Q' by (intro live_same [OF L J]) (auto simp: covers_spent)
next
  case (Some st)
  then have "map_of (ss_nodes s) = (map_of (ss_nodes s))(c \<mapsto> st)" by (simp add: fun_upd_idem)
  then show ?thesis
    using Q' c [OF Some] by (intro live_upd [OF L J, where c = c and st' = st]) (auto simp: covers_spent)
qed

lemma pending_flags:
  assumes "live tb strat A Q s" and "map_of (ss_nodes s) c = Some st" and "c \<in> set (ss_pending s)"
  shows "\<not> ns_skipped st" "\<not> ns_failure_triggered st"
  using accounted_flags [OF live_accounted [OF assms(1)] assms(2)]
    accounted_pending [OF live_accounted [OF assms(1)] assms(3)]
  by (auto simp: flags_ok_def settled_in_def failed_in_def)

interpretation liveness:
  scheduler_invariant "build_tables es" B F "live (build_tables es) strat A" for es B F strat A
proof (unfold_locales, goal_cases)
  case (1 t t' r ev) then show ?case by (rule trace_facts_mono)
next
  case (2 r t) then show ?case by (simp add: parent_event_in_def)
next
  case (3 t t' r c) then show ?case by (auto intro: trace_facts_mono)
next
  case (4 r t c) then show ?case by (simp add: settled_in_def)
next
  case (5 Q s Q')
  have J: "justified (build_tables es) strat A Q' s"
    using ordering.weaken [OF live_justified [OF 5(1)] 5(2,3)] .
  show ?case
    using 5(2) by (intro live_same [OF 5(1) J]) (auto simp: covers_def awaited_def)
next
  case (6 Q s p ev c)
  note J = ordering.success_ignored [OF live_justified [OF 6(1)] 6(2,3)]
  show ?case
  proof (rule live_spend [OF 6(1) J])
    fix st assume st: "map_of (ss_nodes s) c = Some st" "c \<in> set (ss_pending s)"
    have "p \<notin> set (ns_success_parents st)"
      using 6(3) st pending_flags [OF 6(1) st] by (auto simp: accepts_parent_def)
    with live_node [OF 6(1) st]
    show "node_live (build_tables es) strat (Q - {OweSuccess p c}) (set (ss_pending s))
        (ri_ref ` set (ss_ready s)) c st"
      by (rule node_live_spent(1))
  qed blast
next
  case (7 Q s r c)
  note J = ordering.failure_ignored [OF live_justified [OF 7(1)] 7(2,3)]
  show ?case
  proof (rule live_spend [OF 7(1) J])
    fix st assume st: "map_of (ss_nodes s) c = Some st" "c \<in> set (ss_pending s)"
    have "ns_error_triggered_by st \<noteq> None"
      using 7(3) st pending_flags [OF 7(1) st] by (auto simp: open_node_def truthy_str_def split: option.splits)
    with live_node [OF 7(1) st]
    show "node_live (build_tables es) strat (Q - {OweFailure r c}) (set (ss_pending s))
        (ri_ref ` set (ss_ready s)) c st"
      by (rule node_live_spent(2))
  qed blast
next
  case (8 Q s p ev c st)
  then have st: "map_of (ss_nodes s) c = Some st" "c \<in> set (ss_pending s)" "p \<in> set (ns_success_parents st)"
    by (simp_all add: accepts_parent_def)
  note J = ordering.strike_stay [OF live_justified [OF 8(1)] 8(2-4)]
  show ?case
    using strike_live [OF live_node [OF 8(1) st(1,2)] justified_node [OF live_justified [OF 8(1)] st(1,2)] st(3) 8(4)]
    by (intro live_upd [OF 8(1) J, where c = c and st' = "strike_parent p ev st"]) (simp_all add: covers_spent)
next
  case (9 Q s p ev c st)
  then have st: "map_of (ss_nodes s) c = Some st" "c \<in> set (ss_pending s)" "p \<in> set (ns_success_parents st)"
    by (simp_all add: accepts_parent_def)
  note J = ordering.strike_fire [OF live_justified [OF 9(1)] 9(2-4)]
  note n = justified_node [OF live_justified [OF 9(1)] st(1,2)]
  have A: "c \<in> A" using accounted_pending [OF live_accounted [OF 9(1)] st(2)] by simp
  let ?st = "strike_parent p ev st\<lparr>ns_triggered_by_success := True\<rparr>"
  let ?s = "fire_child c p (strike_parent p ev st) (put_node c (strike_parent p ev st) s)"
  have q: "c \<in> ri_ref ` set (ss_ready ?s)" if "error_parents (build_tables es) c = {} \<or> ns_error_triggered_by st \<noteq> None"
  proof (cases "ns_failure_parents st = []")
    case True
    then show ?thesis by (simp add: fire_child_ready strike_parent_def)
  next
    case False
    then have "set (ns_failure_parents st) \<noteq> {}" by simp
    with n have "error_parents (build_tables es) c \<noteq> {}" by (simp add: node_justified_def)
    with that obtain p' where p': "ns_error_triggered_by st = Some p'" by auto
    with n have "p' \<in> error_parents (build_tables es) c" by (simp add: node_justified_def)
    with live_sound(3) [OF 9(1) A] have "p' \<noteq> []" by blast
    with p' False show ?thesis by (simp add: fire_child_ready strike_parent_def)
  qed
  have "node_live (build_tables es) strat (Q - {OweSuccess p c}) (set (ss_pending s)) (ri_ref ` set (ss_ready ?s)) c ?st"
    using fire_justified(2) [OF n 9(2) st(3) 9(4)] live_sound(1) [OF 9(1) A] q
    by (intro fire_live [OF live_node [OF 9(1) st(1,2)] n st(3)]) (auto simp: fire_child_ready)
  then show ?case
    by (intro live_upd [OF 9(1) J, where c = c and st' = ?st])
      (auto simp: covers_spent fire_child_nodes fire_child_ready)
next
  case (10 Q s p ev c st)
  then have st: "map_of (ss_nodes s) c = Some st" by (simp add: accepts_parent_def)
  note J = ordering.strike_skip [OF live_justified [OF 10(1)] 10(2-4)]
  show ?case
    using st by (intro live_leave [OF 10(1) J, where c = c]) (auto simp: mark_skipped_nodes)
next
  case (11 Q s r c st)
  then have st: "map_of (ss_nodes s) c = Some st" "c \<in> set (ss_pending s)" by (simp_all add: open_node_def)
  note J = ordering.inactive_wait [OF live_justified [OF 11(1)] 11(2-5)]
  have "r \<in> error_parents (build_tables es) c" using 11(2) by (simp add: failure_child_parent)
  from inactive_live [OF live_node [OF 11(1) st] justified_node [OF live_justified [OF 11(1)] st] this 11(5)]
  show ?case
    by (intro live_upd [OF 11(1) J, where c = c and st' = "inactive_mark r st"]) (simp_all add: covers_spent)
next
  case (12 Q s r c st)
  then have st: "map_of (ss_nodes s) c = Some st" by (simp add: open_node_def)
  note J = ordering.inactive_skip [OF live_justified [OF 12(1)] 12(2-5)]
  show ?case
    using st by (intro live_leave [OF 12(1) J, where c = c]) (auto simp: mark_skipped_nodes)
next
  case (13 Q s r)
  note J = ordering.completed [OF live_justified [OF 13(1)] 13(2)]
  show ?case by (intro live_same [OF 13(1) J]) (simp_all add: clear_handled_nodes covers_settled)
next
  case (14 Q s r e)
  note J = ordering.failed [OF live_justified [OF 14(1)] 14(2,3), of e]
  show ?case by (intro live_same [OF 14(1) J]) (simp_all add: record_failure_def covers_settled)
next
  case (15 Q s r)
  note J = ordering.marked [OF live_justified [OF 15(1)] 15(2)]
  show ?case
  proof (cases "map_of (ss_nodes s) r")
    case None
    then show ?thesis using 15(1) by (simp add: mark_failed_def)
  next
    case (Some st)
    have "r \<notin> set (ss_pending s)"
      using accounted_settled [OF live_accounted [OF 15(1)] failed_in_settled [OF 15(2)]] by simp
    with Some show ?thesis
      by (intro live_upd [OF 15(1) J, where c = r and st' = "st\<lparr>ns_failure_triggered := True\<rparr>"])
        (simp_all add: mark_failed_def covers_def)
  qed
next
  case (16 Q s r c f)
  note J = ordering.triggered [OF live_justified [OF 16(1)] 16(2,3), of f]
  show ?case
  proof (cases rule: trigger_failure_child_cases [where s = s and c = c and r = r and f = f])
    case ignored
    have "live (build_tables es) strat A (Q - {OweFailure r c}) s"
    proof (rule live_spend [OF 16(1)])
      show "justified (build_tables es) strat A (Q - {OweFailure r c}) s" using J ignored by simp
    qed (use ignored pending_flags(2) [OF 16(1)] in auto)
    with ignored show ?thesis by simp
  next
    case (triggered st)
    have "node_live (build_tables es) strat (Q - {OweFailure r c}) (set (ss_pending s))
        (ri_ref ` set (ss_ready (trigger_failure_child r f s c))) c (error_mark r f st)"
      if "c \<in> set (ss_pending s)"
    proof (rule error_mark_live [OF live_node [OF 16(1) triggered(1) that]])
      have "\<not> ns_skipped st"
        using accounted_flags [OF live_accounted [OF 16(1)] triggered(1)]
          accounted_pending [OF live_accounted [OF 16(1)] that]
        by (auto simp: flags_ok_def settled_in_def)
      then show "c \<in> ri_ref ` set (ss_ready (trigger_failure_child r f s c))" if "ns_success_parents st = []"
        using that triggered(5) by simp
      show "r \<in> error_parents (build_tables es) c" using 16(3) by (simp add: failure_child_parent)
    qed (auto simp: triggered(5))
    then show ?thesis
      by (intro live_upd [OF 16(1) J _ _ _ triggered(3)]) (auto simp: covers_spent triggered(5))
  qed
next
  case (17 Q s r c st)
  note J = ordering.unstruck [OF live_justified [OF 17(1)] 17(2-7)]
  show ?case
    using unstrike_live [OF live_node [OF 17(1,3,5)] justified_node [OF live_justified [OF 17(1)] 17(3,5)] 17(6,7)]
    by (intro live_upd [OF 17(1) J, where c = c and st' = "unstrike r st"]) (simp_all add: covers_spent)
next
  case (18 Q s r c st)
  note J = ordering.cancelled [OF live_justified [OF 18(1)] 18(2-7)]
  show ?case
    by (intro live_leave [OF 18(1) J, where c = c]) (auto simp: cancel_child_nodes)
next
  case (19 s entry ex s1)
  note J = ordering.batch_started [OF live_justified [OF 19(1)] 19(2)]
  note b = start_batch_refs [OF 19(2)]
  show ?case
  proof (rule live_same [OF 19(1) J])
    show "ri_ref ` set (ss_ready s) \<inter> set (ss_pending s1) \<subseteq> ri_ref ` set (ss_ready s1)"
      using b(4,5) by auto
  qed (use b in \<open>auto simp: covers_def awaited_def\<close>)
qed

subsection \<open>No deadlock\<close>

definition edge_relation :: "'a definition_core_scheme \<Rightarrow> (node_ref \<times> node_ref) set" where
  "edge_relation d = set (map (\<lambda>e. (we_source e, we_target e)) (df_edges d))"

text \<open>
  A definition the scheduler can finish: edges join actions, references are not empty, the
  graph is acyclic, and no \<open>any\<close> or \<open>first\<close> join has both an error edge and several
  success parents.
\<close>

definition well_formed :: "'a definition_core_scheme \<Rightarrow> bool" where
  "well_formed d \<longleftrightarrow>
     edge_relation d \<subseteq> action_refs d \<times> action_refs d \<and> [] \<notin> action_refs d
     \<and> acyclic (edge_relation d)"

definition error_joins_ok :: "'a definition_core_scheme \<Rightarrow> bool" where
  "error_joins_ok d \<longleftrightarrow>
     (\<forall>c \<in> action_refs d. join_strategy_of d c = JoinAll \<or> incoming d ErrorEdge c = {}
        \<or> card (incoming d SuccessEdge c) \<le> 1)"

lemma incoming_edge: "p \<in> incoming d k c \<Longrightarrow> (p, c) \<in> edge_relation d"
  by (auto simp: incoming_def edge_relation_def)

lemma sound_joins_tables:
  "well_formed d \<Longrightarrow> error_joins_ok d \<Longrightarrow>
   sound_joins (build_tables (df_edges d)) (join_strategy_of d) (action_refs d)"
  by (auto simp: sound_joins_def well_formed_def error_joins_ok_def incoming_tables dest: incoming_edge)

lemma live_initial:
  assumes "sound_joins (build_tables es) (join_strategy_of d) (action_refs d)"
  shows "live (build_tables es) (join_strategy_of d) (action_refs d) {} (initial_state d (build_tables es))"
  unfolding live_def
proof (intro conjI allI impI assms justified_initial)
  let ?tb = "build_tables es" and ?s = "initial_state d (build_tables es)"
  fix c st
  assume st: "map_of (ss_nodes ?s) c = Some st" "c \<in> set (ss_pending ?s)"
  then have c: "c \<in> action_refs d" and s: "st = initial_node_state d ?tb c"
    by (simp_all add: initial_state_simps split: if_splits)
  have "c \<in> ri_ref ` set (ss_ready ?s)" if "success_parents ?tb c = {}" "error_parents ?tb c = {}"
  proof -
    let ?i = "\<lparr>ri_ref = c, ri_context = \<lparr>rc_strategy = join_strategy_of d c, rc_triggered_by = None,
        rc_failure = None\<rparr>\<rparr>"
    have "?i \<in> set (ss_ready ?s)"
      using c that by (simp add: initial_state_simps success_parents_def error_parents_def)
    then show ?thesis by (metis image_eqI ready_item.select_convs(1))
  qed
  moreover have "success_parents ?tb c \<subseteq> action_refs d" "error_parents ?tb c \<subseteq> action_refs d"
    using assms c by (auto simp: sound_joins_def)
  ultimately show "node_live ?tb (join_strategy_of d) {} (set (ss_pending ?s)) (ri_ref ` set (ss_ready ?s)) c st"
    using build_tables_spec(6) [of es c] unfolding s
    by (auto simp: node_live_def initial_node_state_def Let_def awaited_def initial_state_simps(1)
        success_parents_def error_parents_def satisfied_def)
qed

text \<open>A live state with nothing owed and nothing ready has nothing pending.\<close>

lemma live_not_stuck:
  assumes L: "live (build_tables (df_edges d)) (join_strategy_of d) (action_refs d) {} s"
    and ac: "acyclic (edge_relation d)" and ready: "ss_ready s = []"
  shows "ss_pending s = []"
proof (rule ccontr)
  assume "ss_pending s \<noteq> []"
  moreover have "finite (edge_relation d)" by (simp add: edge_relation_def)
  ultimately obtain c where c: "c \<in> set (ss_pending s)"
    and min: "\<And>p. (p, c) \<in> edge_relation d \<Longrightarrow> p \<notin> set (ss_pending s)"
    using acyclic_minimal [OF ac, of "set (ss_pending s)"] by auto
  obtain st where st: "map_of (ss_nodes s) c = Some st"
    using accountedD(1,5) [OF live_accounted [OF L], of c] c by auto
  note n = justified_node [OF live_justified [OF L] st c, unfolded node_justified_def incoming_tables]
  note l = live_node [OF L st c, unfolded node_live_def ready incoming_tables]
  have "\<not> awaited {} (set (ss_pending s)) p" if "p \<in> incoming d k c" for p k
    using min [OF incoming_edge [OF that]] by (simp add: awaited_def)
  then have "\<forall>p \<in> set (ns_success_parents st). False"
    and "\<forall>p \<in> incoming d ErrorEdge c. p \<in> set (ns_inactive_failure_parents st)
           \<or> ns_error_triggered_by st \<noteq> None"
    using l n by blast+
  then have sp: "ns_success_parents st = []"
    and fp: "incoming d ErrorEdge c = {} \<or> ns_error_triggered_by st \<noteq> None"
    using l by (auto simp del: not_None_eq)
  have "satisfied (join_strategy_of d) c st"
    using n sp unfolding satisfied_def by presburger
  with l fp show False by simp
qed

lemma no_deadlock_state:
  assumes "run_workflow_with_scheduler d opts w = (res, s, w')"
    and "well_formed d" and "error_joins_ok d"
  shows "res \<noteq> SchedDeadlock"
proof
  assume dead: "res = SchedDeadlock"
  let ?tb = "build_tables (df_edges d)"
  note init = live_initial [OF sound_joins_tables [OF assms(2,3)]]
  have "live ?tb (join_strategy_of d) (action_refs d) {} s"
    using liveness.sched_loop_invariant [where B = UNIV and F = UNIV, OF init _ assms(1) [unfolded sched_run]]
    by (simp add: dead)
  moreover have "ss_pending s \<noteq> []" "ss_ready s = []"
    using sched_loop_exit [OF assms(1) [unfolded sched_run]] by (simp_all add: dead)
  moreover have "acyclic (edge_relation d)" using assms(2) by (simp add: well_formed_def)
  ultimately show False using live_not_stuck by blast
qed

text \<open>
  C1: On an acyclic graph whose edges join actions, and in which no \<open>any\<close> or \<open>first\<close> join
  combines an error edge with several success parents, the scheduler never throws its deadlock
  error, whatever the activities return and in whatever order they finish.
\<close>

theorem scheduler_never_deadlocks:
  assumes "run_workflow_with_scheduler d opts w = (res, s, w')"
    and "well_formed d" and "error_joins_ok d"
  shows "res \<noteq> SchedDeadlock"
  using assms by (rule no_deadlock_state)

text \<open>A workflow with an error handler, to apply it to: \<open>p\<close> fails, \<open>h\<close> handles it.\<close>

definition handled_failure :: definition_core where
  "handled_failure = demo_workflow [''s'', ''p'', ''h''] [(''s'', SuccessEdge, ''p''), (''p'', ErrorEdge, ''h'')] []"

lemma handled_failure_ok: "well_formed handled_failure" "error_joins_ok handled_failure"
proof -
  have e: "edge_relation handled_failure = {(''s'', ''p''), (''p'', ''h'')}"
    by (auto simp: edge_relation_def handled_failure_def demo_workflow_def)
  have "acyclic {(''s'', ''p''), (''p'', ''h'')}"
    by (rule acyclicI_order [where f = "\<lambda>r. if r = ''s'' then 2 else if r = ''p'' then 1 else (0 :: nat)"]) auto
  then show "well_formed handled_failure"
    by (simp add: well_formed_def e) (simp add: action_refs_def handled_failure_def demo_workflow_def)
  show "error_joins_ok handled_failure"
    by (simp add: error_joins_ok_def action_refs_def handled_failure_def demo_workflow_def
        join_strategy_of_def)
qed

lemma scheduler_never_deadlocks_witness:
  "fst (run_workflow_with_scheduler handled_failure (demo_options [(''p'', Rejected ReasonNone, 1)]) ())
   \<noteq> SchedDeadlock"
proof -
  obtain res s w' where r: "run_workflow_with_scheduler handled_failure
      (demo_options [(''p'', Rejected ReasonNone, 1)]) () = (res, s, w')" by (metis surj_pair)
  from scheduler_never_deadlocks [OF r handled_failure_ok] show ?thesis unfolding r by simp
qed

subsection \<open>A join that deadlocks\<close>

text \<open>
  \<open>c\<close> joins \<open>p\<close> and \<open>g\<close> with strategy \<open>any\<close> and handles the failure of \<open>f\<close>.  \<open>p\<close>
  completes first, so \<open>c\<close> is marked as triggered by success but not queued: its error edge has
  not fired.  Then \<open>f\<close> fails; \<open>c\<close> is not queued because \<open>g\<close> is still one of its success
  parents.  When \<open>g\<close> completes, \<open>c\<close> counts as triggered already and is not queued either.
\<close>

definition stuck_join :: definition_core where
  "stuck_join = demo_workflow [''p'', ''f'', ''g'', ''c'']
     [(''p'', SuccessEdge, ''g''), (''p'', SuccessEdge, ''c''), (''g'', SuccessEdge, ''c''),
      (''f'', ErrorEdge, ''c'')] [(''c'', JoinAny)]"

text \<open>
  C8: Code bug.  On an acyclic graph whose edges join actions, the scheduler can throw its
  deadlock error: the join above is never started, although both its success parents have
  completed and the action whose failure it handles has failed.
\<close>

theorem any_join_with_error_edge_deadlocks:
  "well_formed stuck_join
   \<and> demo_run stuck_join [(''p'', Fulfilled None, 1), (''f'', Rejected ReasonNone, 2)]
     = (SchedDeadlock, [''p'', ''f'', ''g''], [''p'', ''f'', ''g''])"
proof -
  have e: "edge_relation stuck_join = {(''p'', ''g''), (''p'', ''c''), (''g'', ''c''), (''f'', ''c'')}"
    by (auto simp: edge_relation_def stuck_join_def demo_workflow_def)
  have "acyclic {(''p'', ''g''), (''p'', ''c''), (''g'', ''c''), (''f'', ''c'')}"
    by (rule acyclicI_order [where f = "\<lambda>r. if r = ''p'' then 2 else if r = ''c'' then 0 else (1 :: nat)"]) auto
  then have "well_formed stuck_join"
    by (simp add: well_formed_def e) (simp add: action_refs_def stuck_join_def demo_workflow_def)
  moreover have "demo_run stuck_join [(''p'', Fulfilled None, 1), (''f'', Rejected ReasonNone, 2)]
     = (SchedDeadlock, [''p'', ''f'', ''g''], [''p'', ''f'', ''g''])"
    by code_simp
  ultimately show ?thesis by blast
qed

end
