(* ===== verification/Scheduler_Outcome.thy ===== *)
theory Scheduler_Outcome
  imports Scheduler_Liveness
begin

section \<open>What a run of the scheduler reports\<close>

text \<open>
  Two more invariants: \<open>reported\<close> (a failure stays in the error map until an error-edge child
  of the failed action has completed) and \<open>clean\<close> (if no activity fails and none closes a
  branch, nothing is skipped or cancelled).
\<close>

subsection \<open>No failure is lost\<close>

definition reported :: "tables \<Rightarrow> node_ref set \<Rightarrow> token set \<Rightarrow> sched_state \<Rightarrow> bool" where
  "reported tb A Q s \<longleftrightarrow>
     accounted A Q s
     \<and> (\<forall>c ps. map_of (ss_handled s) c = Some ps \<longrightarrow> (\<forall>p \<in> set ps. c \<in> set (failure_children tb p)))
     \<and> (\<forall>r. failed_in (ss_trace s) r \<longrightarrow>
           map_of (ss_failed s) r \<noteq> None
           \<or> (\<exists>c \<in> set (failure_children tb r). Completed c \<in> set (ss_trace s)))"

lemma reported_accounted: "reported tb A Q s \<Longrightarrow> accounted A Q s"
  by (simp add: reported_def)

lemma reported_same:
  assumes "reported tb A Q s" and "accounted A Q' s'" and "ss_handled s' = ss_handled s"
    and "ss_failed s' = ss_failed s" and "ss_trace s' = ss_trace s @ evs" and "\<And>r. \<not> failed_in evs r"
  shows "reported tb A Q' s'"
proof -
  have "failed_in (ss_trace s') r = failed_in (ss_trace s) r" for r
    using assms(6) [of r] by (auto simp: assms(5) failed_in_def)
  then show ?thesis using assms(1,2) by (auto simp: reported_def assms(3-5))
qed

lemma reported_failure:
  assumes "reported tb A Q s" and "accounted A Q' s'" and "ss_handled s' = ss_handled s"
    and "ss_failed s' = AList.update c e (ss_failed s)"
    and "ss_trace s' = ss_trace s @ [Failed c] \<or> ss_trace s' = ss_trace s @ [CancelledNode c]"
  shows "reported tb A Q' s'"
proof -
  have "failed_in (ss_trace s') r \<longleftrightarrow> r = c \<or> failed_in (ss_trace s) r" for r
    using assms(5) by (auto simp: failed_in_def)
  then have "map_of (ss_failed s') r \<noteq> None
      \<or> (\<exists>x \<in> set (failure_children tb r). Completed x \<in> set (ss_trace s'))"
    if "failed_in (ss_trace s') r" for r
  proof (cases "r = c")
    case True
    then show ?thesis by (simp add: assms(4))
  next
    case False
    with that \<open>\<And>r. failed_in (ss_trace s') r \<longleftrightarrow> r = c \<or> failed_in (ss_trace s) r\<close> assms(1)
    have "map_of (ss_failed s) r \<noteq> None
      \<or> (\<exists>x \<in> set (failure_children tb r). Completed x \<in> set (ss_trace s))"
      by (simp add: reported_def)
    moreover have "set (ss_trace s) \<subseteq> set (ss_trace s')" using assms(5) by auto
    ultimately show ?thesis using False unfolding assms(4) map_of_update by auto
  qed
  with assms(1,2) show ?thesis unfolding reported_def assms(3) by blast
qed

lemma fire_child_handled: "ss_handled (fire_child c p st s) = ss_handled s"
  by (simp add: fire_child_def queue_ready_if_satisfied_by_failure_state_def Let_def)

lemma mark_skipped_handled: "ss_handled (mark_skipped c s) = ss_handled s"
  by (simp add: mark_skipped_def Let_def split: option.splits)

lemma fold_delete:
  "map_of (foldl (\<lambda>m k. AList.delete k m) m ks) r = (if r \<in> set ks then None else map_of m r)"
  by (induction ks arbitrary: m) auto

lemma reported_completed:
  assumes "reported tb A Q s" and "accounted A Q' (log_event (Completed r) (clear_handled r s))"
  shows "reported tb A Q' (log_event (Completed r) (clear_handled r s))"
proof -
  have f: "failed_in (ss_trace s @ [Completed r]) x = failed_in (ss_trace s) x" for x
    by (simp add: failed_in_def)
  show ?thesis
  proof (cases "map_of (ss_handled s) r")
    case None
    then have "clear_handled r s = s" by (simp add: clear_handled_def)
    with assms f show ?thesis by (auto simp: reported_def)
  next
    case (Some ps)
    then have h: "\<And>p. p \<in> set ps \<Longrightarrow> r \<in> set (failure_children tb p)" using assms(1) by (simp add: reported_def)
    have m: "map_of (ss_failed (clear_handled r s)) x = (if x \<in> set ps then None else map_of (ss_failed s) x)" for x
      by (simp add: clear_handled_def Some fold_delete)
    have d: "map_of (ss_handled (clear_handled r s)) = (map_of (ss_handled s))(r := None)"
      by (simp add: clear_handled_def Some)
    show ?thesis
      using assms unfolding reported_def log_event_simps clear_handled_trace f m d
      by (auto dest: h split: if_splits)
  qed
qed

interpretation reporting: scheduler_invariant tb B F "reported tb A" for tb B F A
proof (unfold_locales, goal_cases)
  case (1 t t' r ev) then show ?case by (rule trace_facts_mono)
next
  case (2 r t) then show ?case by (simp add: parent_event_in_def)
next
  case (3 t t' r c) then show ?case by (auto intro: trace_facts_mono)
next
  case (4 r t c) then show ?case by (simp add: settled_in_def)
next
  case (5 Q s Q')
  then show ?case using accounting.weaken by (auto simp: reported_def)
next
  case (6 Q s p ev c)
  then show ?case using accounting.success_ignored by (auto simp: reported_def)
next
  case (7 Q s r c)
  then show ?case using accounting.failure_ignored by (auto simp: reported_def)
next
  case (8 Q s p ev c st)
  from accounting.strike_stay [OF reported_accounted [OF 8(1)] 8(2-4)] show ?case
    by (intro reported_same [OF 8(1), where evs = "[]"]) (simp_all add: failed_in_def)
next
  case (9 Q s p ev c st)
  from accounting.strike_fire [OF reported_accounted [OF 9(1)] 9(2-4)] show ?case
    by (intro reported_same [OF 9(1), where evs = "[]"])
      (simp_all add: failed_in_def fire_child_nodes fire_child_handled)
next
  case (10 Q s p ev c st)
  from accounting.strike_skip [OF reported_accounted [OF 10(1)] 10(2-4)] show ?case
    by (intro reported_same [OF 10(1), where evs = "[SkippedNode c]"])
      (simp_all add: failed_in_def mark_skipped_nodes mark_skipped_handled)
next
  case (11 Q s r c st)
  from accounting.inactive_wait [OF reported_accounted [OF 11(1)] 11(2-5)] show ?case
    by (intro reported_same [OF 11(1), where evs = "[]"]) (simp_all add: failed_in_def)
next
  case (12 Q s r c st)
  from accounting.inactive_skip [OF reported_accounted [OF 12(1)] 12(2-5)] show ?case
    by (intro reported_same [OF 12(1), where evs = "[SkippedNode c]"])
      (simp_all add: failed_in_def mark_skipped_nodes mark_skipped_handled)
next
  case (13 Q s r)
  show ?case
    by (rule reported_completed [OF 13(1) accounting.completed [OF reported_accounted [OF 13(1)] 13(2)]])
next
  case (14 Q s r e)
  show ?case
    by (intro reported_failure [OF 14(1) accounting.failed [OF reported_accounted [OF 14(1)] 14(2,3)]])
      (simp_all add: record_failure_def)
next
  case (15 Q s r)
  from accounting.marked [OF reported_accounted [OF 15(1)] 15(2)] show ?case
    by (intro reported_same [OF 15(1), where evs = "[]"])
      (simp_all add: failed_in_def mark_failed_def split: option.splits)
next
  case (16 Q s r c f)
  note acc = accounting.triggered [OF reported_accounted [OF 16(1)] 16(2,3), of f]
  show ?case
  proof (cases rule: trigger_failure_child_cases [where s = s and c = c and r = r and f = f])
    case ignored
    with acc 16(1) show ?thesis by (simp add: reported_def)
  next
    case (triggered st)
    have "\<forall>p \<in> set (get_or [] (ss_handled s) c). c \<in> set (failure_children tb p)"
      using 16(1) by (cases "map_of (ss_handled s) c") (simp_all add: reported_def get_or_def)
    with acc 16(1,3) triggered show ?thesis by (auto simp: reported_def)
  qed
next
  case (17 Q s r c st)
  from accounting.unstruck [OF reported_accounted [OF 17(1)] 17(2-7)] show ?case
    by (intro reported_same [OF 17(1), where evs = "[]"]) (simp_all add: failed_in_def)
next
  case (18 Q s r c st)
  from accounting.cancelled [OF reported_accounted [OF 18(1)] 18(2-7)] show ?case
    by (intro reported_failure [OF 18(1)]) (simp_all add: cancel_child_def Let_def)
next
  case (19 s entry ex s1)
  note b = start_batch_refs [OF 19(2)]
  show ?case
    by (intro reported_same [OF 19(1) accounting.batch_started [OF reported_accounted [OF 19(1)] 19(2)] b(10,9,7)])
      (auto simp: failed_in_def)
qed

text \<open>
  C6: No failure is lost.  When the scheduler returns normally, every action that failed or was
  cancelled has an error-edge child that completed.  When it throws its aggregate error, every
  action it names has failed or was cancelled, and every such action it does not name has an
  error-edge child that completed.
\<close>

theorem scheduler_reports_failures:
  assumes "run_workflow_with_scheduler d opts w = (res, s, w')"
    and "f = (case res of SchedFailed m \<Rightarrow> m | _ \<Rightarrow> [])" and "res = SchedFinished \<or> (\<exists>m. res = SchedFailed m)"
  shows "fst ` set f \<subseteq> {r. failed_in (ss_trace s) r}
    \<and> (\<forall>r. failed_in (ss_trace s) r \<longrightarrow> r \<in> fst ` set f
          \<or> (\<exists>e \<in> set (df_edges d). we_kind e = ErrorEdge \<and> we_source e = r
               \<and> Completed (we_target e) \<in> set (ss_trace s)))"
proof -
  let ?tb = "build_tables (df_edges d)"
  have init: "reported ?tb (action_refs d) {} (initial_state d ?tb)"
    by (simp add: reported_def accounted_initial initial_state_simps failed_in_def)
  have rep: "reported ?tb (action_refs d) {} s"
    using reporting.sched_loop_invariant [where B = UNIV and F = UNIV, OF init _ assms(1) [unfolded sched_run]]
      assms(3) by auto
  have f: "f = ss_failed s"
    using sched_loop_exit [OF assms(1) [unfolded sched_run]] assms(2,3) by auto
  have "fst ` set f \<subseteq> {r. failed_in (ss_trace s) r}"
    using rep by (simp add: reported_def accounted_def f)
  moreover have "r \<in> fst ` set f \<or> (\<exists>e \<in> set (df_edges d). we_kind e = ErrorEdge \<and> we_source e = r
               \<and> Completed (we_target e) \<in> set (ss_trace s))" if "failed_in (ss_trace s) r" for r
  proof -
    have "map_of f r \<noteq> None \<or> (\<exists>c \<in> set (failure_children ?tb r). Completed c \<in> set (ss_trace s))"
      using rep that by (simp add: reported_def f)
    then show ?thesis by (auto simp: build_tables_spec(2) map_of_eq_None_iff)
  qed
  ultimately show ?thesis by blast
qed

lemma scheduler_reports_failures_witness:
  "case run_workflow_with_scheduler handled_failure (demo_options [(''p'', Rejected ReasonNone, 1)]) () of
     (res, s, w') \<Rightarrow> res = SchedFinished \<and> failed_in (ss_trace s) ''p''
       \<and> Completed ''h'' \<in> set (ss_trace s)"
proof -
  obtain res s w' where r: "run_workflow_with_scheduler handled_failure
      (demo_options [(''p'', Rejected ReasonNone, 1)]) () = (res, s, w')" by (metis surj_pair)
  have "(case run_workflow_with_scheduler handled_failure (demo_options [(''p'', Rejected ReasonNone, 1)]) () of
     (res, s, w') \<Rightarrow> res = SchedFinished \<and> Failed ''p'' \<in> set (ss_trace s))"
    by code_simp
  then have s: "res = SchedFinished" "failed_in (ss_trace s) ''p''" unfolding r by (simp_all add: failed_in_def)
  then have "\<exists>e \<in> set (df_edges handled_failure). we_kind e = ErrorEdge \<and> we_source e = ''p''
               \<and> Completed (we_target e) \<in> set (ss_trace s)"
    using scheduler_reports_failures [OF r refl] by auto
  then have "Completed ''h'' \<in> set (ss_trace s)"
    by (auto simp: handled_failure_def demo_workflow_def)
  with s show ?thesis unfolding r by simp
qed

subsection \<open>A run without failures\<close>

definition clean :: "tables \<Rightarrow> node_ref set \<Rightarrow> token set \<Rightarrow> sched_state \<Rightarrow> bool" where
  "clean tb A Q s \<longleftrightarrow>
     accounted A Q s \<and> (\<forall>r. failure_children tb r = [])
     \<and> (\<forall>r. Failed r \<notin> set (ss_trace s) \<and> SkippedNode r \<notin> set (ss_trace s) \<and> CancelledNode r \<notin> set (ss_trace s))
     \<and> (\<forall>c st. map_of (ss_nodes s) c = Some st \<longrightarrow> ns_skipped_parents st = [])"

lemma clean_accounted: "clean tb A Q s \<Longrightarrow> accounted A Q s"
  by (simp add: clean_def)

lemma clean_node: "clean tb A Q s \<Longrightarrow> map_of (ss_nodes s) c = Some st \<Longrightarrow> ns_skipped_parents st = []"
  by (auto simp: clean_def)

lemma clean_event: "clean tb A Q s \<Longrightarrow> parent_event_in {} (ss_trace s) p ev \<Longrightarrow> ev = ParentFulfilled"
  by (cases ev) (auto simp: clean_def parent_event_in_def)

lemma clean_not_failed: "clean tb A Q s \<Longrightarrow> \<not> failed_in (ss_trace s) r"
  by (simp add: clean_def failed_in_def)

lemma clean_upd:
  assumes "clean tb A Q s" and "accounted A Q' s'" and "ss_trace s' = ss_trace s"
    and "map_of (ss_nodes s') = (map_of (ss_nodes s))(c \<mapsto> st')" and "ns_skipped_parents st' = []"
  shows "clean tb A Q' s'"
  using assms by (auto simp: clean_def)

interpretation clean_run: scheduler_invariant tb "{}" "{}" "clean tb A" for tb A
proof (unfold_locales, goal_cases)
  case (1 t t' r ev) then show ?case by (rule trace_facts_mono)
next
  case (2 r t) then show ?case by (simp add: parent_event_in_def)
next
  case (3 t t' r c) then show ?case by (auto intro: trace_facts_mono)
next
  case (4 r t c) then show ?case by (simp add: settled_in_def)
next
  case (5 Q s Q')
  then show ?case using accounting.weaken by (auto simp: clean_def)
next
  case (6 Q s p ev c)
  then show ?case using accounting.success_ignored [where B = "{}"] by (auto simp: clean_def)
next
  case (7 Q s r c)
  then show ?case using accounting.failure_ignored by (auto simp: clean_def)
next
  case (8 Q s p ev c st)
  have "ns_skipped_parents (strike_parent p ev st) = []"
    using 8(3) clean_event [OF 8(1,2)] by (auto simp: accepts_parent_def strike_parent_def dest: clean_node [OF 8(1)])
  with accounting.strike_stay [OF clean_accounted [OF 8(1)] 8(2-4)] show ?case
    by (intro clean_upd [OF 8(1), where c = c]) simp_all
next
  case (9 Q s p ev c st)
  have "ns_skipped_parents (strike_parent p ev st) = []"
    using 9(3) clean_event [OF 9(1,2)] by (auto simp: accepts_parent_def strike_parent_def dest: clean_node [OF 9(1)])
  with accounting.strike_fire [OF clean_accounted [OF 9(1)] 9(2-4)] show ?case
    by (intro clean_upd [OF 9(1), where c = c and st' = "strike_parent p ev st\<lparr>ns_triggered_by_success := True\<rparr>"])
      (simp_all add: fire_child_nodes)
next
  case (10 Q s p ev c st)
  have "ns_skipped_parents (strike_parent p ev st) = []"
    using 10(3) clean_event [OF 10(1,2)] by (auto simp: accepts_parent_def strike_parent_def dest: clean_node [OF 10(1)])
  with 10(4) clean_event [OF 10(1,2)] have False by (auto simp: child_decision_def split: if_splits)
  then show ?case ..
next
  case (11 Q s r c st) then show ?case by (simp add: clean_def)
next
  case (12 Q s r c st) then show ?case by (simp add: clean_def)
next
  case (13 Q s r)
  with accounting.completed [OF clean_accounted [OF 13(1)] 13(2)] show ?case
    by (simp add: clean_def clear_handled_nodes)
next
  case (14 Q s r e) then show ?case by simp
next
  case (15 Q s r) then show ?case using clean_not_failed by blast
next
  case (16 Q s r c f) then show ?case using clean_not_failed by blast
next
  case (17 Q s r c st) then show ?case using clean_not_failed by blast
next
  case (18 Q s r c st) then show ?case using clean_not_failed by blast
next
  case (19 s entry ex s1)
  note b = start_batch_refs [OF 19(2)]
  from accounting.batch_started [OF clean_accounted [OF 19(1)] 19(2)] 19(1) show ?case
    by (auto simp: clean_def b)
qed

text \<open>
  C7: When no activity fails or closes a branch and there are no error edges, the scheduler
  returns normally on an acyclic graph, whatever the join strategies, and then every action has
  been started and has completed, exactly once.
\<close>

theorem scheduler_completes_clean_run:
  assumes "run_workflow_with_scheduler d opts w = (res, s, w')" and "well_formed d"
    and "\<forall>e \<in> set (df_edges d). we_kind e = SuccessEdge"
    and "\<forall>r ctx w. \<exists>t w1. so_run opts r ctx w = ((Fulfilled None, t), w1)"
  shows "res = SchedFinished \<and> distinct (left_of (ss_trace s)) \<and> set (left_of (ss_trace s)) = action_refs d
    \<and> distinct (ended_of (ss_trace s)) \<and> (\<forall>r \<in> action_refs d. Completed r \<in> set (ss_trace s))"
proof -
  let ?tb = "build_tables (df_edges d)"
  note run = assms(1) [unfolded sched_run]
  note exit = sched_loop_exit [OF run]
  have out: "fst (fst (so_run opts r c w)) = Fulfilled None" for r c w
    using assms(4) by (metis fst_conv)
  have ew: "error_joins_ok d" using assms(3) by (auto simp: error_joins_ok_def incoming_def)
  have fc: "failure_children ?tb r = []" for r using assms(3) by (auto simp: build_tables_spec(2) filter_empty_conv)
  have init: "clean ?tb (action_refs d) {} (initial_state d ?tb)"
    using fc by (auto simp: clean_def accounted_initial initial_state_simps initial_node_state_def Let_def
        split: if_splits)
  have "\<not> (\<exists>e. res = SchedCancelled e)" using exit out by auto
  then have c: "clean ?tb (action_refs d) {} s"
    using clean_run.sched_loop_invariant [OF init _ run] out
    by (auto simp: outcome_within_def edge_active_def split: sched_result.splits)
  have "res \<noteq> SchedDeadlock"
  proof
    assume dead: "res = SchedDeadlock"
    have "live ?tb (join_strategy_of d) (action_refs d) {} s"
      using liveness.sched_loop_invariant [where B = UNIV and F = UNIV,
          OF live_initial [OF sound_joins_tables [OF assms(2) ew]] _ run] by (simp add: dead)
    with live_not_stuck [of d s] assms(2) exit dead show False by (simp add: well_formed_def)
  qed
  moreover have "ss_failed s = []"
    using c by (auto simp: clean_def accounted_def failed_in_def)
  ultimately have fin: "res = SchedFinished" "ss_pending s = []" using exit \<open>\<not> (\<exists>e. res = SchedCancelled e)\<close>
    by (auto split: sched_result.splits)
  have "Completed r \<in> set (ss_trace s)" if "r \<in> action_refs d" for r
    using accounted_cases [OF clean_accounted [OF c] that] fin(2) c by (auto simp: settled_in_def clean_def)
  with fin c show ?thesis by (auto simp: clean_def accounted_def)
qed

lemma diamond_ok: "well_formed diamond"
proof -
  have e: "edge_relation diamond = {(''s'', ''p''), (''s'', ''q''), (''p'', ''j''), (''q'', ''j'')}"
    by (auto simp: edge_relation_def diamond_def demo_workflow_def)
  have "acyclic {(''s'', ''p''), (''s'', ''q''), (''p'', ''j''), (''q'', ''j'')}"
    by (rule acyclicI_order [where f = "\<lambda>r. if r = ''s'' then 2 else if r = ''j'' then 0 else (1 :: nat)"]) auto
  then show ?thesis
    by (simp add: well_formed_def e) (simp add: action_refs_def diamond_def demo_workflow_def)
qed

lemma scheduler_completes_clean_run_witness:
  "fst (run_workflow_with_scheduler diamond (demo_options []) ()) = SchedFinished"
proof -
  obtain res s w' where r: "run_workflow_with_scheduler diamond (demo_options []) () = (res, s, w')"
    by (metis surj_pair)
  have "\<forall>e \<in> set (df_edges diamond). we_kind e = SuccessEdge"
    by (simp add: diamond_def demo_workflow_def)
  moreover have "\<forall>r ctx w. \<exists>t w1. so_run (demo_options []) r ctx w = ((Fulfilled None, t), w1)"
    by (simp add: demo_options_def)
  ultimately show ?thesis using scheduler_completes_clean_run [OF r diamond_ok] unfolding r by simp
qed

end
