(* ===== verification/Port_Types.thy ===== *)
theory Port_Types
  imports Graph_Types
begin

section \<open>Component schemas, ports and connection types\<close>

text \<open>
  \<open>packages/component-sdk/src\<close>: \<open>zod-helpers.ts\<close>, \<open>port-meta.ts\<close>, \<open>param-meta.ts\<close>,
  \<open>zod-ports.ts\<close> and \<open>zod-parameters.ts\<close>, which read port metadata and connection types off
  the Zod schemas of a component.

  Zod is third-party code.  A schema is modelled by what this code reads of it: its type name
  (\<open>def.type ?? def.typeName\<close>), the schema it wraps or contains (the inner type of an optional,
  nullable or default, the schema of an effect, the output of a pipe, the element of an array,
  the value of a record), the shape of an object, the \<open>typeof\<close> of the values of an enum or
  literal, and the default value.  The metadata that \<open>withPortMeta\<close> and \<open>withParamMeta\<close> keep in
  weak maps keyed by the schema are fields of it.  A wrapper without an inner schema, which Zod
  does not build, is treated as an ordinary schema.
\<close>

subsection \<open>Connection types\<close>

datatype conn_type =
    ConnPrimitive "string option"
  | ConnContract "string option" "bool option" "string list option" "string option"
  | ConnList conn_type
  | ConnMap conn_type
  | ConnAny

text \<open>A contract is given by its name, its credential flag and the accepted and produced providers.\<close>

definition can_coerce_primitive :: "string \<Rightarrow> string \<Rightarrow> bool" where
  "can_coerce_primitive source target =
     (if target = ''text'' then source \<in> {''number'', ''boolean'', ''text''}
      else if target = ''number'' \<or> target = ''boolean'' then source = ''text''
      else if target = ''secret'' \<and> source = ''text'' then True
      else if target = ''text'' \<and> source = ''secret'' then True
      else False)"

fun can_connect :: "conn_type \<Rightarrow> conn_type \<Rightarrow> bool" where
  "can_connect ConnAny _ = True"
| "can_connect _ ConnAny = True"
| "can_connect (ConnPrimitive s) (ConnPrimitive t) =
     (s = t \<or> (case (s, t) of (Some s', Some t') \<Rightarrow> can_coerce_primitive s' t' | _ \<Rightarrow> False))"
| "can_connect (ConnContract n c _ produced) (ConnContract n' c' accepted _) =
     (if n \<noteq> n' \<or> c \<noteq> c' then False
      else if truthy_str produced \<and> accepted \<noteq> None \<and> the produced \<notin> set (the accepted) then False
      else True)"
| "can_connect (ConnList s) (ConnList t) = can_connect s t"
| "can_connect (ConnMap s) (ConnMap t) = can_connect s t"
| "can_connect _ _ = False"

fun describe_connection_type :: "conn_type \<Rightarrow> string" where
  "describe_connection_type ConnAny = ''any''"
| "describe_connection_type (ConnPrimitive n) = (case n of None \<Rightarrow> ''any'' | Some s \<Rightarrow> s)"
| "describe_connection_type (ConnContract n c _ _) =
     (if truthy_str n then (if c = Some True then ''credential:'' else ''contract:'') @ the n
      else ''contract'')"
| "describe_connection_type (ConnList t) = ''list<'' @ describe_connection_type t @ ''>''"
| "describe_connection_type (ConnMap t) = ''map<'' @ describe_connection_type t @ ''>''"

fun placeholder :: "conn_type \<Rightarrow> json" where
  "placeholder (ConnPrimitive n) =
     (if n = Some ''text'' then JString ''__placeholder__''
      else if n = Some ''secret'' then JString ''secret-placeholder''
      else if n = Some ''number'' then JNumber (Finite 1)
      else if n = Some ''boolean'' then JBool False
      else if n = Some ''file'' \<or> n = Some ''json'' then JObject []
      else JNull)"
| "placeholder (ConnList t) = JArray [placeholder t]"
| "placeholder (ConnMap t) = JObject [(''placeholder'', placeholder t)]"
| "placeholder (ConnContract _ c _ _) = (if c = Some True then JString ''credential-placeholder'' else JObject [])"
| "placeholder ConnAny = JNull"

definition create_placeholder_for_connection_type :: "conn_type option \<Rightarrow> json" where
  "create_placeholder_for_connection_type t = (case t of None \<Rightarrow> JNull | Some c \<Rightarrow> placeholder c)"

subsection \<open>Metadata\<close>

datatype binding_type = BindCredential | BindAction | BindConfig

datatype value_priority = ManualFirst | ConnectionFirst

datatype editor =
    EdText | EdTextarea | EdNumber | EdBoolean | EdSelect | EdMultiSelect | EdJson | EdSecret
  | EdLlmProvider

record port_meta =
  pm_label :: "string option"
  pm_binding :: "binding_type option"
  pm_icon :: "string option"
  pm_description :: "string option"
  pm_priority :: "value_priority option"
  pm_branching :: "bool option"
  pm_branch_color :: "string option"
  pm_connection :: "(string + conn_type) option"
  pm_editor :: "editor option"
  pm_allow_any :: "bool option"
  pm_reason :: "string option"
  pm_schema_name :: "string option"
  pm_credential :: "bool option"
  pm_hidden :: "bool option"

definition no_port_meta :: port_meta where
  "no_port_meta =
     \<lparr>pm_label = None, pm_binding = None, pm_icon = None, pm_description = None,
      pm_priority = None, pm_branching = None, pm_branch_color = None, pm_connection = None,
      pm_editor = None, pm_allow_any = None, pm_reason = None, pm_schema_name = None,
      pm_credential = None, pm_hidden = None\<rparr>"

text \<open>\<open>Object.assign\<close> on the keys a later object has.\<close>

definition over :: "'a option \<Rightarrow> 'a option \<Rightarrow> 'a option" where
  "over old new = (case new of None \<Rightarrow> old | Some x \<Rightarrow> Some x)"

definition assign_port_meta :: "port_meta \<Rightarrow> port_meta option \<Rightarrow> port_meta" where
  "assign_port_meta r m =
     (case m of
        None \<Rightarrow> r
      | Some n \<Rightarrow>
          \<lparr>pm_label = over (pm_label r) (pm_label n), pm_binding = over (pm_binding r) (pm_binding n),
           pm_icon = over (pm_icon r) (pm_icon n),
           pm_description = over (pm_description r) (pm_description n),
           pm_priority = over (pm_priority r) (pm_priority n),
           pm_branching = over (pm_branching r) (pm_branching n),
           pm_branch_color = over (pm_branch_color r) (pm_branch_color n),
           pm_connection = over (pm_connection r) (pm_connection n),
           pm_editor = over (pm_editor r) (pm_editor n),
           pm_allow_any = over (pm_allow_any r) (pm_allow_any n),
           pm_reason = over (pm_reason r) (pm_reason n),
           pm_schema_name = over (pm_schema_name r) (pm_schema_name n),
           pm_credential = over (pm_credential r) (pm_credential n),
           pm_hidden = over (pm_hidden r) (pm_hidden n)\<rparr>)"

definition merge_port_meta :: "port_meta option list \<Rightarrow> port_meta" where
  "merge_port_meta ms = foldl assign_port_meta no_port_meta ms"

record param_meta =
  pa_label :: string
  pa_editor :: string
  pa_description :: "string option"
  pa_help_text :: "string option"
  pa_expose_to_tool :: "bool option"
  pa_placeholder :: "string option"
  pa_options :: "json option"
  pa_min :: "rat option"
  pa_max :: "rat option"
  pa_rows :: "rat option"
  pa_visible_when :: "json option"

subsection \<open>Schemas\<close>

datatype zschema = ZSchema
  (zs_port: "port_meta option") (zs_param: "param_meta option") (zs_raw_type: string)
  (zs_inner: "zschema option") (zs_fields: "(string \<times> zschema) list")
  (zs_value_types: "string list") (zs_default: json)

definition LEGACY_TYPE_MAP :: "(string, string) js_map" where
  "LEGACY_TYPE_MAP =
     [(''ZodString'', ''string''), (''ZodNumber'', ''number''), (''ZodBoolean'', ''boolean''),
      (''ZodBigInt'', ''bigint''), (''ZodDate'', ''date''), (''ZodSymbol'', ''symbol''),
      (''ZodAny'', ''any''), (''ZodUnknown'', ''unknown''), (''ZodObject'', ''object''),
      (''ZodArray'', ''array''), (''ZodRecord'', ''record''), (''ZodUnion'', ''union''),
      (''ZodDiscriminatedUnion'', ''union''), (''ZodOptional'', ''optional''),
      (''ZodNullable'', ''nullable''), (''ZodDefault'', ''default''), (''ZodEffects'', ''effects''),
      (''ZodPipeline'', ''pipe''), (''ZodLiteral'', ''literal''), (''ZodEnum'', ''enum''),
      (''ZodNativeEnum'', ''nativeEnum'')]"

definition get_def_type :: "string \<Rightarrow> string option" where
  "get_def_type raw =
     (if raw \<noteq> [] then
        Some (case map_of LEGACY_TYPE_MAP raw of None \<Rightarrow> raw | Some t \<Rightarrow> t)
      else None)"

definition get_schema_type :: "zschema \<Rightarrow> string option" where
  "get_schema_type z = get_def_type (zs_raw_type z)"

definition wrapper_types :: "string option list" where
  "wrapper_types = [Some ''optional'', Some ''nullable'', Some ''default'', Some ''effects'', Some ''pipe'']"

fun unwrap_effects :: "zschema \<Rightarrow> zschema" where
  "unwrap_effects (ZSchema p q t (Some z) fs vs d) =
     (if get_def_type t \<in> set wrapper_types then unwrap_effects z
      else ZSchema p q t (Some z) fs vs d)"
| "unwrap_effects (ZSchema p q t None fs vs d) = ZSchema p q t None fs vs d"

fun unwrap_to_object :: "zschema \<Rightarrow> zschema option" where
  "unwrap_to_object (ZSchema p q t (Some z) fs vs d) =
     (if get_def_type t = Some ''object'' then Some (ZSchema p q t (Some z) fs vs d)
      else if get_def_type t \<in> set wrapper_types then unwrap_to_object z else None)"
| "unwrap_to_object (ZSchema p q t None fs vs d) =
     (if get_def_type t = Some ''object'' then Some (ZSchema p q t None fs vs d) else None)"

definition get_object_shape :: "zschema \<Rightarrow> (string \<times> zschema) list" where
  "get_object_shape z = zs_fields z"

fun is_optional :: "zschema \<Rightarrow> bool" where
  "is_optional (ZSchema p q t inner fs vs d) =
     (if get_def_type t \<in> {Some ''optional'', Some ''default''} then True
      else case inner of
        None \<Rightarrow> False
      | Some z \<Rightarrow>
          if get_def_type t \<in> {Some ''nullable'', Some ''effects'', Some ''pipe''} then is_optional z
          else False)"

fun is_optional_for_json_schema :: "zschema \<Rightarrow> bool" where
  "is_optional_for_json_schema (ZSchema p q t inner fs vs d) =
     (if get_def_type t = Some ''optional'' then True
      else case inner of
        None \<Rightarrow> False
      | Some z \<Rightarrow>
          if get_def_type t \<in> {Some ''default'', Some ''nullable''}
          then is_optional_for_json_schema z else False)"

definition primitive_types :: "string list" where
  "primitive_types =
     [''string'', ''number'', ''boolean'', ''bigint'', ''date'', ''symbol'', ''enum'', ''literal'']"

definition is_primitive_type :: "zschema \<Rightarrow> bool" where
  "is_primitive_type z =
     ((case get_schema_type z of None \<Rightarrow> [] | Some t \<Rightarrow> t) \<in> set primitive_types)"

subsection \<open>Connection types of schemas\<close>

datatype schema_error =
    AnyNotAllowed "string option"
  | MissingElement
  | MissingValue
  | UnionNeedsOverride
  | CannotDerive

definition editor_to_connection_type :: "editor option \<Rightarrow> conn_type option" where
  "editor_to_connection_type e =
     (case e of
        None \<Rightarrow> None
      | Some EdNumber \<Rightarrow> Some (ConnPrimitive (Some ''number''))
      | Some EdBoolean \<Rightarrow> Some (ConnPrimitive (Some ''boolean''))
      | Some EdJson \<Rightarrow> Some (ConnPrimitive (Some ''json''))
      | Some EdSecret \<Rightarrow> Some (ConnPrimitive (Some ''secret''))
      | Some EdMultiSelect \<Rightarrow> Some (ConnList (ConnPrimitive (Some ''text'')))
      | Some EdLlmProvider \<Rightarrow> None
      | Some _ \<Rightarrow> Some (ConnPrimitive (Some ''text'')))"

definition get_primitive_type_name :: "zschema \<Rightarrow> string" where
  "get_primitive_type_name z =
     (let t = get_schema_type z; vs = zs_value_types z
      in if t \<in> {Some ''string'', Some ''date'', Some ''symbol''} then ''text''
         else if t \<in> {Some ''number'', Some ''bigint''} then ''number''
         else if t = Some ''boolean'' then ''boolean''
         else if t = Some ''enum'' then
           (if list_all (\<lambda>v. v = ''number'') vs then ''number''
            else if list_all (\<lambda>v. v = ''boolean'') vs then ''boolean'' else ''text'')
         else if t = Some ''literal'' then
           (case vs of
              v # _ \<Rightarrow> if v = ''number'' then ''number'' else if v = ''boolean'' then ''boolean'' else ''text''
            | [] \<Rightarrow> ''text'')
         else ''any'')"

definition connection_override :: "port_meta option \<Rightarrow> conn_type option" where
  "connection_override m =
     (case m of
        None \<Rightarrow> None
      | Some pm \<Rightarrow>
          (case pm_connection pm of
             None \<Rightarrow> None
           | Some (Inl nm) \<Rightarrow> if nm \<noteq> [] then Some (ConnContract (Some nm) None None None) else None
           | Some (Inr t) \<Rightarrow> Some t))"

lemma size_unwrap_effects: "size (unwrap_effects z) \<le> size z"
  by (induction z rule: unwrap_effects.induct) auto

lemma size_zs_inner: "zs_inner z = Some e \<Longrightarrow> size e < size z"
  by (cases z) auto

function derive_connection_type :: "zschema \<Rightarrow> schema_error + conn_type" where
  "derive_connection_type z =
     (let m = zs_port z; u = unwrap_effects z; t = get_schema_type u
      in case connection_override m of
        Some c \<Rightarrow> Inr c
      | None \<Rightarrow>
          if m \<noteq> None \<and> truthy_str (pm_schema_name (the m))
          then Inr (ConnContract (pm_schema_name (the m)) (pm_credential (the m)) None None)
          else if t = Some ''any'' \<or> t = Some ''unknown'' then
            (if m \<noteq> None \<and> pm_allow_any (the m) = Some True then Inr ConnAny
             else Inl (AnyNotAllowed (if m = None then None else pm_reason (the m))))
          else case editor_to_connection_type (if m = None then None else pm_editor (the m)) of
            Some c \<Rightarrow> Inr c
          | None \<Rightarrow>
              if is_primitive_type u then Inr (ConnPrimitive (Some (get_primitive_type_name u)))
              else if t = Some ''array'' then
                (case zs_inner u of
                   None \<Rightarrow> Inl MissingElement
                 | Some e \<Rightarrow> bind_result (derive_connection_type e) (\<lambda>c. Inr (ConnList c)))
              else if t = Some ''record'' then
                (case zs_inner u of
                   None \<Rightarrow> Inl MissingValue
                 | Some e \<Rightarrow> bind_result (derive_connection_type e) (\<lambda>c. Inr (ConnMap c)))
              else if t = Some ''union'' then Inl UnionNeedsOverride
              else Inl CannotDerive)"
  by pat_completeness auto
termination derive_connection_type
  using le_less_trans [OF _ size_zs_inner] size_unwrap_effects
  by (relation "measure size") (auto, (meson less_le_trans size_unwrap_effects size_zs_inner)+)

declare derive_connection_type.simps [simp del]

subsection \<open>Ports and parameters\<close>

record port =
  po_id :: string
  po_label :: string
  po_type :: conn_type
  po_binding :: "binding_type option"
  po_editor :: "editor option"
  po_required :: bool
  po_description :: "string option"
  po_priority :: "value_priority option"
  po_branching :: "bool option"
  po_branch_color :: "string option"
  po_hidden :: "bool option"

definition or_else :: "string option \<Rightarrow> string \<Rightarrow> string" where
  "or_else s d = (if truthy_str s then the s else d)"

definition extract_port :: "string \<times> zschema \<Rightarrow> schema_error + port" where
  "extract_port f =
     (case f of
        (name, z) \<Rightarrow>
          let m = the (zs_port z)
          in bind_result (derive_connection_type z) (\<lambda>c.
               Inr \<lparr>po_id = name, po_label = or_else (pm_label m) name, po_type = c,
                    po_binding = pm_binding m, po_editor = pm_editor m,
                    po_required = (\<not> is_optional z), po_description = pm_description m,
                    po_priority = pm_priority m, po_branching = pm_branching m,
                    po_branch_color = pm_branch_color m, po_hidden = pm_hidden m\<rparr>))"

definition port_fields :: "zschema \<Rightarrow> (string \<times> zschema) list" where
  "port_fields z =
     (case unwrap_to_object z of
        None \<Rightarrow> []
      | Some ob \<Rightarrow> filter (\<lambda>f. zs_port (snd f) \<noteq> None) (get_object_shape ob))"

definition extract_ports :: "zschema \<Rightarrow> schema_error + port list" where
  "extract_ports z = traverse extract_port (port_fields z)"

record parameter =
  pr_id :: string
  pr_label :: string
  pr_type :: string
  pr_required :: bool
  pr_default :: json
  pr_meta :: param_meta

fun get_default_value :: "zschema \<Rightarrow> json" where
  "get_default_value (ZSchema p q t inner fs vs d) =
     (if get_def_type t = Some ''default'' then d
      else case inner of
        None \<Rightarrow> JUndefined
      | Some z \<Rightarrow>
          if get_def_type t \<in> {Some ''optional'', Some ''nullable'', Some ''effects'', Some ''pipe''}
          then get_default_value z else JUndefined)"

definition extract_parameters :: "zschema \<Rightarrow> parameter list" where
  "extract_parameters z =
     (case unwrap_to_object z of
        None \<Rightarrow> []
      | Some ob \<Rightarrow>
          List.map_filter
            (\<lambda>(name, f). case zs_param f of
               None \<Rightarrow> None
             | Some m \<Rightarrow>
                 Some \<lparr>pr_id = name, pr_label = or_else (Some (pa_label m)) name, pr_type = pa_editor m,
                       pr_required = (\<not> is_optional f), pr_default = get_default_value f, pr_meta = m\<rparr>)
            (get_object_shape ob))"

subsection \<open>Which types connect\<close>

text \<open>
  The coercions between primitives are exactly these: numbers and booleans become text,
  text becomes a number, a boolean or a secret.  In particular a secret does not become text:
  the branch of \<open>canCoercePrimitive\<close> that is written to allow it is never reached.
\<close>

theorem primitive_coercions:
  "{(s, t). s \<noteq> t \<and> can_connect (ConnPrimitive (Some s)) (ConnPrimitive (Some t))}
   = {(''number'', ''text''), (''boolean'', ''text''), (''text'', ''number''), (''text'', ''boolean''),
      (''text'', ''secret'')}"
  by (auto simp: can_coerce_primitive_def split: if_splits)

subsection \<open>Unwrapping\<close>

lemma unwrap_effects_idem [simp]: "unwrap_effects (unwrap_effects z) = unwrap_effects z"
  by (induction z rule: unwrap_effects.induct) auto

lemma unwrap_effects_core:
  "get_schema_type (unwrap_effects z) \<notin> set wrapper_types \<or> zs_inner (unwrap_effects z) = None"
  by (induction z rule: unwrap_effects.induct) (auto simp: get_schema_type_def)

lemma unwrap_to_object_core:
  "unwrap_to_object z =
     (if get_schema_type (unwrap_effects z) = Some ''object'' then Some (unwrap_effects z) else None)"
  by (induction z rule: unwrap_effects.induct) (auto simp: get_schema_type_def wrapper_types_def)

text \<open>
  Wrapping a schema that has no metadata of its own as optional, nullable, with a default, in
  an effect or in a pipe does not change the connection type that is derived for it, however many
  wrappers there are.
\<close>

theorem connection_type_of_wrapped:
  assumes "zs_port w = zs_port z" and "unwrap_effects w = unwrap_effects z"
  shows "derive_connection_type w = derive_connection_type z"
  by (subst (1 2) derive_connection_type.simps) (simp add: assms)

lemma connection_type_of_wrapped_witness:
  "derive_connection_type (ZSchema None None ''ZodOptional'' (Some (ZSchema None None ''ZodDefault''
      (Some (ZSchema None None ''string'' None [] [] JUndefined)) [] [] JNull)) [] [] JUndefined)
   = Inr (ConnPrimitive (Some ''text''))"
proof -
  let ?s = "ZSchema None None ''string'' None [] [] JUndefined"
  let ?w = "ZSchema None None ''ZodOptional'' (Some (ZSchema None None ''ZodDefault'' (Some ?s) [] [] JNull))
      [] [] JUndefined"
  have "derive_connection_type ?w = derive_connection_type ?s"
    by (rule connection_type_of_wrapped) code_simp+
  also have "\<dots> = Inr (ConnPrimitive (Some ''text''))" by code_simp
  finally show ?thesis .
qed

text \<open>The values a connection type stands for, as far as the type says.\<close>

fun accepts_placeholder :: "conn_type \<Rightarrow> json \<Rightarrow> bool" where
  "accepts_placeholder (ConnPrimitive n) v =
     (if n = Some ''text'' \<or> n = Some ''secret'' then \<exists>s. v = JString s
      else if n = Some ''number'' then \<exists>x. v = JNumber x
      else if n = Some ''boolean'' then \<exists>b. v = JBool b
      else True)"
| "accepts_placeholder (ConnList t) v = (\<exists>vs. v = JArray vs \<and> list_all (accepts_placeholder t) vs)"
| "accepts_placeholder (ConnMap t) v =
     (\<exists>fs. v = JObject fs \<and> list_all (\<lambda>f. accepts_placeholder t (snd f)) fs)"
| "accepts_placeholder (ConnContract _ _ _ _) v = True"
| "accepts_placeholder ConnAny v = True"

text \<open>
  The placeholder that validation puts in the place of a connected input has the shape of
  its connection type: a string, number or boolean for the primitives, a list or an object of
  placeholders for the containers.
\<close>

theorem placeholder_has_type: "accepts_placeholder t (placeholder t)"
  by (induction t) auto

end
