(* ===== verification/Component_Registry.thy ===== *)
theory Component_Registry
  imports Port_Types
begin

section \<open>The component registry\<close>

text \<open>
  \<open>packages/component-sdk/src\<close>: \<open>schema-validation.ts\<close> (the typing rules for port and parameter
  schemas), \<open>registry.ts\<close> (the class \<open>ComponentRegistry\<close>: its map of cached metadata is the
  state) and the port classification of \<open>tool-helpers.ts\<close>.

  What a component brings as code is a field of its record: the parsers that Zod makes of its
  schemas (\<open>safeParse\<close>, which returns the issues it found) and \<open>resolvePorts\<close>, which may throw.
\<close>

subsection \<open>Components\<close>

text \<open>A Zod issue: its code, its path, its message, and the codes of the issues of its variants.\<close>

datatype path_segment = Key string | Index nat

record zod_issue =
  zi_code :: string
  zi_path :: "path_segment list"
  zi_message :: string
  zi_union :: "string list list option"

record tool_provider =
  tp_kind :: string
  tp_name :: "string option"
  tp_description :: "string option"
  tp_input_schema :: "json option"

record component =
  cd_id :: string
  cd_label :: string
  cd_docs :: "string option"
  cd_ui_only :: json
  cd_ui_slug :: "string option"
  cd_ui_description :: "string option"
  cd_inputs :: zschema
  cd_outputs :: zschema
  cd_parameters :: "zschema option"
  cd_parse_inputs :: "json_record \<Rightarrow> zod_issue list"
  cd_parse_params :: "json_record \<Rightarrow> zod_issue list"
  cd_resolve_ports :: "(json_record \<Rightarrow> string + zschema option \<times> zschema option) option"
  cd_retry :: "json option"
  cd_tool_provider :: "tool_provider option"

subsection \<open>Schema validation\<close>

definition describe_schema_error :: "schema_error \<Rightarrow> string" where
  "describe_schema_error e =
     (case e of
        AnyNotAllowed reason \<Rightarrow>
          ''z.any() or z.unknown() requires explicit allowAny=true''
          @ (if truthy_str reason then '': '' @ the reason else [])
      | MissingElement \<Rightarrow> ''Array schema is missing element type''
      | MissingValue \<Rightarrow> ''Record schema is missing value type''
      | UnionNeedsOverride \<Rightarrow>
          ''Union types require explicit meta.connectionType override to define compatibility''
      | CannotDerive \<Rightarrow>
          ''Cannot derive connection type for schema. Use meta.connectionType or meta.schemaName for complex types.'')"

definition is_any_or_unknown :: "zschema \<Rightarrow> bool" where
  "is_any_or_unknown z \<longleftrightarrow> get_schema_type z = Some ''any'' \<or> get_schema_type z = Some ''unknown''"

definition is_union_type :: "zschema \<Rightarrow> bool" where
  "is_union_type z \<longleftrightarrow> get_schema_type z = Some ''union''"

lemma size_zs_fields: "(n, f) \<in> set (zs_fields z) \<Longrightarrow> size f < size z"
  by (cases z) (auto dest!: size_list_estimation'
      [where f = "size_prod (\<lambda>_. 0) size" and y = "size_prod (\<lambda>_. 0) size (n, f)"])

function calculate_depth :: "zschema \<Rightarrow> nat" where
  "calculate_depth z =
     (let u = unwrap_effects z; t = get_schema_type u
      in if is_primitive_type u then 1
         else if t = Some ''object'' then
           1 + foldl max 0 (map (\<lambda>f. calculate_depth (snd f)) (get_object_shape u))
         else if t = Some ''array'' \<or> t = Some ''record'' then
           (case zs_inner u of None \<Rightarrow> 1 | Some e \<Rightarrow> calculate_depth e)
         else 1)"
  by pat_completeness auto
termination calculate_depth
proof (relation "measure size", goal_cases)
  case (2 z u t f)
  then have "(fst f, snd f) \<in> set (zs_fields u)" by (simp add: get_object_shape_def)
  then have "size (snd f) < size u" by (rule size_zs_fields)
  with 2 size_unwrap_effects [of z] show ?case by simp
next
  case (3 z u t e)
  then have "size e < size u" by (intro size_zs_inner) simp
  with 3 size_unwrap_effects [of z] show ?case by simp
qed simp

declare calculate_depth.simps [simp del]

definition field_prefix :: "string \<Rightarrow> string" where
  "field_prefix name = ''Field \"'' @ name @ ''\": ''"

definition component_field_errors :: "nat option \<Rightarrow> string \<times> zschema \<Rightarrow> string list" where
  "component_field_errors max_depth f =
     (case f of
        (name, z) \<Rightarrow>
          (case zs_port z of
             None \<Rightarrow> []
           | Some m \<Rightarrow>
               (case derive_connection_type z of
                  Inl e \<Rightarrow> [field_prefix name @ describe_schema_error e] | Inr _ \<Rightarrow> [])
               @ (if is_any_or_unknown (unwrap_effects z) \<and> pm_allow_any m \<noteq> Some True
                  then [field_prefix name
                        @ ''z.any() or z.unknown() requires explicit meta.allowAny=true''
                        @ (if truthy_str (pm_reason m) then '' ('' @ the (pm_reason m) @ '')'' else [])]
                  else [])
               @ (if pm_allow_any m = Some True \<and> \<not> truthy_str (pm_reason m)
                  then [field_prefix name @ ''meta.allowAny=true requires meta.reason explaining why'']
                  else [])
               @ (case max_depth of
                    None \<Rightarrow> []
                  | Some d \<Rightarrow>
                      if calculate_depth z > d
                      then [field_prefix name @ ''Nesting depth '' @ show_nat (calculate_depth z)
                            @ '' exceeds max depth '' @ show_nat d
                            @ ''. Use meta.connectionType for complex nested types.'']
                      else [])
               @ (if is_union_type (unwrap_effects z) \<and> connection_override (zs_port z) = None
                     \<and> pm_editor m = None \<and> \<not> truthy_str (pm_schema_name m)
                  then [field_prefix name
                        @ ''Union types require explicit meta.connectionType or meta.editor override'']
                  else [])))"

text \<open>The registry validates without a depth limit; the errors are the result, none means valid.\<close>

definition validate_component_schema :: "nat option \<Rightarrow> zschema \<Rightarrow> string list" where
  "validate_component_schema max_depth z =
     (case unwrap_to_object z of
        None \<Rightarrow> []
      | Some ob \<Rightarrow> concat (map (component_field_errors max_depth) (get_object_shape ob)))"

definition parameter_field_errors :: "string \<times> zschema \<Rightarrow> string list" where
  "parameter_field_errors f =
     (case f of
        (name, z) \<Rightarrow>
          (case zs_param z of
             None \<Rightarrow> [field_prefix name @ ''parameters require param() metadata'']
           | Some m \<Rightarrow>
               (if pa_label m = [] then [field_prefix name @ ''param() metadata requires a label''] else [])
               @ (if pa_editor m = []
                  then [field_prefix name @ ''param() metadata requires an editor type''] else [])))"

definition validate_parameter_schema :: "zschema \<Rightarrow> string list" where
  "validate_parameter_schema z =
     (case unwrap_to_object z of
        None \<Rightarrow> []
      | Some ob \<Rightarrow> concat (map parameter_field_errors (get_object_shape ob)))"

subsection \<open>The registry\<close>

record cached_component =
  cc_definition :: component
  cc_inputs :: "port list"
  cc_outputs :: "port list"
  cc_parameters :: "parameter list"
  cc_connection_types :: "(string, conn_type) js_map"

type_synonym registry = "(string, cached_component) js_map"

datatype registry_error =
    AlreadyRegistered string
  | InvalidInputs string "string list"
  | InvalidOutputs string "string list"
  | InvalidParameters string "string list"
  | InputNotAPort string string
  | OutputNotAPort string string
  | PortExtraction schema_error

text \<open>The first field of the shape that is not marked as a port, names beginning with \<open>__\<close> apart.\<close>

definition first_non_port :: "zschema \<Rightarrow> string option" where
  "first_non_port z =
     (case unwrap_to_object z of
        None \<Rightarrow> None
      | Some ob \<Rightarrow>
          (case filter (\<lambda>(name, f). \<not> starts_with name ''__'' \<and> zs_port f = None) (get_object_shape ob) of
             [] \<Rightarrow> None | (name, _) # _ \<Rightarrow> Some name))"

definition validate_port_metadata :: "component \<Rightarrow> registry_error + unit" where
  "validate_port_metadata c =
     (case first_non_port (cd_inputs c) of
        Some f \<Rightarrow> Inl (InputNotAPort (cd_id c) f)
      | None \<Rightarrow>
          (case first_non_port (cd_outputs c) of
             Some f \<Rightarrow> Inl (OutputNotAPort (cd_id c) f) | None \<Rightarrow> Inr ()))"

definition connection_types :: "port list \<Rightarrow> (string, conn_type) js_map" where
  "connection_types ps = foldl (\<lambda>m p. AList.update (po_id p) (po_type p) m) [] ps"

definition map_error :: "('e \<Rightarrow> 'f) \<Rightarrow> 'e + 'a \<Rightarrow> 'f + 'a" where
  "map_error f r = (case r of Inl e \<Rightarrow> Inl (f e) | Inr x \<Rightarrow> Inr x)"

definition register :: "component \<Rightarrow> registry \<Rightarrow> registry_error + registry" where
  "register c reg =
     (let cid = cd_id c
      in if has_own reg cid then Inl (AlreadyRegistered cid)
         else if validate_component_schema None (cd_inputs c) \<noteq> []
         then Inl (InvalidInputs cid (validate_component_schema None (cd_inputs c)))
         else if validate_component_schema None (cd_outputs c) \<noteq> []
         then Inl (InvalidOutputs cid (validate_component_schema None (cd_outputs c)))
         else if cd_parameters c \<noteq> None \<and> validate_parameter_schema (the (cd_parameters c)) \<noteq> []
         then Inl (InvalidParameters cid (validate_parameter_schema (the (cd_parameters c))))
         else
           bind_result (validate_port_metadata c) (\<lambda>_.
           bind_result (map_error PortExtraction (extract_ports (cd_inputs c))) (\<lambda>ins.
           bind_result (map_error PortExtraction (extract_ports (cd_outputs c))) (\<lambda>outs.
             Inr (AList.update cid
               \<lparr>cc_definition = c, cc_inputs = ins, cc_outputs = outs,
                cc_parameters = (case cd_parameters c of None \<Rightarrow> [] | Some z \<Rightarrow> extract_parameters z),
                cc_connection_types = connection_types (ins @ outs)\<rparr> reg)))))"

definition registry_get :: "registry \<Rightarrow> string \<Rightarrow> component option" where
  "registry_get reg cid = map_option cc_definition (map_of reg cid)"

definition get_metadata :: "registry \<Rightarrow> string \<Rightarrow> cached_component option" where
  "get_metadata reg cid = map_of reg cid"

definition registry_list :: "registry \<Rightarrow> component list" where
  "registry_list reg = map (\<lambda>e. cc_definition (snd e)) reg"

definition list_metadata :: "registry \<Rightarrow> cached_component list" where
  "list_metadata reg = map snd reg"

definition registry_has :: "registry \<Rightarrow> string \<Rightarrow> bool" where
  "registry_has reg cid = has_own reg cid"

definition registry_clear :: "registry \<Rightarrow> registry" where
  "registry_clear reg = []"

subsection \<open>Ports of agent tools\<close>

definition is_agent_callable :: "component \<Rightarrow> bool" where
  "is_agent_callable c \<longleftrightarrow>
     (case cd_tool_provider c of None \<Rightarrow> False | Some p \<Rightarrow> tp_kind p = ''component'')"

definition infer_binding_type :: "port \<Rightarrow> binding_type" where
  "infer_binding_type p =
     (case po_binding p of
        Some b \<Rightarrow> b
      | None \<Rightarrow>
          if po_editor p = Some EdSecret then BindCredential
          else (case po_type p of
                  ConnPrimitive n \<Rightarrow> if n = Some ''secret'' then BindCredential else BindAction
                | ConnContract _ c _ _ \<Rightarrow> if c = Some True then BindCredential else BindAction
                | _ \<Rightarrow> BindAction))"

definition get_credential_input_ids :: "component \<Rightarrow> schema_error + string list" where
  "get_credential_input_ids c =
     bind_result (extract_ports (cd_inputs c)) (\<lambda>ps.
       Inr (map po_id (filter (\<lambda>p. infer_binding_type p = BindCredential) ps)))"

definition get_action_input_ids :: "component \<Rightarrow> schema_error + string list" where
  "get_action_input_ids c =
     bind_result (extract_ports (cd_inputs c)) (\<lambda>ps.
       Inr (map po_id (filter (\<lambda>p. infer_binding_type p = BindAction) ps)))"

definition object_shape :: "zschema \<Rightarrow> (string \<times> zschema) list option" where
  "object_shape z = (if get_schema_type z = Some ''object'' then Some (zs_fields z) else None)"

definition get_exposed_parameter_ids :: "component \<Rightarrow> string list" where
  "get_exposed_parameter_ids c =
     (case (case cd_parameters c of None \<Rightarrow> None | Some z \<Rightarrow> object_shape z) of
        None \<Rightarrow> []
      | Some shape \<Rightarrow>
          map fst (filter (\<lambda>(name, f).
            \<not> starts_with name ''__''
            \<and> (case zs_param f of
                 None \<Rightarrow> False
               | Some m \<Rightarrow> pa_expose_to_tool m = Some True \<and> pa_editor m \<noteq> ''secret'')) shape))"

definition add_shape_field ::
  "(string \<times> zschema) list \<Rightarrow> (string, zschema) js_map \<Rightarrow> string \<Rightarrow> (string, zschema) js_map" where
  "add_shape_field shape m k = (case map_of shape k of None \<Rightarrow> m | Some z \<Rightarrow> AList.update k z m)"

definition get_tool_input_shape :: "component \<Rightarrow> schema_error + (string, zschema) js_map" where
  "get_tool_input_shape c =
     (case object_shape (cd_inputs c) of
        None \<Rightarrow> Inr []
      | Some shape \<Rightarrow>
          bind_result (get_action_input_ids c) (\<lambda>ids.
            let filtered = foldl (add_shape_field shape) [] ids;
                exposed = get_exposed_parameter_ids c;
                params = (case cd_parameters c of None \<Rightarrow> None | Some z \<Rightarrow> object_shape z)
            in Inr (case params of
                 None \<Rightarrow> filtered
               | Some ps \<Rightarrow>
                   foldl (\<lambda>m k. if has_own m k then m else add_shape_field ps m k) filtered exposed)))"

definition get_tool_name :: "component \<Rightarrow> string" where
  "get_tool_name c =
     (let given = (case cd_tool_provider c of None \<Rightarrow> None | Some p \<Rightarrow> tp_name p);
          slug = (case cd_ui_slug c of None \<Rightarrow> cd_id c | Some s \<Rightarrow> s)
      in if truthy_str given then the given
         else replace_char (CHR ''.'') (CHR ''_'') (replace_char (CHR ''-'') (CHR ''_'') slug))"

definition get_tool_description :: "component \<Rightarrow> string" where
  "get_tool_description c =
     (let given = (case cd_tool_provider c of None \<Rightarrow> None | Some p \<Rightarrow> tp_description p)
      in if truthy_str given then the given
         else case cd_ui_description c of
           Some s \<Rightarrow> s
         | None \<Rightarrow> (case cd_docs c of Some s \<Rightarrow> s | None \<Rightarrow> cd_label c))"

subsection \<open>The catalog of components as an interface\<close>

lemma component_field_errors_Nil:
  "component_field_errors d f = [] \<Longrightarrow> zs_port (snd f) \<noteq> None \<Longrightarrow> \<exists>p. extract_port f = Inr p"
  by (auto simp: component_field_errors_def extract_port_def Let_def split: prod.splits option.splits sum.splits)

lemma validated_ports: "validate_component_schema d z = [] \<Longrightarrow> \<exists>ps. extract_ports z = Inr ps"
  unfolding extract_ports_def
  by (intro traverse_total)
    (auto simp: port_fields_def validate_component_schema_def dest: component_field_errors_Nil
      split: option.splits)

text \<open>A registry holds every component under its own id, with the ports of its schemas.\<close>

definition registry_ok :: "registry \<Rightarrow> bool" where
  "registry_ok reg \<longleftrightarrow>
     distinct (map fst reg)
     \<and> (\<forall>(k, cc) \<in> set reg. cd_id (cc_definition cc) = k
          \<and> extract_ports (cd_inputs (cc_definition cc)) = Inr (cc_inputs cc)
          \<and> extract_ports (cd_outputs (cc_definition cc)) = Inr (cc_outputs cc))"

lemma register_Inr:
  "register c reg = Inr reg' \<longleftrightarrow>
   \<not> has_own reg (cd_id c) \<and> validate_component_schema None (cd_inputs c) = []
   \<and> validate_component_schema None (cd_outputs c) = []
   \<and> (\<forall>z. cd_parameters c = Some z \<longrightarrow> validate_parameter_schema z = [])
   \<and> validate_port_metadata c = Inr ()
   \<and> (\<exists>ins outs. extract_ports (cd_inputs c) = Inr ins \<and> extract_ports (cd_outputs c) = Inr outs
        \<and> reg' = AList.update (cd_id c)
            \<lparr>cc_definition = c, cc_inputs = ins, cc_outputs = outs,
             cc_parameters = (case cd_parameters c of None \<Rightarrow> [] | Some z \<Rightarrow> extract_parameters z),
             cc_connection_types = connection_types (ins @ outs)\<rparr> reg)"
  by (cases "cd_parameters c") (auto simp: register_def Let_def result_simps map_error_def split: sum.splits)

lemma update_new: "\<not> has_own m k \<Longrightarrow> AList.update k v m = m @ [(k, v)]"
  by (induction m) (auto simp: has_own_def split: if_splits)

locale component_catalog =
  fixes empty :: 'r
    and reg :: "component \<Rightarrow> 'r \<Rightarrow> registry_error + 'r"
    and get :: "'r \<Rightarrow> string \<Rightarrow> component option"
    and meta :: "'r \<Rightarrow> string \<Rightarrow> cached_component option"
    and ok :: "'r \<Rightarrow> bool"
  assumes empty_ok: "ok empty"
  and empty_get: "get empty k = None"
  and reg_ok: "ok r \<Longrightarrow> reg c r = Inr r' \<Longrightarrow> ok r'"
  and reg_get: "ok r \<Longrightarrow> reg c r = Inr r' \<Longrightarrow> get r' k = (if k = cd_id c then Some c else get r k)"
  and get_id: "ok r \<Longrightarrow> get r k = Some c \<Longrightarrow> cd_id c = k"
  and get_meta: "ok r \<Longrightarrow> get r k = map_option cc_definition (meta r k)"
  and meta_inputs: "ok r \<Longrightarrow> meta r k = Some cc \<Longrightarrow> extract_ports (cd_inputs (cc_definition cc)) = Inr (cc_inputs cc)"
  and meta_outputs: "ok r \<Longrightarrow> meta r k = Some cc \<Longrightarrow> extract_ports (cd_outputs (cc_definition cc)) = Inr (cc_outputs cc)"
begin

lemma foldl_reg_Inl: "foldl (\<lambda>acc c. bind_result acc (reg c)) (Inl e) cs = Inl e"
  by (induction cs) simp_all

lemma foldl_reg_get:
  "ok r \<Longrightarrow> foldl (\<lambda>acc c. bind_result acc (reg c)) (Inr r) cs = Inr r' \<Longrightarrow>
   ok r' \<and> (\<forall>k. get r' k = (case map_of (rev (map (\<lambda>c. (cd_id c, c)) cs)) k of
                          None \<Rightarrow> get r k | Some c \<Rightarrow> Some c))"
proof (induction cs arbitrary: r)
  case (Cons c cs)
  then obtain r1 where r1: "reg c r = Inr r1" "foldl (\<lambda>acc c. bind_result acc (reg c)) (Inr r1) cs = Inr r'"
    by (cases "reg c r") (auto simp: foldl_reg_Inl)
  with Cons.prems reg_ok have ok1: "ok r1" by blast
  have "get r1 k = (if k = cd_id c then Some c else get r k)" for k
    using reg_get Cons.prems(1) r1(1) by blast
  with Cons.IH [OF ok1 r1(2)] show ?case
    by (auto simp: map_add_def split: option.splits)
qed simp

lemma credential_ids_total:
  "ok r \<Longrightarrow> get r k = Some c \<Longrightarrow> \<exists>ids. get_credential_input_ids c = Inr ids"
  using get_meta [of r k] meta_inputs [of r k] by (auto simp: get_credential_input_ids_def)

end

interpretation registry: component_catalog "[]" register registry_get get_metadata registry_ok
proof (unfold_locales, goal_cases)
  case 1 show ?case by (simp add: registry_ok_def)
next
  case (2 k) show ?case by (simp add: registry_get_def)
next
  case (3 r c r')
  then show ?case
    by (auto simp: registry_ok_def register_Inr update_new) (auto simp: has_own_iff image_iff)
next
  case (4 r c r' k)
  then show ?case by (auto simp: registry_get_def register_Inr)
next
  case (5 r k c)
  then show ?case by (auto simp: registry_get_def registry_ok_def dest: map_of_SomeD)
next
  case (6 r k) show ?case by (simp add: registry_get_def get_metadata_def)
next
  case (7 r k cc)
  then show ?case by (auto simp: get_metadata_def registry_ok_def dest: map_of_SomeD)
next
  case (8 r k cc)
  then show ?case by (auto simp: get_metadata_def registry_ok_def dest: map_of_SomeD)
qed

definition register_components :: "component list \<Rightarrow> registry_error + registry" where
  "register_components cs = foldl (\<lambda>acc c. bind_result acc (register c)) (Inr []) cs"

lemma foldl_register_list:
  "foldl (\<lambda>acc c. bind_result acc (register c)) (Inr reg) cs = Inr reg' \<Longrightarrow>
   registry_list reg' = registry_list reg @ cs"
proof (induction cs arbitrary: reg)
  case (Cons c cs)
  then obtain r1 where r1: "register c reg = Inr r1" "foldl (\<lambda>acc c. bind_result acc (register c)) (Inr r1) cs = Inr reg'"
    by (cases "register c reg") (auto simp: registry.foldl_reg_Inl)
  from r1(1) have "registry_list r1 = registry_list reg @ [c]"
    by (auto simp: register_Inr registry_list_def update_new)
  with Cons.IH [OF r1(2)] show ?case by simp
qed simp

text \<open>
  Registering never fails half way: once the schemas of a component pass validation, the
  ports of its inputs and outputs can be derived, so \<open>extractPorts\<close> does not throw.
\<close>

theorem register_extracts_ports: "register c reg \<noteq> Inl (PortExtraction e)"
proof
  assume r: "register c reg = Inl (PortExtraction e)"
  then have "validate_component_schema None (cd_inputs c) = []" "validate_component_schema None (cd_outputs c) = []"
    by (auto simp: register_def Let_def split: if_splits)
  then obtain ins outs where "extract_ports (cd_inputs c) = Inr ins" "extract_ports (cd_outputs c) = Inr outs"
    using validated_ports by blast
  with r show False
    by (auto simp: register_def Let_def result_simps map_error_def validate_port_metadata_def
        split: if_splits option.splits)
qed

definition sample_component :: "string \<Rightarrow> zschema \<Rightarrow> component" where
  "sample_component k ins =
     \<lparr>cd_id = k, cd_label = k, cd_docs = None, cd_ui_only = JUndefined, cd_ui_slug = None,
      cd_ui_description = None, cd_inputs = ins,
      cd_outputs = ZSchema None None ''object'' None [] [] JUndefined, cd_parameters = None,
      cd_parse_inputs = (\<lambda>_. []), cd_parse_params = (\<lambda>_. []), cd_resolve_ports = None, cd_retry = None,
      cd_tool_provider = None\<rparr>"

definition sample_inputs :: zschema where
  "sample_inputs = ZSchema None None ''object'' None
     [(''url'', ZSchema (Some no_port_meta) None ''string'' None [] [] JUndefined),
      (''key'', ZSchema (Some (no_port_meta\<lparr>pm_editor := Some EdSecret\<rparr>)) None ''string'' None [] [] JUndefined)]
     [] JUndefined"

lemma registry_get_find:
  "registry_ok reg \<Longrightarrow> registry_get reg k = find (\<lambda>c. cd_id c = k) (registry_list reg)"
  by (induction reg) (auto simp: registry_ok_def registry_get_def registry_list_def)

text \<open>
  The registry returns what was registered: after a sequence of registrations the list of
  components is that sequence, no two have the same id, and looking an id up finds the component
  that has it.
\<close>

theorem registry_finds_registered:
  assumes "register_components cs = Inr reg"
  shows "registry_list reg = cs \<and> distinct (map cd_id cs)
    \<and> (\<forall>k. registry_get reg k = find (\<lambda>c. cd_id c = k) cs)"
proof -
  have reg: "foldl (\<lambda>acc c. bind_result acc (register c)) (Inr []) cs = Inr reg"
    using assms by (simp add: register_components_def)
  note get = registry.foldl_reg_get [OF registry.empty_ok reg]
  have list: "registry_list reg = cs" using foldl_register_list [OF reg] by (simp add: registry_list_def)
  have ok: "registry_ok reg" using get by blast
  then have keys: "map fst reg = map cd_id (registry_list reg)"
    by (auto simp: registry_ok_def registry_list_def)
  then have dist: "distinct (map cd_id cs)" using ok list by (simp add: registry_ok_def)
  with list registry_get_find [OF ok] show ?thesis by simp
qed

lemma registry_finds_registered_witness:
  "\<exists>reg. register_components [sample_component ''a'' sample_inputs, sample_component ''b'' sample_inputs] = Inr reg
     \<and> registry_get reg ''b'' = Some (sample_component ''b'' sample_inputs)"
proof -
  have "case register_components [sample_component ''a'' sample_inputs, sample_component ''b'' sample_inputs] of
          Inl _ \<Rightarrow> False | Inr reg \<Rightarrow> True"
    by code_simp
  then obtain reg where reg: "register_components
      [sample_component ''a'' sample_inputs, sample_component ''b'' sample_inputs] = Inr reg"
    by (auto split: sum.splits)
  from registry_finds_registered [OF reg] reg show ?thesis
    by (auto simp: sample_component_def)
qed

subsection \<open>Tool inputs\<close>

lemma add_shape_field_SomeD:
  "map_of (add_shape_field sh m a) k = Some z \<Longrightarrow> map_of m k = Some z \<or> (k = a \<and> map_of sh k = Some z)"
  by (cases "map_of sh a") (auto simp: add_shape_field_def split: if_splits)

lemma map_of_foldl_add_shape:
  "map_of (foldl (add_shape_field sh) m ks) k = Some z \<Longrightarrow>
   map_of m k = Some z \<or> (k \<in> set ks \<and> map_of sh k = Some z)"
proof (induction ks arbitrary: m)
  case (Cons a ks)
  then show ?case using add_shape_field_SomeD [of sh m a k z] by auto
qed simp

lemma map_of_foldl_add_params:
  "map_of (foldl (\<lambda>m k. if has_own m k then m else add_shape_field sh m k) m ks) k = Some z \<Longrightarrow>
   map_of m k = Some z \<or> (k \<in> set ks \<and> map_of sh k = Some z)"
proof (induction ks arbitrary: m)
  case (Cons a ks)
  then show ?case using add_shape_field_SomeD [of sh m a k z] by (auto split: if_splits)
qed simp

text \<open>
  What an agent may pass to a component's tool is an action input of the component or a
  parameter that is marked as exposed: never a port that is classified as a credential, and never
  a parameter with the secret editor.
\<close>

theorem tool_inputs_hide_credentials:
  assumes "get_tool_input_shape c = Inr shape" and "map_of shape k = Some z"
    and "extract_ports (cd_inputs c) = Inr ports"
  shows "(\<exists>p \<in> set ports. po_id p = k \<and> infer_binding_type p = BindAction \<and> map_of (zs_fields (cd_inputs c)) k = Some z)
    \<or> (\<exists>ps m. cd_parameters c = Some ps \<and> map_of (zs_fields ps) k = Some z
         \<and> (\<exists>f. (k, f) \<in> set (zs_fields ps) \<and> zs_param f = Some m)
         \<and> pa_expose_to_tool m = Some True \<and> pa_editor m \<noteq> ''secret'')"
proof -
  obtain sh ids where sh: "object_shape (cd_inputs c) = Some sh" and ids: "get_action_input_ids c = Inr ids"
    using assms(1,2) by (auto simp: get_tool_input_shape_def result_simps split: option.splits)
  have s: "sh = zs_fields (cd_inputs c)" using sh by (auto simp: object_shape_def split: if_splits)
  have i: "ids = map po_id (filter (\<lambda>p. infer_binding_type p = BindAction) ports)"
    using ids assms(3) by (simp add: get_action_input_ids_def)
  let ?filtered = "foldl (add_shape_field sh) [] ids"
  let ?params = "case cd_parameters c of None \<Rightarrow> None | Some z \<Rightarrow> object_shape z"
  have shape: "shape = (case ?params of None \<Rightarrow> ?filtered
      | Some ps \<Rightarrow> foldl (\<lambda>m k. if has_own m k then m else add_shape_field ps m k) ?filtered
                    (get_exposed_parameter_ids c))"
    using assms(1) by (simp add: get_tool_input_shape_def sh ids Let_def split: option.splits)
  then have "map_of ?filtered k = Some z
      \<or> (\<exists>ps. ?params = Some ps \<and> k \<in> set (get_exposed_parameter_ids c) \<and> map_of ps k = Some z)"
    using assms(2) map_of_foldl_add_params by (fastforce split: option.splits)
  then show ?thesis
  proof
    assume "map_of ?filtered k = Some z"
    from map_of_foldl_add_shape [OF this] show ?thesis by (auto simp: s i)
  next
    assume "\<exists>ps. ?params = Some ps \<and> k \<in> set (get_exposed_parameter_ids c) \<and> map_of ps k = Some z"
    then show ?thesis
      by (intro disjI2) (fastforce simp: get_exposed_parameter_ids_def object_shape_def
          split: option.splits if_splits)
  qed
qed

lemma tool_inputs_hide_credentials_witness:
  "\<exists>shape. get_tool_input_shape (sample_component ''a'' sample_inputs) = Inr shape
     \<and> has_own shape ''url'' \<and> map_of shape ''key'' = None"
proof -
  let ?c = "sample_component ''a'' sample_inputs"
  have "case get_tool_input_shape ?c of Inl _ \<Rightarrow> False | Inr shape \<Rightarrow> has_own shape ''url''"
    by code_simp
  then obtain shape where shape: "get_tool_input_shape ?c = Inr shape" "has_own shape ''url''"
    by (auto split: sum.splits)
  have p: "case extract_ports (cd_inputs ?c) of Inl _ \<Rightarrow> False
    | Inr ps \<Rightarrow> list_all (\<lambda>p. po_id p = ''key'' \<longrightarrow> infer_binding_type p \<noteq> BindAction) ps"
    by code_simp
  then obtain ports where ports: "extract_ports (cd_inputs ?c) = Inr ports"
    by (auto split: sum.splits)
  have "map_of shape ''key'' \<noteq> Some z" for z
    using tool_inputs_hide_credentials [OF shape(1) _ ports, of "''key''" z] p
    by (auto simp: ports list_all_iff) (simp add: sample_component_def)
  with shape show ?thesis by (cases "map_of shape ''key''") auto
qed

end
