(* ===== verification/Validator.thy ===== *)
theory Validator
  imports Component_Registry
begin

section \<open>Validation of compiled workflows\<close>

text \<open>
  \<open>backend/src/dsl/validator.ts\<close>: \<open>validateWorkflowGraph\<close> collects errors and warnings about a
  graph and the definition compiled from it.  Each check returns the report it adds to the
  \<open>errors\<close> and \<open>warnings\<close> arrays.  What can throw (a component's \<open>resolvePorts\<close>, the extraction of
  the ports it returns, a property read of a null runtime input) ends the validation with \<open>Inl\<close>.
\<close>

subsection \<open>Reports\<close>

record finding =
  fi_node :: node_ref
  fi_field :: string
  fi_message :: string
  fi_suggestion :: string

record report =
  rp_errors :: "finding list"
  rp_warnings :: "finding list"

definition no_report :: report where
  "no_report = \<lparr>rp_errors = [], rp_warnings = []\<rparr>"

definition error_report :: "node_ref \<Rightarrow> string \<Rightarrow> string \<Rightarrow> string \<Rightarrow> report" where
  "error_report n f m sg =
     \<lparr>rp_errors = [\<lparr>fi_node = n, fi_field = f, fi_message = m, fi_suggestion = sg\<rparr>], rp_warnings = []\<rparr>"

definition warning_report :: "node_ref \<Rightarrow> string \<Rightarrow> string \<Rightarrow> string \<Rightarrow> report" where
  "warning_report n f m sg =
     \<lparr>rp_errors = [], rp_warnings = [\<lparr>fi_node = n, fi_field = f, fi_message = m, fi_suggestion = sg\<rparr>]\<rparr>"

definition both_reports :: "report \<Rightarrow> report \<Rightarrow> report" where
  "both_reports a b =
     \<lparr>rp_errors = rp_errors a @ rp_errors b, rp_warnings = rp_warnings a @ rp_warnings b\<rparr>"

definition all_reports :: "report list \<Rightarrow> report" where
  "all_reports rs = foldl both_reports no_report rs"

datatype validator_throw = ResolvePortsThrew string | PortsThrew schema_error | NullRuntimeInput

record port_snapshot =
  sn_inputs :: "port list"
  sn_outputs :: "port list"

subsection \<open>Issues of the component's own schemas\<close>

definition show_segment :: "path_segment \<Rightarrow> string" where
  "show_segment p = (case p of Key k \<Rightarrow> k | Index n \<Rightarrow> show_nat n)"

definition format_issue :: "zod_issue \<Rightarrow> string" where
  "format_issue i =
     (let path = join_with ''.'' (map show_segment (zi_path i))
      in (if path \<noteq> [] then path @ '': '' else []) @ zi_message i)"

definition format_validation_error :: "zod_issue list \<Rightarrow> string" where
  "format_validation_error issues = join_with ''; '' (map format_issue issues)"

definition is_placeholder_issue :: "zod_issue \<Rightarrow> string js_set \<Rightarrow> bool" where
  "is_placeholder_issue i placeholder_fields =
     (case zi_path i of
        Key field # _ \<Rightarrow>
          if field \<notin> set placeholder_fields then False
          else if zi_code i \<in> {''invalid_type'', ''invalid_format'', ''too_small'', ''too_big'',
                               ''invalid_value'', ''custom''} then True
          else if zi_code i = ''invalid_union'' then
            (case zi_union i of
               Some variants \<Rightarrow> list_all (list_all (\<lambda>c. c = ''invalid_type'')) variants
             | None \<Rightarrow> False)
          else False
      | _ \<Rightarrow> False)"

subsection \<open>Secret references\<close>

definition is_key_char :: "char \<Rightarrow> bool" where
  "is_key_char c \<longleftrightarrow> is_alnum c \<or> c = CHR ''_'' \<or> c = CHR ''-''"

definition prefixed :: "string \<Rightarrow> (char \<Rightarrow> bool) \<Rightarrow> nat \<Rightarrow> string \<Rightarrow> bool" where
  "prefixed p ok n s \<longleftrightarrow> starts_with s p \<and> length s = length p + n \<and> list_all ok (drop (length p) s)"

definition is_uuid :: "string \<Rightarrow> bool" where
  "is_uuid s \<longleftrightarrow>
     (let parts = split_on (CHR ''-'') s
      in map length parts = [8, 4, 4, 4, 12] \<and> list_all (list_all is_hex_digit) parts)"

definition is_slack_token :: "string \<Rightarrow> bool" where
  "is_slack_token s \<longleftrightarrow>
     (case split_on (CHR ''-'') s of
        [a, b, c, d] \<Rightarrow>
          a = ''xoxb'' \<and> b \<noteq> [] \<and> list_all is_digit b \<and> c \<noteq> [] \<and> list_all is_digit c
          \<and> length d = 24 \<and> list_all is_alnum d
      | _ \<Rightarrow> False)"

definition suspicious_secret :: "string \<Rightarrow> bool" where
  "suspicious_secret s \<longleftrightarrow>
     prefixed ''AIza'' is_key_char 35 s \<or> prefixed ''sk-'' is_alnum 48 s
     \<or> prefixed ''ghp_'' is_alnum 36 s \<or> is_slack_token s
     \<or> (length s \<ge> 32 \<and> list_all is_alnum s)"

definition is_valid_secret_id :: "string \<Rightarrow> bool" where
  "is_valid_secret_id s =
     (if is_uuid s then True
      else if suspicious_secret s then False
      else length s \<ge> 1 \<and> length s \<le> 100)"

text \<open>\<open>/[A-Za-z0-9_-]{20,}/.test(s)\<close>.\<close>

fun has_key_run :: "nat \<Rightarrow> string \<Rightarrow> bool" where
  "has_key_run n [] = False"
| "has_key_run n (c # s) =
     (if is_key_char c then n \<ge> 19 \<or> has_key_run (Suc n) s else has_key_run 0 s)"

definition looks_like_api_key :: "string \<Rightarrow> bool" where
  "looks_like_api_key s \<longleftrightarrow>
     length s > 20 \<and> (starts_with s ''AIza'' \<or> starts_with s ''sk-'' \<or> has_key_run 0 s)"

definition validate_secret_parameter :: "action \<Rightarrow> parameter \<Rightarrow> report" where
  "validate_secret_parameter a p =
     (let v = get_prop (ac_params a) (pr_id p)
      in if \<not> truthy v then
           (if \<not> pr_required p then no_report
            else error_report (ac_ref a) (pr_id p)
                   (''Required secret parameter '' @ quoted (pr_label p) @ '' is missing'')
                   ''Configure this parameter in the node configuration panel'')
         else
           (case v of
              JString s \<Rightarrow>
                if is_valid_secret_id s then no_report
                else if looks_like_api_key s then
                  error_report (ac_ref a) (pr_id p)
                    (''Invalid secret reference: '' @ quoted (take 10 s @ ''...'')
                     @ '' appears to be a direct API key value'')
                    ''Store your API key in the secrets manager and reference it by name instead of using the raw value''
                else
                  warning_report (ac_ref a) (pr_id p)
                    (''Secret reference '' @ quoted s @ '' may not exist or may be malformed'')
                    ''Verify the secret exists in the secrets manager''
            | _ \<Rightarrow> no_report))"

definition validate_secret_parameters :: "registry \<Rightarrow> action \<Rightarrow> report" where
  "validate_secret_parameters reg a =
     (let ps = (case get_metadata reg (ac_component a) of None \<Rightarrow> [] | Some cc \<Rightarrow> cc_parameters cc)
      in all_reports (map (validate_secret_parameter a) (filter (\<lambda>p. pr_type p = ''secret'') ps)))"

subsection \<open>Ports of an action\<close>

definition resolved_ports :: "zschema option \<Rightarrow> validator_throw + port list" where
  "resolved_ports z =
     (case z of None \<Rightarrow> Inr [] | Some s \<Rightarrow> map_error PortsThrew (extract_ports s))"

definition static_snapshot :: "component \<Rightarrow> validator_throw + port_snapshot" where
  "static_snapshot c =
     bind_result (map_error PortsThrew (extract_ports (cd_inputs c))) (\<lambda>ins.
     bind_result (map_error PortsThrew (extract_ports (cd_outputs c))) (\<lambda>outs.
       Inr \<lparr>sn_inputs = ins, sn_outputs = outs\<rparr>))"

definition resolve_action_port_snapshot :: "action \<Rightarrow> component \<Rightarrow> validator_throw + port_snapshot" where
  "resolve_action_port_snapshot a c =
     (case cd_resolve_ports c of
        None \<Rightarrow> static_snapshot c
      | Some resolve \<Rightarrow>
          (case resolve (ac_params a) of
             Inl e \<Rightarrow> Inl (ResolvePortsThrew e)
           | Inr (ins, outs) \<Rightarrow>
               bind_result (resolved_ports ins) (\<lambda>in_ports.
               bind_result (resolved_ports outs) (\<lambda>out_ports.
                 Inr \<lparr>sn_inputs = in_ports, sn_outputs = out_ports\<rparr>))))"

text \<open>The loop over the input ports: placeholders stand in for connected inputs without a value.\<close>

definition add_placeholder ::
  "action \<Rightarrow> json_record \<times> string js_set \<Rightarrow> port \<Rightarrow> json_record \<times> string js_set" where
  "add_placeholder a acc p =
     (case acc of
        (overrides, fds) \<Rightarrow>
          let has_static_value = has_own overrides (po_id p) \<and> get_prop overrides (po_id p) \<noteq> JUndefined;
              has_mapping = has_own (ac_mappings a) (po_id p)
          in if \<not> has_static_value \<and> has_mapping then
               (AList.update (po_id p) (create_placeholder_for_connection_type (Some (po_type p))) overrides,
                set_add (po_id p) fds)
             else (overrides, fds))"

definition param_issues :: "component \<Rightarrow> json_record \<Rightarrow> string option" where
  "param_issues c params =
     (case cd_parameters c of
        Some _ \<Rightarrow>
          (case cd_parse_params c params of [] \<Rightarrow> None | issues \<Rightarrow> Some (format_validation_error issues))
      | None \<Rightarrow> if params = [] then None else Some ''Component does not accept parameters'')"

definition validate_action ::
  "registry \<Rightarrow> action \<Rightarrow> component \<Rightarrow> validator_throw + port_snapshot \<times> report" where
  "validate_action reg a c =
     (let bad_params = param_issues c (ac_params a)
      in bind_result (if bad_params = None then resolve_action_port_snapshot a c else static_snapshot c) (\<lambda>sn.
           let param_report = (case bad_params of
                 None \<Rightarrow> no_report
               | Some m \<Rightarrow> error_report (ac_ref a) ''params''
                     (''Component parameter validation failed: '' @ m)
                     ''Check component parameter schema for required fields and correct types'');
               (overrides, fds) = foldl (add_placeholder a) (ac_overrides a, []) (sn_inputs sn);
               relevant = filter (\<lambda>i. \<not> is_placeholder_issue i fds) (cd_parse_inputs c overrides);
               input_report = (if relevant \<noteq> [] then
                   error_report (ac_ref a) ''inputOverrides''
                     (''Component input validation failed: '' @ format_validation_error relevant)
                     ''Check component input schema for required ports and correct types''
                 else no_report)
           in Inr (sn, all_reports [param_report, input_report, validate_secret_parameters reg a])))"

text \<open>The loop over the actions; an unknown component was reported already.\<close>

fun validate_actions ::
  "registry \<Rightarrow> action list \<Rightarrow> (node_ref, port_snapshot) js_map
   \<Rightarrow> validator_throw + (node_ref, port_snapshot) js_map \<times> report" where
  "validate_actions reg [] ports = Inr (ports, no_report)"
| "validate_actions reg (a # as) ports =
     (case registry_get reg (ac_component a) of
        None \<Rightarrow> validate_actions reg as ports
      | Some c \<Rightarrow>
          bind_result (validate_action reg a c) (\<lambda>(sn, r).
          bind_result (validate_actions reg as (AList.update (ac_ref a) sn ports)) (\<lambda>(ports', r').
            Inr (ports', both_reports r r'))))"

subsection \<open>Input mappings\<close>

definition missing_input :: "action \<Rightarrow> port \<Rightarrow> report" where
  "missing_input a p =
     (if po_required p \<and> \<not> has_own (ac_overrides a) (po_id p) \<and> \<not> has_own (ac_mappings a) (po_id p)
      then error_report (ac_ref a) ''inputMappings''
             (''Required input '' @ quoted (po_label p) @ '' ('' @ po_id p @ '') has no mapping or static value'')
             ''Either provide a static value in node configuration or connect an edge to this input''
      else no_report)"

definition unknown_source :: "node_ref list \<Rightarrow> action \<Rightarrow> string \<times> input_mapping \<Rightarrow> report" where
  "unknown_source nodes a m =
     (if im_source_ref (snd m) \<notin> set nodes
      then error_report (ac_ref a) ''inputMappings''
             (''Edge references unknown source node: '' @ im_source_ref (snd m))
             ''Check that the source node exists and the edge is properly connected''
      else no_report)"

definition count_port :: "(string, nat) js_map \<Rightarrow> graph_edge \<Rightarrow> (string, nat) js_map" where
  "count_port seen e =
     (let h = edge_target_handle e
      in if \<not> truthy_str h then seen
         else AList.update (the h) (get_or 0 seen (the h) + 1) seen)"

definition ports_seen :: "graph_edge list \<Rightarrow> node_ref \<Rightarrow> (string, nat) js_map" where
  "ports_seen es r = foldl count_port [] (filter (\<lambda>e. ge_target e = r) es)"

definition multiple_edges :: "action \<Rightarrow> port list \<Rightarrow> string \<times> nat \<Rightarrow> report" where
  "multiple_edges a ins pc =
     (case pc of
        (port_id, n) \<Rightarrow>
          if n > 1 \<and> port_id \<noteq> ''tools'' then
            (let label = (case find (\<lambda>p. po_id p = port_id) ins of
                            None \<Rightarrow> port_id | Some p \<Rightarrow> or_else (Some (po_label p)) port_id)
             in error_report (ac_ref a) ''inputMappings''
                  (''Multiple edges detected for input port '' @ quoted label
                   @ ''. Only one edge allowed per input.'')
                  ''Combine the sources into a single object using a transformer node or create a separate variable for each source.'')
          else no_report)"

definition validate_input_mappings ::
  "workflow_graph \<Rightarrow> 'a definition_core_scheme \<Rightarrow> (node_ref, port_snapshot) js_map \<Rightarrow> report" where
  "validate_input_mappings g d ports =
     all_reports (map (\<lambda>a.
       let ins = (case map_of ports (ac_ref a) of None \<Rightarrow> [] | Some sn \<Rightarrow> sn_inputs sn)
       in all_reports
            [all_reports (map (missing_input a) ins),
             all_reports (map (unknown_source (map gn_id (wg_nodes g)) a) (ac_mappings a)),
             all_reports (map (multiple_edges a ins) (ports_seen (wg_edges g) (ac_ref a)))])
       (df_actions d))"

subsection \<open>Edges\<close>

definition edge_error :: "node_ref \<Rightarrow> string \<Rightarrow> string \<Rightarrow> report" where
  "edge_error r m sg = error_report r ''inputMappings'' m sg"

definition in_tool_mode :: "(node_ref, node_metadata) js_map \<Rightarrow> node_ref \<Rightarrow> bool" where
  "in_tool_mode nodes r \<longleftrightarrow>
     (case map_of nodes r of None \<Rightarrow> False | Some md \<Rightarrow> nm_mode md = JString ''tool'')"

definition check_ports ::
  "'a definition_core_scheme \<Rightarrow> workflow_edge \<Rightarrow> port_snapshot \<Rightarrow> port_snapshot \<Rightarrow> string \<Rightarrow> string \<Rightarrow> report" where
  "check_ports d e src tgt sh th =
     (let source_port = find (\<lambda>p. po_id p = sh) (sn_outputs src);
          target_port = find (\<lambda>p. po_id p = th) (sn_inputs tgt);
          tool_source = (sh = ''tools'' \<and> in_tool_mode (df_nodes d) (we_source e))
      in if source_port = None \<and> \<not> tool_source then
           edge_error (we_target e) (''Source port '' @ quoted sh @ '' not found on '' @ we_source e)
             ''Confirm the source component exposes this output port''
         else
           (case target_port of
              None \<Rightarrow>
                edge_error (we_target e) (''Target port '' @ quoted th @ '' not found on '' @ we_target e)
                  ''Connect to a valid input port on the target component''
            | Some tp \<Rightarrow>
                (let source_type = (case source_port of None \<Rightarrow> ConnAny | Some sp \<Rightarrow> po_type sp)
                 in if \<not> can_connect source_type (po_type tp) then
                      edge_error (we_target e)
                        (''Type mismatch: '' @ describe_connection_type source_type
                         @ '' cannot connect to '' @ describe_connection_type (po_type tp))
                        ''Use matching port types or add a transformer component''
                    else no_report)))"

definition check_edge ::
  "'a definition_core_scheme \<Rightarrow> (node_ref, port_snapshot) js_map \<Rightarrow> workflow_edge \<Rightarrow> report" where
  "check_edge d ports e =
     (let refs = map ac_ref (df_actions d); sh = we_source_handle e; th = we_target_handle e
      in if we_source e \<notin> set refs \<or> we_target e \<notin> set refs then
           edge_error (we_target e)
             (''Edge references unknown action(s): '' @ we_source e @ '' -> '' @ we_target e)
             ''Ensure each edge points to a valid node''
         else
           (case (map_of ports (we_source e), map_of ports (we_target e)) of
              (Some src, Some tgt) \<Rightarrow>
                if truthy_str sh \<and> \<not> truthy_str th then
                  edge_error (we_target e)
                    (''Edge has sourceHandle \"'' @ the sh @ ''\" but missing targetHandle. Data edges must specify both source and target handles.'')
                    ''Add targetHandle to specify which input port on the target node should receive the data''
                else if \<not> truthy_str sh \<and> truthy_str th then
                  edge_error (we_target e)
                    (''Edge has targetHandle \"'' @ the th @ ''\" but missing sourceHandle. Data edges must specify both source and target handles.'')
                    ''Add sourceHandle to specify which output port on the source node provides the data''
                else if \<not> truthy_str sh \<and> \<not> truthy_str th then no_report
                else check_ports d e src tgt (the sh) (the th)
            | _ \<Rightarrow>
                edge_error (we_target e)
                  (''Missing port metadata for '' @ we_source e @ '' -> '' @ we_target e)
                  ''Verify component metadata exports both inputs and outputs''))"

definition validate_edge_compatibility ::
  "'a definition_core_scheme \<Rightarrow> (node_ref, port_snapshot) js_map \<Rightarrow> report" where
  "validate_edge_compatibility d ports = all_reports (map (check_edge d ports) (df_edges d))"

subsection \<open>The entry point\<close>

definition runtime_input_report :: "action \<Rightarrow> json \<Rightarrow> validator_throw + report" where
  "runtime_input_report a v =
     (if nullish v then Inl NullRuntimeInput
      else let fs = fields_of v
      in Inr (if \<not> truthy (get_prop fs ''id'') \<or> \<not> truthy (get_prop fs ''label'')
                 \<or> \<not> truthy (get_prop fs ''type'')
              then error_report (ac_ref a) ''runtimeInputs''
                     ''Runtime input definition missing required fields (id, label, type)''
                     ''Ensure each runtime input has id, label, and type fields''
              else no_report))"

definition entry_point_report :: "action \<Rightarrow> validator_throw + report" where
  "entry_point_report a =
     (case get_prop (ac_params a) ''runtimeInputs'' of
        JArray [] \<Rightarrow>
          Inr (warning_report (ac_ref a) ''runtimeInputs'' ''Entry Point has no runtime inputs configured''
                 ''Add runtime inputs if you need to collect data when the workflow is triggered'')
      | JArray vs \<Rightarrow>
          bind_result (traverse (runtime_input_report a) vs) (\<lambda>rs. Inr (all_reports rs))
      | _ \<Rightarrow>
          Inr (error_report (ac_ref a) ''runtimeInputs'' ''Entry Point requires runtimeInputs configuration''
                 ''Configure runtime inputs to collect data when the workflow is triggered''))"

definition ENTRY_POINT :: string where
  "ENTRY_POINT = ''core.workflow.entrypoint''"

definition validate_entry_point_configuration :: "'a definition_core_scheme \<Rightarrow> validator_throw + report" where
  "validate_entry_point_configuration d =
     (let entries = filter (\<lambda>a. ac_component a = ENTRY_POINT) (df_actions d);
          number = (if length entries = 0 then
              error_report ''entry-point'' ''componentId'' ''Entry Point is required to start the workflow''
                ''Add an Entry Point component to define how the workflow is invoked''
            else if length entries > 1 then
              error_report ''entry-point'' ''componentId'' ''Only one Entry Point is allowed per workflow''
                ''Remove additional Entry Point components''
            else no_report)
      in bind_result (traverse entry_point_report entries) (\<lambda>rs.
           Inr (both_reports number (all_reports rs))))"

subsection \<open>The whole validation\<close>

definition unknown_component :: "registry \<Rightarrow> graph_node \<Rightarrow> report" where
  "unknown_component reg n =
     (if registry_get reg (gn_type n) = None
      then error_report (gn_id n) ''type'' (''Unknown component type: '' @ gn_type n)
             (''Available components: '' @ join_with '', '' (map cd_id (registry_list reg)))
      else no_report)"

definition validate_workflow_graph ::
  "registry \<Rightarrow> workflow_graph \<Rightarrow> 'a definition_core_scheme \<Rightarrow> validator_throw + report" where
  "validate_workflow_graph reg g d =
     bind_result (validate_actions reg (df_actions d) []) (\<lambda>(ports, action_report).
     bind_result (validate_entry_point_configuration d) (\<lambda>entry_report.
       Inr (all_reports
         [all_reports (map (unknown_component reg) (wg_nodes g)),
          action_report,
          validate_input_mappings g d ports,
          entry_report,
          validate_edge_compatibility d ports])))"

definition is_valid :: "report \<Rightarrow> bool" where
  "is_valid r \<longleftrightarrow> rp_errors r = []"


subsection \<open>Reports without errors\<close>

named_theorems report_simps \<open>which reports are free of errors\<close>

lemma errors_both [simp]: "rp_errors (both_reports a b) = rp_errors a @ rp_errors b"
  by (simp add: both_reports_def)

lemma is_valid_both [report_simps]: "is_valid (both_reports a b) \<longleftrightarrow> is_valid a \<and> is_valid b"
  by (simp add: is_valid_def)

lemma is_valid_basic [report_simps]:
  "is_valid no_report" "\<not> is_valid (error_report n f m sg)" "is_valid (warning_report n f m sg)"
  "\<not> is_valid (edge_error r m sg)"
  by (simp_all add: is_valid_def no_report_def error_report_def warning_report_def edge_error_def)

lemma errors_foldl: "rp_errors (foldl both_reports r rs) = rp_errors r @ concat (map rp_errors rs)"
  by (induction rs arbitrary: r) simp_all

lemma is_valid_all [report_simps]: "is_valid (all_reports rs) \<longleftrightarrow> (\<forall>r \<in> set rs. is_valid r)"
  by (simp add: all_reports_def is_valid_def errors_foldl) (simp add: no_report_def)

text \<open>The ports an action is checked with: those of its component, resolved for its parameters.\<close>

definition action_ports :: "registry \<Rightarrow> action \<Rightarrow> port_snapshot option" where
  "action_ports reg a =
     (case registry_get reg (ac_component a) of
        None \<Rightarrow> None
      | Some c \<Rightarrow> (case validate_action reg a c of Inl _ \<Rightarrow> None | Inr (sn, _) \<Rightarrow> Some sn))"

lemma validate_actions_ports:
  "validate_actions reg as ports = Inr (ports', r) \<Longrightarrow> map_of ports' k = Some sn \<Longrightarrow>
   map_of ports k = Some sn \<or> (\<exists>a \<in> set as. ac_ref a = k \<and> action_ports reg a = Some sn)"
proof (induction as arbitrary: ports r)
  case (Cons a as)
  show ?case
  proof (cases "registry_get reg (ac_component a)")
    case None
    with Cons.IH [OF _ Cons.prems(2)] Cons.prems(1) show ?thesis by auto
  next
    case (Some c)
    with Cons.prems(1) obtain sna ra r' where
      va: "validate_action reg a c = Inr (sna, ra)"
      and rest: "validate_actions reg as (AList.update (ac_ref a) sna ports) = Inr (ports', r')"
      by (auto simp: result_simps)
    have "action_ports reg a = Some sna" by (simp add: action_ports_def Some va)
    with Cons.IH [OF rest Cons.prems(2)] show ?thesis by (auto split: if_splits)
  qed
qed auto

lemma validate_actions_reports:
  "validate_actions reg as ports = Inr (ports', r) \<Longrightarrow> is_valid r \<Longrightarrow> a \<in> set as \<Longrightarrow>
   registry_get reg (ac_component a) = Some c \<Longrightarrow> \<exists>sn ra. validate_action reg a c = Inr (sn, ra) \<and> is_valid ra"
  by (induction as arbitrary: ports r)
    (auto simp: result_simps report_simps split: option.splits)

lemma validate_workflow_graphE:
  assumes "validate_workflow_graph reg g d = Inr r" and "is_valid r"
  obtains ports ra re where "validate_actions reg (df_actions d) [] = Inr (ports, ra)" and "is_valid ra"
    and "validate_entry_point_configuration d = Inr re" and "is_valid re"
    and "is_valid (validate_input_mappings g d ports)" and "is_valid (validate_edge_compatibility d ports)"
    and "\<And>n. n \<in> set (wg_nodes g) \<Longrightarrow> registry_get reg (gn_type n) \<noteq> None"
proof -
  obtain ports ra re where p: "validate_actions reg (df_actions d) [] = Inr (ports, ra)"
    "validate_entry_point_configuration d = Inr re"
    and r: "r = all_reports [all_reports (map (unknown_component reg) (wg_nodes g)), ra,
                             validate_input_mappings g d ports, re, validate_edge_compatibility d ports]"
    using assms(1) unfolding validate_workflow_graph_def by (auto simp: result_simps)
  have v: "is_valid ra" "is_valid re" "is_valid (validate_input_mappings g d ports)"
    "is_valid (validate_edge_compatibility d ports)" "\<forall>n \<in> set (wg_nodes g). is_valid (unknown_component reg n)"
    using assms(2) unfolding r by (simp_all add: report_simps)
  have "registry_get reg (gn_type n) \<noteq> None" if "n \<in> set (wg_nodes g)" for n
    using v(5) that by (auto simp: unknown_component_def report_simps split: if_splits)
  with that [OF p(1) v(1) p(2) v(2-4)] show thesis by blast
qed

subsection \<open>What a valid report promises\<close>

text \<open>The handles of an edge, against the ports of its ends: none, or ports that connect.\<close>

definition handles_typed ::
  "(node_ref, node_metadata) js_map \<Rightarrow> port_snapshot \<Rightarrow> port_snapshot \<Rightarrow> workflow_edge \<Rightarrow> bool" where
  "handles_typed nodes src tgt e \<longleftrightarrow>
     \<not> truthy_str (we_source_handle e) \<and> \<not> truthy_str (we_target_handle e)
     \<or> (\<exists>sh. \<exists>tp \<in> set (sn_inputs tgt).
          we_source_handle e = Some sh \<and> we_target_handle e = Some (po_id tp)
          \<and> ((\<exists>sp \<in> set (sn_outputs src). po_id sp = sh \<and> can_connect (po_type sp) (po_type tp))
             \<or> sh = ''tools'' \<and> in_tool_mode nodes (we_source e)))"

definition edge_typed :: "registry \<Rightarrow> 'a definition_core_scheme \<Rightarrow> workflow_edge \<Rightarrow> bool" where
  "edge_typed reg d e \<longleftrightarrow>
     (\<exists>a \<in> set (df_actions d). \<exists>b \<in> set (df_actions d). \<exists>src tgt.
        ac_ref a = we_source e \<and> ac_ref b = we_target e
        \<and> action_ports reg a = Some src \<and> action_ports reg b = Some tgt
        \<and> handles_typed (df_nodes d) src tgt e)"

lemma find_SomeD: "find P xs = Some x \<Longrightarrow> x \<in> set xs \<and> P x"
  by (auto simp: find_Some_iff)

lemma check_ports_valid:
  assumes "is_valid (check_ports d e src tgt sh th)"
  shows "\<exists>tp \<in> set (sn_inputs tgt). po_id tp = th
    \<and> ((\<exists>sp \<in> set (sn_outputs src). po_id sp = sh \<and> can_connect (po_type sp) (po_type tp))
       \<or> sh = ''tools'' \<and> in_tool_mode (df_nodes d) (we_source e))"
  using assms
  by (auto simp: check_ports_def Let_def report_simps split: if_splits option.splits dest!: find_SomeD)

lemma check_edge_valid:
  assumes v: "is_valid (check_edge d ports e)"
    and ports: "\<And>k sn. map_of ports k = Some sn \<Longrightarrow> \<exists>a \<in> set (df_actions d). ac_ref a = k \<and> action_ports reg a = Some sn"
  shows "edge_typed reg d e"
proof -
  from v obtain src tgt where p: "map_of ports (we_source e) = Some src" "map_of ports (we_target e) = Some tgt"
    by (auto simp: check_edge_def Let_def report_simps split: if_splits option.splits)
  have h: "\<not> truthy_str (we_source_handle e) \<and> \<not> truthy_str (we_target_handle e)
    \<or> (\<exists>sh th. we_source_handle e = Some sh \<and> we_target_handle e = Some th
         \<and> is_valid (check_ports d e src tgt sh th))"
    using v p
    by (cases "we_source_handle e"; cases "we_target_handle e")
      (auto simp: check_edge_def Let_def report_simps split: if_splits)
  obtain a where a: "a \<in> set (df_actions d)" "ac_ref a = we_source e" "action_ports reg a = Some src"
    using ports [OF p(1)] by blast
  obtain b where b: "b \<in> set (df_actions d)" "ac_ref b = we_target e" "action_ports reg b = Some tgt"
    using ports [OF p(2)] by blast
  have "handles_typed (df_nodes d) src tgt e"
    using h
  proof
    assume "\<exists>sh th. we_source_handle e = Some sh \<and> we_target_handle e = Some th
         \<and> is_valid (check_ports d e src tgt sh th)"
    then show ?thesis unfolding handles_typed_def by (blast dest: check_ports_valid)
  qed (simp add: handles_typed_def)
  with a b show ?thesis unfolding edge_typed_def by metis
qed

lemma validated_edge_typed:
  assumes "validate_workflow_graph reg g d = Inr r" and "is_valid r" and "e \<in> set (df_edges d)"
  shows "edge_typed reg d e"
proof -
  obtain ports ra where va: "validate_actions reg (df_actions d) [] = Inr (ports, ra)"
    and ve: "is_valid (validate_edge_compatibility d ports)"
    using assms(1,2) by (rule validate_workflow_graphE)
  have "is_valid (check_edge d ports e)"
    using ve assms(3) by (simp add: validate_edge_compatibility_def report_simps)
  moreover have "\<exists>a \<in> set (df_actions d). ac_ref a = k \<and> action_ports reg a = Some sn"
    if "map_of ports k = Some sn" for k sn
    using validate_actions_ports [OF va that] by simp
  ultimately show ?thesis by (rule check_edge_valid)
qed


text \<open>
  A definition that passes validation is well typed: both ends of every edge are actions of
  known components, an edge carries either no handle or both, and the ports its handles name
  exist and can be connected; only the \<open>tools\<close> handle of a node in tool mode is exempt on the
  source side.
\<close>

theorem valid_edges_are_typed:
  assumes "validate_workflow_graph reg g d = Inr r" and "is_valid r"
  shows "\<forall>e \<in> set (df_edges d). edge_typed reg d e"
  using validated_edge_typed [OF assms] by blast

definition entry_ok :: "action \<Rightarrow> bool" where
  "entry_ok a \<longleftrightarrow>
     (\<exists>vs. get_prop (ac_params a) ''runtimeInputs'' = JArray vs
        \<and> (\<forall>v \<in> set vs. \<forall>k \<in> {''id'', ''label'', ''type''}. truthy (get_prop (fields_of v) k)))"

lemma runtime_input_valid:
  "runtime_input_report a v = Inr r \<Longrightarrow> is_valid r \<Longrightarrow> k \<in> {''id'', ''label'', ''type''} \<Longrightarrow>
   truthy (get_prop (fields_of v) k)"
  by (auto simp: runtime_input_report_def Let_def report_simps split: if_splits)

lemma entry_point_report_valid:
  assumes r: "entry_point_report a = Inr r" "is_valid r"
  shows "entry_ok a"
proof (cases "get_prop (ac_params a) ''runtimeInputs''")
  case (JArray vs)
  show ?thesis
  proof (cases "vs = []")
    case True
    with JArray show ?thesis by (simp add: entry_ok_def)
  next
    case False
    then obtain rs where rs: "traverse (runtime_input_report a) vs = Inr rs" "r = all_reports rs"
      using r JArray by (cases vs) (auto simp: entry_point_report_def result_simps)
    have "truthy (get_prop (fields_of v) k)" if "v \<in> set vs" "k \<in> {''id'', ''label'', ''type''}" for v k
      using traverse_Inr_mem [OF rs(1) that(1)] r(2) runtime_input_valid [OF _ _ that(2)]
      by (auto simp: rs(2) report_simps)
    with JArray show ?thesis by (auto simp: entry_ok_def)
  qed
qed (use r in \<open>auto simp: entry_point_report_def report_simps\<close>)

text \<open>
  A definition that passes validation has exactly one entry point, whose runtime inputs are a
  list in which every entry has an id, a label and a type.
\<close>

theorem valid_entry_point:
  assumes "validate_workflow_graph reg g d = Inr r" and "is_valid r"
  shows "\<exists>a. filter (\<lambda>a. ac_component a = ENTRY_POINT) (df_actions d) = [a] \<and> entry_ok a"
proof -
  obtain re where re: "validate_entry_point_configuration d = Inr re" and v: "is_valid re"
    using assms by (rule validate_workflow_graphE)
  let ?es = "filter (\<lambda>a. ac_component a = ENTRY_POINT) (df_actions d)"
  obtain rs where rs: "traverse entry_point_report ?es = Inr rs"
    using re by (auto simp: validate_entry_point_configuration_def Let_def result_simps)
  have "?es \<noteq> []" "\<not> length ?es > 1"
    using re v by (auto simp: validate_entry_point_configuration_def Let_def rs report_simps split: if_splits)
  then have "length ?es = 1" by (cases ?es) auto
  then obtain a where a: "?es = [a]" by (auto simp: length_Suc_conv)
  obtain ra where ra: "entry_point_report a = Inr ra" "rs = [ra]"
    using rs by (auto simp: a result_simps)
  then have "is_valid ra"
    using re v by (auto simp: validate_entry_point_configuration_def Let_def rs report_simps)
  with ra a show ?thesis using entry_point_report_valid by blast
qed

subsection \<open>Inputs\<close>

lemma validate_actions_keep:
  "validate_actions reg as ports = Inr (ports', r) \<Longrightarrow> k \<notin> ac_ref ` set as \<Longrightarrow> map_of ports' k = map_of ports k"
  by (induction as arbitrary: ports r) (auto simp: result_simps split: option.splits)

lemma validate_actions_set:
  "validate_actions reg as ports = Inr (ports', r) \<Longrightarrow> distinct (map ac_ref as) \<Longrightarrow> a \<in> set as \<Longrightarrow>
   action_ports reg a = Some sn \<Longrightarrow> map_of ports' (ac_ref a) = Some sn"
proof (induction as arbitrary: ports r)
  case (Cons b as)
  show ?case
  proof (cases "b = a")
    case True
    with Cons.prems(4) obtain c ra where c: "registry_get reg (ac_component b) = Some c"
      "validate_action reg b c = Inr (sn, ra)"
      by (auto simp: action_ports_def split: option.splits sum.splits)
    with Cons.prems(1) obtain r' where
      "validate_actions reg as (AList.update (ac_ref b) sn ports) = Inr (ports', r')"
      by (auto simp: result_simps)
    from validate_actions_keep [OF this] Cons.prems(2) True show ?thesis by (auto simp: image_iff)
  next
    case False
    with Cons.prems Cons.IH show ?thesis by (auto simp: result_simps split: option.splits)
  qed
qed simp

lemma count_port_spec:
  "h \<noteq> [] \<Longrightarrow> get_or 0 (foldl count_port seen es) h
   = get_or 0 seen h + length (filter (\<lambda>e. edge_target_handle e = Some h) es)"
proof (induction es arbitrary: seen)
  case (Cons e es)
  then show ?case
    by (cases "edge_target_handle e") (auto simp: count_port_def Let_def)
qed simp

lemma multiple_edges_valid:
  "is_valid (multiple_edges a ins (h, n)) \<Longrightarrow> h \<noteq> ''tools'' \<Longrightarrow> n \<le> 1"
  by (auto simp: multiple_edges_def Let_def report_simps split: if_splits)

text \<open>
  In a definition that passes validation every required input of every action has a static
  value or a mapping, every mapping comes from a node of the graph, and no input other than
  \<open>tools\<close> is the target of two edges.
\<close>

theorem valid_inputs_are_connected:
  assumes "validate_workflow_graph reg g d = Inr r" and "is_valid r"
    and "distinct (map ac_ref (df_actions d))" and "a \<in> set (df_actions d)" and "action_ports reg a = Some sn"
  shows "(\<forall>p \<in> set (sn_inputs sn). po_required p \<longrightarrow>
            has_own (ac_overrides a) (po_id p) \<or> has_own (ac_mappings a) (po_id p))
    \<and> (\<forall>(h, m) \<in> set (ac_mappings a). im_source_ref m \<in> gn_id ` set (wg_nodes g))
    \<and> (\<forall>h. h \<noteq> [] \<and> h \<noteq> ''tools'' \<longrightarrow>
         length (filter (\<lambda>e. ge_target e = ac_ref a \<and> edge_target_handle e = Some h) (wg_edges g)) \<le> 1)"
proof -
  obtain ports ra where va: "validate_actions reg (df_actions d) [] = Inr (ports, ra)"
    and vi: "is_valid (validate_input_mappings g d ports)"
    using assms(1,2) by (rule validate_workflow_graphE)
  have sn: "map_of ports (ac_ref a) = Some sn"
    using va assms(3-5) by (rule validate_actions_set)
  have v: "\<forall>p \<in> set (sn_inputs sn). is_valid (missing_input a p)"
    "\<forall>m \<in> set (ac_mappings a). is_valid (unknown_source (map gn_id (wg_nodes g)) a m)"
    "\<forall>pc \<in> set (ports_seen (wg_edges g) (ac_ref a)). is_valid (multiple_edges a (sn_inputs sn) pc)"
    using vi assms(4) sn by (auto simp: validate_input_mappings_def Let_def report_simps)
  have single: "length (filter (\<lambda>e. ge_target e = ac_ref a \<and> edge_target_handle e = Some h) (wg_edges g)) \<le> 1"
    if h: "h \<noteq> []" "h \<noteq> ''tools''" for h
  proof -
    have n: "length (filter (\<lambda>e. ge_target e = ac_ref a \<and> edge_target_handle e = Some h) (wg_edges g))
        = get_or 0 (ports_seen (wg_edges g) (ac_ref a)) h"
      using count_port_spec [OF h(1), of "[]"] by (simp add: ports_seen_def conj_commute)
    show ?thesis
    proof (cases "map_of (ports_seen (wg_edges g) (ac_ref a)) h")
      case None
      with n show ?thesis by (simp add: get_or_def)
    next
      case (Some k)
      then have "is_valid (multiple_edges a (sn_inputs sn) (h, k))" using v(3) map_of_SomeD by fastforce
      from multiple_edges_valid [OF this h(2)] n Some show ?thesis by (simp add: get_or_def)
    qed
  qed
  show ?thesis
    using v(1,2) single
    by (auto simp: missing_input_def unknown_source_def report_simps split: if_splits)
qed

subsection \<open>Secrets\<close>

lemma key_run_all: "list_all is_key_char s \<Longrightarrow> s \<noteq> [] \<Longrightarrow> n + length s \<ge> 20 \<Longrightarrow> has_key_run n s"
proof (induction s arbitrary: n)
  case (Cons c s)
  from Cons.IH [of "Suc n"] Cons.prems show ?case by (cases "n \<ge> 19"; cases s) auto
qed simp

lemma key_chars_suspicious: "list_all is_key_char s \<Longrightarrow> length s > 20 \<Longrightarrow> looks_like_api_key s"
  by (auto simp: looks_like_api_key_def intro!: key_run_all)

lemma alnum_key_char: "is_alnum c \<Longrightarrow> is_key_char c"
  by (simp add: is_key_char_def)

lemma digit_key_char: "is_digit c \<Longrightarrow> is_key_char c"
  by (auto simp: is_key_char_def is_digit_def is_alnum_def Let_def)

lemma list_all_key: "list_all is_alnum s \<Longrightarrow> list_all is_key_char s" "list_all is_digit s \<Longrightarrow> list_all is_key_char s"
  by (auto simp: list_all_iff alnum_key_char digit_key_char)

lemma prefixed_split: "prefixed p ok n s \<longleftrightarrow> (\<exists>t. s = p @ t \<and> length t = n \<and> list_all ok t)"
  by (auto simp: prefixed_def starts_with_def prefix_def)

lemma slack_key_chars:
  assumes "is_slack_token s"
  shows "list_all is_key_char s \<and> length s > 20"
proof -
  obtain b c d where s: "split_on (CHR ''-'') s = [''xoxb'', b, c, d]"
    and p: "list_all is_digit b" "list_all is_digit c" "list_all is_alnum d" "length d = 24"
    using assms by (auto simp: is_slack_token_def split: list.splits)
  have "s = join_with ''-'' [''xoxb'', b, c, d]" using join_split [of "CHR ''-''" s] by (simp add: s)
  then have "s = ''xoxb-'' @ b @ ''-'' @ c @ ''-'' @ d" by simp
  with p list_all_key show ?thesis by (simp add: is_key_char_def is_alnum_def Let_def)
qed

lemma suspicious_looks_like_api_key: "suspicious_secret s \<Longrightarrow> looks_like_api_key s"
  unfolding suspicious_secret_def
proof (elim disjE)
  assume "prefixed ''AIza'' is_key_char 35 s"
  then show ?thesis by (auto simp: prefixed_split looks_like_api_key_def starts_with_def)
next
  assume "prefixed ''sk-'' is_alnum 48 s"
  then show ?thesis by (auto simp: prefixed_split looks_like_api_key_def starts_with_def)
next
  assume "prefixed ''ghp_'' is_alnum 36 s"
  then show ?thesis
    by (auto simp: prefixed_split is_key_char_def is_alnum_def Let_def list_all_iff intro!: key_chars_suspicious)
next
  assume "is_slack_token s"
  then show ?thesis by (auto dest: slack_key_chars intro: key_chars_suspicious)
next
  assume "length s \<ge> 32 \<and> list_all is_alnum s"
  then show ?thesis by (auto intro: key_chars_suspicious list_all_key)
qed

lemma secret_report_valid:
  "is_valid (validate_secret_parameter a p) \<Longrightarrow>
   (pr_required p \<longrightarrow> truthy (get_prop (ac_params a) (pr_id p)))
   \<and> (\<forall>s. get_prop (ac_params a) (pr_id p) = JString s \<longrightarrow> suspicious_secret s \<longrightarrow> is_uuid s)"
  using suspicious_looks_like_api_key
  by (auto simp: validate_secret_parameter_def Let_def report_simps is_valid_secret_id_def
      suspicious_secret_def prefixed_def is_slack_token_def split: if_splits json.splits)

text \<open>
  In a definition that passes validation every required secret parameter is given, and no
  secret parameter is a string with the form of a known API key (Google, Stripe, GitHub, Slack, or
  a long alphanumeric one) in the place of the reference to a secret.
\<close>

theorem valid_secrets_are_references:
  assumes "validate_workflow_graph reg g d = Inr r" and "is_valid r" and "a \<in> set (df_actions d)"
    and "get_metadata reg (ac_component a) = Some cc" and "p \<in> set (cc_parameters cc)" and "pr_type p = ''secret''"
  shows "(pr_required p \<longrightarrow> truthy (get_prop (ac_params a) (pr_id p)))
    \<and> (\<forall>s. get_prop (ac_params a) (pr_id p) = JString s \<longrightarrow> suspicious_secret s \<longrightarrow> is_uuid s)"
proof -
  obtain ports ra where va: "validate_actions reg (df_actions d) [] = Inr (ports, ra)" "is_valid ra"
    using assms(1,2) by (rule validate_workflow_graphE)
  have "registry_get reg (ac_component a) = Some (cc_definition cc)"
    using assms(4) by (simp add: registry_get_def get_metadata_def)
  from validate_actions_reports [OF va assms(3) this] obtain sn r' where
    r': "validate_action reg a (cc_definition cc) = Inr (sn, r')" "is_valid r'"
    by blast
  have "is_valid (validate_secret_parameters reg a)"
    using r' by (auto simp: validate_action_def Let_def case_prod_beta result_simps report_simps)
  then have "is_valid (validate_secret_parameter a p)"
    using assms(4-6) by (simp add: validate_secret_parameters_def report_simps)
  then show ?thesis by (rule secret_report_valid)
qed


subsection \<open>A sample workflow\<close>

definition sample_params :: zschema where
  "sample_params = ZSchema None None ''object'' None
     [(''token'', ZSchema None (Some \<lparr>pa_label = ''Token'', pa_editor = ''secret'', pa_description = None,
        pa_help_text = None, pa_expose_to_tool = None, pa_placeholder = None, pa_options = None,
        pa_min = None, pa_max = None, pa_rows = None, pa_visible_when = None\<rparr>) ''string'' None [] [] JUndefined)]
     [] JUndefined"

definition sample_empty :: zschema where
  "sample_empty = ZSchema None None ''object'' None [] [] JUndefined"

definition sample_registry :: registry where
  "sample_registry =
     (case register_components
        [(sample_component ENTRY_POINT sample_empty)\<lparr>cd_outputs := sample_inputs, cd_parameters := Some sample_empty\<rparr>,
         (sample_component ''scan'' sample_inputs)\<lparr>cd_parameters := Some sample_params\<rparr>] of
        Inl _ \<Rightarrow> [] | Inr reg \<Rightarrow> reg)"

definition sample_node :: "node_ref \<Rightarrow> string \<Rightarrow> graph_node" where
  "sample_node k c = \<lparr>gn_id = k, gn_type = c, gn_label = k, gn_config = []\<rparr>"

definition sample_graph :: workflow_graph where
  "sample_graph =
     \<lparr>wg_name = ''g'', wg_description = None,
      wg_nodes = [sample_node ''in'' ENTRY_POINT, sample_node ''scan'' ''scan''],
      wg_edges = [\<lparr>ge_id = ''e'', ge_source = ''in'', ge_target = ''scan'', ge_source_handle = Some ''url'',
                   ge_target_handle = Some ''url'', ge_kind = None\<rparr>]\<rparr>"

definition sample_entry_action :: action where
  "sample_entry_action =
     \<lparr>ac_ref = ''in'', ac_component = ENTRY_POINT,
      ac_params = [(''runtimeInputs'', JArray [JObject [(''id'', JString ''url''), (''label'', JString ''URL''),
                                                    (''type'', JString ''text'')]])],
      ac_overrides = [], ac_depends_on = [], ac_mappings = [], ac_retry = None\<rparr>"

definition sample_scan_action :: action where
  "sample_scan_action =
     \<lparr>ac_ref = ''scan'', ac_component = ''scan'', ac_params = [(''token'', JString ''my-token'')],
      ac_overrides = [(''key'', JString ''k'')], ac_depends_on = [''in''],
      ac_mappings = [(''url'', \<lparr>im_source_ref = ''in'', im_source_handle = ''url''\<rparr>)], ac_retry = None\<rparr>"

definition sample_edge :: workflow_edge where
  "sample_edge =
     \<lparr>we_id = ''e'', we_source = ''in'', we_target = ''scan'', we_source_handle = Some ''url'',
      we_target_handle = Some ''url'', we_kind = SuccessEdge\<rparr>"

definition sample_definition :: definition_core where
  "sample_definition =
     \<lparr>df_version = 1, df_title = ''g'', df_description = None, df_entrypoint = ''in'', df_nodes = [],
      df_edges = [sample_edge], df_dependency_counts = [(''in'', 0), (''scan'', 1)],
      df_actions = [sample_entry_action, sample_scan_action]\<rparr>"

lemma sample_valid:
  obtains r where "validate_workflow_graph sample_registry sample_graph sample_definition = Inr r" and "is_valid r"
proof -
  have "case validate_workflow_graph sample_registry sample_graph sample_definition of
          Inl _ \<Rightarrow> False | Inr r \<Rightarrow> is_valid r"
    by code_simp
  with that show thesis by (auto split: sum.splits)
qed

lemma valid_edges_are_typed_witness: "edge_typed sample_registry sample_definition sample_edge"
proof -
  obtain r where r: "validate_workflow_graph sample_registry sample_graph sample_definition = Inr r" "is_valid r"
    by (rule sample_valid)
  show ?thesis using valid_edges_are_typed [OF r] by (simp add: sample_definition_def)
qed

lemma valid_entry_point_witness:
  "\<exists>a. filter (\<lambda>a. ac_component a = ENTRY_POINT) (df_actions sample_definition) = [a] \<and> entry_ok a"
proof -
  obtain r where r: "validate_workflow_graph sample_registry sample_graph sample_definition = Inr r" "is_valid r"
    by (rule sample_valid)
  show ?thesis by (rule valid_entry_point [OF r])
qed

lemma valid_inputs_are_connected_witness:
  "\<exists>sn. action_ports sample_registry sample_scan_action = Some sn
     \<and> map po_id (sn_inputs sn) = [''url'', ''key''] \<and> list_all po_required (sn_inputs sn)
     \<and> (\<forall>p \<in> set (sn_inputs sn). has_own (ac_overrides sample_scan_action) (po_id p)
          \<or> has_own (ac_mappings sample_scan_action) (po_id p))"
proof -
  obtain r where r: "validate_workflow_graph sample_registry sample_graph sample_definition = Inr r" "is_valid r"
    by (rule sample_valid)
  have d: "distinct (map ac_ref (df_actions sample_definition))" "sample_scan_action \<in> set (df_actions sample_definition)"
    by (simp_all add: sample_definition_def sample_entry_action_def sample_scan_action_def)
  have "case action_ports sample_registry sample_scan_action of None \<Rightarrow> False
    | Some sn \<Rightarrow> map po_id (sn_inputs sn) = [''url'', ''key''] \<and> list_all po_required (sn_inputs sn)"
    by code_simp
  then obtain sn where sn: "action_ports sample_registry sample_scan_action = Some sn"
    "map po_id (sn_inputs sn) = [''url'', ''key''] \<and> list_all po_required (sn_inputs sn)"
    by (cases "action_ports sample_registry sample_scan_action") simp_all
  then have req: "po_required p" if "p \<in> set (sn_inputs sn)" for p using that by (simp add: list_all_iff)
  have "\<forall>p \<in> set (sn_inputs sn). has_own (ac_overrides sample_scan_action) (po_id p)
      \<or> has_own (ac_mappings sample_scan_action) (po_id p)"
    using valid_inputs_are_connected [OF r d sn(1), THEN conjunct1] req by (meson bspec)
  then show ?thesis using sn by (intro exI [of _ sn] conjI) simp_all
qed

lemma valid_secrets_are_references_witness:
  "\<exists>cc p. get_metadata sample_registry ''scan'' = Some cc \<and> p \<in> set (cc_parameters cc) \<and> pr_id p = ''token''
     \<and> truthy (get_prop (ac_params sample_scan_action) ''token'')"
proof -
  obtain r where r: "validate_workflow_graph sample_registry sample_graph sample_definition = Inr r" "is_valid r"
    by (rule sample_valid)
  have a: "sample_scan_action \<in> set (df_actions sample_definition)" by (simp add: sample_definition_def)
  have "case get_metadata sample_registry ''scan'' of None \<Rightarrow> False
    | Some cc \<Rightarrow> map (\<lambda>p. (pr_id p, pr_type p, pr_required p)) (cc_parameters cc) = [(''token'', ''secret'', True)]"
    by code_simp
  then obtain cc p where cc: "get_metadata sample_registry ''scan'' = Some cc" "p \<in> set (cc_parameters cc)"
    "pr_id p = ''token''" "pr_type p = ''secret''" "pr_required p"
    by (auto split: option.splits)
  have "get_metadata sample_registry (ac_component sample_scan_action) = Some cc"
    using cc(1) by (simp add: sample_scan_action_def)
  from valid_secrets_are_references [OF r a this cc(2,4)] cc show ?thesis by auto
qed

end
