(* ===== verification/Workflow_Compiler.thy ===== *)
theory Workflow_Compiler
  imports Validator Loop_Body Scheduler_Liveness
begin

section \<open>The workflow compiler\<close>

text \<open>
  \<open>backend/src/dsl/compiler.ts\<close>: \<open>compileWorkflowGraph\<close> drops the nodes that only document the
  graph, makes an action of every other node, takes the loop body out, sorts the main graph,
  validates the definition and parses it with \<open>WorkflowDefinitionSchema\<close> (\<open>dsl/types.ts\<close>).  Every
  \<open>throw\<close> is an \<open>Inl\<close>; \<open>CodeThrew\<close> stands for an exception out of a component's own code.

  The registry is the argument \<open>reg\<close>.  The combinators of the schema library that the parsers
  at the end of the compilation use follow its documented behaviour: an object keeps its declared
  keys, \<open>optional\<close> lets \<open>undefined\<close> through and \<open>default\<close> replaces it.
\<close>

subsection \<open>Nodes\<close>

definition is_executable :: "registry \<Rightarrow> graph_node \<Rightarrow> bool" where
  "is_executable reg n \<longleftrightarrow>
     (case registry_get reg (gn_type n) of
        None \<Rightarrow> True
      | Some c \<Rightarrow> \<not> (cd_ui_only c = JBool True))"

definition executable_nodes :: "registry \<Rightarrow> workflow_graph \<Rightarrow> graph_node list" where
  "executable_nodes reg g = filter (is_executable reg) (wg_nodes g)"

definition check_registered :: "registry \<Rightarrow> graph_node list \<Rightarrow> compile_error + unit" where
  "check_registered reg ns =
     (case find (\<lambda>n. registry_get reg (gn_type n) = None) ns of
        Some n \<Rightarrow> Inl (NotRegistered (gn_type n))
      | None \<Rightarrow> Inr ())"

definition edges_into :: "graph_edge list \<Rightarrow> node_ref \<Rightarrow> graph_edge list" where
  "edges_into es n = filter (\<lambda>e. ge_target e = n) es"

definition sources_into :: "graph_edge list \<Rightarrow> node_ref \<Rightarrow> node_ref js_set" where
  "sources_into es n = set_of_list (map ge_source (edges_into es n))"

definition join_strategy_value :: "json \<Rightarrow> join_strategy option" where
  "join_strategy_value v =
     (if v = JString ''all'' then Some JoinAll
      else if v = JString ''any'' then Some JoinAny
      else if v = JString ''first'' then Some JoinFirst
      else None)"

definition nonempty_string :: "json \<Rightarrow> string option" where
  "nonempty_string v = (case v of JString s \<Rightarrow> if s \<noteq> [] then Some s else None | _ \<Rightarrow> None)"

definition finite_number :: "json \<Rightarrow> rat option" where
  "finite_number v = (case v of JNumber (Finite r) \<Rightarrow> Some r | _ \<Rightarrow> None)"

definition node_mode :: "graph_node \<Rightarrow> json" where
  "node_mode n = coalesce (get_prop (gn_config n) ''mode'') (JString ''normal'')"

definition compile_node_metadata :: "graph_edge list \<Rightarrow> graph_node \<Rightarrow> node_metadata" where
  "compile_node_metadata es n =
     (let config = gn_config n;
          tools = map ge_source (filter (\<lambda>e. ge_target_handle e = Some ''tools'') (edges_into es (gn_id n)))
      in \<lparr>nm_ref = gn_id n,
          nm_mode = node_mode n,
          nm_label = Some (gn_label n),
          nm_join = join_strategy_value (get_prop config ''joinStrategy''),
          nm_stream = nonempty_string (get_prop config ''streamId''),
          nm_group = nonempty_string (get_prop config ''groupId''),
          nm_max_concurrency = finite_number (get_prop config ''maxConcurrency''),
          nm_tool_config = get_prop config ''toolConfig'',
          nm_connected_tools = (if tools \<noteq> [] then Some tools else None)\<rparr>)"

definition nodes_metadata :: "graph_edge list \<Rightarrow> graph_node list \<Rightarrow> (node_ref, node_metadata) js_map" where
  "nodes_metadata es ns = map_of_entries (map (\<lambda>n. (gn_id n, compile_node_metadata es n)) ns)"

subsection \<open>Actions\<close>

definition add_mapping :: "(string, input_mapping) js_map \<Rightarrow> graph_edge \<Rightarrow> (string, input_mapping) js_map" where
  "add_mapping m e =
     (let h = edge_target_handle e;
          source = (case ge_source_handle e of None \<Rightarrow> ''__self__'' | Some s \<Rightarrow> s)
      in if \<not> truthy_str h then m
         else AList.update (the h) \<lparr>im_source_ref = ge_source e, im_source_handle = source\<rparr> m)"

definition input_mappings :: "graph_edge list \<Rightarrow> (string, input_mapping) js_map" where
  "input_mappings es = foldl add_mapping [] es"

text \<open>The inputs the checks use: resolved for the parameters, or the static ones when that throws.\<close>

definition static_inputs :: "registry \<Rightarrow> string \<Rightarrow> port list" where
  "static_inputs reg t = (case get_metadata reg t of None \<Rightarrow> [] | Some cc \<Rightarrow> cc_inputs cc)"

definition node_inputs :: "registry \<Rightarrow> string \<Rightarrow> json_record \<Rightarrow> port list" where
  "node_inputs reg t params =
     (case registry_get reg t of
        None \<Rightarrow> static_inputs reg t
      | Some c \<Rightarrow>
          (case cd_resolve_ports c of
             None \<Rightarrow> static_inputs reg t
           | Some resolve \<Rightarrow>
               (case resolve params of
                  Inl _ \<Rightarrow> static_inputs reg t
                | Inr (None, _) \<Rightarrow> static_inputs reg t
                | Inr (Some z, _) \<Rightarrow>
                    (case extract_ports z of Inl _ \<Rightarrow> static_inputs reg t | Inr ps \<Rightarrow> ps))))"

definition input_table :: "port list \<Rightarrow> (string, port) js_map" where
  "input_table ps = map_of_entries (map (\<lambda>p. (po_id p, p)) ps)"

definition prefers_manual :: "(string, port) js_map \<Rightarrow> string \<Rightarrow> bool" where
  "prefers_manual table k \<longleftrightarrow>
     (case map_of table k of None \<Rightarrow> False | Some p \<Rightarrow> po_priority p = Some ManualFirst)"

definition drop_connected ::
  "(string, port) js_map \<Rightarrow> (string, input_mapping) js_map \<Rightarrow> json_record \<Rightarrow> json_record" where
  "drop_connected table mappings overrides =
     foldl (\<lambda>ov k. if prefers_manual table k then ov else AList.delete k ov) overrides (map fst mappings)"

definition has_manual :: "json \<Rightarrow> bool" where
  "has_manual v \<longleftrightarrow>
     v \<noteq> JUndefined \<and> v \<noteq> JNull \<and> (case v of JString s \<Rightarrow> length (trim s) > 0 | _ \<Rightarrow> True)"

definition input_missing ::
  "json \<Rightarrow> string list \<Rightarrow> (string, input_mapping) js_map \<Rightarrow> json_record \<Rightarrow> string \<times> port \<Rightarrow> bool" where
  "input_missing mode credentials mappings overrides kp =
     (case kp of
        (k, p) \<Rightarrow>
          if \<not> po_required p then False
          else if mode = JString ''tool'' \<and> k \<notin> set credentials then False
          else \<not> has_own mappings k \<and> \<not> has_manual (get_prop overrides k))"

definition preliminary_action ::
  "registry \<Rightarrow> graph_node list \<Rightarrow> graph_edge list \<Rightarrow> node_ref \<Rightarrow> compile_error + action" where
  "preliminary_action reg ns es r =
     (let n = the (find (\<lambda>n. gn_id n = r) ns);
          config = gn_config n;
          params = fields_of (coalesce (get_prop config ''params'') (JObject []));
          raw_overrides = fields_of (coalesce (get_prop config ''inputOverrides'') (JObject []));
          mappings = input_mappings (edges_into es r);
          component = registry_get reg (gn_type n)
      in bind_result
           (case component of
              None \<Rightarrow> Inr []
            | Some c \<Rightarrow> map_error (\<lambda>_. CodeThrew) (get_credential_input_ids c))
           (\<lambda>credentials.
             let table = input_table (node_inputs reg (gn_type n) params);
                 overrides = drop_connected table mappings raw_overrides
             in (case find (input_missing (node_mode n) credentials mappings overrides) table of
                   Some (k, _) \<Rightarrow> Inl (RequiredInputMissing (gn_type n) k)
                 | None \<Rightarrow>
                     Inr \<lparr>ac_ref = r, ac_component = gn_type n, ac_params = params,
                          ac_overrides = overrides, ac_depends_on = sources_into es r,
                          ac_mappings = mappings,
                          ac_retry = (case component of None \<Rightarrow> None | Some c \<Rightarrow> cd_retry c)\<rparr>)))"

definition main_action ::
  "graph_edge list \<Rightarrow> node_ref list \<Rightarrow> graph_edge list \<Rightarrow> (node_ref, action) js_map \<Rightarrow> node_ref
   \<Rightarrow> compile_error + action" where
  "main_action es main_nodes main_edges actions_by_ref r =
     (case map_of actions_by_ref r of
        None \<Rightarrow> Inl (CompiledActionMissing r)
      | Some a \<Rightarrow>
          Inr (a\<lparr>ac_depends_on :=
                   sources_into
                     (filter (\<lambda>e. ge_source e \<in> set main_nodes \<and> ge_target e \<in> set main_nodes) main_edges) r,
                 ac_mappings :=
                   input_mappings (filter (\<lambda>e. ge_source e \<in> set main_nodes) (edges_into es r))\<rparr>))"

subsection \<open>The schema of definitions\<close>

definition zod_string :: "json \<Rightarrow> json option" where
  "zod_string v = (case v of JString _ \<Rightarrow> Some v | _ \<Rightarrow> None)"

definition zod_number :: "json \<Rightarrow> json option" where
  "zod_number v = (case v of JNumber (Finite _) \<Rightarrow> Some v | _ \<Rightarrow> None)"

definition zod_int :: "json \<Rightarrow> json option" where
  "zod_int v =
     (case v of JNumber (Finite r) \<Rightarrow> if snd (quotient_of r) = 1 then Some v else None | _ \<Rightarrow> None)"

definition zod_boolean :: "json \<Rightarrow> json option" where
  "zod_boolean v = (case v of JBool _ \<Rightarrow> Some v | _ \<Rightarrow> None)"

definition zod_optional :: "(json \<Rightarrow> json option) \<Rightarrow> json \<Rightarrow> json option" where
  "zod_optional p v = (if v = JUndefined then Some JUndefined else p v)"

definition zod_default :: "json \<Rightarrow> (json \<Rightarrow> json option) \<Rightarrow> json \<Rightarrow> json option" where
  "zod_default d p v = (if v = JUndefined then Some d else p v)"

definition zod_enum :: "string list \<Rightarrow> json \<Rightarrow> json option" where
  "zod_enum ks v = (case v of JString s \<Rightarrow> if s \<in> set ks then Some v else None | _ \<Rightarrow> None)"

definition zod_array :: "(json \<Rightarrow> json option) \<Rightarrow> json \<Rightarrow> json option" where
  "zod_array p v = (case v of JArray vs \<Rightarrow> map_option JArray (those (map p vs)) | _ \<Rightarrow> None)"

definition zod_record :: "(json \<Rightarrow> json option) \<Rightarrow> json \<Rightarrow> json option" where
  "zod_record p v =
     (case v of
        JObject fs \<Rightarrow> map_option (\<lambda>vs. JObject (zip (map fst fs) vs)) (those (map (\<lambda>f. p (snd f)) fs))
      | _ \<Rightarrow> None)"

definition zod_object :: "(string \<times> (json \<Rightarrow> json option)) list \<Rightarrow> json \<Rightarrow> json option" where
  "zod_object shape v =
     (case v of
        JObject fs \<Rightarrow>
          map_option (\<lambda>vs. JObject (filter (\<lambda>f. snd f \<noteq> JUndefined) (zip (map fst shape) vs)))
            (those (map (\<lambda>(k, p). p (get_prop fs k)) shape))
      | _ \<Rightarrow> None)"

definition parse_mode :: "json \<Rightarrow> json option" where
  "parse_mode = zod_default (JString ''normal'') (zod_enum [''normal'', ''tool''])"

definition parse_tool_config :: "json \<Rightarrow> json option" where
  "parse_tool_config =
     zod_optional (zod_object
       [(''boundInputIds'', zod_default (JArray []) (zod_array zod_string)),
        (''exposedInputIds'', zod_default (JArray []) (zod_array zod_string))])"

definition parse_retry_policy :: "json option \<Rightarrow> json option option" where
  "parse_retry_policy r =
     (case r of
        None \<Rightarrow> Some None
      | Some v \<Rightarrow>
          map_option Some
            (zod_object
              [(''maxAttempts'', zod_optional zod_int),
               (''initialIntervalSeconds'', zod_optional zod_number),
               (''maximumIntervalSeconds'', zod_optional zod_number),
               (''backoffCoefficient'', zod_optional zod_number),
               (''nonRetryableErrorTypes'', zod_optional (zod_array zod_string)),
               (''errorTypePolicies'',
                 zod_optional (zod_record (zod_object
                   [(''retryable'', zod_optional zod_boolean),
                    (''retryDelayMs'', zod_optional zod_number)])))] v))"

definition parse_action :: "action \<Rightarrow> compile_error + action" where
  "parse_action a =
     (case parse_retry_policy (ac_retry a) of
        None \<Rightarrow> Inl SchemaRejected
      | Some r \<Rightarrow> Inr (a\<lparr>ac_retry := r\<rparr>))"

definition positive_int :: "rat \<Rightarrow> bool" where
  "positive_int r \<longleftrightarrow> snd (quotient_of r) = 1 \<and> r > 0"

definition parse_node_metadata :: "node_metadata \<Rightarrow> compile_error + node_metadata" where
  "parse_node_metadata m =
     (case (parse_mode (nm_mode m), parse_tool_config (nm_tool_config m)) of
        (Some mode, Some tools) \<Rightarrow>
          if (case nm_max_concurrency m of None \<Rightarrow> True | Some r \<Rightarrow> positive_int r)
          then Inr (m\<lparr>nm_mode := mode, nm_tool_config := tools\<rparr>)
          else Inl SchemaRejected
      | _ \<Rightarrow> Inl SchemaRejected)"

definition parse_nodes :: "(node_ref, node_metadata) js_map \<Rightarrow> compile_error + (node_ref, node_metadata) js_map" where
  "parse_nodes = traverse (\<lambda>(k, m). bind_result (parse_node_metadata m) (\<lambda>m'. Inr (k, m')))"

definition parse_definition :: "'a definition_core_scheme \<Rightarrow> compile_error + 'a definition_core_scheme" where
  "parse_definition d =
     bind_result (parse_nodes (df_nodes d)) (\<lambda>ns.
     bind_result (traverse parse_action (df_actions d)) (\<lambda>as.
       Inr (d\<lparr>df_nodes := ns, df_actions := as\<rparr>)))"

definition parse_loop_body :: "node_ref \<times> loop_body \<Rightarrow> compile_error + node_ref \<times> loop_body" where
  "parse_loop_body kb =
     bind_result (parse_definition (lb_definition (snd kb))) (\<lambda>d.
       Inr (fst kb, (snd kb)\<lparr>lb_definition := d\<rparr>))"

definition parse_workflow_definition :: "workflow_definition \<Rightarrow> compile_error + workflow_definition" where
  "parse_workflow_definition d =
     bind_result (parse_definition d) (\<lambda>d'.
     bind_result (traverse parse_loop_body (df_loop_bodies d')) (\<lambda>bs.
       Inr (d'\<lparr>df_loop_bodies := bs\<rparr>)))"

subsection \<open>The compilation\<close>

definition finding_message :: "finding \<Rightarrow> string" where
  "finding_message f =
     ''['' @ fi_node f @ ''] '' @ fi_field f @ '': '' @ fi_message f
     @ (if fi_suggestion f \<noteq> [] then '' (Suggestion: '' @ fi_suggestion f @ '')'' else [])"

definition assemble ::
  "workflow_graph \<Rightarrow> (node_ref, node_metadata) js_map \<Rightarrow> loop_extraction \<Rightarrow> action list
   \<Rightarrow> compile_error + workflow_definition" where
  "assemble g metadata x actions =
     (case find (\<lambda>a. ac_component a = ENTRY_POINT) actions of
        None \<Rightarrow> Inl EntryPointMissing
      | Some entry \<Rightarrow>
          (case find (\<lambda>a. ac_ref a = ac_ref entry) actions of
             None \<Rightarrow> Inl (EntryPointMismatch (ac_ref entry))
           | Some v \<Rightarrow>
               if ac_component v \<noteq> ENTRY_POINT then Inl (EntryPointMismatch (ac_ref entry))
               else Inr \<lparr>df_version = 2, df_title = wg_name g, df_description = wg_description g,
                         df_entrypoint = ac_ref entry,
                         df_nodes = map_of_entries (filter (\<lambda>m. fst m \<in> set (le_main_nodes x)) metadata),
                         df_edges = map compiled_edge (le_main_edges x),
                         df_dependency_counts = dependency_counts actions,
                         df_actions = actions,
                         df_loop_bodies = le_loop_bodies x\<rparr>))"

definition check_valid :: "registry \<Rightarrow> workflow_graph \<Rightarrow> workflow_definition \<Rightarrow> compile_error + unit" where
  "check_valid reg g d =
     (case validate_workflow_graph reg g d of
        Inl _ \<Rightarrow> Inl CodeThrew
      | Inr r \<Rightarrow>
          if is_valid r then Inr ()
          else Inl (ValidationFailed (map finding_message (rp_errors r))))"

definition compile_workflow_graph :: "registry \<Rightarrow> workflow_graph \<Rightarrow> compile_error + workflow_definition" where
  "compile_workflow_graph reg g =
     (let ns = executable_nodes reg g;
          es = wg_edges g;
          metadata = nodes_metadata es ns
      in bind_result (check_registered reg ns) (\<lambda>_.
         bind_result (traverse (preliminary_action reg ns es) (map gn_id ns)) (\<lambda>prelim.
         let actions_by_ref = map_of_entries (map (\<lambda>a. (ac_ref a, a)) prelim)
         in bind_result (extract_loop_bodies ns es metadata actions_by_ref) (\<lambda>x.
         bind_result (topo_sort_without_loop_back_cycles (le_main_nodes x) (le_main_edges x)
                        (le_loop_bodies x)) (\<lambda>order.
         bind_result (traverse (main_action es (le_main_nodes x) (le_main_edges x) actions_by_ref) order)
           (\<lambda>actions.
         bind_result (assemble g metadata x actions) (\<lambda>d.
         bind_result (check_valid reg g d) (\<lambda>_.
           parse_workflow_definition d))))))))"


subsection \<open>What the parser of definitions keeps\<close>

lemma parse_action_Inr: "parse_action a = Inr b \<Longrightarrow> \<exists>r. b = a\<lparr>ac_retry := r\<rparr>"
  by (auto simp: parse_action_def split: option.splits)

lemma parse_definition_Inr:
  assumes "parse_definition d = Inr d'"
  shows "df_edges d' = df_edges d \<and> df_entrypoint d' = df_entrypoint d
    \<and> df_dependency_counts d' = df_dependency_counts d
    \<and> list_all2 (\<lambda>a b. \<exists>r. b = a\<lparr>ac_retry := r\<rparr>) (df_actions d) (df_actions d')"
  using assms
  by (auto simp: parse_definition_def result_simps traverse_Inr elim!: list_all2_mono dest: parse_action_Inr)

lemma same_but_retry:
  assumes "list_all2 (\<lambda>a b. \<exists>r. b = a\<lparr>ac_retry := r\<rparr>) as bs"
  shows "map ac_ref bs = map ac_ref as" and "map ac_depends_on bs = map ac_depends_on as"
    and "map ac_component bs = map ac_component as"
    and "b \<in> set bs \<Longrightarrow> \<exists>a \<in> set as. \<exists>r. b = a\<lparr>ac_retry := r\<rparr>"
  using assms by (induction rule: list_all2_induct) auto

lemma parse_workflow_definition_Inr:
  assumes "parse_workflow_definition d = Inr d'"
  shows "df_edges d' = df_edges d" and "df_entrypoint d' = df_entrypoint d"
    and "df_dependency_counts d' = df_dependency_counts d"
    and "list_all2 (\<lambda>a b. \<exists>r. b = a\<lparr>ac_retry := r\<rparr>) (df_actions d) (df_actions d')"
  using assms
  by (auto simp: parse_workflow_definition_def result_simps dest!: parse_definition_Inr)

subsection \<open>The parts of a successful compilation\<close>

lemma assemble_Inr:
  "assemble g md x actions = Inr d \<Longrightarrow>
   df_edges d = map compiled_edge (le_main_edges x) \<and> df_actions d = actions
   \<and> df_dependency_counts d = dependency_counts actions \<and> df_loop_bodies d = le_loop_bodies x
   \<and> (\<exists>a \<in> set actions. ac_ref a = df_entrypoint d \<and> ac_component a = ENTRY_POINT)"
  by (auto simp: assemble_def split: option.splits if_splits dest!: find_SomeD)

lemma check_valid_Inr:
  "check_valid reg g d = Inr u \<Longrightarrow> \<exists>r. validate_workflow_graph reg g d = Inr r \<and> is_valid r"
  by (auto simp: check_valid_def split: sum.splits if_splits)

lemma compile_workflow_graphE:
  assumes "compile_workflow_graph reg g = Inr d"
  obtains prelim x order actions d0 r where
    "traverse (preliminary_action reg (executable_nodes reg g) (wg_edges g))
       (map gn_id (executable_nodes reg g)) = Inr prelim"
    and "extract_loop_bodies (executable_nodes reg g) (wg_edges g)
           (nodes_metadata (wg_edges g) (executable_nodes reg g))
           (map_of_entries (map (\<lambda>a. (ac_ref a, a)) prelim)) = Inr x"
    and "topo_sort_without_loop_back_cycles (le_main_nodes x) (le_main_edges x) (le_loop_bodies x) = Inr order"
    and "traverse (main_action (wg_edges g) (le_main_nodes x) (le_main_edges x)
           (map_of_entries (map (\<lambda>a. (ac_ref a, a)) prelim))) order = Inr actions"
    and "df_edges d0 = map compiled_edge (le_main_edges x)" and "df_actions d0 = actions"
    and "df_dependency_counts d0 = dependency_counts actions"
    and "validate_workflow_graph reg g d0 = Inr r" and "is_valid r"
    and "parse_workflow_definition d0 = Inr d"
  using assms
  by (auto simp: compile_workflow_graph_def Let_def result_simps dest!: check_valid_Inr) (blast dest: assemble_Inr)

lemma preliminary_ref: "preliminary_action reg ns es r = Inr a \<Longrightarrow> ac_ref a = r"
  by (auto simp: preliminary_action_def Let_def result_simps split: option.splits)

lemma preliminary_refs: "traverse (preliminary_action reg ns es) rs = Inr as \<Longrightarrow> map ac_ref as = rs"
  using traverse_Inr_map [of "preliminary_action reg ns es" rs as ac_ref "\<lambda>r. r"] by (simp add: preliminary_ref)

lemma map_of_refs: "map_of (map_of_entries (map (\<lambda>a. (ac_ref a, a)) as)) r = Some a \<Longrightarrow> ac_ref a = r \<and> a \<in> set as"
  by (auto dest!: map_of_SomeD)

lemma main_action_Inr:
  "main_action es mn me acts r = Inr a \<Longrightarrow> \<exists>b. map_of acts r = Some b \<and> ac_ref a = ac_ref b
     \<and> ac_depends_on a = sources_into (filter (\<lambda>e. ge_source e \<in> set mn \<and> ge_target e \<in> set mn) me) r"
  by (auto simp: main_action_def split: option.splits)

text \<open>References without the character that joins the two ends of a loop-back key.\<close>

definition plain_refs :: "graph_node list \<Rightarrow> bool" where
  "plain_refs ns \<longleftrightarrow> (\<forall>n \<in> set ns. gn_id n \<noteq> [] \<and> CHR ''>'' \<notin> set (gn_id n))"

lemma arrow_inject:
  assumes "s @ ''->'' @ t = s' @ ''->'' @ t'" and "CHR ''>'' \<notin> set s" and "CHR ''>'' \<notin> set s'"
  shows "s = s'"
proof -
  have before: "takeWhile (\<lambda>c. c \<noteq> CHR ''>'') (u @ ''->'' @ v) = u @ ''-''" if "CHR ''>'' \<notin> set u" for u v
    using that by (subst takeWhile_append2) auto
  from arg_cong [OF assms(1), of "takeWhile (\<lambda>c. c \<noteq> CHR ''>'')"] show ?thesis
    unfolding before [OF assms(2)] before [OF assms(3)] by simp
qed

text \<open>No edge between main nodes is taken for an edge back from a loop body.\<close>

lemma main_edges_sorted:
  assumes x: "extract_loop_bodies ns es md (map_of_entries (map (\<lambda>a. (ac_ref a, a)) as)) = Inr x"
    and refs: "map ac_ref as = map gn_id ns" and plain: "plain_refs ns"
    and e: "ge_source e \<in> set (le_main_nodes x)"
  shows "ge_source e @ ''->'' @ ge_target e \<notin> set (loop_back_pairs (le_loop_bodies x))"
proof
  let ?acts = "map_of_entries (map (\<lambda>a. (ac_ref a, a)) as)"
  assume "ge_source e @ ''->'' @ ge_target e \<in> set (loop_back_pairs (le_loop_bodies x))"
  then obtain k lb q where lb: "(k, lb) \<in> set (le_loop_bodies x)" "q \<in> set (lb_exits lb)"
    and key: "ge_source e @ ''->'' @ ge_target e = q @ ''->'' @ lb_for_each lb"
    by (auto simp: loop_back_pairs_def)
  from extract_loop_bodies_Inr [OF x] lb(1) obtain ee where
    build: "build_loop_body k (collect_body_node_ids k (ge_target ee) es) (ge_target ee)
              (find_loop_back_edges k (collect_body_node_ids k (ge_target ee) es) es) ee es md ?acts = Inr lb"
    and main: "le_main_nodes x = filter (\<lambda>i. i = k \<or> i \<notin> set (collect_body_node_ids k (ge_target ee) es))
                (map gn_id ns)"
    by (auto simp: Let_def)
  define body where "body = collect_body_node_ids k (ge_target ee) es"
  from build [folded body_def] obtain actions where
    acts: "traverse (body_action body ?acts) body = Inr actions"
    and exits: "lb_exits lb = set_of_list (map ge_source (find_loop_back_edges k body es))"
    by (rule build_loop_body_Inr)
  have q: "q \<in> set body" using lb(2) exits by (auto simp: find_loop_back_edges_def)
  then obtain y where "body_action body ?acts q = Inr y" using traverse_Inr_mem [OF acts] by blast
  then have "q \<in> set (map ac_ref as)"
    by (auto simp: body_action_def split: option.splits dest!: map_of_SomeD)
  then have "CHR ''>'' \<notin> set q" using plain refs by (auto simp: plain_refs_def)
  moreover have "CHR ''>'' \<notin> set (ge_source e)" using e main plain by (auto simp: plain_refs_def)
  ultimately have "ge_source e = q" using arrow_inject [OF key] by blast
  with e main q fe_notin_body [of k "ge_target ee" es] show False by (auto simp: body_def)
qed

lemma topo_sort_Inr:
  assumes "topo_sort_without_loop_back_cycles nodes es bodies = Inr order" and "distinct nodes"
    and "\<And>e. e \<in> set es \<Longrightarrow> ge_source e \<in> set nodes \<Longrightarrow> ge_source e @ ''->'' @ ge_target e \<notin> set (loop_back_pairs bodies)"
  shows "distinct order \<and> set order = set nodes
    \<and> in_order {(ge_source e, ge_target e) | e. e \<in> set es \<and> ge_source e \<in> set nodes \<and> ge_target e \<in> set nodes} {} order"
proof -
  let ?pairs = "map (\<lambda>e. (ge_source e, ge_target e))
          (filter (\<lambda>e. ge_source e @ ''->'' @ ge_target e \<notin> set (loop_back_pairs bodies)) es)"
  obtain res where res: "distinct res" "in_order (set (edges_among nodes ?pairs)) {} res"
    "set res = {n \<in> set nodes. \<forall>s. (s, n) \<in> set (edges_among nodes ?pairs) \<longrightarrow> s \<in> set res}"
    "kahn_sort nodes ?pairs = (if length res \<noteq> length nodes then Inl GraphHasCycle else Inr res)"
    using kahn_result [OF assms(2), of ?pairs] by blast
  have o: "order = res" "length res = length nodes"
    using assms(1) res(4) by (auto simp: topo_sort_without_loop_back_cycles_def split: if_splits)
  have "set res \<subseteq> set nodes" using res(3) by blast
  then have "set res = set nodes" using distinct_same_length [OF res(1)] o assms(2) by simp
  moreover have "{(ge_source e, ge_target e) | e. e \<in> set es \<and> ge_source e \<in> set nodes \<and> ge_target e \<in> set nodes}
      \<subseteq> set (edges_among nodes ?pairs)"
    using assms(3) by (auto simp: set_edges_among)
  ultimately show ?thesis using res(1,2) o(1) in_order_subset by blast
qed

lemma set_sources_into: "set (sources_into es r) = {ge_source e | e. e \<in> set es \<and> ge_target e = r}"
  by (auto simp: sources_into_def edges_into_def)

lemma distinct_sources_into: "distinct (sources_into es r)"
  by (simp add: sources_into_def)

lemma map_of_dependency_counts:
  "distinct (map ac_ref as) \<Longrightarrow> a \<in> set as \<Longrightarrow> map_of (dependency_counts as) (ac_ref a) = Some (length (ac_depends_on a))"
proof -
  assume d: "distinct (map ac_ref as)" and a: "a \<in> set as"
  have "distinct (map fst (rev (map (\<lambda>a. (ac_ref a, length (ac_depends_on a))) as)))"
    using d by (simp add: rev_map [symmetric] o_def)
  with a show ?thesis by (auto simp: dependency_counts_def intro!: map_of_is_SomeI)
qed


subsection \<open>Compiled definitions\<close>

lemma edge_relation_compiled:
  "df_edges d = map compiled_edge es \<Longrightarrow> edge_relation d = {(ge_source e, ge_target e) | e. e \<in> set es}"
  by (auto simp: edge_relation_def compiled_edge_def)

lemma validated_edge_relation:
  assumes "validate_workflow_graph reg g d = Inr r" and "is_valid r"
  shows "edge_relation d \<subseteq> action_refs d \<times> action_refs d"
  using validated_edge_typed [OF assms] by (force simp: edge_relation_def edge_typed_def action_refs_def)

lemma compiled_parts:
  assumes c: "compile_workflow_graph reg g = Inr d" and dist: "distinct (map gn_id (wg_nodes g))"
    and plain: "plain_refs (wg_nodes g)"
  shows "edge_relation d \<subseteq> action_refs d \<times> action_refs d" and "distinct (map ac_ref (df_actions d))"
    and "in_order (edge_relation d) {} (map ac_ref (df_actions d))"
    and "action_refs d \<subseteq> gn_id ` set (wg_nodes g)"
    and "\<forall>a \<in> set (df_actions d). set (ac_depends_on a) = {s. (s, ac_ref a) \<in> edge_relation d}
         \<and> distinct (ac_depends_on a)
         \<and> map_of (df_dependency_counts d) (ac_ref a) = Some (length (ac_depends_on a))"
proof -
  let ?ns = "executable_nodes reg g"
  from c obtain prelim x order actions d0 r where
    prelim: "traverse (preliminary_action reg ?ns (wg_edges g)) (map gn_id ?ns) = Inr prelim"
    and x: "extract_loop_bodies ?ns (wg_edges g) (nodes_metadata (wg_edges g) ?ns)
              (map_of_entries (map (\<lambda>a. (ac_ref a, a)) prelim)) = Inr x"
    and order: "topo_sort_without_loop_back_cycles (le_main_nodes x) (le_main_edges x) (le_loop_bodies x) = Inr order"
    and actions: "traverse (main_action (wg_edges g) (le_main_nodes x) (le_main_edges x)
           (map_of_entries (map (\<lambda>a. (ac_ref a, a)) prelim))) order = Inr actions"
    and d0: "df_edges d0 = map compiled_edge (le_main_edges x)" "df_actions d0 = actions"
      "df_dependency_counts d0 = dependency_counts actions"
    and valid: "validate_workflow_graph reg g d0 = Inr r" "is_valid r"
    and parsed: "parse_workflow_definition d0 = Inr d"
    by (rule compile_workflow_graphE)
  note p = parse_workflow_definition_Inr [OF parsed] and same = same_but_retry [OF parse_workflow_definition_Inr(4) [OF parsed]]
  let ?acts = "map_of_entries (map (\<lambda>a. (ac_ref a, a)) prelim)"
  have plain': "plain_refs ?ns" using plain by (auto simp: plain_refs_def executable_nodes_def)
  have "distinct (map gn_id ?ns)" using dist by (simp add: executable_nodes_def distinct_map_filter)
  then have nodes: "distinct (le_main_nodes x)" "set (le_main_nodes x) \<subseteq> gn_id ` set (wg_nodes g)"
    using extract_loop_bodies_Inr [OF x] by (auto simp: Let_def executable_nodes_def)
  have sorted: "distinct order" "set order = set (le_main_nodes x)"
    "in_order {(ge_source e, ge_target e) | e. e \<in> set (le_main_edges x) \<and> ge_source e \<in> set (le_main_nodes x)
        \<and> ge_target e \<in> set (le_main_nodes x)} {} order"
    using topo_sort_Inr [OF order nodes(1)] main_edges_sorted [OF x preliminary_refs [OF prelim] plain'] by auto
  have main: "ac_ref a = n \<and> ac_depends_on a
      = sources_into (filter (\<lambda>e. ge_source e \<in> set (le_main_nodes x) \<and> ge_target e \<in> set (le_main_nodes x))
                        (le_main_edges x)) n"
    if "main_action (wg_edges g) (le_main_nodes x) (le_main_edges x) ?acts n = Inr a" for n a
    using main_action_Inr [OF that] map_of_refs [of prelim n] by metis
  have refs0: "map ac_ref actions = order"
    using traverse_Inr_map [OF actions, of ac_ref "\<lambda>n. n"] main by simp
  then have refs: "map ac_ref (df_actions d) = order" using same(1) d0(2) by simp
  have ends: "edge_relation d0 \<subseteq> action_refs d0 \<times> action_refs d0"
    using valid by (rule validated_edge_relation)
  have er: "edge_relation d0 = edge_relation d" "action_refs d0 = set order" "action_refs d = set order"
    using p(1) d0(2) refs0 refs by (auto simp: edge_relation_def action_refs_def simp flip: set_map)
  note rel = edge_relation_compiled [OF d0(1)]
  have inside: "{(ge_source e, ge_target e) | e. e \<in> set (le_main_edges x) \<and> ge_source e \<in> set (le_main_nodes x)
        \<and> ge_target e \<in> set (le_main_nodes x)} = edge_relation d"
    using ends sorted(2) unfolding er rel [unfolded er] by auto
  show "edge_relation d \<subseteq> action_refs d \<times> action_refs d" using ends er by simp
  show "distinct (map ac_ref (df_actions d))" using sorted(1) refs by simp
  show "in_order (edge_relation d) {} (map ac_ref (df_actions d))" using sorted(3) inside refs by simp
  show "action_refs d \<subseteq> gn_id ` set (wg_nodes g)" using sorted(2) nodes(2) er by simp
  show "\<forall>a \<in> set (df_actions d). set (ac_depends_on a) = {s. (s, ac_ref a) \<in> edge_relation d}
         \<and> distinct (ac_depends_on a)
         \<and> map_of (df_dependency_counts d) (ac_ref a) = Some (length (ac_depends_on a))"
  proof
    fix a assume "a \<in> set (df_actions d)"
    with same(4) d0(2) obtain b q where b: "b \<in> set actions" "a = b\<lparr>ac_retry := q\<rparr>" by blast
    obtain n where "main_action (wg_edges g) (le_main_nodes x) (le_main_edges x) ?acts n = Inr b"
      by (rule traverse_Inr_memE [OF actions b(1)])
    from main [OF this] have
      n: "ac_ref b = n" "ac_depends_on b
      = sources_into (filter (\<lambda>e. ge_source e \<in> set (le_main_nodes x) \<and> ge_target e \<in> set (le_main_nodes x))
                        (le_main_edges x)) n" by simp_all
    have "distinct (map ac_ref actions)" using refs0 sorted(1) by simp
    from map_of_dependency_counts [OF this b(1)]
    have "map_of (df_dependency_counts d) (ac_ref b) = Some (length (ac_depends_on b))"
      using p(3) d0(3) by simp
    moreover have "set (ac_depends_on b) = {s. (s, ac_ref b) \<in> edge_relation d}"
      unfolding n set_sources_into inside [symmetric] by auto
    ultimately show "set (ac_depends_on a) = {s. (s, ac_ref a) \<in> edge_relation d} \<and> distinct (ac_depends_on a)
      \<and> map_of (df_dependency_counts d) (ac_ref a) = Some (length (ac_depends_on a))"
      using b(2) n by (simp add: distinct_sources_into)
  qed
qed

lemma compiled_well_formed:
  assumes "compile_workflow_graph reg g = Inr d" and "distinct (map gn_id (wg_nodes g))"
    and "plain_refs (wg_nodes g)"
  shows "well_formed d"
proof -
  note p = compiled_parts [OF assms]
  have "acyclic (edge_relation d)"
    using p(3) by (rule in_order_acyclic) (use p(1) in \<open>auto simp: action_refs_def\<close>)
  moreover have "[] \<notin> action_refs d" using p(4) assms(3) unfolding plain_refs_def by (metis imageE subsetD)
  ultimately show ?thesis using p(1) by (simp add: well_formed_def)
qed

subsection \<open>Types and values of a compiled definition\<close>

lemma validate_action_retry: "validate_action reg (a\<lparr>ac_retry := r\<rparr>) c = validate_action reg a c"
proof -
  have "add_placeholder (a\<lparr>ac_retry := r\<rparr>) = add_placeholder a"
    by (simp add: add_placeholder_def fun_eq_iff)
  moreover have "validate_secret_parameter (a\<lparr>ac_retry := r\<rparr>) = validate_secret_parameter a"
    by (simp add: validate_secret_parameter_def fun_eq_iff Let_def cong: json.case_cong if_cong)
  moreover have "resolve_action_port_snapshot (a\<lparr>ac_retry := r\<rparr>) = resolve_action_port_snapshot a"
    by (simp add: resolve_action_port_snapshot_def fun_eq_iff cong: option.case_cong)
  moreover have "validate_secret_parameters reg (a\<lparr>ac_retry := r\<rparr>) = validate_secret_parameters reg a"
    using calculation(2) by (simp add: validate_secret_parameters_def)
  ultimately show ?thesis
    by (simp add: validate_action_def Let_def cong: option.case_cong if_cong)
qed

lemma action_ports_retry: "action_ports reg (a\<lparr>ac_retry := r\<rparr>) = action_ports reg a"
  by (simp add: action_ports_def validate_action_retry cong: option.case_cong)

lemma parse_nodes_mode:
  "parse_nodes ns = Inr ns' \<Longrightarrow> in_tool_mode ns k \<Longrightarrow> in_tool_mode ns' k"
  by (induction ns arbitrary: ns')
    (auto simp: in_tool_mode_def parse_nodes_def result_simps parse_node_metadata_def parse_mode_def
      zod_default_def zod_enum_def split: option.splits if_splits)

lemma edge_typed_parsed:
  assumes "edge_typed reg d e" and "parse_workflow_definition d = Inr d'"
  shows "edge_typed reg d' e"
proof -
  have l: "list_all2 (\<lambda>a b. \<exists>r. b = a\<lparr>ac_retry := r\<rparr>) (df_actions d) (df_actions d')"
    using parse_workflow_definition_Inr(4) [OF assms(2)] .
  have "parse_nodes (df_nodes d) = Inr (df_nodes d')"
    using assms(2) by (auto simp: parse_workflow_definition_def parse_definition_def result_simps)
  note mode = parse_nodes_mode [OF this]
  have act: "\<exists>b \<in> set (df_actions d'). ac_ref b = ac_ref a \<and> action_ports reg b = action_ports reg a"
    if "a \<in> set (df_actions d)" for a
    using l that by (induction rule: list_all2_induct) (auto simp: action_ports_retry)
  obtain a b src tgt where ab: "a \<in> set (df_actions d)" "b \<in> set (df_actions d)"
    "ac_ref a = we_source e" "ac_ref b = we_target e" "action_ports reg a = Some src" "action_ports reg b = Some tgt"
    and h: "handles_typed (df_nodes d) src tgt e"
    using assms(1) unfolding edge_typed_def by blast
  obtain a' b' where a': "a' \<in> set (df_actions d')" "ac_ref a' = we_source e" "action_ports reg a' = Some src"
    and b': "b' \<in> set (df_actions d')" "ac_ref b' = we_target e" "action_ports reg b' = Some tgt"
    using act [OF ab(1)] act [OF ab(2)] ab(3-6) by auto
  from h have "handles_typed (df_nodes d') src tgt e"
    unfolding handles_typed_def using mode by blast
  with a' b' show ?thesis unfolding edge_typed_def by metis
qed

lemma drop_connected_notin:
  "has_own (drop_connected table m ov) k \<Longrightarrow> k \<in> set (map fst m) \<Longrightarrow> prefers_manual table k"
proof -
  have "has_own (foldl (\<lambda>ov k. if prefers_manual table k then ov else AList.delete k ov) ov ks) k
    \<Longrightarrow> has_own ov k \<and> (k \<in> set ks \<longrightarrow> prefers_manual table k)" for ks
  proof (induction ks arbitrary: ov)
    case (Cons j ks)
    show ?case
    proof (cases "prefers_manual table j")
      case True
      with Cons show ?thesis by auto
    next
      case False
      with Cons.prems Cons.IH [of "AList.delete j ov"] show ?thesis by auto
    qed
  qed simp
  then show "has_own (drop_connected table m ov) k \<Longrightarrow> k \<in> set (map fst m) \<Longrightarrow> prefers_manual table k"
    by (simp add: drop_connected_def)
qed

lemma has_own_foldl_add_mapping:
  "has_own (foldl add_mapping m es) k
   \<longleftrightarrow> has_own m k \<or> (\<exists>e \<in> set es. edge_target_handle e = Some k \<and> k \<noteq> [])"
proof (induction es arbitrary: m)
  case (Cons e es)
  then show ?case by (cases "edge_target_handle e") (auto simp: add_mapping_def Let_def)
qed simp

lemma has_own_input_mappings:
  "has_own (input_mappings es) k \<longleftrightarrow> (\<exists>e \<in> set es. edge_target_handle e = Some k \<and> k \<noteq> [])"
  by (simp add: input_mappings_def has_own_foldl_add_mapping) (simp add: has_own_def)

lemma preliminary_actionE:
  assumes "preliminary_action reg ns es r = Inr a"
  obtains table raw where "table = input_table (node_inputs reg (ac_component a) (ac_params a))"
    and "ac_mappings a = input_mappings (edges_into es r)"
    and "ac_overrides a = drop_connected table (ac_mappings a) raw"
  using assms by (auto simp: preliminary_action_def Let_def result_simps split: option.splits)

lemma preliminary_manual:
  assumes p: "preliminary_action reg ns es r = Inr a" and k: "has_own (ac_mappings a) k" "has_own (ac_overrides a) k"
  shows "\<exists>q \<in> set (node_inputs reg (ac_component a) (ac_params a)). po_id q = k \<and> po_priority q = Some ManualFirst"
proof -
  from p obtain raw where o: "ac_overrides a
      = drop_connected (input_table (node_inputs reg (ac_component a) (ac_params a))) (ac_mappings a) raw"
    by (rule preliminary_actionE) blast
  have "k \<in> set (map fst (ac_mappings a))" using k(1) by (simp add: has_own_iff)
  from drop_connected_notin [OF k(2) [unfolded o] this]
  show ?thesis by (auto simp: prefers_manual_def input_table_def split: option.splits dest!: map_of_SomeD)
qed

lemma compiled_action_parts:
  assumes "compile_workflow_graph reg g = Inr d" and "a \<in> set (df_actions d)"
  obtains b mn where "preliminary_action reg (executable_nodes reg g) (wg_edges g) (ac_ref a) = Inr b"
    and "ac_component a = ac_component b" and "ac_params a = ac_params b" and "ac_overrides a = ac_overrides b"
    and "ac_mappings a = input_mappings (filter (\<lambda>e. ge_source e \<in> set mn) (edges_into (wg_edges g) (ac_ref a)))"
proof -
  let ?ns = "executable_nodes reg g"
  from assms(1) obtain prelim x order actions d0 r where
    prelim: "traverse (preliminary_action reg ?ns (wg_edges g)) (map gn_id ?ns) = Inr prelim"
    and "extract_loop_bodies ?ns (wg_edges g) (nodes_metadata (wg_edges g) ?ns)
           (map_of_entries (map (\<lambda>a. (ac_ref a, a)) prelim)) = Inr x"
    and "topo_sort_without_loop_back_cycles (le_main_nodes x) (le_main_edges x) (le_loop_bodies x) = Inr order"
    and actions: "traverse (main_action (wg_edges g) (le_main_nodes x) (le_main_edges x)
           (map_of_entries (map (\<lambda>a. (ac_ref a, a)) prelim))) order = Inr actions"
    and "df_edges d0 = map compiled_edge (le_main_edges x)" and d0: "df_actions d0 = actions"
    and "df_dependency_counts d0 = dependency_counts actions"
    and "validate_workflow_graph reg g d0 = Inr r" and "is_valid r"
    and parsed: "parse_workflow_definition d0 = Inr d"
    by (rule compile_workflow_graphE)
  from same_but_retry(4) [OF parse_workflow_definition_Inr(4) [OF parsed] assms(2)] d0
  obtain c q where c: "c \<in> set actions" "a = c\<lparr>ac_retry := q\<rparr>" by blast
  obtain n where n: "main_action (wg_edges g) (le_main_nodes x) (le_main_edges x)
           (map_of_entries (map (\<lambda>a. (ac_ref a, a)) prelim)) n = Inr c"
    by (rule traverse_Inr_memE [OF actions c(1)])
  then obtain b where b: "map_of (map_of_entries (map (\<lambda>a. (ac_ref a, a)) prelim)) n = Some b"
    "c = b\<lparr>ac_depends_on := ac_depends_on c,
           ac_mappings := input_mappings (filter (\<lambda>e. ge_source e \<in> set (le_main_nodes x)) (edges_into (wg_edges g) n))\<rparr>"
    by (auto simp: main_action_def split: option.splits)
  note r = map_of_refs [OF b(1)]
  from r have "b \<in> set prelim" by simp
  then obtain m where m: "preliminary_action reg ?ns (wg_edges g) m = Inr b"
    by (rule traverse_Inr_memE [OF prelim])
  have "m = n" using preliminary_ref [OF m] r by simp
  obtain deps maps where cc: "c = b\<lparr>ac_depends_on := deps, ac_mappings := maps\<rparr>"
    "maps = input_mappings (filter (\<lambda>e. ge_source e \<in> set (le_main_nodes x)) (edges_into (wg_edges g) n))"
    using b(2) by blast
  have "ac_ref a = n" using c(2) cc(1) r by simp
  with m \<open>m = n\<close> show thesis using that [of b "le_main_nodes x"] c(2) cc by simp
qed

subsection \<open>What compiling promises\<close>


text \<open>
  The dependencies of a compiled action are exactly the sources of the edges into it, each
  once, and its dependency count is their number.
\<close>

theorem compiled_dependencies_are_edges:
  assumes "compile_workflow_graph reg g = Inr d" and "distinct (map gn_id (wg_nodes g))"
    and "plain_refs (wg_nodes g)" and "a \<in> set (df_actions d)"
  shows "set (ac_depends_on a) = {s. (s, ac_ref a) \<in> edge_relation d} \<and> distinct (ac_depends_on a)
    \<and> map_of (df_dependency_counts d) (ac_ref a) = Some (length (ac_depends_on a))"
  using compiled_parts(5) [OF assms(1-3)] assms(4) by blast


text \<open>
  A compiled action does not carry both a connection and a typed-in value for an input: the
  value of a connected input is dropped unless the port is declared to prefer manual values.
\<close>

theorem compiled_inputs_have_one_source:
  assumes "compile_workflow_graph reg g = Inr d" and "a \<in> set (df_actions d)"
    and "has_own (ac_mappings a) k" and "has_own (ac_overrides a) k"
  shows "\<exists>p \<in> set (node_inputs reg (ac_component a) (ac_params a)). po_id p = k \<and> po_priority p = Some ManualFirst"
proof -
  obtain b mn where b: "preliminary_action reg (executable_nodes reg g) (wg_edges g) (ac_ref a) = Inr b"
    "ac_component a = ac_component b" "ac_params a = ac_params b" "ac_overrides a = ac_overrides b"
    "ac_mappings a = input_mappings (filter (\<lambda>e. ge_source e \<in> set mn) (edges_into (wg_edges g) (ac_ref a)))"
    using assms(1,2) by (rule compiled_action_parts)
  have "ac_mappings b = input_mappings (edges_into (wg_edges g) (ac_ref a))"
    using b(1) by (rule preliminary_actionE)
  then have "has_own (ac_mappings b) k" using assms(3) b(5) by (auto simp: has_own_input_mappings)
  with preliminary_manual [OF b(1) this] assms(4) b show ?thesis by simp
qed



subsection \<open>The compiled sample\<close>

definition sample_config :: "json_record \<Rightarrow> json_record \<Rightarrow> json_record" where
  "sample_config params overrides = [(''params'', JObject params), (''inputOverrides'', JObject overrides)]"

definition sample_source :: workflow_graph where
  "sample_source = sample_graph\<lparr>wg_nodes :=
     [(sample_node ''scan'' ''scan'')\<lparr>gn_config := sample_config [(''token'', JString ''my-token'')]
        [(''key'', JString ''k''), (''url'', JString ''typed in'')]\<rparr>,
      (sample_node ''in'' ENTRY_POINT)\<lparr>gn_config := sample_config (ac_params sample_entry_action) []\<rparr>]\<rparr>"

lemma sample_compiles:
  obtains d where "compile_workflow_graph sample_registry sample_source = Inr d"
    and "map ac_ref (df_actions d) = [''in'', ''scan'']"
    and "map (\<lambda>a. map fst (ac_overrides a)) (df_actions d) = [[], [''key'']]"
proof -
  have "case compile_workflow_graph sample_registry sample_source of
          Inl _ \<Rightarrow> False | Inr d \<Rightarrow> map ac_ref (df_actions d) = [''in'', ''scan'']
            \<and> map (\<lambda>a. map fst (ac_overrides a)) (df_actions d) = [[], [''key'']]"
    by code_simp
  with that show thesis by (cases "compile_workflow_graph sample_registry sample_source") simp_all
qed


lemma sample_nodes: "distinct (map gn_id (wg_nodes sample_source))" "plain_refs (wg_nodes sample_source)"
  by (simp_all add: sample_source_def sample_node_def plain_refs_def)


lemma compiled_dependencies_are_edges_witness:
  "\<exists>d. compile_workflow_graph sample_registry sample_source = Inr d \<and>
     (\<exists>a. a \<in> set (df_actions d) \<and> set (ac_depends_on a) = {s. (s, ac_ref a) \<in> edge_relation d})"
proof -
  obtain d where d: "compile_workflow_graph sample_registry sample_source = Inr d"
    "map ac_ref (df_actions d) = [''in'', ''scan'']"
    by (rule sample_compiles)
  then obtain a where a: "a \<in> set (df_actions d)" by (cases "df_actions d") auto
  from compiled_dependencies_are_edges [OF d(1) sample_nodes a] d(1) a show ?thesis by blast
qed


text \<open>The same workflow with the \<open>url\<close> port declared \<open>manual-first\<close>.\<close>

definition manual_first_registry :: registry where
  "manual_first_registry =
     (case register_components
        [(sample_component ENTRY_POINT sample_empty)\<lparr>cd_outputs := sample_inputs, cd_parameters := Some sample_empty\<rparr>,
         (sample_component ''scan'' (ZSchema None None ''object'' None
            [(''url'', ZSchema (Some (no_port_meta\<lparr>pm_priority := Some ManualFirst\<rparr>)) None ''string'' None [] [] JUndefined)]
            [] JUndefined))\<lparr>cd_parameters := Some sample_params\<rparr>] of
        Inl _ \<Rightarrow> [] | Inr reg \<Rightarrow> reg)"

lemma compiled_inputs_have_one_source_witness:
  "\<exists>d a. compile_workflow_graph manual_first_registry sample_source = Inr d \<and> a \<in> set (df_actions d)
     \<and> (\<exists>p \<in> set (node_inputs manual_first_registry (ac_component a) (ac_params a)). po_id p = ''url'')"
proof -
  have "case compile_workflow_graph manual_first_registry sample_source of Inl _ \<Rightarrow> False
    | Inr d \<Rightarrow> length (df_actions d) = 2 \<and> has_own (ac_mappings (df_actions d ! 1)) ''url''
               \<and> has_own (ac_overrides (df_actions d ! 1)) ''url''"
    by code_simp
  then obtain d where d: "compile_workflow_graph manual_first_registry sample_source = Inr d"
    "length (df_actions d) = 2" "has_own (ac_mappings (df_actions d ! 1)) ''url''"
    "has_own (ac_overrides (df_actions d ! 1)) ''url''"
    by (cases "compile_workflow_graph manual_first_registry sample_source") simp_all
  then have a: "df_actions d ! 1 \<in> set (df_actions d)" by simp
  from compiled_inputs_have_one_source [OF d(1) a d(3,4)] d(1) a show ?thesis by blast
qed


subsection \<open>Cycles inside a loop body\<close>

text \<open>A loop whose body is \<open>a\<close> and \<open>b\<close>, which wait for each other.\<close>

definition loop_registry :: registry where
  "loop_registry =
     (case register_components
        [(sample_component ENTRY_POINT sample_empty)\<lparr>cd_parameters := Some sample_empty\<rparr>, sample_component FOR_EACH_COMPONENT_ID sample_empty,
         sample_component ''c'' sample_empty] of
        Inl _ \<Rightarrow> [] | Inr reg \<Rightarrow> reg)"

definition loop_edge :: "node_ref \<Rightarrow> string option \<Rightarrow> node_ref \<Rightarrow> string option \<Rightarrow> graph_edge" where
  "loop_edge s sh t th =
     \<lparr>ge_id = s @ t, ge_source = s, ge_target = t, ge_source_handle = sh, ge_target_handle = th, ge_kind = None\<rparr>"

definition cyclic_body :: workflow_graph where
  "cyclic_body =
     \<lparr>wg_name = ''g'', wg_description = None,
      wg_nodes =
        [(sample_node ''in'' ENTRY_POINT)\<lparr>gn_config := sample_config (ac_params sample_entry_action) []\<rparr>,
         sample_node ''f'' FOR_EACH_COMPONENT_ID, sample_node ''a'' ''c'', sample_node ''b'' ''c''],
      wg_edges =
        [loop_edge ''in'' None ''f'' None, loop_edge ''f'' (Some ''body'') ''a'' (Some ''item''),
         loop_edge ''a'' None ''b'' None, loop_edge ''b'' None ''a'' None,
         loop_edge ''b'' None ''f'' (Some ''loopBack'')]\<rparr>"



end
