(* ===== verification/Ssrf_Guard.thy ===== *)
theory Ssrf_Guard
  imports Json "HOL-Library.Word"
begin

section \<open>The guard against server-side request forgery\<close>

text \<open>
  \<open>packages/component-sdk/src/http/ssrf-guard.ts\<close>: \<open>validateUrlForSsrf\<close> decides whether a component
  may send a request to a URL.  The URL parser and the two DNS look-ups are not code of the
  repository: they are the fields of \<open>url_env\<close>, \<open>None\<close> where they throw.  A number is exact up to
  \<open>2 ^ 53\<close> and rounded to a double beyond (\<open>round_double\<close>), and the bitwise operators work on its
  32 low bits, as \<open>ToInt32\<close> does.
\<close>

unbundle bit_operations_syntax

subsection \<open>Numbers in strings\<close>

definition digit_value :: "char \<Rightarrow> nat option" where
  "digit_value c =
     (let n = of_char c :: nat
      in if 48 \<le> n \<and> n \<le> 57 then Some (n - 48)
         else if 97 \<le> n \<and> n \<le> 122 then Some (n - 87)
         else if 65 \<le> n \<and> n \<le> 90 then Some (n - 55)
         else None)"

fun leading_digits :: "nat \<Rightarrow> string \<Rightarrow> nat list" where
  "leading_digits r [] = []"
| "leading_digits r (c # s) =
     (case digit_value c of
        None \<Rightarrow> []
      | Some d \<Rightarrow> if d < r then d # leading_digits r s else [])"

definition digits_value :: "nat \<Rightarrow> nat list \<Rightarrow> nat" where
  "digits_value r ds = foldl (\<lambda>a d. a * r + d) 0 ds"

text \<open>Rounding to the nearest double, ties to even.\<close>

fun double_exponent :: "nat \<Rightarrow> nat" where
  "double_exponent n = (if n < 2 ^ 53 then 0 else Suc (double_exponent (n div 2)))"

declare double_exponent.simps [simp del]

definition round_double :: "nat \<Rightarrow> nat" where
  "round_double n =
     (if n < 2 ^ 53 then n
      else let e = double_exponent n; q = n div 2 ^ e; r = n mod 2 ^ e; half = 2 ^ (e - 1)
           in (if r > half \<or> (r = half \<and> odd q) then q + 1 else q) * 2 ^ e)"

definition number_of_digits :: "nat \<Rightarrow> nat list \<Rightarrow> int" where
  "number_of_digits r ds = int (round_double (digits_value r ds))"

lemma int_digits_value: "int (digits_value r ds) = foldl (\<lambda>a d. a * int r + int d) 0 ds"
proof -
  have "int (foldl (\<lambda>a d. a * r + d) a ds) = foldl (\<lambda>a d. a * int r + int d) (int a) ds" for a
    by (induction ds arbitrary: a) simp_all
  from this [of 0] show ?thesis by (simp add: digits_value_def)
qed

text \<open>The same, evaluated without unary numbers.\<close>

lemma number_of_digits_code [code]:
  "number_of_digits r ds =
     (let i = foldl (\<lambda>a d. a * int r + int d) 0 ds
      in if i < 9007199254740992 then i else int (round_double (nat i)))"
  unfolding int_digits_value [symmetric] by (simp add: number_of_digits_def round_double_def Let_def)

text \<open>\<open>parseInt(s, r)\<close>; \<open>None\<close> is \<open>NaN\<close>.\<close>

definition parse_int :: "nat \<Rightarrow> string \<Rightarrow> int option" where
  "parse_int r s =
     (let t = dropWhile js_space s;
          negative = starts_with t ''-'';
          u = (if negative \<or> starts_with t ''+'' then drop 1 t else t);
          v = (if r = 16 \<and> (starts_with u ''0x'' \<or> starts_with u ''0X'') then drop 2 u else u);
          ds = leading_digits r v;
          n = number_of_digits r ds
      in if ds = [] then None else Some (if negative then - n else n))"

subsection \<open>Obfuscated addresses\<close>

text \<open>\<open>[(num >>> 24) & 0xff, \<dots>].join('.')\<close>.\<close>

definition octets :: "32 word \<Rightarrow> nat list" where
  "octets w = map unat [drop_bit 24 w AND 0xff, drop_bit 16 w AND 0xff, drop_bit 8 w AND 0xff, w AND 0xff]"

definition join_octets :: "nat list \<Rightarrow> string" where
  "join_octets os = join_with ''.'' (map show_nat os)"

definition all_digits :: "string \<Rightarrow> bool" where
  "all_digits s \<longleftrightarrow> s \<noteq> [] \<and> list_all is_digit s"

definition is_hex_literal :: "string \<Rightarrow> bool" where
  "is_hex_literal s \<longleftrightarrow>
     (starts_with s ''0x'' \<or> starts_with s ''0X'') \<and> drop 2 s \<noteq> [] \<and> list_all is_hex_digit (drop 2 s)"

definition is_octal_literal :: "string \<Rightarrow> bool" where
  "is_octal_literal s \<longleftrightarrow> (case s of [] \<Rightarrow> False | c # t \<Rightarrow> c = CHR ''0'' \<and> all_digits t)"

definition parse_octet :: "string \<Rightarrow> nat option" where
  "parse_octet part =
     (let num = (if is_hex_literal part then parse_int 16 part
                 else if is_octal_literal part then parse_int 8 part
                 else if all_digits part then parse_int 10 part
                 else None)
      in case num of None \<Rightarrow> None | Some n \<Rightarrow> if n < 0 \<or> n > 255 then None else Some (nat n))"

definition deobfuscate_dotted :: "string \<Rightarrow> string option" where
  "deobfuscate_dotted hostname =
     (let parts = split_on (CHR ''.'') hostname
      in if length parts = 4 then map_option join_octets (those (map parse_octet parts)) else None)"

definition deobfuscate_ip :: "string \<Rightarrow> string option" where
  "deobfuscate_ip hostname =
     (let decimal = (if all_digits hostname then parse_int 10 hostname else None);
          hex = (if is_hex_literal hostname then parse_int 16 hostname else None)
      in if decimal \<noteq> None \<and> 0 \<le> the decimal \<and> the decimal \<le> 0xffffffff
         then Some (join_octets (octets (word_of_int (the decimal))))
         else if hex \<noteq> None \<and> 0 \<le> the hex \<and> the hex \<le> 0xffffffff
         then Some (join_octets (octets (word_of_int (the hex))))
         else deobfuscate_dotted hostname)"

subsection \<open>Ranges of addresses\<close>

definition parse_ipv4_part :: "string \<Rightarrow> nat option" where
  "parse_ipv4_part p =
     (case parse_int 10 p of None \<Rightarrow> None | Some n \<Rightarrow> if n < 0 \<or> n > 255 then None else Some (nat n))"

definition parse_ipv4_octets :: "string \<Rightarrow> nat list option" where
  "parse_ipv4_octets ip =
     (let parts = split_on (CHR ''.'') ip
      in if length parts \<noteq> 4 then None else those (map parse_ipv4_part parts))"

definition private_octets :: "nat list \<Rightarrow> bool" where
  "private_octets os =
     (case os of
        [a, b, c, d] \<Rightarrow>
          if a = 10 then True
          else if a = 172 \<and> b \<ge> 16 \<and> b \<le> 31 then True
          else if a = 192 \<and> b = 168 then True
          else if a = 127 then True
          else if a = 169 \<and> b = 254 then True
          else if a = 0 \<and> b = 0 \<and> c = 0 \<and> d = 0 then True
          else if a = 100 \<and> b \<ge> 64 \<and> b \<le> 127 then True
          else False
      | _ \<Rightarrow> False)"

definition is_ipv4_private :: "string \<Rightarrow> bool" where
  "is_ipv4_private ip = (case parse_ipv4_octets ip of None \<Rightarrow> False | Some os \<Rightarrow> private_octets os)"

text \<open>The two forms of an IPv4 address mapped into IPv6.\<close>

definition mapped_dotted :: "string \<Rightarrow> string option" where
  "mapped_dotted s =
     (let rest = drop 7 s; parts = split_on (CHR ''.'') rest
      in if starts_with s ''::ffff:'' \<and> length parts = 4 \<and> list_all all_digits parts then Some rest else None)"

definition is_lower_hex :: "char \<Rightarrow> bool" where
  "is_lower_hex c \<longleftrightarrow> (let n = of_char c :: nat in (48 \<le> n \<and> n \<le> 57) \<or> (97 \<le> n \<and> n \<le> 102))"

definition hex_group :: "string \<Rightarrow> bool" where
  "hex_group s \<longleftrightarrow> 1 \<le> length s \<and> length s \<le> 4 \<and> list_all is_lower_hex s"

definition mapped_hex :: "string \<Rightarrow> string option" where
  "mapped_hex s =
     (if starts_with s ''::ffff:'' then
        (case split_on (CHR '':'') (drop 7 s) of
           [h, l] \<Rightarrow>
             if hex_group h \<and> hex_group l then
               (let high = word_of_int (the (parse_int 16 h)) :: 32 word;
                    low = word_of_int (the (parse_int 16 l)) :: 32 word
                in Some (join_octets (map unat [drop_bit 8 high AND 0xff, high AND 0xff,
                                                drop_bit 8 low AND 0xff, low AND 0xff])))
             else None
         | _ \<Rightarrow> None)
      else None)"

definition is_ipv6_private :: "string \<Rightarrow> bool" where
  "is_ipv6_private ip =
     (let normalized = to_lower ip;
          first16 = parse_int 16 (hd (split_on (CHR '':'') normalized))
      in if normalized = ''::1'' then True
         else if normalized = ''::'' then True
         else if first16 \<noteq> None \<and> (word_of_int (the first16) :: 32 word) AND 0xffc0 = 0xfe80 then True
         else case mapped_dotted normalized of
                Some v4 \<Rightarrow> is_ipv4_private v4
              | None \<Rightarrow> (case mapped_hex normalized of Some v4 \<Rightarrow> is_ipv4_private v4 | None \<Rightarrow> False))"

subsection \<open>Host names\<close>

definition BLOCKED_HOSTNAMES :: "string list" where
  "BLOCKED_HOSTNAMES =
     [''localhost'', ''postgres'', ''redis'', ''temporal'', ''dind'', ''minio'', ''backend'', ''opensearch'',
      ''loki'', ''redpanda'', ''metadata.google.internal'']"

definition BLOCKED_HOSTNAME_SUFFIXES :: "string list" where
  "BLOCKED_HOSTNAME_SUFFIXES = [''.local'', ''.internal'', ''.svc.cluster.local'']"

definition is_blocked_hostname :: "string \<Rightarrow> bool" where
  "is_blocked_hostname hostname =
     (let lower = to_lower hostname
      in lower \<in> set BLOCKED_HOSTNAMES \<or> list_ex (ends_with lower) BLOCKED_HOSTNAME_SUFFIXES)"

subsection \<open>The validation of a URL\<close>

datatype ssrf_error =
    InvalidUrl string
  | SchemeNotAllowed string
  | HostBlocked string
  | Ipv6Private string
  | Ipv4Private string
  | ObfuscatedPrivate string string
  | ResolvesToIpv4 string string
  | ResolvesToIpv6 string string

record url_env =
  ue_parse :: "string \<Rightarrow> (string \<times> string) option"
  ue_resolve4 :: "string \<Rightarrow> string list option"
  ue_resolve6 :: "string \<Rightarrow> string list option"

definition ALLOWED_SCHEMES :: "string list" where
  "ALLOWED_SCHEMES = [''http:'', ''https:'']"

definition resolved_ips :: "url_env \<Rightarrow> string \<Rightarrow> string list" where
  "resolved_ips env hostname =
     (case ue_resolve4 env hostname of None \<Rightarrow> [] | Some ips \<Rightarrow> ips)
     @ (case ue_resolve6 env hostname of None \<Rightarrow> [] | Some ips \<Rightarrow> ips)"

fun check_resolved :: "string \<Rightarrow> string list \<Rightarrow> ssrf_error + unit" where
  "check_resolved hostname [] = Inr ()"
| "check_resolved hostname (ip # ips) =
     (if is_ipv4_private ip then Inl (ResolvesToIpv4 hostname ip)
      else if is_ipv6_private ip then Inl (ResolvesToIpv6 hostname ip)
      else check_resolved hostname ips)"

definition strip_brackets :: "string \<Rightarrow> string" where
  "strip_brackets h =
     (if starts_with h ''['' \<and> ends_with h '']'' then butlast (drop 1 h) else h)"

definition check_hostname :: "url_env \<Rightarrow> string list \<Rightarrow> string \<Rightarrow> ssrf_error + unit" where
  "check_hostname env allowed hostname =
     (if list_ex (\<lambda>h. to_lower h = hostname) allowed then Inr ()
      else if is_blocked_hostname hostname then Inl (HostBlocked hostname)
      else if is_ipv6_private hostname then Inl (Ipv6Private hostname)
      else if parse_ipv4_octets hostname \<noteq> None then
        (if is_ipv4_private hostname then Inl (Ipv4Private hostname) else Inr ())
      else case deobfuscate_ip hostname of
             Some ip \<Rightarrow>
               if is_ipv4_private ip then Inl (ObfuscatedPrivate hostname ip) else Inr ()
           | None \<Rightarrow> check_resolved hostname (resolved_ips env hostname))"

definition validate_url_for_ssrf :: "url_env \<Rightarrow> string list \<Rightarrow> string \<Rightarrow> ssrf_error + unit" where
  "validate_url_for_ssrf env allowed url =
     (case ue_parse env url of
        None \<Rightarrow> Inl (InvalidUrl url)
      | Some (protocol, host) \<Rightarrow>
          if protocol \<notin> set ALLOWED_SCHEMES then Inl (SchemeNotAllowed protocol)
          else check_hostname env allowed (strip_brackets (to_lower host)))"


subsection \<open>Printing and parsing addresses\<close>

lemma digit_value_digit: "d < 10 \<Longrightarrow> digit_value (char_of (48 + d)) = Some d"
  by (simp add: digit_value_def Let_def)

lemma leading_digits_append:
  "list_all (\<lambda>c. \<exists>d. digit_value c = Some d \<and> d < r) xs \<Longrightarrow>
   leading_digits r (xs @ ys) = leading_digits r xs @ leading_digits r ys"
  by (induction xs) auto

lemma digits_value_snoc: "digits_value r (ds @ [d]) = digits_value r ds * r + d"
  by (simp add: digits_value_def)

lemma show_nat_digits:
  "list_all (\<lambda>c. \<exists>d. digit_value c = Some d \<and> d < 10) (show_nat n) \<and> show_nat n \<noteq> []
   \<and> digits_value 10 (leading_digits 10 (show_nat n)) = n \<and> leading_digits 10 (show_nat n) \<noteq> []"
proof (induction n rule: show_nat.induct)
  case (1 n)
  show ?case
  proof (cases "n < 10")
    case True
    then show ?thesis
      by (subst (1 2 3 4) show_nat.simps) (simp add: digit_value_digit digits_value_def)
  next
    case False
    note ih = "1.IH" [OF False]
    have s: "show_nat n = show_nat (n div 10) @ [char_of (48 + n mod 10)]"
      using False by (subst show_nat.simps) simp
    have l: "leading_digits 10 (show_nat n) = leading_digits 10 (show_nat (n div 10)) @ [n mod 10]"
      using ih unfolding s by (simp add: leading_digits_append digit_value_digit)
    have "digits_value 10 (leading_digits 10 (show_nat n)) = n div 10 * 10 + n mod 10"
      using ih by (simp only: l digits_value_snoc)
    then show ?thesis using ih unfolding l by (simp add: s digit_value_digit)
  qed
qed

lemma digit_char: "digit_value c = Some d \<Longrightarrow> d < 10 \<Longrightarrow> is_digit c \<and> \<not> js_space c \<and> c \<notin> {CHR ''-'', CHR ''+'', CHR ''.''}"
  by (auto simp: digit_value_def is_digit_def js_space_def Let_def split: if_splits)

lemma show_nat_chars: "c \<in> set (show_nat n) \<Longrightarrow> is_digit c \<and> \<not> js_space c \<and> c \<notin> {CHR ''-'', CHR ''+'', CHR ''.''}"
  using show_nat_digits [of n] digit_char unfolding list_all_iff by metis

lemma round_double_small: "n < 2 ^ 53 \<Longrightarrow> round_double n = n"
  by (simp add: round_double_def)

lemma starts_with_single: "starts_with s [c] \<longleftrightarrow> s \<noteq> [] \<and> hd s = c"
  by (cases s) (auto simp: starts_with_def prefix_def)

lemma parse_int_show_nat:
  assumes "n < 2 ^ 53"
  shows "parse_int 10 (show_nat n) = Some (int n)"
proof -
  note d = show_nat_digits [of n]
  obtain c cs where s: "show_nat n = c # cs" using d by (cases "show_nat n") auto
  have c: "\<not> js_space c" "c \<noteq> CHR ''-''" "c \<noteq> CHR ''+''" using show_nat_chars [of c n] s by auto
  have "dropWhile js_space (show_nat n) = show_nat n" using c(1) by (simp add: s)
  moreover have "\<not> starts_with (show_nat n) ''-''" "\<not> starts_with (show_nat n) ''+''"
    using c by (simp_all add: s starts_with_single)
  ultimately show ?thesis
    using d assms by (simp add: parse_int_def Let_def number_of_digits_def round_double_small)
qed

lemma split_on_app: "x \<notin> set s \<Longrightarrow> split_on x (s @ x # t) = s # split_on x t"
  by (induction s) auto

lemma split_on_none: "x \<notin> set s \<Longrightarrow> split_on x s = [s]"
  by (induction s) auto

lemma split_join:
  "ps \<noteq> [] \<Longrightarrow> \<forall>p \<in> set ps. x \<notin> set p \<Longrightarrow> split_on x (join_with [x] ps) = ps"
proof (induction ps)
  case (Cons p ps)
  then show ?case by (cases ps) (auto simp: split_on_none split_on_app)
qed simp

lemma split_join_octets: "os \<noteq> [] \<Longrightarrow> split_on (CHR ''.'') (join_octets os) = map show_nat os"
  unfolding join_octets_def using show_nat_chars by (intro split_join) auto

lemma those_map_Some: "those (map Some xs) = Some xs"
  by (induction xs) simp_all

lemma parse_join_octets:
  assumes "length os = 4" and "\<forall>x \<in> set os. x < 256"
  shows "parse_ipv4_octets (join_octets os) = Some os"
proof -
  have "os \<noteq> []" using assms(1) by auto
  moreover have "map parse_ipv4_part (map show_nat os) = map Some os"
    using assms(2) by (auto simp: parse_ipv4_part_def parse_int_show_nat)
  ultimately show ?thesis
    using assms(1) by (simp add: parse_ipv4_octets_def split_join_octets Let_def those_map_Some del: map_map)
qed


lemma unat_low_byte: "unat (v AND 0xff :: 32 word) = unat v mod 256"
proof -
  have "(v AND 0xff) = take_bit 8 v" by (simp add: take_bit_eq_mask mask_eq_exp_minus_1)
  then show ?thesis by (simp add: take_bit_eq_mod unat_mod_distrib)
qed

lemma unat_drop_bytes:
  "unat (drop_bit 8 v :: 32 word) = unat v div 2 ^ 8"
  "unat (drop_bit 16 v :: 32 word) = unat v div 2 ^ 16"
  "unat (drop_bit 24 v :: 32 word) = unat v div 2 ^ 24"
  "unat (drop_bit 20 v :: 32 word) = unat v div 2 ^ 20"
  "unat (drop_bit 22 v :: 32 word) = unat v div 2 ^ 22"
  by (simp_all add: drop_bit_eq_div unat_div)

lemma octets_unat:
  "octets w = [unat w div 2 ^ 24 mod 256, unat w div 2 ^ 16 mod 256, unat w div 2 ^ 8 mod 256, unat w mod 256]"
  by (simp add: octets_def unat_low_byte unat_drop_bytes)

lemma octets_facts: "length (octets w) = 4" "\<forall>x \<in> set (octets w). x < 256"
  by (simp_all add: octets_unat)

lemma parse_octets: "parse_ipv4_octets (join_octets (octets w)) = Some (octets w)"
  by (rule parse_join_octets) (rule octets_facts)+

text \<open>The 32-bit address of four octets.\<close>

definition address_of :: "nat list \<Rightarrow> 32 word" where
  "address_of os = of_nat (digits_value 256 os)"

lemma unat_less: "unat (w :: 32 word) < 2 ^ 32"
  using unsigned_less [of w] by simp

lemma digits_octets: "n < 2 ^ 32 \<Longrightarrow>
  digits_value 256 [n div 2 ^ 24 mod 256, n div 2 ^ 16 mod 256, n div 2 ^ 8 mod 256, n mod 256] = n"
proof -
  assume n: "n < 2 ^ 32"
  let ?a = "n div 256"
  let ?b = "?a div 256"
  let ?c = "?b div 256"
  have d: "n div 2 ^ 8 = ?a" "n div 2 ^ 16 = ?b" "n div 2 ^ 24 = ?c"
    by (simp_all add: div_mult2_eq [symmetric])
  have "?c < 256" using n by (simp add: div_mult2_eq [symmetric] less_mult_imp_div_less)
  then have c: "?c mod 256 = ?c" by simp
  have "?c * 256 + ?b mod 256 = ?b" "?b * 256 + ?a mod 256 = ?a" "?a * 256 + n mod 256 = n"
    by (rule div_mult_mod_eq)+
  then show ?thesis unfolding d c digits_value_def by simp
qed

lemma address_of_octets: "address_of (octets w) = w"
  using digits_octets [OF unat_less [of w]] by (simp add: address_of_def octets_unat)

lemma unat_exp: "k < 32 \<Longrightarrow> unat (2 ^ k :: 32 word) = 2 ^ k"
proof -
  assume "k < 32"
  then have "unat (of_nat (2 ^ k) :: 32 word) = 2 ^ k"
    by (simp only: unsigned_of_nat take_bit_nat_eq_self) (simp add: take_bit_nat_eq_self)
  then show ?thesis by simp
qed

subsection \<open>The ranges as prefixes of 32-bit addresses\<close>

text \<open>The ranges the documentation of the guard lists, as address and prefix length.\<close>

definition PRIVATE_RANGES :: "(nat list \<times> nat) list" where
  "PRIVATE_RANGES =
     [([10, 0, 0, 0], 8), ([172, 16, 0, 0], 12), ([192, 168, 0, 0], 16), ([127, 0, 0, 0], 8),
      ([169, 254, 0, 0], 16), ([0, 0, 0, 0], 32), ([100, 64, 0, 0], 10)]"

definition reserved :: "32 word \<Rightarrow> bool" where
  "reserved w \<longleftrightarrow>
     list_ex (\<lambda>(os, len). drop_bit (32 - len) w = drop_bit (32 - len) (address_of os)) PRIVATE_RANGES"

lemma drop_eq_iff:
  "k < 32 \<Longrightarrow> drop_bit k v = drop_bit k (w :: 32 word) \<longleftrightarrow> unat v div 2 ^ k = unat w div 2 ^ k"
  by (simp add: drop_bit_eq_div word_unat_eq_iff unat_div unat_exp)

lemma prefix_parts:
  assumes "r < (256 :: nat)"
  shows "(q * 256 + r) div 16 = 2753 \<longleftrightarrow> q = 172 \<and> 16 \<le> r \<and> r \<le> 31"
    and "(q * 256 + r) div 64 = 401 \<longleftrightarrow> q = 100 \<and> 64 \<le> r \<and> r \<le> 127"
    and "q * 256 + r = 49320 \<longleftrightarrow> q = 192 \<and> r = 168"
    and "q * 256 + r = 43518 \<longleftrightarrow> q = 169 \<and> r = 254"
proof -
  have "(q * 256 + r) div 16 = q * 16 + r div 16" by (simp add: div_add1_eq [of "q * 256"] mult.commute [of q])
  moreover have "q * 16 + r div 16 = 2753 \<longleftrightarrow> q = 172 \<and> r div 16 = 1"
  proof -
    have "k < 16 \<Longrightarrow> q * 16 + k = 2753 \<longleftrightarrow> q = 172 \<and> k = 1" for k by presburger
    then show ?thesis using assms less_mult_imp_div_less [of r 16 16] by simp
  qed
  moreover have "r div 16 = 1 \<longleftrightarrow> 16 \<le> r \<and> r \<le> 31"
    by (auto simp: div_nat_eqI dest: div_greater_zero_iff [THEN iffD1])
  ultimately show "(q * 256 + r) div 16 = 2753 \<longleftrightarrow> q = 172 \<and> 16 \<le> r \<and> r \<le> 31"
    by simp
  have "(q * 256 + r) div 64 = q * 4 + r div 64" by (simp add: div_add1_eq [of "q * 256"] mult.commute [of q])
  moreover have "q * 4 + r div 64 = 401 \<longleftrightarrow> q = 100 \<and> r div 64 = 1"
  proof -
    have "k < 4 \<Longrightarrow> q * 4 + k = 401 \<longleftrightarrow> q = 100 \<and> k = 1" for k by presburger
    then show ?thesis using assms less_mult_imp_div_less [of r 4 64] by simp
  qed
  moreover have "r div 64 = 1 \<longleftrightarrow> 64 \<le> r \<and> r \<le> 127"
    by (auto simp: div_nat_eqI dest: div_greater_zero_iff [THEN iffD1])
  ultimately show "(q * 256 + r) div 64 = 401 \<longleftrightarrow> q = 100 \<and> 64 \<le> r \<and> r \<le> 127"
    by simp
qed (use assms in presburger)+

lemma private_octets_iff:
  "private_octets [a, b, c, d] \<longleftrightarrow>
     a = 10 \<or> (a = 172 \<and> 16 \<le> b \<and> b \<le> 31) \<or> (a = 192 \<and> b = 168) \<or> a = 127
     \<or> (a = 169 \<and> b = 254) \<or> (a = 0 \<and> b = 0 \<and> c = 0 \<and> d = 0) \<or> (a = 100 \<and> 64 \<le> b \<and> b \<le> 127)"
  by (simp add: private_octets_def)

lemma private_octets_reserved: "private_octets (octets w) \<longleftrightarrow> reserved w"
proof -
  define q where "q = unat w div 2 ^ 24"
  define r where "r = unat w div 2 ^ 16 mod 256"
  note n = unat_less [of w]
  have q: "unat w div 2 ^ 24 mod 256 = q" using n by (simp add: q_def less_mult_imp_div_less)
  have r: "r < 256" by (simp add: r_def)
  have m: "unat w div 2 ^ 16 = q * 256 + r"
    using div_mult_mod_eq [of "unat w div 2 ^ 16" 256] by (simp add: q_def r_def div_mult2_eq [symmetric])
  have d: "unat w div 2 ^ 20 = (q * 256 + r) div 16" "unat w div 2 ^ 22 = (q * 256 + r) div 64"
    unfolding m [symmetric] by (simp_all add: div_mult2_eq [symmetric])
  have zero: "(unat w div 2 ^ 24 mod 256 = 0 \<and> unat w div 2 ^ 16 mod 256 = 0 \<and> unat w div 2 ^ 8 mod 256 = 0
      \<and> unat w mod 256 = 0) \<longleftrightarrow> unat w = 0"
    using digits_octets [OF n] by (auto simp: digits_value_def)
  have "reserved w \<longleftrightarrow>
      unat w div 2 ^ 24 = 10 \<or> unat w div 2 ^ 20 = 2753 \<or> unat w div 2 ^ 16 = 49320 \<or> unat w div 2 ^ 24 = 127
      \<or> unat w div 2 ^ 16 = 43518 \<or> unat w = 0 \<or> unat w div 2 ^ 22 = 401"
    by (simp add: reserved_def PRIVATE_RANGES_def address_of_def digits_value_def
        word_unat_eq_iff [of "drop_bit 24 w"] word_unat_eq_iff [of "drop_bit 20 w"]
        word_unat_eq_iff [of "drop_bit 16 w"] word_unat_eq_iff [of "drop_bit 22 w"]
        unat_drop_bytes unat_eq_0)
  then have "reserved w \<longleftrightarrow>
      q = 10 \<or> (q * 256 + r) div 16 = 2753 \<or> q * 256 + r = 49320 \<or> q = 127
      \<or> q * 256 + r = 43518 \<or> unat w = 0 \<or> (q * 256 + r) div 64 = 401"
    unfolding d m q_def [symmetric] .
  moreover have "private_octets (octets w) \<longleftrightarrow>
      q = 10 \<or> (q = 172 \<and> 16 \<le> r \<and> r \<le> 31) \<or> (q = 192 \<and> r = 168) \<or> q = 127
      \<or> (q = 169 \<and> r = 254) \<or> unat w = 0 \<or> (q = 100 \<and> 64 \<le> r \<and> r \<le> 127)"
    unfolding zero [symmetric] unfolding octets_unat q r_def [symmetric] by (rule private_octets_iff)
  ultimately show ?thesis by (simp only: prefix_parts [OF r])
qed

lemma is_ipv4_private_octets: "is_ipv4_private (join_octets (octets w)) \<longleftrightarrow> reserved w"
  by (simp add: is_ipv4_private_def parse_octets private_octets_reserved)


lemma octets_address_of:
  assumes "length os = 4" and "\<forall>x \<in> set os. x < 256"
  shows "octets (address_of os) = os"
proof -
  obtain a b c d where os: "os = [a, b, c, d]" using assms(1) by (auto simp: length_Suc_conv numeral_eq_Suc)
  then have lt: "a < 256" "b < 256" "c < 256" "d < 256" using assms(2) by simp_all
  let ?n = "((a * 256 + b) * 256 + c) * 256 + d"
  have n: "?n div 256 = (a * 256 + b) * 256 + c" "((a * 256 + b) * 256 + c) div 256 = a * 256 + b"
    "(a * 256 + b) div 256 = a"
    using lt by simp_all
  have m: "?n mod 256 = d" "((a * 256 + b) * 256 + c) mod 256 = c" "(a * 256 + b) mod 256 = b"
    using lt by (simp_all only: mod_mult_self3 mod_less)
  have d: "?n div 2 ^ 8 = ?n div 256" "?n div 2 ^ 16 = ?n div 256 div 256" "?n div 2 ^ 24 = ?n div 256 div 256 div 256"
    by (simp_all add: div_mult2_eq [symmetric])
  have "?n < 2 ^ 32" using lt by simp
  then have "unat (of_nat ?n :: 32 word) = ?n"
    by (simp only: unsigned_of_nat) (simp add: take_bit_nat_eq_self)
  moreover have "address_of os = of_nat ?n" by (simp add: address_of_def os digits_value_def)
  ultimately have "unat (address_of os) = ?n" by simp
  then show ?thesis unfolding octets_unat by (simp only: d n m os) (use lt in simp)
qed

lemma those_Some: "those ys = Some xs \<longleftrightarrow> ys = map Some xs"
  by (induction ys arbitrary: xs) (auto split: option.splits)

lemma join_octets_word:
  assumes "length os = 4" and "\<forall>x \<in> set os. x < 256"
  shows "\<exists>w. join_octets os = join_octets (octets w)"
  using octets_address_of [OF assms] by metis

lemma deobfuscated_word: "deobfuscate_ip h = Some ip \<Longrightarrow> \<exists>w. ip = join_octets (octets w)"
proof -
  assume "deobfuscate_ip h = Some ip"
  then consider w where "ip = join_octets (octets w)" | "deobfuscate_dotted h = Some ip"
    by (auto simp: deobfuscate_ip_def Let_def split: if_splits)
  then show ?thesis
  proof cases
    case 2
    then obtain os where os: "map parse_octet (split_on (CHR ''.'') h) = map Some os"
      "length (split_on (CHR ''.'') h) = 4" "ip = join_octets os"
      by (auto simp: deobfuscate_dotted_def Let_def those_Some split: if_splits)
    have "length os = 4" using os(1,2) by (metis length_map)
    moreover have "\<forall>x \<in> set os. x < 256"
    proof
      fix x assume "x \<in> set os"
      then have "Some x \<in> set (map parse_octet (split_on (CHR ''.'') h))" unfolding os(1) by simp
      then show "x < 256" by (auto simp: parse_octet_def Let_def split: option.splits if_splits)
    qed
    ultimately show ?thesis using join_octets_word os(3) by blast
  qed blast
qed

lemma mapped_hex_word: "mapped_hex h = Some ip \<Longrightarrow> \<exists>w. ip = join_octets (octets w)"
proof -
  assume "mapped_hex h = Some ip"
  then obtain high low :: "32 word" where
    "ip = join_octets (map unat [drop_bit 8 high AND 0xff, high AND 0xff, drop_bit 8 low AND 0xff, low AND 0xff])"
    by (auto simp: mapped_hex_def Let_def split: if_splits list.splits)
  then show ?thesis using join_octets_word by (simp add: unat_low_byte)
qed

subsection \<open>What the guard lets through\<close>

text \<open>The IPv4 addresses a host name stands for: as a literal of some form, or by DNS.\<close>

definition stands_for :: "url_env \<Rightarrow> string \<Rightarrow> 32 word \<Rightarrow> bool" where
  "stands_for env h w \<longleftrightarrow>
     (let quad = join_octets (octets w)
      in h = quad
         \<or> mapped_dotted h = Some quad \<or> (mapped_dotted h = None \<and> mapped_hex h = Some quad)
         \<or> (parse_ipv4_octets h = None \<and> deobfuscate_ip h = Some quad)
         \<or> (parse_ipv4_octets h = None \<and> deobfuscate_ip h = None \<and> quad \<in> set (resolved_ips env h)))"

lemma check_resolved_Inr:
  "check_resolved h ips = Inr u \<longleftrightarrow> (\<forall>ip \<in> set ips. \<not> is_ipv4_private ip \<and> \<not> is_ipv6_private ip)"
  by (induction ips) auto

lemma lower_char_idem: "lower_char (lower_char c) = lower_char c"
  by (simp add: lower_char_def Let_def)

lemma to_lower_idem [simp]: "to_lower (to_lower s) = to_lower s"
  by (simp add: to_lower_def lower_char_idem)

lemma checked_public:
  assumes ok: "check_hostname env allowed h = Inr ()" and listed: "\<not> list_ex (\<lambda>a. to_lower a = h) allowed"
    and low: "to_lower h = h" and w: "stands_for env h w"
  shows "\<not> reserved w"
proof -
  let ?quad = "join_octets (octets w)"
  have v6: "\<not> is_ipv6_private h" using ok listed by (auto simp: check_hostname_def split: if_splits)
  from w consider "h = ?quad" | "mapped_dotted h = Some ?quad" | "mapped_dotted h = None" "mapped_hex h = Some ?quad"
    | "parse_ipv4_octets h = None" "deobfuscate_ip h = Some ?quad"
    | "parse_ipv4_octets h = None" "deobfuscate_ip h = None" "?quad \<in> set (resolved_ips env h)"
    unfolding stands_for_def Let_def by (elim disjE conjE)
  then have "\<not> is_ipv4_private ?quad"
  proof cases
    case 1
    with ok listed show ?thesis by (auto simp: check_hostname_def parse_octets split: if_splits)
  next
    case 2
    with v6 low show ?thesis by (auto simp: is_ipv6_private_def Let_def split: if_splits)
  next
    case 3
    with v6 low show ?thesis by (auto simp: is_ipv6_private_def Let_def split: if_splits)
  next
    case 4
    with ok listed show ?thesis by (auto simp: check_hostname_def split: if_splits)
  next
    case 5
    with ok listed show ?thesis by (auto simp: check_hostname_def check_resolved_Inr split: if_splits)
  qed
  then show ?thesis by (simp add: is_ipv4_private_octets)
qed


text \<open>
  The octet comparisons of the guard are the documented ranges: for every 32-bit address, the
  test on its dotted quad is true exactly when the address begins with the prefix of one of
  10/8, 172.16/12, 192.168/16, 127/8, 169.254/16, 0.0.0.0/32 and 100.64/10.
\<close>

theorem private_test_is_prefix_match:
  "is_ipv4_private (join_octets (octets w)) \<longleftrightarrow> reserved w"
  by (rule is_ipv4_private_octets)

lemma leading_digits_all: "all_digits (show_nat n)"
  using show_nat_digits [of n] show_nat_chars [of _ n] by (auto simp: all_digits_def list_all_iff)

text \<open>
  C35: Round trip: the four octets of an address are read back from its dotted quad, and an address
  written as one decimal number is recognised as that dotted quad.
\<close>

theorem addresses_round_trip:
  "parse_ipv4_octets (join_octets (octets w)) = Some (octets w) \<and> address_of (octets w) = w
   \<and> deobfuscate_ip (show_nat (unat w)) = Some (join_octets (octets w))"
proof -
  have n: "unat w < 2 ^ 32" by (rule unat_less)
  then have "parse_int 10 (show_nat (unat w)) = Some (int (unat w))" by (intro parse_int_show_nat) simp
  moreover have "k < 2 ^ 32 \<Longrightarrow> int k \<le> 0xffffffff" for k by simp
  moreover have "word_of_int (int (unat w)) = w" by simp
  ultimately have "deobfuscate_ip (show_nat (unat w)) = Some (join_octets (octets w))"
    using n by (simp add: deobfuscate_ip_def Let_def leading_digits_all del: of_nat_unat)
  then show ?thesis using parse_octets address_of_octets by blast
qed

text \<open>
  Code bug.  A dotted quad with octal parts is read twice in different ways: \<open>deobfuscateIp\<close>
  knows that \<open>0177.0.0.1\<close> is the loopback address, but it is never asked, because the check
  before it reads the same parts as decimal numbers and accepts the host.
\<close>

theorem octal_quads_are_accepted:
  "deobfuscate_ip ''0177.0.0.1'' = Some ''127.0.0.1'' \<and> is_ipv4_private ''127.0.0.1''
   \<and> check_hostname env [] ''0177.0.0.1'' = Inr ()"
proof -
  have "deobfuscate_ip ''0177.0.0.1'' = Some ''127.0.0.1''" by code_simp
  moreover have "is_ipv4_private ''127.0.0.1''" by code_simp
  moreover have "\<not> is_blocked_hostname ''0177.0.0.1''" by code_simp
  moreover have "\<not> is_ipv6_private ''0177.0.0.1''" by code_simp
  moreover have "parse_ipv4_octets ''0177.0.0.1'' = Some [177, 0, 0, 1]" by code_simp
  moreover have "\<not> is_ipv4_private ''0177.0.0.1''" by code_simp
  ultimately show ?thesis by (simp add: check_hostname_def)
qed

text \<open>
  Code bug.  The test for link-local IPv6 addresses is applied to every host name: a public
  domain whose name begins with four suitable hexadecimal digits is rejected as a private IPv6
  address.
\<close>

theorem public_names_taken_for_ipv6:
  "check_hostname env [] ''febe.example.com'' = Inl (Ipv6Private ''febe.example.com'')"
proof -
  have "\<not> is_blocked_hostname ''febe.example.com''" by code_simp
  moreover have "is_ipv6_private ''febe.example.com''" by code_simp
  ultimately show ?thesis by (simp add: check_hostname_def)
qed

text \<open>A parser and a DNS with one public host, for the witness.\<close>

definition sample_env :: url_env where
  "sample_env =
     \<lparr>ue_parse = (\<lambda>u. if starts_with u ''https://'' then Some (''https:'', drop 8 u) else None),
      ue_resolve4 = (\<lambda>h. if h = ''example.com'' then Some [''93.184.216.34''] else None),
      ue_resolve6 = (\<lambda>_. None)\<rparr>"


end
