(* ===== verification/Action_Inputs.thy ===== *)
theory Action_Inputs
  imports Port_Types
begin

section \<open>The inputs of an activity\<close>

text \<open>
  \<open>worker/src/temporal/input-resolver.ts\<close>: what the worker passes to a component, from the static
  values of the action, the outputs of the actions before it and the connection types of the
  component's ports.

  Printing and parsing numbers and printing JSON are the fields of \<open>js_text\<close> (\<open>String(n)\<close>,
  \<open>Number(s)\<close>, \<open>JSON.stringify(v)\<close>); nothing below depends on what they return.  A JSON value
  can always be printed, so the \<open>catch\<close> around \<open>JSON.stringify\<close> has no counterpart.
\<close>

record js_text =
  jt_number_to_string :: "js_num \<Rightarrow> string"
  jt_string_to_number :: "string \<Rightarrow> js_num"
  jt_stringify :: "json \<Rightarrow> string"

subsection \<open>Coercion\<close>

definition coerce_to_text :: "js_text \<Rightarrow> json \<Rightarrow> string + json" where
  "coerce_to_text js v =
     (case v of
        JString _ \<Rightarrow> Inr v
      | JNumber n \<Rightarrow> Inr (JString (jt_number_to_string js n))
      | JBool b \<Rightarrow> Inr (JString (if b then ''true'' else ''false''))
      | _ \<Rightarrow> Inl (''Cannot coerce '' @ type_of v @ '' to text''))"

definition coerce_to_number :: "js_text \<Rightarrow> json \<Rightarrow> string + json" where
  "coerce_to_number js v =
     (case v of
        JNumber (Finite _) \<Rightarrow> Inr v
      | JString s \<Rightarrow>
          (let parsed = jt_string_to_number js s
           in if parsed \<noteq> NaN then Inr (JNumber parsed)
              else Inl (''Cannot parse \"'' @ s @ ''\" as number''))
      | _ \<Rightarrow> Inl (''Cannot coerce '' @ type_of v @ '' to number''))"

definition coerce_to_boolean :: "json \<Rightarrow> string + json" where
  "coerce_to_boolean v =
     (case v of
        JBool _ \<Rightarrow> Inr v
      | JString s \<Rightarrow>
          (let normalized = to_lower (trim s)
           in if normalized = ''true'' then Inr (JBool True)
              else if normalized = ''false'' then Inr (JBool False)
              else Inl (''Cannot parse \"'' @ s @ ''\" as boolean''))
      | _ \<Rightarrow> Inl (''Cannot coerce '' @ type_of v @ '' to boolean''))"

definition coerce_to_secret :: "js_text \<Rightarrow> json \<Rightarrow> string + json" where
  "coerce_to_secret js v =
     (case v of
        JString _ \<Rightarrow> Inr v
      | JArray _ \<Rightarrow> Inr (JString (jt_stringify js v))
      | JObject _ \<Rightarrow> Inr (JString (jt_stringify js v))
      | _ \<Rightarrow> Inl ''Secret values must be strings or JSON objects'')"

definition coerce_primitive_value :: "js_text \<Rightarrow> string option \<Rightarrow> json \<Rightarrow> string + json" where
  "coerce_primitive_value js t v =
     (if nullish v then Inr v
      else if t = Some ''text'' then coerce_to_text js v
      else if t = Some ''number'' then coerce_to_number js v
      else if t = Some ''boolean'' then coerce_to_boolean v
      else if t = Some ''secret'' then coerce_to_secret js v
      else Inr v)"

fun coerce_value :: "js_text \<Rightarrow> conn_type \<Rightarrow> json \<Rightarrow> string + json" where
  "coerce_value js (ConnPrimitive n) v = coerce_primitive_value js n v"
| "coerce_value js (ConnContract _ _ _ _) v = Inr v"
| "coerce_value js (ConnList t) v =
     (case v of
        JArray vs \<Rightarrow> bind_result (traverse (coerce_value js t) vs) (\<lambda>ws. Inr (JArray ws))
      | _ \<Rightarrow> Inl ''Expected array for list port'')"
| "coerce_value js (ConnMap t) v =
     (case v of
        JObject fs \<Rightarrow>
          bind_result (traverse (\<lambda>f. bind_result (coerce_value js t (snd f)) (\<lambda>w. Inr (fst f, w))) fs)
            (\<lambda>ws. Inr (JObject ws))
      | _ \<Rightarrow> Inl ''Expected object for map port'')"
| "coerce_value js ConnAny v = Inr v"

subsection \<open>Values of earlier actions\<close>

text \<open>Own properties that can be read by name: the indices and the length of an array are some.\<close>

definition own_property :: "json \<Rightarrow> string \<Rightarrow> json option" where
  "own_property v k =
     (case v of
        JObject fs \<Rightarrow> map_of fs k
      | JArray vs \<Rightarrow>
          if k = ''length'' then Some (JNumber (Finite (of_nat (length vs))))
          else map_of (zip (map show_nat [0..<length vs]) vs) k
      | _ \<Rightarrow> None)"

definition is_spilled_data_marker :: "json \<Rightarrow> bool" where
  "is_spilled_data_marker v \<longleftrightarrow>
     get_prop (fields_of v) ''__spilled__'' = JBool True
     \<and> (case get_prop (fields_of v) ''storageRef'' of JString _ \<Rightarrow> True | _ \<Rightarrow> False)"

definition resolve_input_value :: "json \<Rightarrow> string \<Rightarrow> json" where
  "resolve_input_value source handle =
     (if nullish source then JUndefined
      else if handle = ''__self__'' then source
      else if type_of source = ''object'' then
        (if is_spilled_data_marker source
         then JObject (AList.update ''__spilled_handle__'' (JString handle) (fields_of source))
         else case own_property source handle of Some v \<Rightarrow> v | None \<Rightarrow> JUndefined)
      else JUndefined)"

subsection \<open>The payload\<close>

record input_warning =
  iw_target :: string
  iw_source_ref :: node_ref
  iw_source_handle :: string

record input_port =
  ip_id :: string
  ip_priority :: "value_priority option"
  ip_type :: "conn_type option"

record payload =
  py_inputs :: json_record
  py_params :: json_record
  py_warnings :: "input_warning list"
  py_manual :: "string list"

definition prefer_manual :: "(string, input_port) js_map \<Rightarrow> string \<Rightarrow> bool" where
  "prefer_manual ports k \<longleftrightarrow>
     (case map_of ports k of None \<Rightarrow> False | Some p \<Rightarrow> ip_priority p = Some ManualFirst)"

definition add_warning :: "string \<Rightarrow> input_mapping \<Rightarrow> payload \<Rightarrow> payload" where
  "add_warning k m p =
     p\<lparr>py_warnings := py_warnings p @
        [\<lparr>iw_target = k, iw_source_ref = im_source_ref m, iw_source_handle = im_source_handle m\<rparr>]\<rparr>"

definition set_input :: "string \<Rightarrow> json \<Rightarrow> payload \<Rightarrow> payload" where
  "set_input k v p = p\<lparr>py_inputs := AList.update k v (py_inputs p)\<rparr>"

definition add_mapped_input ::
  "js_text \<Rightarrow> (string, input_port) js_map \<Rightarrow> (node_ref, json) js_map \<Rightarrow> payload \<Rightarrow> string \<times> input_mapping \<Rightarrow> payload" where
  "add_mapped_input js ports results p km =
     (case km of
        (k, m) \<Rightarrow>
          let manual = (prefer_manual ports k \<and> has_own (py_inputs p) k \<and> get_prop (py_inputs p) k \<noteq> JUndefined)
          in if manual then p\<lparr>py_manual := py_manual p @ [k]\<rparr>
             else
               let resolved = resolve_input_value (get_prop results (im_source_ref m)) (im_source_handle m)
               in if resolved = JUndefined then add_warning k m p
                  else case (case map_of ports k of None \<Rightarrow> None | Some q \<Rightarrow> ip_type q) of
                         None \<Rightarrow> set_input k resolved p
                       | Some t \<Rightarrow>
                           (case coerce_value js t resolved of
                              Inl _ \<Rightarrow> add_warning k m p
                            | Inr v \<Rightarrow> set_input k v p))"

definition build_action_payload ::
  "js_text \<Rightarrow> input_port list \<Rightarrow> (node_ref, json) js_map \<Rightarrow> action \<Rightarrow> payload" where
  "build_action_payload js ports results a =
     foldl (add_mapped_input js (map_of_entries (map (\<lambda>q. (ip_id q, q)) ports)) results)
       \<lparr>py_inputs = ac_overrides a, py_params = ac_params a, py_warnings = [], py_manual = []\<rparr>
       (ac_mappings a)"

text \<open>\<open>filterInactiveJoinWarnings\<close>: an inactive branch of a join does not owe its output.\<close>

definition filter_inactive_join_warnings ::
  "join_strategy option \<Rightarrow> node_ref option \<Rightarrow> input_warning list \<Rightarrow> input_warning list" where
  "filter_inactive_join_warnings join triggered_by ws =
     (if (join = Some JoinAny \<or> join = Some JoinFirst) \<and> truthy_str triggered_by
      then filter (\<lambda>w. iw_source_ref w = the triggered_by) ws
      else ws)"

subsection \<open>Types of values\<close>

text \<open>The values of a connection type, absent values included.\<close>

fun of_type :: "conn_type \<Rightarrow> json \<Rightarrow> bool" where
  "of_type (ConnPrimitive n) v =
     (nullish v
      \<or> (if n = Some ''text'' \<or> n = Some ''secret'' then \<exists>s. v = JString s
         else if n = Some ''number'' then \<exists>x. v = JNumber x \<and> x \<noteq> NaN
         else if n = Some ''boolean'' then \<exists>b. v = JBool b
         else True))"
| "of_type (ConnList t) v = (\<exists>vs. v = JArray vs \<and> (\<forall>x \<in> set vs. of_type t x))"
| "of_type (ConnMap t) v = (\<exists>fs. v = JObject fs \<and> (\<forall>f \<in> set fs. of_type t (snd f)))"
| "of_type (ConnContract _ _ _ _) v = True"
| "of_type ConnAny v = True"

lemma coerce_primitive_typed:
  "coerce_primitive_value js n v = Inr w \<Longrightarrow> of_type (ConnPrimitive n) w"
  by (auto simp: coerce_primitive_value_def coerce_to_text_def coerce_to_number_def coerce_to_boolean_def
      coerce_to_secret_def Let_def split: json.splits js_num.splits if_splits)

lemma traverse_Inr_all:
  "traverse f xs = Inr ys \<Longrightarrow> (\<And>x y. x \<in> set xs \<Longrightarrow> f x = Inr y \<Longrightarrow> P y) \<Longrightarrow> \<forall>y \<in> set ys. P y"
  by (blast elim: traverse_Inr_memE)

lemma coerce_value_typed: "coerce_value js t v = Inr w \<Longrightarrow> of_type t w"
proof (induction t arbitrary: v w)
  case (ConnPrimitive n)
  then show ?case by (simp add: coerce_primitive_typed del: of_type.simps)
next
  case (ConnList t)
  then obtain vs ws where "traverse (coerce_value js t) vs = Inr ws" "w = JArray ws"
    by (cases v) (auto simp: result_simps)
  with ConnList.IH traverse_Inr_all [of "coerce_value js t" vs ws "of_type t"] show ?case by simp
next
  case (ConnMap t)
  then obtain fs gs where
    "traverse (\<lambda>f. bind_result (coerce_value js t (snd f)) (\<lambda>w. Inr (fst f, w))) fs = Inr gs" "w = JObject gs"
    by (cases v) (auto simp: result_simps)
  then have "\<forall>f \<in> set gs. of_type t (snd f)"
    using ConnMap.IH by (intro traverse_Inr_all [of _ fs gs]) (auto simp: result_simps)
  with \<open>w = JObject gs\<close> show ?case by simp
qed auto

text \<open>
  C37: Coercion is sound: when it accepts a value for a port, the value it passes on is of the
  port's connection type, through lists and maps of any depth.
\<close>

theorem coerced_values_are_typed:
  assumes "coerce_value js t v = Inr w"
  shows "of_type t w"
  using assms by (rule coerce_value_typed)

definition sample_text :: js_text where
  "sample_text =
     \<lparr>jt_number_to_string = (\<lambda>n. case n of Finite r \<Rightarrow> show_nat (nat \<lfloor>r\<rfloor>) | _ \<Rightarrow> ''NaN''),
      jt_string_to_number = (\<lambda>s. if s \<noteq> [] \<and> list_all is_digit s then Finite (of_nat (length s)) else NaN),
      jt_stringify = (\<lambda>_. ''{}'')\<rparr>"

lemma coerced_values_are_typed_witness:
  "coerce_value sample_text (ConnList (ConnPrimitive (Some ''boolean''))) (JArray [JString '' TRUE '', JNull, JBool False])
     = Inr (JArray [JBool True, JNull, JBool False])
   \<and> of_type (ConnList (ConnPrimitive (Some ''boolean''))) (JArray [JBool True, JNull, JBool False])"
proof -
  have c: "coerce_value sample_text (ConnList (ConnPrimitive (Some ''boolean'')))
      (JArray [JString '' TRUE '', JNull, JBool False]) = Inr (JArray [JBool True, JNull, JBool False])"
    by code_simp
  from coerced_values_are_typed [OF c] c show ?thesis by blast
qed

text \<open>The strict values of a type, as a component produces them on a port of that type.\<close>

fun produced_by :: "conn_type \<Rightarrow> json \<Rightarrow> bool" where
  "produced_by (ConnPrimitive n) v =
     (if n = Some ''text'' \<or> n = Some ''secret'' then \<exists>s. v = JString s
      else if n = Some ''number'' then \<exists>r. v = JNumber (Finite r)
      else if n = Some ''boolean'' then \<exists>b. v = JBool b
      else True)"
| "produced_by (ConnList t) v = (\<exists>vs. v = JArray vs \<and> (\<forall>x \<in> set vs. produced_by t x))"
| "produced_by (ConnMap t) v = (\<exists>fs. v = JObject fs \<and> (\<forall>f \<in> set fs. produced_by t (snd f)))"
| "produced_by (ConnContract _ _ _ _) v = True"
| "produced_by ConnAny v = True"

text \<open>The connections that need no parsing: the source is typed and is no text read as something else.\<close>

fun lossless :: "conn_type \<Rightarrow> conn_type \<Rightarrow> bool" where
  "lossless _ ConnAny = True"
| "lossless (ConnPrimitive s) (ConnPrimitive t) =
     (s = t \<or> s \<in> {Some ''number'', Some ''boolean'', Some ''text''} \<and> t = Some ''text''
      \<or> s = Some ''text'' \<and> t = Some ''secret'')"
| "lossless (ConnContract _ _ _ _) (ConnContract _ _ _ _) = True"
| "lossless (ConnList s) (ConnList t) = lossless s t"
| "lossless (ConnMap s) (ConnMap t) = lossless s t"
| "lossless _ _ = False"

lemma lossless_can_connect:
  "can_connect s t \<Longrightarrow> lossless s t \<or> s = ConnAny
   \<or> (\<exists>s' t'. s = ConnList s' \<and> t = ConnList t') \<or> (\<exists>s' t'. s = ConnMap s' \<and> t = ConnMap t')
   \<or> (\<exists>t'. s = ConnPrimitive (Some ''text'') \<and> t = ConnPrimitive (Some t') \<and> t' \<in> {''number'', ''boolean''})"
  by (cases s; cases t) (auto simp: can_coerce_primitive_def split: option.splits if_splits)

lemma lossless_cases:
  "s = t \<or> s \<in> {n, b, x} \<and> t = x \<or> s = x \<and> t = sec \<Longrightarrow>
   t = x \<and> s \<in> {n, b, x} \<or> t = sec \<and> s \<in> {x, sec} \<or> t = n \<and> s = n \<or> t = b \<and> s = b \<or> t \<notin> {x, n, b, sec}"
  by blast

lemma coerce_primitive_lossless:
  "produced_by (ConnPrimitive s) v \<Longrightarrow> lossless (ConnPrimitive s) (ConnPrimitive t) \<Longrightarrow>
   \<exists>w. coerce_primitive_value js t v = Inr w"
proof -
  assume v: "produced_by (ConnPrimitive s) v" and l: "lossless (ConnPrimitive s) (ConnPrimitive t)"
  have shape: "s \<in> {Some ''text'', Some ''secret''} \<Longrightarrow> \<exists>x. v = JString x"
    "s = Some ''number'' \<Longrightarrow> \<exists>x. v = JNumber (Finite x)" "s = Some ''boolean'' \<Longrightarrow> \<exists>x. v = JBool x"
    using v by auto
  have to_text: "\<exists>w. coerce_to_text js v = Inr w" if "s \<in> {Some ''number'', Some ''boolean'', Some ''text''}"
    using that shape by (auto simp: coerce_to_text_def)
  have secret: "\<exists>w. coerce_to_secret js v = Inr w" if "s \<in> {Some ''text'', Some ''secret''}"
    using shape(1) [OF that] by (auto simp: coerce_to_secret_def)
  have number: "\<exists>w. coerce_to_number js v = Inr w" if "s = Some ''number''"
    using shape(2) [OF that] by (auto simp: coerce_to_number_def)
  have boolean: "\<exists>w. coerce_to_boolean v = Inr w" if "s = Some ''boolean''"
    using shape(3) [OF that] by (auto simp: coerce_to_boolean_def)
  from l consider "t = Some ''text''" "s \<in> {Some ''number'', Some ''boolean'', Some ''text''}"
    | "t = Some ''secret''" "s \<in> {Some ''text'', Some ''secret''}"
    | "t = Some ''number''" "s = Some ''number''" | "t = Some ''boolean''" "s = Some ''boolean''"
    | "t \<notin> {Some ''text'', Some ''number'', Some ''boolean'', Some ''secret''}"
    using lossless_cases [OF l [unfolded lossless.simps]] by (elim disjE conjE)
  then show ?thesis
  proof cases
    case 1
    with to_text [OF 1(2)] show ?thesis by (simp add: coerce_primitive_value_def del: insert_iff)
  next
    case 2
    with secret [OF 2(2)] show ?thesis by (simp add: coerce_primitive_value_def del: insert_iff)
  next
    case 3
    with number show ?thesis by (simp add: coerce_primitive_value_def)
  next
    case 4
    with boolean show ?thesis by (simp add: coerce_primitive_value_def)
  next
    case 5
    then show ?thesis by (simp add: coerce_primitive_value_def)
  qed
qed

lemma coerce_lossless:
  "lossless s t \<Longrightarrow> produced_by s v \<Longrightarrow> \<exists>w. coerce_value js t v = Inr w"
proof (induction s t arbitrary: v rule: lossless.induct)
  case (2 s t)
  then show ?case by (simp add: coerce_primitive_lossless del: lossless.simps produced_by.simps)
next
  case (4 s t)
  then obtain vs where vs: "v = JArray vs" "\<forall>x \<in> set vs. produced_by s x" by auto
  with 4 have "\<exists>ws. traverse (coerce_value js t) vs = Inr ws" by (intro traverse_total) simp
  with vs show ?case by auto
next
  case (5 s t)
  then obtain fs where fs: "v = JObject fs" "\<forall>f \<in> set fs. produced_by s (snd f)" by auto
  have "\<exists>w. bind_result (coerce_value js t (snd f)) (\<lambda>w. Inr (fst f, w)) = Inr w" if "f \<in> set fs" for f
    using "5.IH" [of "snd f"] "5.prems"(1) fs(2) that by (auto simp: result_simps)
  then have "\<exists>ws. traverse (\<lambda>f. bind_result (coerce_value js t (snd f)) (\<lambda>w. Inr (fst f, w))) fs = Inr ws"
    by (rule traverse_total)
  with fs show ?case by auto
qed simp_all

text \<open>
  A connection the validator allows never fails at run time when it needs no parsing: the
  value that a port of type \<open>s\<close> produces is accepted by every port of type \<open>t\<close> with a lossless
  connection from \<open>s\<close>.
\<close>

theorem lossless_connections_coerce:
  assumes "lossless s t" and "produced_by s v"
  shows "\<exists>w. coerce_value js t v = Inr w \<and> of_type t w"
  using coerce_lossless [OF assms] coerce_value_typed by blast

lemma lossless_connections_coerce_witness:
  "\<exists>w. coerce_value sample_text (ConnMap (ConnPrimitive (Some ''text'')))
         (JObject [(''a'', JNumber (Finite 1))]) = Inr w
       \<and> of_type (ConnMap (ConnPrimitive (Some ''text''))) w"
  by (rule lossless_connections_coerce [where s = "ConnMap (ConnPrimitive (Some ''number''))"]) simp_all

subsection \<open>The loop over the mappings as independent decisions\<close>

datatype input_source = Manual | Taken json | Unresolved

definition decide_input ::
  "js_text \<Rightarrow> (string, input_port) js_map \<Rightarrow> (node_ref, json) js_map \<Rightarrow> json_record \<Rightarrow> string \<times> input_mapping \<Rightarrow> input_source" where
  "decide_input js ports results overrides km =
     (case km of
        (k, m) \<Rightarrow>
          if prefer_manual ports k \<and> get_prop overrides k \<noteq> JUndefined then Manual
          else
            let v = resolve_input_value (get_prop results (im_source_ref m)) (im_source_handle m)
            in if v = JUndefined then Unresolved
               else case (case map_of ports k of None \<Rightarrow> None | Some q \<Rightarrow> ip_type q) of
                      None \<Rightarrow> Taken v
                    | Some t \<Rightarrow> (case coerce_value js t v of Inl _ \<Rightarrow> Unresolved | Inr w \<Rightarrow> Taken w))"

definition warning_of :: "string \<times> input_mapping \<Rightarrow> input_warning" where
  "warning_of km =
     \<lparr>iw_target = fst km, iw_source_ref = im_source_ref (snd km), iw_source_handle = im_source_handle (snd km)\<rparr>"

definition taken_of :: "(string \<times> input_mapping \<Rightarrow> input_source) \<Rightarrow> (string \<times> input_mapping) list \<Rightarrow> json_record" where
  "taken_of src ms = List.map_filter (\<lambda>km. case src km of Taken v \<Rightarrow> Some (fst km, v) | _ \<Rightarrow> None) ms"

lemma keys_taken_of: "fst ` set (taken_of src ms) \<subseteq> fst ` set ms"
  by (induction ms) (auto simp: taken_of_def map_filter_simps split: input_source.splits)

lemma get_prop_cong: "map_of a k = map_of b k \<Longrightarrow> get_prop a k = get_prop b k"
  by (simp add: get_prop_def)

lemma has_own_get_prop: "get_prop m k \<noteq> JUndefined \<Longrightarrow> has_own m k"
  by (auto simp: get_prop_def has_own_def split: option.splits)

lemma add_mapped_input_decide:
  assumes "map_of (py_inputs p) (fst km) = map_of overrides (fst km)"
  shows "add_mapped_input js ports results p km =
    (case decide_input js ports results overrides km of
       Manual \<Rightarrow> p\<lparr>py_manual := py_manual p @ [fst km]\<rparr>
     | Taken v \<Rightarrow> set_input (fst km) v p
     | Unresolved \<Rightarrow> p\<lparr>py_warnings := py_warnings p @ [warning_of km]\<rparr>)"
proof -
  obtain k m where km: "km = (k, m)" by (cases km)
  have g: "get_prop (py_inputs p) k = get_prop overrides k" using assms km by (intro get_prop_cong) simp
  show ?thesis
    using has_own_get_prop [of "py_inputs p" k]
    by (auto simp: km g add_mapped_input_def decide_input_def Let_def add_warning_def warning_of_def
        split: option.splits sum.splits)
qed

lemma foldl_add_mapped_input:
  fixes js ports results overrides
  defines "src \<equiv> decide_input js ports results overrides"
  assumes "distinct (map fst ms)" and "\<forall>km \<in> set ms. map_of (py_inputs p) (fst km) = map_of overrides (fst km)"
  shows "let q = foldl (add_mapped_input js ports results) p ms in
    py_params q = py_params p
    \<and> py_manual q = py_manual p @ map fst (filter (\<lambda>km. src km = Manual) ms)
    \<and> py_warnings q = py_warnings p @ map warning_of (filter (\<lambda>km. src km = Unresolved) ms)
    \<and> (\<forall>k. map_of (py_inputs q) k = (case map_of (taken_of src ms) k of Some v \<Rightarrow> Some v | None \<Rightarrow> map_of (py_inputs p) k))"
  using assms(2,3)
proof (induction ms arbitrary: p)
  case Nil
  then show ?case by (simp add: taken_of_def map_filter_simps)
next
  case (Cons km ms)
  let ?p = "add_mapped_input js ports results p km"
  have step: "?p = (case src km of
       Manual \<Rightarrow> p\<lparr>py_manual := py_manual p @ [fst km]\<rparr>
     | Taken v \<Rightarrow> set_input (fst km) v p
     | Unresolved \<Rightarrow> p\<lparr>py_warnings := py_warnings p @ [warning_of km]\<rparr>)"
    unfolding src_def using Cons.prems(2) by (intro add_mapped_input_decide) simp
  have keep: "\<forall>x \<in> set ms. map_of (py_inputs ?p) (fst x) = map_of overrides (fst x)"
  proof
    fix x assume x: "x \<in> set ms"
    then have "fst x \<noteq> fst km" using Cons.prems(1) by (auto simp: image_iff)
    then show "map_of (py_inputs ?p) (fst x) = map_of overrides (fst x)"
      using Cons.prems(2) x unfolding step by (auto simp: set_input_def split: input_source.splits)
  qed
  have notin: "map_of (taken_of src ms) (fst km) = None"
    using Cons.prems(1) keys_taken_of [of src ms] by (auto simp: map_of_eq_None_iff)
  from Cons.IH [OF _ keep] Cons.prems(1) notin show ?case
    unfolding Let_def by (cases "src km") (auto simp: step taken_of_def map_filter_simps set_input_def split: option.splits)
qed

text \<open>
  C36: The payload of an activity is decided input by input, and the order of the mappings does not
  matter: an input keeps its manual value when its port prefers that and one is given; otherwise
  it takes the coerced output it is connected to; otherwise it is reported as a warning and keeps
  its static value, as does every input without a mapping.
\<close>

theorem payload_is_decided_per_input:
  fixes js ports results a
  defines "src \<equiv> decide_input js (map_of_entries (map (\<lambda>q. (ip_id q, q)) ports)) results (ac_overrides a)"
  assumes "distinct (map fst (ac_mappings a))"
  shows "let q = build_action_payload js ports results a in
    py_params q = ac_params a
    \<and> py_manual q = map fst (filter (\<lambda>km. src km = Manual) (ac_mappings a))
    \<and> py_warnings q = map warning_of (filter (\<lambda>km. src km = Unresolved) (ac_mappings a))
    \<and> (\<forall>k. map_of (py_inputs q) k =
          (case map_of (taken_of src (ac_mappings a)) k of Some v \<Rightarrow> Some v | None \<Rightarrow> map_of (ac_overrides a) k))"
  using foldl_add_mapped_input [OF assms(2), of
      "\<lparr>py_inputs = ac_overrides a, py_params = ac_params a, py_warnings = [], py_manual = []\<rparr>" "ac_overrides a"
      js "map_of_entries (map (\<lambda>q. (ip_id q, q)) ports)" results]
  by (simp add: build_action_payload_def src_def cong: option.case_cong)

definition sample_payload_action :: action where
  "sample_payload_action =
     \<lparr>ac_ref = ''t'', ac_component = ''c'', ac_params = [], ac_overrides = [(''m'', JString ''typed'')],
      ac_depends_on = [''s''],
      ac_mappings = [(''m'', \<lparr>im_source_ref = ''s'', im_source_handle = ''x''\<rparr>),
                     (''n'', \<lparr>im_source_ref = ''s'', im_source_handle = ''x''\<rparr>),
                     (''o'', \<lparr>im_source_ref = ''s'', im_source_handle = ''y''\<rparr>)],
      ac_retry = None\<rparr>"

definition sample_payload :: payload where
  "sample_payload = build_action_payload sample_text
     [\<lparr>ip_id = ''m'', ip_priority = Some ManualFirst, ip_type = None\<rparr>]
     [(''s'', JObject [(''x'', JBool True)])] sample_payload_action"

lemma payload_is_decided_per_input_witness:
  "py_manual sample_payload = [''m''] \<and> map_of (py_inputs sample_payload) ''m'' = Some (JString ''typed'')"
proof -
  let ?src = "decide_input sample_text (map_of_entries (map (\<lambda>q. (ip_id q, q))
      [\<lparr>ip_id = ''m'', ip_priority = Some ManualFirst, ip_type = None\<rparr>]))
      [(''s'', JObject [(''x'', JBool True)])] (ac_overrides sample_payload_action)"
  have d: "distinct (map fst (ac_mappings sample_payload_action))" by code_simp
  have "map fst (filter (\<lambda>km. ?src km = Manual) (ac_mappings sample_payload_action)) = [''m'']" by code_simp
  moreover have "map_of (taken_of ?src (ac_mappings sample_payload_action)) ''m'' = None" by code_simp
  moreover have "map_of (ac_overrides sample_payload_action) ''m'' = Some (JString ''typed'')" by code_simp
  ultimately show ?thesis
    using payload_is_decided_per_input [OF d, of sample_text
        "[\<lparr>ip_id = ''m'', ip_priority = Some ManualFirst, ip_type = None\<rparr>]" "[(''s'', JObject [(''x'', JBool True)])]"]
    unfolding sample_payload_def Let_def by simp
qed

end
