(* ===== verification/For_Each.thy ===== *)
theory For_Each
  imports Action_Inputs Scheduler_Liveness
begin

section \<open>For-each loops\<close>

text \<open>
  \<open>worker/src/temporal/workflows/for-each-handler.ts\<close>: the body of a for-each node is run once per
  item, one after the other, each time by the scheduler and on its own copy of the results.  The
  callback \<open>executeAction\<close> may change that copy and anything else: it is a function of the
  results and of a world \<open>'w\<close>.  An exception of the scheduler ends the loop.
\<close>

type_synonym results = "(node_ref, json) js_map"

record iteration =
  it_for_each :: node_ref
  it_index :: nat
  it_total :: nat

type_synonym 'w execute_action =
  "node_ref \<Rightarrow> definition_core \<Rightarrow> run_context \<Rightarrow> iteration \<Rightarrow> results \<times> 'w \<Rightarrow> (outcome \<times> nat) \<times> (results \<times> 'w)"

definition capture_iteration_result :: "loop_body \<Rightarrow> results \<Rightarrow> json" where
  "capture_iteration_result lb results =
     (let source = get_prop results (im_source_ref (lb_capture lb));
          captured = resolve_input_value source (im_source_handle (lb_capture lb))
      in if captured \<noteq> JUndefined then captured else coalesce source JNull)"

text \<open>\<open>items.slice(0, maxIterations)\<close> when it is a positive number.\<close>

definition capped_items :: "js_num option \<Rightarrow> json list \<Rightarrow> json list" where
  "capped_items limit items =
     (case limit of
        Some (Finite r) \<Rightarrow> if r > 0 then take (nat \<lfloor>r\<rfloor>) items else items
      | _ \<Rightarrow> items)"

definition iteration_start :: "node_ref \<Rightarrow> nat \<Rightarrow> nat \<Rightarrow> json \<Rightarrow> results \<Rightarrow> results" where
  "iteration_start fe i n item parent =
     AList.update fe
       (JObject [(''currentItem'', item), (''body'', item), (''index'', JNumber (Finite (of_nat i))),
                 (''total'', JNumber (Finite (of_nat n)))]) parent"

definition iteration_options ::
  "'w execute_action \<Rightarrow> loop_body \<Rightarrow> node_ref \<Rightarrow> nat \<Rightarrow> nat \<Rightarrow> (results \<times> 'w) scheduler_options" where
  "iteration_options execute lb fe i n =
     \<lparr>so_run = (\<lambda>r ctx w. execute r (lb_definition lb) ctx \<lparr>it_for_each = fe, it_index = i, it_total = n\<rparr> w),
      so_preserve_cancellation = False, so_is_cancellation = (\<lambda>_. False)\<rparr>"

definition run_iteration ::
  "'w execute_action \<Rightarrow> loop_body \<Rightarrow> node_ref \<Rightarrow> results \<Rightarrow> nat \<Rightarrow> nat \<Rightarrow> json \<Rightarrow> 'w \<Rightarrow> sched_result \<times> results \<times> 'w" where
  "run_iteration execute lb fe parent i n item w =
     (case run_workflow_with_scheduler (lb_definition lb) (iteration_options execute lb fe i n)
             (iteration_start fe i n item parent, w) of
        (res, _, (results, w')) \<Rightarrow> (res, results, w'))"

fun for_each_iterations ::
  "'w execute_action \<Rightarrow> loop_body \<Rightarrow> node_ref \<Rightarrow> results \<Rightarrow> nat \<Rightarrow> nat \<Rightarrow> json list \<Rightarrow> json list \<Rightarrow> 'w
   \<Rightarrow> (sched_result + json list) \<times> 'w" where
  "for_each_iterations execute lb fe parent n i [] outputs w = (Inr outputs, w)"
| "for_each_iterations execute lb fe parent n i (item # items) outputs w =
     (case run_iteration execute lb fe parent i n item w of
        (res, results, w') \<Rightarrow>
          if res \<noteq> SchedFinished then (Inl res, w')
          else for_each_iterations execute lb fe parent n (Suc i) items
                 (outputs @ [capture_iteration_result lb results]) w')"

record for_each_result =
  fr_results :: "json list"
  fr_iterations :: nat
  fr_output :: json_record

definition run_for_each_loop ::
  "'w execute_action \<Rightarrow> loop_body \<Rightarrow> node_ref \<Rightarrow> results \<Rightarrow> js_num option \<Rightarrow> json list \<Rightarrow> 'w
   \<Rightarrow> (sched_result + for_each_result) \<times> 'w" where
  "run_for_each_loop execute lb fe parent limit items w =
     (let capped = capped_items limit items; n = length capped; count = JNumber (Finite (of_nat n))
      in case for_each_iterations execute lb fe parent n 0 capped [] w of
           (Inl res, w') \<Rightarrow> (Inl res, w')
         | (Inr outputs, w') \<Rightarrow>
             (Inr \<lparr>fr_results = outputs, fr_iterations = n,
                   fr_output =
                     [(''currentItem'', JNull), (''body'', JNull), (''index'', count), (''total'', count),
                      (''results'', JArray outputs), (''iterations'', count)]\<rparr>, w'))"

definition get_for_each_loop_body :: "workflow_definition \<Rightarrow> node_ref \<Rightarrow> loop_body option" where
  "get_for_each_loop_body d fe = map_of (df_loop_bodies d) fe"

subsection \<open>The iterations of a loop\<close>

text \<open>
  \<open>iterated\<close>: the items have been run in order, each on the parent's results with the loop variable
  set, from the world the iteration before left, and each finished with the captured output.
\<close>

inductive iterated ::
  "'w execute_action \<Rightarrow> loop_body \<Rightarrow> node_ref \<Rightarrow> results \<Rightarrow> nat \<Rightarrow> nat \<Rightarrow> json list \<Rightarrow> 'w \<Rightarrow> json list \<Rightarrow> 'w \<Rightarrow> bool"
  for execute lb fe parent n
where
  finish: "iterated execute lb fe parent n i [] w [] w"
| item: "run_iteration execute lb fe parent i n item w = (SchedFinished, results, w1) \<Longrightarrow>
        iterated execute lb fe parent n (Suc i) items w1 outputs w2 \<Longrightarrow>
        iterated execute lb fe parent n i (item # items) w (capture_iteration_result lb results # outputs) w2"

inductive_simps iterated_Nil [simp]: "iterated execute lb fe parent n i [] w outputs w'"
inductive_simps iterated_Cons: "iterated execute lb fe parent n i (item # items) w outputs w'"

lemma iterated_length: "iterated execute lb fe parent n i items w outputs w' \<Longrightarrow> length outputs = length items"
  by (induction rule: iterated.induct) simp_all

lemma for_each_iterations_Inr:
  "for_each_iterations execute lb fe parent n i items outputs w = (Inr all, w') \<Longrightarrow>
   \<exists>new. all = outputs @ new \<and> iterated execute lb fe parent n i items w new w'"
proof (induction items arbitrary: i outputs w)
  case (Cons item items)
  then obtain results w1 where r: "run_iteration execute lb fe parent i n item w = (SchedFinished, results, w1)"
    and rest: "for_each_iterations execute lb fe parent n (Suc i) items
                 (outputs @ [capture_iteration_result lb results]) w1 = (Inr all, w')"
    by (auto split: prod.splits if_splits)
  from Cons.IH [OF rest] r show ?case by (auto intro: iterated.item)
qed simp

lemma for_each_iterations_Inl:
  "for_each_iterations execute lb fe parent n i items outputs w = (Inl res, w') \<Longrightarrow>
   \<exists>before item after new w1 results. items = before @ item # after
     \<and> iterated execute lb fe parent n i before w new w1
     \<and> run_iteration execute lb fe parent (i + length before) n item w1 = (res, results, w') \<and> res \<noteq> SchedFinished"
proof (induction items arbitrary: i outputs w)
  case (Cons item items)
  obtain r results w1 where run: "run_iteration execute lb fe parent i n item w = (r, results, w1)"
    by (metis surj_pair)
  show ?case
  proof (cases "r = SchedFinished")
    case True
    with Cons.prems run obtain outputs' where
      "for_each_iterations execute lb fe parent n (Suc i) items outputs' w1 = (Inl res, w')" by auto
    from Cons.IH [OF this] obtain before it after new w2 rs where
      "items = before @ it # after" "iterated execute lb fe parent n (Suc i) before w1 new w2"
      "run_iteration execute lb fe parent (Suc i + length before) n it w2 = (res, rs, w')" "res \<noteq> SchedFinished"
      by blast
    moreover from this have "item # items = (item # before) @ it # after"
      "iterated execute lb fe parent n i (item # before) w (capture_iteration_result lb results # new) w2"
      "run_iteration execute lb fe parent (i + length (item # before)) n it w2 = (res, rs, w')"
      using iterated.item [OF run [unfolded True]] by auto
    ultimately show ?thesis by blast
  next
    case False
    with Cons.prems run have "r = res" "w1 = w'" by auto
    with False run have "item # items = [] @ item # items \<and> iterated execute lb fe parent n i [] w [] w
      \<and> run_iteration execute lb fe parent (i + length []) n item w = (res, results, w') \<and> res \<noteq> SchedFinished"
      by simp
    then show ?thesis by (intro exI)
  qed
qed simp


text \<open>
  A loop that throws has run the items before the failing one to completion and none after it,
  and it throws what the scheduler threw in the failing iteration.
\<close>

theorem for_each_stops_at_failure:
  assumes "run_for_each_loop execute lb fe parent limit items w = (Inl res, w')"
  shows "\<exists>before item after new w1 results. capped_items limit items = before @ item # after
    \<and> iterated execute lb fe parent (length (capped_items limit items)) 0 before w new w1
    \<and> run_iteration execute lb fe parent (length before) (length (capped_items limit items)) item w1
      = (res, results, w')
    \<and> res \<noteq> SchedFinished"
proof -
  have "for_each_iterations execute lb fe parent (length (capped_items limit items)) 0
      (capped_items limit items) [] w = (Inl res, w')"
    using assms by (auto simp: run_for_each_loop_def Let_def split: prod.splits sum.splits)
  from for_each_iterations_Inl [OF this] show ?thesis by simp
qed

text \<open>
  A loop whose body is well formed never ends in the deadlock error of the scheduler.
\<close>

theorem for_each_never_deadlocks:
  assumes "well_formed (lb_definition lb)" and "error_joins_ok (lb_definition lb)"
  shows "fst (run_for_each_loop execute lb fe parent limit items w) \<noteq> Inl SchedDeadlock"
proof
  assume "fst (run_for_each_loop execute lb fe parent limit items w) = Inl SchedDeadlock"
  then obtain w' where "run_for_each_loop execute lb fe parent limit items w = (Inl SchedDeadlock, w')"
    by (metis prod.collapse)
  then have "for_each_iterations execute lb fe parent (length (capped_items limit items)) 0
      (capped_items limit items) [] w = (Inl SchedDeadlock, w')"
    by (auto simp: run_for_each_loop_def Let_def split: prod.splits sum.splits)
  from for_each_iterations_Inl [OF this] obtain i n item w1 results where
    "run_iteration execute lb fe parent i n item w1 = (SchedDeadlock, results, w')" by blast
  then obtain s where "run_workflow_with_scheduler (lb_definition lb) (iteration_options execute lb fe i n)
      (iteration_start fe i n item parent, w1) = (SchedDeadlock, s, (results, w'))"
    by (auto simp: run_iteration_def split: prod.splits)
  from no_deadlock_state [OF this assms] show False by simp
qed

text \<open>A loop over one node, which returns the item it is given; the world collects the items.\<close>

definition echo_body :: loop_body where
  "echo_body =
     \<lparr>lb_for_each = ''f'', lb_entry = ''a'', lb_exits = [''a''],
      lb_capture = \<lparr>im_source_ref = ''a'', im_source_handle = ''out''\<rparr>, lb_item_binding = None,
      lb_definition = demo_workflow [''a''] [] []\<rparr>"

definition echo_execute :: "json list execute_action" where
  "echo_execute r d ctx it rw =
     (case rw of
        (results, seen) \<Rightarrow>
          let item = get_prop (fields_of (get_prop results ''f'')) ''currentItem''
          in ((if item = JNull then Rejected ReasonNone else Fulfilled None, 0),
              AList.update r (JObject [(''out'', item)]) results, seen @ [item]))"


lemma for_each_stops_at_failure_witness:
  "\<exists>res w' before item after. run_for_each_loop echo_execute echo_body ''f'' [] None [JBool True, JNull, JBool False] []
     = (Inl res, w') \<and> w' = [JBool True, JNull] \<and> [JBool True, JNull, JBool False] = before @ item # after"
proof -
  have "case run_for_each_loop echo_execute echo_body ''f'' [] None [JBool True, JNull, JBool False] [] of
     (Inl _, w') \<Rightarrow> w' = [JBool True, JNull] | (Inr r, w') \<Rightarrow> False"
    by code_simp
  then obtain res where r: "run_for_each_loop echo_execute echo_body ''f'' [] None
      [JBool True, JNull, JBool False] [] = (Inl res, [JBool True, JNull])"
    by (auto split: prod.splits sum.splits)
  have "capped_items None [JBool True, JNull, JBool False] = [JBool True, JNull, JBool False]"
    by (simp add: capped_items_def)
  with for_each_stops_at_failure [OF r] r show ?thesis by metis
qed

lemma for_each_never_deadlocks_witness:
  "fst (run_for_each_loop echo_execute echo_body ''f'' [] None [JNull, JBool True] []) \<noteq> Inl SchedDeadlock"
proof (rule for_each_never_deadlocks)
  have "edge_relation (lb_definition echo_body) = {}" by (simp add: edge_relation_def echo_body_def demo_workflow_def)
  then show "well_formed (lb_definition echo_body)"
    by (simp add: well_formed_def acyclic_def) (simp add: action_refs_def echo_body_def demo_workflow_def)
  show "error_joins_ok (lb_definition echo_body)"
    by (simp add: error_joins_ok_def incoming_def echo_body_def demo_workflow_def)
qed

end
