(* ===== verification/Output_Mask.thy ===== *)
theory Output_Mask
  imports Validator
begin

section \<open>Masking and summarising what a component returns\<close>

text \<open>
  \<open>worker/src/temporal/utils/component-output.ts\<close>: before the inputs and outputs of an activity are
  recorded in the trace, values on secret ports are replaced by \<open>***\<close>, and large outputs are
  reduced to a summary.

  \<open>maskSecretParameters\<close> looks for the metadata of a parameter in a property
  \<open>_def.sentrisMetadata\<close> of its schema.  Nothing in the repository writes that property (the
  metadata is kept in a weak map, the field \<open>zs_param\<close> of the model), and what the schema library
  keeps in \<open>_def\<close> is not code of the repository: it is the argument \<open>def_editor\<close>, the editor found there.
\<close>

definition MASK :: json where
  "MASK = JString ''***''"

definition LLM_CREDENTIAL_KEYS :: "string list" where
  "LLM_CREDENTIAL_KEYS = [''apiKey'', ''oauthToken'', ''apiKeySecretId'', ''oauthTokenSecretId'']"

definition mask_keys :: "string list \<Rightarrow> json_record \<Rightarrow> json_record" where
  "mask_keys ks fs = foldl (\<lambda>m k. if has_own m k then AList.update k MASK m else m) fs ks"

definition mask_credential_value :: "json \<Rightarrow> json" where
  "mask_credential_value v =
     (if nullish v then v
      else case v of
        JObject fs \<Rightarrow>
          if list_ex (has_own fs) LLM_CREDENTIAL_KEYS then JObject (mask_keys LLM_CREDENTIAL_KEYS fs) else MASK
      | _ \<Rightarrow> MASK)"

definition is_secret_port :: "port \<Rightarrow> bool" where
  "is_secret_port p \<longleftrightarrow>
     (case po_type p of
        ConnPrimitive n \<Rightarrow> n = Some ''secret''
      | ConnContract _ c _ _ \<Rightarrow> c = Some True
      | _ \<Rightarrow> False)"

definition get_secret_ports :: "port list \<Rightarrow> string list" where
  "get_secret_ports ps = map po_id (filter is_secret_port ps)"

definition mask_ports_with :: "(json \<Rightarrow> json) \<Rightarrow> string list \<Rightarrow> json_record \<Rightarrow> json_record" where
  "mask_ports_with f ks fs = foldl (\<lambda>m k. if has_own m k then AList.update k (f (get_prop m k)) m else m) fs ks"

definition mask_secret_ports :: "string list \<Rightarrow> json \<Rightarrow> json" where
  "mask_secret_ports ks data =
     (if ks = [] then data
      else if ''__self__'' \<in> set ks then MASK
      else case data of
             JObject fs \<Rightarrow> JObject (mask_ports_with mask_credential_value ks fs)
           | _ \<Rightarrow> MASK)"

definition secret_parameter_keys :: "(zschema \<Rightarrow> string option) \<Rightarrow> component \<Rightarrow> string list" where
  "secret_parameter_keys def_editor c =
     (case cd_parameters c of
        None \<Rightarrow> []
      | Some z \<Rightarrow> map fst (filter (\<lambda>f. def_editor (snd f) = Some ''secret'') (zs_fields z)))"

definition mask_secret_parameters :: "(zschema \<Rightarrow> string option) \<Rightarrow> component \<Rightarrow> json \<Rightarrow> json" where
  "mask_secret_parameters def_editor c params =
     (case params of
        JObject fs \<Rightarrow>
          (let ks = secret_parameter_keys def_editor c
           in if ks = [] then params else JObject (mask_keys ks fs))
      | _ \<Rightarrow> params)"

definition mask_secret_inputs :: "(zschema \<Rightarrow> string option) \<Rightarrow> component \<Rightarrow> json \<Rightarrow> schema_error + json" where
  "mask_secret_inputs def_editor c input =
     bind_result (extract_ports (cd_inputs c)) (\<lambda>ps.
       let masked = mask_secret_ports (get_secret_ports ps) input
       in Inr (if cd_parameters c \<noteq> None then mask_secret_parameters def_editor c masked else masked))"

definition mask_secret_outputs :: "component \<Rightarrow> json \<Rightarrow> schema_error + json" where
  "mask_secret_outputs c output =
     bind_result (extract_ports (cd_outputs c)) (\<lambda>ps.
       let ks = get_secret_ports ps
       in Inr (if ks = [] then output
               else if ''__self__'' \<in> set ks then MASK
               else case output of
                      JObject fs \<Rightarrow> JObject (mask_ports_with (\<lambda>_. MASK) ks fs)
                    | _ \<Rightarrow> MASK))"

subsection \<open>Summaries\<close>

definition summary_field :: "json_record \<times> bool \<Rightarrow> string \<times> json \<Rightarrow> json_record \<times> bool" where
  "summary_field acc kv =
     (case (acc, kv) of
        ((summary, truncated), (k, v)) \<Rightarrow>
          if starts_with k ''__'' \<or> k = ''summary'' then (summary, truncated)
          else
            (case v of
               JArray vs \<Rightarrow> (AList.update (k @ ''Count'') (JNumber (Finite (of_nat (length vs)))) summary, True)
             | JObject fs \<Rightarrow>
                 (if truthy (get_prop fs ''summary'')
                  then AList.update k (JObject [(''summary'', get_prop fs ''summary''), (''_truncated'', JBool True)]) summary
                  else summary, True)
             | _ \<Rightarrow> (AList.update k v summary, truncated)))"

definition create_lightweight_summary :: "json \<Rightarrow> json_record" where
  "create_lightweight_summary output =
     (case output of
        JObject obj \<Rightarrow>
          (let start = (if truthy (get_prop obj ''summary'') then [(''summary'', get_prop obj ''summary'')] else []);
               (summary, truncated) = foldl summary_field (start, False) obj;
               spilled = truthy (get_prop obj ''__spilled__'');
               summary' = (if spilled then
                   AList.update ''originalSize'' (get_prop obj ''originalSize'')
                     (AList.update ''storageRef'' (get_prop obj ''storageRef'')
                       (AList.update ''__spilled__'' (JBool True) summary))
                 else summary)
           in if truncated \<or> spilled then AList.update ''_truncated'' (JBool True) summary' else summary')
      | _ \<Rightarrow> [(''_value'', output)])"

subsection \<open>No secret output is recorded\<close>

lemma map_of_mask_ports:
  assumes "k \<notin> set ks"
  shows "map_of (mask_ports_with f ks fs) k = map_of fs k"
  using assms
proof (induction ks arbitrary: fs)
  case (Cons a ks)
  then have "map_of (mask_ports_with f ks (if has_own fs a then AList.update a (f (get_prop fs a)) fs else fs)) k
      = map_of fs k"
    by (simp add: update_conv)
  then show ?case by (simp add: mask_ports_with_def)
qed (simp add: mask_ports_with_def)

lemma has_own_mask_ports [simp]: "has_own (mask_ports_with f ks fs) k = has_own fs k"
proof (induction ks arbitrary: fs)
  case (Cons a ks)
  show ?case
    using Cons [of "if has_own fs a then AList.update a (f (get_prop fs a)) fs else fs"]
    by (auto simp: mask_ports_with_def split: if_splits)
qed (simp add: mask_ports_with_def)

lemma map_of_mask_const:
  "map_of (mask_ports_with (\<lambda>_. MASK) ks fs) k = (if k \<in> set ks \<and> has_own fs k then Some MASK else map_of fs k)"
proof (induction ks arbitrary: fs)
  case (Cons a ks)
  show ?case
    using Cons [of "if has_own fs a then AList.update a MASK fs else fs"]
    by (auto simp: mask_ports_with_def split: if_splits)
qed (simp add: mask_ports_with_def)

text \<open>
  The recorded output tells nothing about secret ports: two outputs of a component that have
  the same fields and agree on every field that is not a secret port are recorded with the same
  fields, and an output that is not an object is recorded as \<open>***\<close>.
\<close>

theorem masked_outputs_hide_secrets:
  assumes "extract_ports (cd_outputs c) = Inr ps" and "get_secret_ports ps \<noteq> []"
    and "mask_secret_outputs c (JObject fs) = Inr v" and "mask_secret_outputs c (JObject gs) = Inr w"
    and "\<forall>k. has_own fs k = has_own gs k"
    and "\<forall>k. k \<notin> set (get_secret_ports ps) \<longrightarrow> map_of fs k = map_of gs k"
  shows "(v = MASK \<and> w = MASK) \<or> (\<exists>fs' gs'. v = JObject fs' \<and> w = JObject gs' \<and> map_of fs' = map_of gs'
      \<and> (\<forall>k \<in> set (get_secret_ports ps). has_own fs k \<longrightarrow> map_of fs' k = Some MASK))"
proof (cases "''__self__'' \<in> set (get_secret_ports ps)")
  case True
  with assms(1-4) show ?thesis by (auto simp: mask_secret_outputs_def Let_def)
next
  case False
  let ?m = "mask_ports_with (\<lambda>_. MASK) (get_secret_ports ps)"
  have "v = JObject (?m fs)" "w = JObject (?m gs)"
    using assms(1-4) False by (auto simp: mask_secret_outputs_def Let_def)
  moreover have "map_of fs k = map_of gs k" if "k \<notin> set (get_secret_ports ps) \<or> \<not> has_own gs k" for k
    using that assms(5,6) by (metis has_own_def option.exhaust)
  then have "map_of (?m fs) = map_of (?m gs)"
    using assms(5) by (simp add: map_of_mask_const fun_eq_iff)
  moreover have "\<forall>k \<in> set (get_secret_ports ps). has_own fs k \<longrightarrow> map_of (?m fs) k = Some MASK"
    by (simp add: map_of_mask_const)
  ultimately show ?thesis by blast
qed

text \<open>What a recorded credential may be.\<close>

definition masked_credential :: "json \<Rightarrow> bool" where
  "masked_credential v \<longleftrightarrow>
     nullish v \<or> v = MASK
     \<or> (\<exists>fs. v = JObject fs \<and> (\<forall>k \<in> set LLM_CREDENTIAL_KEYS. has_own fs k \<longrightarrow> map_of fs k = Some MASK))"

lemma mask_keys_const: "mask_keys ks fs = mask_ports_with (\<lambda>_. MASK) ks fs"
  by (simp add: mask_keys_def mask_ports_with_def)

lemma masked_credential_value: "masked_credential (mask_credential_value v)"
proof (cases v)
  case (JObject fs)
  have "\<forall>k \<in> set LLM_CREDENTIAL_KEYS. has_own fs k \<longrightarrow> map_of (mask_keys LLM_CREDENTIAL_KEYS fs) k = Some MASK"
    by (simp add: mask_keys_const map_of_mask_const)
  with JObject show ?thesis
    by (auto simp: masked_credential_def mask_credential_value_def nullish_def mask_keys_const)
qed (auto simp: masked_credential_def mask_credential_value_def nullish_def)

lemma masked_ports_value:
  assumes "k \<in> set ks" and "has_own fs k"
  shows "\<exists>u. map_of (mask_ports_with mask_credential_value ks fs) k = Some (mask_credential_value u)"
  using assms
proof (induction ks arbitrary: fs)
  case (Cons a ks)
  let ?fs = "if has_own fs a then AList.update a (mask_credential_value (get_prop fs a)) fs else fs"
  have step: "mask_ports_with mask_credential_value (a # ks) fs = mask_ports_with mask_credential_value ks ?fs"
    by (simp add: mask_ports_with_def)
  show ?case
  proof (cases "k \<in> set ks")
    case True
    with Cons.IH [of ?fs] Cons.prems(2) show ?thesis unfolding step by auto
  next
    case False
    with Cons.prems show ?thesis unfolding step by (auto simp: map_of_mask_ports)
  qed
qed simp

text \<open>
  On the inputs, a value on a secret port is recorded as \<open>***\<close>; only an object with the keys
  of an LLM credential is kept, with those keys masked, and \<open>undefined\<close> and \<open>null\<close>.
\<close>

theorem masked_inputs_hide_secrets:
  assumes "extract_ports (cd_inputs c) = Inr ps" and "\<forall>f. def_editor f = None"
    and "mask_secret_inputs def_editor c (JObject fs) = Inr v"
    and "p \<in> set ps" and "is_secret_port p" and "has_own fs (po_id p)"
  shows "v = MASK \<or> (\<exists>gs. v = JObject gs \<and> masked_credential (get_prop gs (po_id p)))"
proof -
  let ?ks = "get_secret_ports ps"
  have k: "po_id p \<in> set ?ks" using assms(4,5) by (auto simp: get_secret_ports_def)
  have v: "v = mask_secret_ports ?ks (JObject fs)"
    using assms(1-3)
    by (auto simp: mask_secret_inputs_def Let_def mask_secret_parameters_def secret_parameter_keys_def
        split: json.splits option.splits if_splits)
  show ?thesis
  proof (cases "''__self__'' \<in> set ?ks")
    case True
    with v k show ?thesis by (auto simp: mask_secret_ports_def)
  next
    case False
    obtain u where "map_of (mask_ports_with mask_credential_value ?ks fs) (po_id p) = Some (mask_credential_value u)"
      using masked_ports_value [OF k assms(6)] by blast
    with v k False masked_credential_value [of u] show ?thesis by (auto simp: mask_secret_ports_def get_prop_def)
  qed
qed

text \<open>
  Code bug.  Secret parameters are never masked: as the property that \<open>maskSecretParameters\<close>
  reads is not set on any schema, it returns its argument, and the inputs of a component without
  secret ports are recorded as they are, the values of its secret parameters included.
\<close>

theorem secret_parameters_are_recorded:
  assumes "\<forall>f. def_editor f = None" and "extract_ports (cd_inputs c) = Inr ps" and "get_secret_ports ps = []"
  shows "mask_secret_parameters def_editor c params = params \<and> mask_secret_inputs def_editor c input = Inr input"
  using assms
  by (auto simp: mask_secret_inputs_def mask_secret_ports_def mask_secret_parameters_def secret_parameter_keys_def
      Let_def split: json.splits option.splits)

definition secret_scan :: component where
  "secret_scan = (sample_component ''scan'' sample_empty)\<lparr>cd_parameters := Some sample_params, cd_outputs := sample_inputs\<rparr>"

lemma secret_parameters_are_recorded_witness:
  "map (\<lambda>p. (pr_id p, pr_type p)) (extract_parameters sample_params) = [(''token'', ''secret'')]
   \<and> mask_secret_inputs (\<lambda>_. None) secret_scan (JObject [(''token'', JString ''s3cret'')])
     = Inr (JObject [(''token'', JString ''s3cret'')])"
proof -
  have "extract_ports (cd_inputs secret_scan) = Inr []" by code_simp
  then have "mask_secret_inputs (\<lambda>_. None) secret_scan (JObject [(''token'', JString ''s3cret'')])
      = Inr (JObject [(''token'', JString ''s3cret'')])"
    using secret_parameters_are_recorded [of "\<lambda>_. None" secret_scan "[]"] by (simp add: get_secret_ports_def)
  moreover have "map (\<lambda>p. (pr_id p, pr_type p)) (extract_parameters sample_params) = [(''token'', ''secret'')]"
    by code_simp
  ultimately show ?thesis by blast
qed

lemma masked_outputs_hide_secrets_witness:
  "\<exists>v w. mask_secret_outputs secret_scan (JObject [(''key'', JString ''one'')]) = Inr v
     \<and> mask_secret_outputs secret_scan (JObject [(''key'', JString ''two'')]) = Inr w
     \<and> ((v = MASK \<and> w = MASK) \<or> (\<exists>fs' gs'. v = JObject fs' \<and> w = JObject gs' \<and> map_of fs' = map_of gs'))"
proof -
  have "case extract_ports (cd_outputs secret_scan) of Inl _ \<Rightarrow> False | Inr ps \<Rightarrow> get_secret_ports ps = [''key'']"
    by code_simp
  then obtain ps where ps: "extract_ports (cd_outputs secret_scan) = Inr ps" "get_secret_ports ps = [''key'']"
    by (auto split: sum.splits)
  obtain v w where vw: "mask_secret_outputs secret_scan (JObject [(''key'', JString ''one'')]) = Inr v"
    "mask_secret_outputs secret_scan (JObject [(''key'', JString ''two'')]) = Inr w"
    using ps by (auto simp: mask_secret_outputs_def)
  have "get_secret_ports ps \<noteq> []" using ps(2) by simp
  moreover have "\<forall>k. has_own [(''key'', JString ''one'')] k = has_own [(''key'', JString ''two'')] k"
    by (simp add: has_own_def)
  moreover have "\<forall>k. k \<notin> set (get_secret_ports ps) \<longrightarrow>
      map_of [(''key'', JString ''one'')] k = map_of [(''key'', JString ''two'')] k"
    by (simp add: ps(2))
  ultimately have "(v = MASK \<and> w = MASK) \<or> (\<exists>fs' gs'. v = JObject fs' \<and> w = JObject gs' \<and> map_of fs' = map_of gs'
      \<and> (\<forall>k \<in> set (get_secret_ports ps). has_own [(''key'', JString ''one'')] k \<longrightarrow> map_of fs' k = Some MASK))"
    by (rule masked_outputs_hide_secrets [OF ps(1) _ vw])
  then show ?thesis using vw by blast
qed

lemma masked_inputs_hide_secrets_witness:
  "\<exists>v. mask_secret_inputs (\<lambda>_. None) (sample_component ''a'' sample_inputs) (JObject [(''key'', JString ''one'')]) = Inr v
     \<and> (v = MASK \<or> (\<exists>gs. v = JObject gs \<and> masked_credential (get_prop gs ''key'')))"
proof -
  let ?c = "sample_component ''a'' sample_inputs"
  have "case extract_ports (cd_inputs ?c) of Inl _ \<Rightarrow> False
    | Inr ps \<Rightarrow> length ps = 2 \<and> is_secret_port (ps ! 1) \<and> po_id (ps ! 1) = ''key''"
    by code_simp
  then obtain ps where ps: "extract_ports (cd_inputs ?c) = Inr ps" "length ps = 2" "is_secret_port (ps ! 1)"
    "po_id (ps ! 1) = ''key''"
    by (auto split: sum.splits)
  then have mem: "ps ! 1 \<in> set ps" by simp
  obtain v where v: "mask_secret_inputs (\<lambda>_. None) ?c (JObject [(''key'', JString ''one'')]) = Inr v"
    using ps(1) by (auto simp: mask_secret_inputs_def Let_def)
  have "has_own [(''key'', JString ''one'')] (po_id (ps ! 1))" using ps(4) by (simp add: has_own_def)
  from masked_inputs_hide_secrets [OF ps(1) _ v mem ps(3) this] v ps(4) show ?thesis by simp
qed

subsection \<open>What a summary keeps\<close>

definition flat_value :: "json \<Rightarrow> bool" where
  "flat_value v \<longleftrightarrow>
     (\<forall>vs. v \<noteq> JArray vs)
     \<and> (\<forall>fs. v = JObject fs \<longrightarrow> (\<exists>s. fs = [(''summary'', s), (''_truncated'', JBool True)]))"

lemma summary_field_flat:
  assumes "\<forall>k. k \<notin> X \<longrightarrow> flat_value (get_prop m k)"
  shows "\<forall>k. k \<notin> X \<longrightarrow> flat_value (get_prop (fst (summary_field (m, b) kv)) k)"
proof -
  obtain k v where kv: "kv = (k, v)" by (cases kv)
  show ?thesis
  proof (cases "starts_with k ''__'' \<or> k = ''summary''")
    case True
    with assms show ?thesis by (auto simp: summary_field_def kv)
  next
    case False
    with assms show ?thesis by (cases v) (auto simp: summary_field_def kv flat_value_def)
  qed
qed

lemma foldl_summary_flat:
  "\<forall>k. k \<notin> X \<longrightarrow> flat_value (get_prop (fst acc) k) \<Longrightarrow>
   \<forall>k. k \<notin> X \<longrightarrow> flat_value (get_prop (fst (foldl summary_field acc obj)) k)"
proof (induction obj arbitrary: acc)
  case (Cons kv obj)
  have "\<forall>k. k \<notin> X \<longrightarrow> flat_value (get_prop (fst (summary_field acc kv)) k)"
    using summary_field_flat [of X "fst acc" "snd acc" kv] Cons.prems by simp
  from Cons.IH [OF this] show ?case by simp
qed simp

lemma summary_tail_flat:
  assumes "flat_value (get_prop s k)" and "k \<noteq> ''storageRef''" and "k \<noteq> ''originalSize''"
  shows "flat_value (get_prop
      (let s' = (if spilled then
           AList.update ''originalSize'' a (AList.update ''storageRef'' b (AList.update ''__spilled__'' (JBool True) s))
         else s)
       in if truncated \<or> spilled then AList.update ''_truncated'' (JBool True) s' else s') k)"
proof -
  have true: "flat_value (JBool True)" by (simp add: flat_value_def)
  show ?thesis
  proof (cases "k = ''_truncated''")
    case True
    with assms true show ?thesis by (simp add: Let_def get_prop_def update_conv)
  next
    case False
    show ?thesis
    proof (cases "k = ''__spilled__''")
      case True
      with assms true show ?thesis by (simp add: Let_def get_prop_def update_conv)
    next
      case False
      with assms \<open>k \<noteq> ''_truncated''\<close> show ?thesis by (simp add: Let_def get_prop_def update_conv)
    qed
  qed
qed

text \<open>
  A summary holds no list and no nested object of the output: apart from the \<open>summary\<close> of the
  output itself and the two fields that locate a spilled output, every field is a primitive value
  or an object with a nested summary and the mark that it was cut.
\<close>

theorem summaries_are_flat:
  assumes "k \<notin> {''summary'', ''storageRef'', ''originalSize''}"
  shows "flat_value (get_prop (create_lightweight_summary (JObject obj)) k)"
proof -
  let ?start = "if truthy (get_prop obj ''summary'') then [(''summary'', get_prop obj ''summary'')] else []"
  have "\<forall>k. k \<notin> {''summary''} \<longrightarrow> flat_value (get_prop (fst (?start, False)) k)"
    by (simp add: get_prop_def flat_value_def)
  from foldl_summary_flat [OF this, of obj] assms
  have "flat_value (get_prop (fst (foldl summary_field (?start, False) obj)) k)" by simp
  then show ?thesis
    using assms summary_tail_flat
    unfolding create_lightweight_summary_def json.case Let_def [of ?start] case_prod_beta by (simp add: Let_def)
qed

lemma summaries_are_flat_witness:
  "flat_value (get_prop (create_lightweight_summary
     (JObject [(''a'', JObject [(''summary'', JArray [JNull])]), (''b'', JArray [])])) ''a'')"
  by (rule summaries_are_flat) simp

end
