(* ===== verification/Outbox.thy ===== *)
theory Outbox
  imports Json "HOL-Library.List_Lexorder" "HOL-Library.Char_ord"
begin

section \<open>The outbox\<close>

text \<open>
  \<open>backend/src/outbox\<close>: events are stored in the table \<open>outbox_events\<close> and handed to their
  listeners by dispatchers that claim them under a lease.  Events of one aggregate are handed out
  in the order of \<open>(created_at, id)\<close>.

  A table is the list of its rows.  Every operation is one statement or transaction of the
  database, so one atomic step; an operation that the database rejects leaves the table as it is.
  Ids are UUIDs in lower case: their order as strings is their order in the database.  Times of the
  database are in microseconds; a \<open>Date\<close> of JavaScript is a whole number of milliseconds, and
  \<open>js_date\<close> is what a time of the database becomes when it is read as one.
\<close>

type_synonym time = int

definition js_date :: "time \<Rightarrow> time" where
  "js_date t = t div 1000 * 1000"

datatype outbox_status = OePending | OeProcessing | OeCompleted | OeDead

record outbox_event =
  oe_id :: string
  oe_event_type :: string
  oe_organization :: "string option"
  oe_aggregate_type :: string
  oe_aggregate_id :: string
  oe_dedupe_key :: string
  oe_payload :: json_record
  oe_status :: outbox_status
  oe_attempts :: nat
  oe_max_attempts :: nat
  oe_available_at :: time
  oe_locked_at :: "time option"
  oe_locked_by :: "string option"
  oe_last_error :: "string option"
  oe_processed_at :: "time option"
  oe_created_at :: time
  oe_updated_at :: time

type_synonym outbox = "outbox_event list"

subsection \<open>The order of events\<close>

datatype event_key = Event_Key (key_time: time) (key_id: string)

instantiation event_key :: linorder
begin

definition less_event_key :: "event_key \<Rightarrow> event_key \<Rightarrow> bool" where
  "less_event_key a b \<longleftrightarrow> key_time a < key_time b \<or> (key_time a = key_time b \<and> key_id a < key_id b)"

definition less_eq_event_key :: "event_key \<Rightarrow> event_key \<Rightarrow> bool" where
  "less_eq_event_key a b \<longleftrightarrow> key_time a < key_time b \<or> (key_time a = key_time b \<and> key_id a \<le> key_id b)"

instance
  by standard (auto simp: less_event_key_def less_eq_event_key_def event_key.expand)

end

definition event_key :: "outbox_event \<Rightarrow> event_key" where
  "event_key e = Event_Key (oe_created_at e) (oe_id e)"

type_synonym aggregate = "string option \<times> string \<times> string"

definition aggregate_of :: "outbox_event \<Rightarrow> aggregate" where
  "aggregate_of e = (oe_organization e, oe_aggregate_type e, oe_aggregate_id e)"

subsection \<open>Inserting\<close>

text \<open>\<open>onConflictDoNothing\<close> on the key against duplicates; a duplicate id is an error of the database.\<close>

definition has_dedupe_key :: "outbox \<Rightarrow> string \<Rightarrow> bool" where
  "has_dedupe_key t k \<longleftrightarrow> k \<in> oe_dedupe_key ` set t"

definition insert_event :: "outbox_event \<Rightarrow> outbox \<Rightarrow> bool \<times> outbox" where
  "insert_event e t =
     (if has_dedupe_key t (oe_dedupe_key e) \<or> oe_id e \<in> oe_id ` set t then (False, t) else (True, t @ [e]))"

record enqueue_input =
  en_event_type :: string
  en_organization :: "string option"
  en_aggregate_type :: string
  en_aggregate_id :: string
  en_dedupe_key :: string
  en_payload :: json_record
  en_max_attempts :: "nat option"
  en_available_at :: "time option"

definition enqueued_event :: "time \<Rightarrow> time \<Rightarrow> string \<Rightarrow> enqueue_input \<Rightarrow> outbox_event" where
  "enqueued_event js_now db_now i input =
     \<lparr>oe_id = i, oe_event_type = en_event_type input, oe_organization = en_organization input,
      oe_aggregate_type = en_aggregate_type input, oe_aggregate_id = en_aggregate_id input,
      oe_dedupe_key = en_dedupe_key input, oe_payload = en_payload input,
      oe_status = OePending, oe_attempts = 0,
      oe_max_attempts = (case en_max_attempts input of None \<Rightarrow> 8 | Some n \<Rightarrow> n),
      oe_available_at = (case en_available_at input of None \<Rightarrow> js_now | Some a \<Rightarrow> a),
      oe_locked_at = None, oe_locked_by = None, oe_last_error = None, oe_processed_at = None,
      oe_created_at = db_now, oe_updated_at = db_now\<rparr>"

definition enqueue_outbox_event :: "time \<Rightarrow> time \<Rightarrow> string \<Rightarrow> enqueue_input \<Rightarrow> outbox \<Rightarrow> outbox" where
  "enqueue_outbox_event js_now db_now i input t = snd (insert_event (enqueued_event js_now db_now i input) t)"

subsection \<open>Claiming\<close>

definition OUTBOX_LEASE :: time where
  "OUTBOX_LEASE = 5 * 60 * 1000 * 1000"

definition MAX_BATCH_SIZE :: int where
  "MAX_BATCH_SIZE = 200"

definition bounded :: "int \<Rightarrow> int \<Rightarrow> nat" where
  "bounded limit most = nat (max 1 (min limit most))"

definition lease_ended :: "time \<Rightarrow> outbox_event \<Rightarrow> bool" where
  "lease_ended expired_before e \<longleftrightarrow>
     oe_status e = OeProcessing \<and> (case oe_locked_at e of None \<Rightarrow> False | Some l \<Rightarrow> l \<le> expired_before)"

definition precedes :: "outbox_event \<Rightarrow> outbox_event \<Rightarrow> bool" where
  "precedes p e \<longleftrightarrow> aggregate_of p = aggregate_of e \<and> event_key p < event_key e"

definition unfinished :: "outbox_event \<Rightarrow> bool" where
  "unfinished e \<longleftrightarrow> oe_status e \<in> {OePending, OeProcessing, OeDead}"

definition claimable :: "time \<Rightarrow> time \<Rightarrow> outbox \<Rightarrow> outbox_event \<Rightarrow> bool" where
  "claimable db_now expired_before t e \<longleftrightarrow>
     ((oe_status e = OePending \<and> oe_available_at e \<le> db_now) \<or> lease_ended expired_before e)
     \<and> \<not> list_ex (\<lambda>p. precedes p e \<and> unfinished p) t"

record claimed =
  cl_id :: string
  cl_event_type :: string
  cl_organization :: "string option"
  cl_aggregate_type :: string
  cl_aggregate_id :: string
  cl_dedupe_key :: string
  cl_payload :: json_record
  cl_attempts :: nat
  cl_max_attempts :: nat

definition claimed_of :: "outbox_event \<Rightarrow> claimed" where
  "claimed_of e =
     \<lparr>cl_id = oe_id e, cl_event_type = oe_event_type e, cl_organization = oe_organization e,
      cl_aggregate_type = oe_aggregate_type e, cl_aggregate_id = oe_aggregate_id e,
      cl_dedupe_key = oe_dedupe_key e, cl_payload = oe_payload e, cl_attempts = oe_attempts e,
      cl_max_attempts = oe_max_attempts e\<rparr>"

definition update_where :: "(outbox_event \<Rightarrow> bool) \<Rightarrow> (outbox_event \<Rightarrow> outbox_event) \<Rightarrow> outbox \<Rightarrow> outbox" where
  "update_where P f t = map (\<lambda>e. if P e then f e else e) t"

definition lock_event :: "time \<Rightarrow> string \<Rightarrow> outbox_event \<Rightarrow> outbox_event" where
  "lock_event db_now worker e =
     e\<lparr>oe_status := OeProcessing, oe_attempts := oe_attempts e + 1, oe_locked_at := Some db_now,
       oe_locked_by := Some worker, oe_updated_at := db_now\<rparr>"

text \<open>\<open>locked\<close>: the rows other transactions hold at the moment, which \<open>SKIP LOCKED\<close> passes over.\<close>

definition claim_ids :: "time \<Rightarrow> time \<Rightarrow> (outbox_event \<Rightarrow> bool) \<Rightarrow> int \<Rightarrow> outbox \<Rightarrow> string list" where
  "claim_ids js_now db_now locked limit t =
     map oe_id
       (take (bounded limit MAX_BATCH_SIZE)
         (sort_key event_key (filter (\<lambda>e. claimable db_now (js_now - OUTBOX_LEASE) t e \<and> \<not> locked e) t)))"

definition claim_batch ::
  "time \<Rightarrow> time \<Rightarrow> (outbox_event \<Rightarrow> bool) \<Rightarrow> string \<Rightarrow> int \<Rightarrow> outbox \<Rightarrow> claimed list \<times> outbox" where
  "claim_batch js_now db_now locked worker limit t =
     (let ids = claim_ids js_now db_now locked limit t;
          t' = update_where (\<lambda>e. oe_id e \<in> set ids) (lock_event db_now worker) t
      in (map claimed_of (filter (\<lambda>e. oe_id e \<in> set ids) t'), t'))"

subsection \<open>Holding and ending a lease\<close>

definition owned_by :: "string \<Rightarrow> string \<Rightarrow> outbox_event \<Rightarrow> bool" where
  "owned_by i worker e \<longleftrightarrow> oe_id e = i \<and> oe_status e = OeProcessing \<and> oe_locked_by e = Some worker"

definition renew_lease :: "time \<Rightarrow> string \<Rightarrow> string \<Rightarrow> outbox \<Rightarrow> bool \<times> outbox" where
  "renew_lease js_now i worker t =
     (list_ex (owned_by i worker) t,
      update_where (owned_by i worker) (\<lambda>e. e\<lparr>oe_locked_at := Some js_now, oe_updated_at := js_now\<rparr>) t)"

definition mark_completed :: "time \<Rightarrow> string \<Rightarrow> string \<Rightarrow> outbox \<Rightarrow> outbox" where
  "mark_completed js_now i worker t =
     update_where (owned_by i worker)
       (\<lambda>e. e\<lparr>oe_status := OeCompleted, oe_processed_at := Some js_now, oe_locked_at := None,
               oe_locked_by := None, oe_last_error := None, oe_updated_at := js_now\<rparr>) t"

record reschedule_input =
  rs_dead :: bool
  rs_delay_ms :: nat
  rs_error :: string

definition reschedule :: "time \<Rightarrow> string \<Rightarrow> string \<Rightarrow> reschedule_input \<Rightarrow> outbox \<Rightarrow> outbox" where
  "reschedule js_now i worker input t =
     update_where (owned_by i worker)
       (\<lambda>e. e\<lparr>oe_status := (if rs_dead input then OeDead else OePending),
               oe_available_at := js_now + int (rs_delay_ms input) * 1000, oe_locked_at := None,
               oe_locked_by := None, oe_last_error := Some (rs_error input), oe_updated_at := js_now\<rparr>) t"

subsection \<open>Dead letters\<close>

definition revive :: "time \<Rightarrow> outbox_event \<Rightarrow> outbox_event" where
  "revive now e =
     e\<lparr>oe_status := OePending, oe_attempts := 0, oe_available_at := now, oe_locked_at := None,
       oe_locked_by := None, oe_last_error := None, oe_processed_at := None, oe_updated_at := now\<rparr>"

text \<open>The hook runs in the same transaction: when it throws, nothing is changed.\<close>

definition requeue_dead_letter ::
  "time \<Rightarrow> string \<Rightarrow> string \<Rightarrow> (outbox_event \<Rightarrow> string option) option \<Rightarrow> outbox
   \<Rightarrow> (string + outbox_event option) \<times> outbox" where
  "requeue_dead_letter js_now i org hook t =
     (let hit = (\<lambda>e. oe_id e = i \<and> oe_organization e = Some org \<and> oe_status e = OeDead)
      in case find hit t of
           None \<Rightarrow> (Inr None, t)
         | Some e \<Rightarrow>
             (case (case hook of None \<Rightarrow> None | Some h \<Rightarrow> h (revive js_now e)) of
                Some err \<Rightarrow> (Inl err, t)
              | None \<Rightarrow> (Inr (Some (revive js_now e)), update_where hit (revive js_now) t)))"

record ensure_input =
  es_organization :: string
  es_event_type :: string
  es_aggregate_type :: string
  es_aggregate_id :: string

definition oldest_dead :: "ensure_input \<Rightarrow> outbox \<Rightarrow> outbox_event option" where
  "oldest_dead input t =
     (case sort_key event_key
             (filter (\<lambda>e. aggregate_of e = (Some (es_organization input), es_aggregate_type input, es_aggregate_id input)
                          \<and> oe_status e = OeDead) t) of
        [] \<Rightarrow> None | e # _ \<Rightarrow> Some e)"

definition ensure_aggregate_event_scheduled :: "time \<Rightarrow> ensure_input \<Rightarrow> outbox \<Rightarrow> bool \<times> outbox" where
  "ensure_aggregate_event_scheduled db_now input t =
     (case oldest_dead input t of
        None \<Rightarrow> (False, t)
      | Some d \<Rightarrow>
          (oe_event_type d = es_event_type input, update_where (\<lambda>e. oe_id e = oe_id d) (revive db_now) t))"

definition has_outstanding_event :: "string \<Rightarrow> string \<Rightarrow> outbox \<Rightarrow> bool" where
  "has_outstanding_event org type t \<longleftrightarrow>
     list_ex (\<lambda>e. oe_organization e = Some org \<and> oe_event_type e = type \<and> unfinished e) t"

type_synonym cursor = "time \<times> string"

definition before_cursor :: "cursor option \<Rightarrow> outbox_event \<Rightarrow> bool" where
  "before_cursor c e \<longleftrightarrow>
     (case c of
        None \<Rightarrow> True
      | Some (created, i) \<Rightarrow> oe_created_at e < created \<or> (oe_created_at e = created \<and> oe_id e < i))"

definition list_dead_letters :: "string \<Rightarrow> int \<Rightarrow> cursor option \<Rightarrow> outbox \<Rightarrow> outbox \<times> cursor option" where
  "list_dead_letters org limit c t =
     (let page = bounded limit 100;
          rows = take (page + 1)
            (rev (sort_key event_key
              (filter (\<lambda>e. oe_organization e = Some org \<and> oe_status e = OeDead \<and> before_cursor c e) t)));
          items = take page rows
      in (items, if length rows > page \<and> items \<noteq> [] then Some (js_date (oe_created_at (last items)), oe_id (last items))
                 else None))"

subsection \<open>Receipts of messages\<close>

definition KAFKA_INGEST_RECEIPT_EVENT_TYPE :: string where
  "KAFKA_INGEST_RECEIPT_EVENT_TYPE = ''telemetry.kafka.ingested.v1''"

definition KAFKA_POISON_EVENT_TYPE :: string where
  "KAFKA_POISON_EVENT_TYPE = ''telemetry.kafka.poison.v1''"

definition DURABLE_KAFKA_PUBLISH_EVENT :: string where
  "DURABLE_KAFKA_PUBLISH_EVENT = ''telemetry.kafka.publish.v1''"

record kafka_identity =
  ki_topic :: string
  ki_partition :: nat
  ki_offset :: string

definition kafka_aggregate_id :: "kafka_identity \<Rightarrow> string" where
  "kafka_aggregate_id k = ki_topic k @ '':'' @ show_nat (ki_partition k) @ '':'' @ ki_offset k"

definition kafka_receipt_dedupe_key :: "kafka_identity \<Rightarrow> string" where
  "kafka_receipt_dedupe_key k = ''telemetry.kafka.ingested:'' @ kafka_aggregate_id k"

definition event_receipt_dedupe_key :: "string \<Rightarrow> string" where
  "event_receipt_dedupe_key i = ''telemetry.event.ingested:'' @ i"

definition identity_payload :: "kafka_identity \<Rightarrow> json_record" where
  "identity_payload k =
     [(''topic'', JString (ki_topic k)), (''partition'', JNumber (Finite (of_nat (ki_partition k)))),
      (''offset'', JString (ki_offset k))]"

record receipt_input =
  ri_identity :: kafka_identity
  ri_organization :: "string option"
  ri_aggregate_type :: string
  ri_aggregate_id :: string
  ri_dedupe_key :: string
  ri_extra :: json_record

definition receipt_event :: "time \<Rightarrow> string \<Rightarrow> receipt_input \<Rightarrow> outbox_event" where
  "receipt_event js_now i r =
     \<lparr>oe_id = i, oe_event_type = KAFKA_INGEST_RECEIPT_EVENT_TYPE, oe_organization = ri_organization r,
      oe_aggregate_type = ri_aggregate_type r, oe_aggregate_id = ri_aggregate_id r,
      oe_dedupe_key = ri_dedupe_key r,
      oe_payload = foldl (\<lambda>m (k, v). AList.update k v m) (ri_extra r) (identity_payload (ri_identity r)),
      oe_status = OeCompleted, oe_attempts = 0, oe_max_attempts = 1, oe_available_at = js_now,
      oe_locked_at = None, oe_locked_by = None, oe_last_error = None, oe_processed_at = Some js_now,
      oe_created_at = js_now, oe_updated_at = js_now\<rparr>"

text \<open>
  The projection runs in the transaction of the receipt, on the rest of the database (\<open>'w\<close>); when
  it throws, the receipt is rolled back with it.
\<close>

definition run_kafka_receipt_once ::
  "time \<Rightarrow> string \<Rightarrow> receipt_input \<Rightarrow> ('w \<Rightarrow> string + 'w) \<Rightarrow> outbox \<times> 'w \<Rightarrow> (string + bool) \<times> outbox \<times> 'w" where
  "run_kafka_receipt_once js_now i r project tw =
     (case tw of
        (t, w) \<Rightarrow>
          (case insert_event (receipt_event js_now i r) t of
             (False, _) \<Rightarrow> (Inr False, t, w)
           | (True, t') \<Rightarrow>
               (case project w of
                  Inl err \<Rightarrow> (Inl err, t, w)
                | Inr w' \<Rightarrow> (Inr True, t', w'))))"

definition message_receipt :: "kafka_identity \<Rightarrow> string option \<Rightarrow> receipt_input" where
  "message_receipt k org =
     \<lparr>ri_identity = k, ri_organization = org, ri_aggregate_type = ''kafka_message'',
      ri_aggregate_id = kafka_aggregate_id k, ri_dedupe_key = kafka_receipt_dedupe_key k, ri_extra = []\<rparr>"

definition run_kafka_message_once ::
  "time \<Rightarrow> string \<Rightarrow> kafka_identity \<Rightarrow> string option \<Rightarrow> ('w \<Rightarrow> string + 'w) \<Rightarrow> outbox \<times> 'w
   \<Rightarrow> (string + bool) \<times> outbox \<times> 'w" where
  "run_kafka_message_once js_now i k org = run_kafka_receipt_once js_now i (message_receipt k org)"

definition event_receipt :: "kafka_identity \<Rightarrow> string \<Rightarrow> string option \<Rightarrow> receipt_input" where
  "event_receipt k event org =
     \<lparr>ri_identity = k, ri_organization = org, ri_aggregate_type = ''telemetry_event'',
      ri_aggregate_id = event, ri_dedupe_key = event_receipt_dedupe_key event,
      ri_extra = [(''eventId'', JString event)]\<rparr>"

definition run_kafka_event_once ::
  "time \<Rightarrow> string \<Rightarrow> kafka_identity \<Rightarrow> string \<Rightarrow> string option \<Rightarrow> ('w \<Rightarrow> string + 'w) \<Rightarrow> outbox \<times> 'w
   \<Rightarrow> (string + bool) \<times> outbox \<times> 'w" where
  "run_kafka_event_once js_now i k event org = run_kafka_receipt_once js_now i (event_receipt k event org)"

definition has_kafka_message_receipt :: "kafka_identity \<Rightarrow> outbox \<Rightarrow> bool" where
  "has_kafka_message_receipt k t \<longleftrightarrow> has_dedupe_key t (kafka_receipt_dedupe_key k)"

definition has_kafka_event_receipt :: "string \<Rightarrow> outbox \<Rightarrow> bool" where
  "has_kafka_event_receipt i t \<longleftrightarrow> has_dedupe_key t (event_receipt_dedupe_key i)"

text \<open>\<open>digest\<close>: the length and the SHA-256 of the raw message.\<close>

definition MAX_ERROR_LENGTH :: nat where
  "MAX_ERROR_LENGTH = 4000"

definition poison_event :: "time \<Rightarrow> string \<Rightarrow> kafka_identity \<Rightarrow> nat \<times> string \<Rightarrow> string \<Rightarrow> string option \<Rightarrow> outbox_event" where
  "poison_event js_now i k digest error org =
     \<lparr>oe_id = i, oe_event_type = KAFKA_POISON_EVENT_TYPE, oe_organization = org,
      oe_aggregate_type = ''kafka_message'', oe_aggregate_id = kafka_aggregate_id k,
      oe_dedupe_key = ''telemetry.kafka.poison:'' @ kafka_aggregate_id k,
      oe_payload = identity_payload k @
        [(''byteLength'', JNumber (Finite (of_nat (fst digest)))), (''sha256'', JString (snd digest))],
      oe_status = OeDead, oe_attempts = 0, oe_max_attempts = 1, oe_available_at = js_now,
      oe_locked_at = None, oe_locked_by = None, oe_last_error = Some (take MAX_ERROR_LENGTH error),
      oe_processed_at = None, oe_created_at = js_now, oe_updated_at = js_now\<rparr>"

definition record_kafka_poison_message ::
  "time \<Rightarrow> string \<Rightarrow> kafka_identity \<Rightarrow> nat \<times> string \<Rightarrow> string \<Rightarrow> string option \<Rightarrow> outbox \<Rightarrow> outbox" where
  "record_kafka_poison_message js_now i k digest error org t =
     snd (insert_event (poison_event js_now i k digest error org) t)"

subsection \<open>Cleaning up\<close>

definition MAX_RECEIPT_CLEANUP_BATCH_SIZE :: int where
  "MAX_RECEIPT_CLEANUP_BATCH_SIZE = 10000"

definition expired :: "string \<Rightarrow> time \<Rightarrow> outbox_event \<Rightarrow> bool" where
  "expired type cutoff e \<longleftrightarrow> oe_event_type e = type \<and> oe_status e = OeCompleted \<and> oe_created_at e < cutoff"

definition purge_completed :: "string \<Rightarrow> time \<Rightarrow> int \<Rightarrow> outbox \<Rightarrow> nat \<times> outbox" where
  "purge_completed type cutoff limit t =
     (let ids = map oe_id (take (bounded limit MAX_RECEIPT_CLEANUP_BATCH_SIZE)
                              (sort_key event_key (filter (expired type cutoff) t)))
      in (length ids, filter (\<lambda>e. oe_id e \<notin> set ids) t))"

definition purge_kafka_receipts_before :: "time \<Rightarrow> int \<Rightarrow> outbox \<Rightarrow> nat \<times> outbox" where
  "purge_kafka_receipts_before = purge_completed KAFKA_INGEST_RECEIPT_EVENT_TYPE"

definition purge_completed_telemetry_publications_before :: "time \<Rightarrow> int \<Rightarrow> outbox \<Rightarrow> nat \<times> outbox" where
  "purge_completed_telemetry_publications_before = purge_completed DURABLE_KAFKA_PUBLISH_EVENT"

definition CLEANUP_BATCH_SIZE :: nat where
  "CLEANUP_BATCH_SIZE = 10000"

definition MAX_BATCHES_PER_CLEANUP :: nat where
  "MAX_BATCHES_PER_CLEANUP = 20"

text \<open>The loop over batches: \<open>n\<close> batches are left.\<close>

fun drain_batches :: "(outbox \<Rightarrow> nat \<times> outbox) \<Rightarrow> nat \<Rightarrow> outbox \<Rightarrow> nat \<times> outbox" where
  "drain_batches purge 0 t = (0, t)"
| "drain_batches purge (Suc n) t =
     (case purge t of
        (removed, t') \<Rightarrow>
          if removed < CLEANUP_BATCH_SIZE then (removed, t')
          else (case drain_batches purge n t' of (rest, t'') \<Rightarrow> (removed + rest, t'')))"

text \<open>The constructor of the cleanup service: the two settings, read as numbers.\<close>

definition retention_days :: "js_num option \<Rightarrow> js_num option \<Rightarrow> string + int" where
  "retention_days configured replay =
     (let whole = (\<lambda>n. case n of Finite r \<Rightarrow> if r = of_int \<lfloor>r\<rfloor> then Some \<lfloor>r\<rfloor> else None | _ \<Rightarrow> None);
          c = whole (case configured of None \<Rightarrow> Finite 30 | Some n \<Rightarrow> n);
          p = whole (case replay of None \<Rightarrow> Finite 7 | Some n \<Rightarrow> n)
      in case c of
           None \<Rightarrow> Inl ''TELEMETRY_KAFKA_RECEIPT_RETENTION_DAYS must be at least 8 days''
         | Some days \<Rightarrow>
             if days < 8 then Inl ''TELEMETRY_KAFKA_RECEIPT_RETENTION_DAYS must be at least 8 days''
             else (case p of
                     None \<Rightarrow> Inl ''TELEMETRY_KAFKA_RECEIPT_RETENTION_DAYS must exceed TELEMETRY_KAFKA_REPLAY_RETENTION_DAYS''
                   | Some r \<Rightarrow>
                       if r < 1 \<or> days \<le> r
                       then Inl ''TELEMETRY_KAFKA_RECEIPT_RETENTION_DAYS must exceed TELEMETRY_KAFKA_REPLAY_RETENTION_DAYS''
                       else Inr days))"

definition cleanup_once :: "int \<Rightarrow> time \<Rightarrow> outbox \<Rightarrow> nat \<times> outbox" where
  "cleanup_once days now t =
     (let cutoff = now - days * 24 * 60 * 60 * 1000 * 1000;
          (receipts, t1) =
            drain_batches (purge_kafka_receipts_before cutoff (int CLEANUP_BATCH_SIZE)) MAX_BATCHES_PER_CLEANUP t;
          (publications, t2) =
            drain_batches (purge_completed_telemetry_publications_before cutoff (int CLEANUP_BATCH_SIZE))
              MAX_BATCHES_PER_CLEANUP t1
      in (receipts + publications, t2))"

subsection \<open>Dispatching\<close>

text \<open>
  What happens while an event is dispatched: the listeners throw or return (so many results), the
  heartbeats renew the lease, lose it or throw, and the final update may throw.
\<close>

datatype listeners = ListenersThrew string | ListenersReturned nat

datatype heartbeat = Renewed bool | RenewThrew string

record dispatch_run =
  dr_listeners :: listeners
  dr_heartbeats :: "heartbeat list"
  dr_complete_error :: "string option"

definition error_message :: "string \<Rightarrow> string" where
  "error_message m = take MAX_ERROR_LENGTH m"

text \<open>The first heartbeat that fails decides; later ones do nothing.\<close>

fun heartbeat_failure :: "string \<Rightarrow> heartbeat list \<Rightarrow> string option" where
  "heartbeat_failure i [] = None"
| "heartbeat_failure i (Renewed True # hs) = heartbeat_failure i hs"
| "heartbeat_failure i (Renewed False # hs) = Some (''Outbox lease ownership lost for event '' @ i)"
| "heartbeat_failure i (RenewThrew m # hs) =
     Some (''Outbox lease renewal failed for event '' @ i @ '': '' @ error_message m)"

definition retry_delay_ms :: "nat \<Rightarrow> nat" where
  "retry_delay_ms attempt = min (1000 * 2 ^ (attempt - 1)) (15 * 60 * 1000)"

datatype dispatch_end = Complete | Fail reschedule_input

definition dispatch_error :: "claimed \<Rightarrow> dispatch_run \<Rightarrow> string option" where
  "dispatch_error c run =
     (case dr_listeners run of
        ListenersThrew m \<Rightarrow> Some m
      | ListenersReturned n \<Rightarrow>
          if n = 0 then Some (''No listener registered for outbox event type '' @ cl_event_type c)
          else case heartbeat_failure (cl_id c) (dr_heartbeats run) of
                 Some m \<Rightarrow> Some m
               | None \<Rightarrow> dr_complete_error run)"

definition dispatch_end :: "claimed \<Rightarrow> dispatch_run \<Rightarrow> dispatch_end" where
  "dispatch_end c run =
     (case dispatch_error c run of
        None \<Rightarrow> Complete
      | Some error \<Rightarrow>
          let dead = cl_attempts c \<ge> cl_max_attempts c;
              message = error_message (case heartbeat_failure (cl_id c) (dr_heartbeats run) of
                                         Some m \<Rightarrow> m | None \<Rightarrow> error)
          in Fail \<lparr>rs_dead = dead, rs_delay_ms = (if dead then 0 else retry_delay_ms (cl_attempts c)),
                   rs_error = message\<rparr>)"

definition dispatch :: "time \<Rightarrow> string \<Rightarrow> dispatch_run \<Rightarrow> claimed \<Rightarrow> outbox \<Rightarrow> outbox" where
  "dispatch js_now worker run c t =
     (case dispatch_end c run of
        Complete \<Rightarrow> mark_completed js_now (cl_id c) worker t
      | Fail input \<Rightarrow> reschedule js_now (cl_id c) worker input t)"

record dispatcher =
  dp_worker :: string
  dp_draining :: bool

text \<open>
  \<open>drainOnce\<close>: a claim and, unless the dispatcher is draining already, the dispatches of what was
  claimed, in the order in which they end; \<open>ends\<close> says when and how each does.
\<close>

definition drain_once ::
  "time \<Rightarrow> time \<Rightarrow> (outbox_event \<Rightarrow> bool) \<Rightarrow> int \<Rightarrow> (claimed \<Rightarrow> time \<times> dispatch_run) \<Rightarrow> dispatcher \<Rightarrow> outbox \<Rightarrow> outbox" where
  "drain_once js_now db_now locked limit ends d t =
     (if dp_draining d then t
      else (case claim_batch js_now db_now locked (dp_worker d) limit t of
              (cs, t') \<Rightarrow>
                foldl (\<lambda>t c. dispatch (fst (ends c)) (dp_worker d) (snd (ends c)) c t) t'
                  (sort_key (\<lambda>c. fst (ends c)) cs)))"

end
