(* ===== verification/Outbox_Order.thy ===== *)
theory Outbox_Order
  imports Outbox
begin

section \<open>What the outbox guarantees\<close>

text \<open>
  The operations of the outbox as steps on the table, in any order and by any number of
  dispatchers.  An operation that inserts is given a fresh id; the new event is created later than
  the events of its aggregate that are there.  A dispatch may end at any time, with any outcome,
  and of any claim, old or made up: what it may change is up to the lease alone.
\<close>

datatype outbox_op =
    OpEnqueue time time string enqueue_input
  | OpClaim time time "outbox_event \<Rightarrow> bool" string int
  | OpRenew time string string
  | OpDispatch time string dispatch_run claimed
  | OpRequeue time string string "(outbox_event \<Rightarrow> string option) option"
  | OpEnsure time ensure_input
  | OpReceipt time string receipt_input "string option"
  | OpPoison time string kafka_identity "nat \<times> string" string "string option"
  | OpPurge string time int

fun outbox_apply :: "outbox_op \<Rightarrow> outbox \<Rightarrow> outbox" where
  "outbox_apply (OpEnqueue js_now db_now i input) t = enqueue_outbox_event js_now db_now i input t"
| "outbox_apply (OpClaim js_now db_now locked worker limit) t = snd (claim_batch js_now db_now locked worker limit t)"
| "outbox_apply (OpRenew js_now i worker) t = snd (renew_lease js_now i worker t)"
| "outbox_apply (OpDispatch js_now worker run c) t = dispatch js_now worker run c t"
| "outbox_apply (OpRequeue js_now i org hook) t = snd (requeue_dead_letter js_now i org hook t)"
| "outbox_apply (OpEnsure db_now input) t = snd (ensure_aggregate_event_scheduled db_now input t)"
| "outbox_apply (OpReceipt js_now i r failure) t =
     fst (snd (run_kafka_receipt_once js_now i r (\<lambda>u. case failure of None \<Rightarrow> Inr u | Some err \<Rightarrow> Inl err) (t, ())))"
| "outbox_apply (OpPoison js_now i k digest error org) t = record_kafka_poison_message js_now i k digest error org t"
| "outbox_apply (OpPurge type cutoff limit) t = snd (purge_completed type cutoff limit t)"

fun inserted_event :: "outbox_op \<Rightarrow> outbox_event option" where
  "inserted_event (OpEnqueue js_now db_now i input) = Some (enqueued_event js_now db_now i input)"
| "inserted_event (OpReceipt js_now i r failure) = (if failure = None then Some (receipt_event js_now i r) else None)"
| "inserted_event (OpPoison js_now i k digest error org) = Some (poison_event js_now i k digest error org)"
| "inserted_event _ = None"

definition created_last :: "outbox_event \<Rightarrow> outbox \<Rightarrow> bool" where
  "created_last e t \<longleftrightarrow> (\<forall>p \<in> set t. aggregate_of p = aggregate_of e \<longrightarrow> event_key p < event_key e)"

inductive outbox_step :: "outbox \<Rightarrow> outbox_op \<Rightarrow> outbox \<Rightarrow> bool" where
  step: "(\<And>e. inserted_event op = Some e \<Longrightarrow> created_last e t) \<Longrightarrow> outbox_step t op (outbox_apply op t)"

inductive outbox_reachable :: "outbox \<Rightarrow> bool" where
  empty: "outbox_reachable []"
| step: "outbox_reachable t \<Longrightarrow> outbox_step t op t' \<Longrightarrow> outbox_reachable t'"

inductive_cases outbox_stepE: "outbox_step t op t'"

subsection \<open>The changes a step can make\<close>

definition same_event :: "outbox_event \<Rightarrow> outbox_event \<Rightarrow> bool" where
  "same_event e e' \<longleftrightarrow>
     oe_id e' = oe_id e \<and> aggregate_of e' = aggregate_of e \<and> oe_dedupe_key e' = oe_dedupe_key e
     \<and> oe_created_at e' = oe_created_at e \<and> oe_event_type e' = oe_event_type e \<and> oe_payload e' = oe_payload e
     \<and> oe_max_attempts e' = oe_max_attempts e"

inductive row_step :: "outbox \<Rightarrow> outbox_event \<Rightarrow> outbox_event \<Rightarrow> bool" for t where
  stay: "oe_status e' = oe_status e \<Longrightarrow> oe_attempts e' = oe_attempts e \<Longrightarrow> row_step t e e'"
| claim: "unfinished e \<Longrightarrow> \<forall>p \<in> set t. precedes p e \<longrightarrow> \<not> unfinished p \<Longrightarrow> oe_status e \<noteq> OeDead
    \<Longrightarrow> oe_status e' = OeProcessing \<Longrightarrow> oe_attempts e' = oe_attempts e + 1 \<Longrightarrow> row_step t e e'"
| finish: "oe_status e = OeProcessing \<Longrightarrow> oe_status e' = OeCompleted \<Longrightarrow> oe_attempts e' = oe_attempts e
    \<Longrightarrow> row_step t e e'"
| release: "oe_status e = OeProcessing \<Longrightarrow> oe_status e' \<in> {OePending, OeDead} \<Longrightarrow> oe_attempts e' = oe_attempts e
    \<Longrightarrow> row_step t e e'"
| revive: "oe_status e = OeDead \<Longrightarrow> oe_status e' = OePending \<Longrightarrow> oe_attempts e' = 0 \<Longrightarrow> row_step t e e'"

inductive outbox_change :: "outbox \<Rightarrow> outbox \<Rightarrow> bool" for t where
  rows: "(\<And>e. e \<in> set t \<Longrightarrow> same_event e (g e) \<and> row_step t e (g e)) \<Longrightarrow> outbox_change t (map g t)"
| insert: "oe_id e \<notin> oe_id ` set t \<Longrightarrow> oe_dedupe_key e \<notin> oe_dedupe_key ` set t \<Longrightarrow> created_last e t
    \<Longrightarrow> oe_attempts e = 0 \<Longrightarrow> oe_status e \<noteq> OeProcessing \<Longrightarrow> outbox_change t (t @ [e])"
| purge: "(\<And>e. e \<in> set t \<Longrightarrow> \<not> keep e \<Longrightarrow> oe_status e = OeCompleted) \<Longrightarrow> outbox_change t (filter keep t)"

lemma unfinished_iff: "unfinished e \<longleftrightarrow> oe_status e \<noteq> OeCompleted"
  by (cases "oe_status e") (simp_all add: unfinished_def)

lemma change_refl: "outbox_change t t"
proof -
  have "outbox_change t (map (\<lambda>e. e) t)" by (rule rows) (simp add: same_event_def stay)
  then show ?thesis by simp
qed

lemma change_update:
  assumes "\<And>e. e \<in> set t \<Longrightarrow> P e \<Longrightarrow> same_event e (f e) \<and> row_step t e (f e)"
  shows "outbox_change t (update_where P f t)"
  unfolding update_where_def
proof (rule rows)
  fix e assume "e \<in> set t"
  with assms show "same_event e (if P e then f e else e) \<and> row_step t e (if P e then f e else e)"
    by (simp add: same_event_def stay)
qed

lemma change_insert:
  assumes "created_last e t" and "oe_attempts e = 0" and "oe_status e \<noteq> OeProcessing"
  shows "outbox_change t (snd (insert_event e t))"
  using assms by (auto simp: insert_event_def has_dedupe_key_def intro: change_refl insert)

lemma claim_ids_claimable:
  assumes "i \<in> set (claim_ids js_now db_now locked limit t)"
  shows "\<exists>e \<in> set t. oe_id e = i \<and> claimable db_now (js_now - OUTBOX_LEASE) t e"
  using assms by (auto simp: claim_ids_def dest!: in_set_takeD)

lemma same_id: "distinct (map oe_id t) \<Longrightarrow> e \<in> set t \<Longrightarrow> f \<in> set t \<Longrightarrow> oe_id e = oe_id f \<Longrightarrow> e = f"
  by (auto simp: distinct_map inj_on_def)

lemma claimableD:
  assumes "claimable db_now before t e"
  shows "unfinished e" "oe_status e \<noteq> OeDead" "\<forall>p \<in> set t. precedes p e \<longrightarrow> \<not> unfinished p"
  using assms by (auto simp: claimable_def lease_ended_def unfinished_def list_ex_iff)

lemma claimed_row:
  assumes "distinct (map oe_id t)" and "e \<in> set t" and "oe_id e \<in> set (claim_ids js_now db_now locked limit t)"
  shows "claimable db_now (js_now - OUTBOX_LEASE) t e"
  using claim_ids_claimable [OF assms(3)] same_id [OF assms(1,2)] by metis

lemma change_claim:
  assumes "distinct (map oe_id t)"
  shows "outbox_change t (snd (claim_batch js_now db_now locked worker limit t))"
proof -
  have "row_step t e (lock_event db_now worker e)"
    if e: "e \<in> set t" "oe_id e \<in> set (claim_ids js_now db_now locked limit t)" for e
    using claimableD [OF claimed_row [OF assms e]] by (intro claim) (simp_all add: lock_event_def)
  then show ?thesis
    unfolding claim_batch_def Let_def snd_conv
    by (intro change_update) (simp add: same_event_def lock_event_def aggregate_of_def)
qed

lemma change_requeue: "outbox_change t (snd (requeue_dead_letter js_now i org hook t))"
  by (auto simp: requeue_dead_letter_def Let_def same_event_def revive_def aggregate_of_def
      split: option.splits intro!: change_refl change_update row_step.revive)

lemma oldest_dead_Some:
  assumes "oldest_dead input t = Some d"
  shows "d \<in> set t" "oe_status d = OeDead"
    "aggregate_of d = (Some (es_organization input), es_aggregate_type input, es_aggregate_id input)"
proof -
  let ?f = "\<lambda>e. aggregate_of e = (Some (es_organization input), es_aggregate_type input, es_aggregate_id input)
                \<and> oe_status e = OeDead"
  from assms obtain ds where "sort_key event_key (filter ?f t) = d # ds"
    by (auto simp: oldest_dead_def split: list.splits)
  then have "d \<in> set (sort_key event_key (filter ?f t))" by simp
  then show "d \<in> set t" "oe_status d = OeDead"
    "aggregate_of d = (Some (es_organization input), es_aggregate_type input, es_aggregate_id input)"
    by simp_all
qed

lemma change_ensure:
  assumes "distinct (map oe_id t)"
  shows "outbox_change t (snd (ensure_aggregate_event_scheduled db_now input t))"
proof (cases "oldest_dead input t")
  case None
  then show ?thesis by (simp add: ensure_aggregate_event_scheduled_def change_refl)
next
  case (Some d)
  have "same_event e (revive db_now e) \<and> row_step t e (revive db_now e)"
    if "e \<in> set t" "oe_id e = oe_id d" for e
    using that same_id [OF assms that(1) oldest_dead_Some(1) [OF Some]] oldest_dead_Some(2) [OF Some]
    by (simp add: same_event_def revive_def aggregate_of_def row_step.revive)
  with Some show ?thesis
    by (auto simp: ensure_aggregate_event_scheduled_def intro: change_update)
qed

lemma change_dispatch: "outbox_change t (dispatch js_now worker run c t)"
  by (auto simp: dispatch_def mark_completed_def reschedule_def owned_by_def same_event_def aggregate_of_def
      split: dispatch_end.splits intro!: change_update intro: finish release)

lemma purged_row:
  assumes "distinct (map oe_id t)" and "e \<in> set t"
    and "oe_id e \<in> set (map oe_id (take n (sort_key event_key (filter (expired type cutoff) t))))"
  shows "oe_status e = OeCompleted"
proof -
  from assms(3) obtain f where "f \<in> set t" "oe_id f = oe_id e" "expired type cutoff f"
    by (auto dest!: in_set_takeD)
  with same_id [OF assms(1,2)] show ?thesis by (metis expired_def)
qed

lemma apply_receipt:
  "outbox_apply (OpReceipt js_now i r failure) t =
     (if failure = None then snd (insert_event (receipt_event js_now i r) t) else t)"
  by (auto simp: run_kafka_receipt_once_def insert_event_def split: option.split)

lemma step_change:
  assumes "distinct (map oe_id t)" and "outbox_step t op t'"
  shows "outbox_change t t'"
proof -
  have t': "t' = outbox_apply op t" and last: "\<And>e. inserted_event op = Some e \<Longrightarrow> created_last e t"
    using assms(2) by (auto elim: outbox_stepE)
  show ?thesis
  proof (cases op)
    case (OpEnqueue js_now db_now i input)
    with last show ?thesis unfolding t'
      by (simp add: enqueue_outbox_event_def) (intro change_insert; simp add: enqueued_event_def)
  next
    case (OpClaim js_now db_now locked worker limit)
    then show ?thesis unfolding t' by (simp add: change_claim assms(1))
  next
    case (OpRenew js_now i worker)
    then show ?thesis unfolding t'
      by (auto simp: renew_lease_def same_event_def aggregate_of_def intro!: change_update stay)
  next
    case (OpDispatch js_now worker run c)
    then show ?thesis unfolding t' by (simp add: change_dispatch)
  next
    case (OpRequeue js_now i org hook)
    then show ?thesis unfolding t' by (simp add: change_requeue)
  next
    case (OpEnsure db_now input)
    then show ?thesis unfolding t' by (simp add: change_ensure assms(1))
  next
    case (OpReceipt js_now i r failure)
    have "outbox_change t (snd (insert_event (receipt_event js_now i r) t))" if "failure = None"
      by (rule change_insert) (use last OpReceipt that in \<open>simp_all add: receipt_event_def\<close>)
    then show ?thesis unfolding t' OpReceipt apply_receipt by (simp add: change_refl)
  next
    case (OpPoison js_now i k digest error org)
    with last show ?thesis unfolding t'
      by (simp add: record_kafka_poison_message_def) (intro change_insert; simp add: poison_event_def)
  next
    case (OpPurge type cutoff limit)
    then show ?thesis unfolding t'
      by (simp add: purge_completed_def Let_def) (rule purge, use purged_row [OF assms(1)] in auto)
  qed
qed

subsection \<open>Identities\<close>

definition outbox_keys :: "outbox \<Rightarrow> bool" where
  "outbox_keys t \<longleftrightarrow> distinct (map oe_id t) \<and> distinct (map oe_dedupe_key t)"

lemma outbox_keys_change: "outbox_change t t' \<Longrightarrow> outbox_keys t \<Longrightarrow> outbox_keys t'"
proof (induction rule: outbox_change.induct)
  case (rows g)
  then have "map oe_id (map g t) = map oe_id t" "map oe_dedupe_key (map g t) = map oe_dedupe_key t"
    by (simp_all add: same_event_def)
  with rows.prems show ?case unfolding outbox_keys_def by metis
next
  case (insert e)
  then show ?case by (simp add: outbox_keys_def)
next
  case (purge keep)
  then show ?case by (simp add: outbox_keys_def distinct_map_filter)
qed

lemma reachable_keys: "outbox_reachable t \<Longrightarrow> outbox_keys t"
proof (induction rule: outbox_reachable.induct)
  case (step t op t')
  then have "distinct (map oe_id t)" by (simp add: outbox_keys_def)
  with step show ?case using outbox_keys_change step_change by blast
qed (simp add: outbox_keys_def)

lemma reachable_change: "outbox_reachable t \<Longrightarrow> outbox_step t op t' \<Longrightarrow> outbox_change t t'"
  using reachable_keys step_change by (auto simp: outbox_keys_def)

subsection \<open>Events of an aggregate are handed out one at a time and in order\<close>

definition started :: "outbox_event \<Rightarrow> bool" where
  "started e \<longleftrightarrow> oe_status e = OeProcessing \<or> oe_attempts e > 0"

definition in_turn :: "outbox \<Rightarrow> bool" where
  "in_turn t \<longleftrightarrow> (\<forall>e \<in> set t. \<forall>p \<in> set t. started e \<longrightarrow> precedes p e \<longrightarrow> oe_status p = OeCompleted)"

lemma in_turnD:
  "in_turn t \<Longrightarrow> e \<in> set t \<Longrightarrow> p \<in> set t \<Longrightarrow> started e \<Longrightarrow> precedes p e \<Longrightarrow> oe_status p = OeCompleted"
  by (simp add: in_turn_def)

lemma precedes_same: "same_event e e' \<Longrightarrow> same_event p p' \<Longrightarrow> precedes p' e' \<longleftrightarrow> precedes p e"
  by (simp add: precedes_def event_key_def same_event_def)

lemma row_step_started: "row_step t e e' \<Longrightarrow> started e' \<Longrightarrow> started e \<or> (\<forall>p \<in> set t. precedes p e \<longrightarrow> \<not> unfinished p)"
  by (induction rule: row_step.induct) (auto simp: started_def)

lemma row_step_completed: "row_step t p p' \<Longrightarrow> oe_status p = OeCompleted \<Longrightarrow> oe_status p' = OeCompleted"
  by (induction rule: row_step.induct) (auto simp: unfinished_iff)

lemma in_turn_change: "outbox_change t t' \<Longrightarrow> in_turn t \<Longrightarrow> in_turn t'"
proof (induction rule: outbox_change.induct)
  case (rows g)
  show ?case unfolding in_turn_def
  proof (intro ballI impI)
    fix e' p' assume e': "e' \<in> set (map g t)" "started e'" and p': "p' \<in> set (map g t)" "precedes p' e'"
    from e' p' obtain e p where e: "e \<in> set t" "e' = g e" and p: "p \<in> set t" "p' = g p" by auto
    note ge = rows.hyps [OF e(1)] and gp = rows.hyps [OF p(1)]
    have pe: "precedes p e" using p'(2) ge gp precedes_same [of e "g e" p "g p"] by (simp add: e(2) p(2))
    have "oe_status p = OeCompleted"
      using row_step_started [OF conjunct2 [OF ge]] e'(2) e p(1) pe rows.prems
      by (auto simp: in_turn_def unfinished_iff)
    then show "oe_status p' = OeCompleted" using gp p(2) row_step_completed by blast
  qed
next
  case (insert e)
  have "\<not> started e" using insert.hyps by (simp add: started_def)
  moreover have "\<not> precedes e f" if "f \<in> set t" for f
    using insert.hyps(3) that by (auto simp: created_last_def precedes_def)
  ultimately show ?case
    using insert.prems unfolding in_turn_def set_append by auto
next
  case (purge keep)
  then show ?case unfolding in_turn_def set_filter by blast
qed

lemma reachable_in_turn: "outbox_reachable t \<Longrightarrow> in_turn t"
proof (induction rule: outbox_reachable.induct)
  case (step t op t')
  then show ?case using reachable_change in_turn_change by blast
qed (simp add: in_turn_def)


subsection \<open>The outbox as a family of queues\<close>

text \<open>What an aggregate still has to deliver, in order.\<close>

definition open_keys :: "outbox \<Rightarrow> aggregate \<Rightarrow> event_key set" where
  "open_keys t a = event_key ` {e \<in> set t. aggregate_of e = a \<and> unfinished e}"

definition waiting :: "outbox \<Rightarrow> aggregate \<Rightarrow> string list" where
  "waiting t a = map key_id (sorted_list_of_set (open_keys t a))"

datatype queue_action = Quiet | Put aggregate string | Take aggregate string

fun queue_apply :: "queue_action \<Rightarrow> (aggregate \<Rightarrow> string list) \<Rightarrow> (aggregate \<Rightarrow> string list) option" where
  "queue_apply Quiet q = Some q"
| "queue_apply (Put a i) q = Some (q(a := q a @ [i]))"
| "queue_apply (Take a i) q =
     (case q a of [] \<Rightarrow> None | j # js \<Rightarrow> if i = j then Some (q(a := js)) else None)"

definition queue_action :: "outbox_op \<Rightarrow> outbox \<Rightarrow> queue_action" where
  "queue_action op t =
     (case inserted_event op of
        Some e \<Rightarrow> if unfinished e \<and> fst (insert_event e t) then Put (aggregate_of e) (oe_id e) else Quiet
      | None \<Rightarrow>
          (case op of
             OpDispatch js_now worker run c \<Rightarrow>
               (case find (owned_by (cl_id c) worker) t of
                  Some e \<Rightarrow> if dispatch_end c run = Complete then Take (aggregate_of e) (oe_id e) else Quiet
                | None \<Rightarrow> Quiet)
           | _ \<Rightarrow> Quiet))"

lemma waiting_cong: "(\<And>a. open_keys t' a = open_keys t a) \<Longrightarrow> waiting t' = waiting t"
  by (simp add: waiting_def fun_eq_iff)

lemma open_keys_map:
  assumes "\<And>e. e \<in> set t \<Longrightarrow> same_event e (g e) \<and> (unfinished (g e) \<longleftrightarrow> unfinished e)"
  shows "open_keys (map g t) a = open_keys t a"
proof -
  have "{e \<in> set (map g t). aggregate_of e = a \<and> unfinished e} = g ` {e \<in> set t. aggregate_of e = a \<and> unfinished e}"
    using assms by (auto simp: same_event_def)
  then have "open_keys (map g t) a = (\<lambda>e. event_key (g e)) ` {e \<in> set t. aggregate_of e = a \<and> unfinished e}"
    by (simp add: open_keys_def image_image)
  also have "\<dots> = open_keys t a"
    unfolding open_keys_def using assms by (intro image_cong) (simp_all add: event_key_def same_event_def)
  finally show ?thesis .
qed

lemma sorted_list_of_set_last:
  assumes "finite A" and "\<And>a. a \<in> A \<Longrightarrow> a < (k :: event_key)"
  shows "sorted_list_of_set (insert k A) = sorted_list_of_set A @ [k]"
proof -
  have "k \<notin> A" using assms(2) by blast
  moreover have "insort k (sorted_list_of_set A) = sorted_list_of_set A @ [k]"
    using assms by (intro sorted_insort_is_snoc) (auto intro: less_imp_le)
  ultimately show ?thesis using assms(1) by simp
qed

lemma finite_open_keys [simp]: "finite (open_keys t a)"
  by (simp add: open_keys_def)

lemma waiting_insert:
  assumes "created_last e t" and "unfinished e"
  shows "waiting (t @ [e]) = (waiting t)(aggregate_of e := waiting t (aggregate_of e) @ [oe_id e])"
proof
  fix a
  show "waiting (t @ [e]) a = ((waiting t)(aggregate_of e := waiting t (aggregate_of e) @ [oe_id e])) a"
  proof (cases "a = aggregate_of e")
    case True
    have "open_keys (t @ [e]) a = insert (event_key e) (open_keys t a)"
      using True assms(2) by (auto simp: open_keys_def)
    moreover have "k < event_key e" if "k \<in> open_keys t a" for k
      using that True assms(1) by (auto simp: open_keys_def created_last_def)
    ultimately have "sorted_list_of_set (open_keys (t @ [e]) a) = sorted_list_of_set (open_keys t a) @ [event_key e]"
      by (simp only: sorted_list_of_set_last finite_open_keys)
    then show ?thesis using True by (simp add: waiting_def event_key_def)
  next
    case False
    then have "open_keys (t @ [e]) a = open_keys t a" by (auto simp: open_keys_def)
    with False show ?thesis by (simp add: waiting_def)
  qed
qed

lemma waiting_insert_finished: "\<not> unfinished e \<Longrightarrow> waiting (t @ [e]) = waiting t"
  by (rule waiting_cong) (auto simp: open_keys_def)

lemma waiting_insert_event:
  assumes "created_last e t"
  shows "queue_apply (if unfinished e \<and> fst (insert_event e t) then Put (aggregate_of e) (oe_id e) else Quiet) (waiting t)
    = Some (waiting (snd (insert_event e t)))"
  using assms by (auto simp: insert_event_def waiting_insert waiting_insert_finished)

lemma waiting_update:
  assumes "\<And>e. e \<in> set t \<Longrightarrow> P e \<Longrightarrow> same_event e (f e) \<and> (unfinished (f e) \<longleftrightarrow> unfinished e)"
  shows "waiting (update_where P f t) = waiting t"
  unfolding update_where_def
  by (rule waiting_cong, rule open_keys_map) (use assms in \<open>simp add: same_event_def\<close>)

lemma waiting_purge:
  assumes "\<And>e. e \<in> set t \<Longrightarrow> \<not> keep e \<Longrightarrow> oe_status e = OeCompleted"
  shows "waiting (filter keep t) = waiting t"
  by (rule waiting_cong) (use assms in \<open>auto simp: open_keys_def unfinished_iff\<close>)

lemma image_without: "(\<And>f. f \<in> S \<Longrightarrow> k f = k e \<longleftrightarrow> f = e) \<Longrightarrow> k ` (S - {e}) = k ` S - {k e}"
  by auto

lemma filter_replaced: "T = insert d (S - {e}) \<Longrightarrow> \<not> Q d \<Longrightarrow> {f \<in> T. P f \<and> Q f} = {f \<in> S. P f \<and> Q f} - {e}"
  by auto

text \<open>The event in work is the first of its queue; completing it takes it out.\<close>

lemma waiting_complete:
  assumes t: "outbox_keys t" "in_turn t" and e: "e \<in> set t" "owned_by i worker e"
  shows "waiting t (aggregate_of e) = i # waiting (mark_completed js_now i worker t) (aggregate_of e)
    \<and> (\<forall>a. a \<noteq> aggregate_of e \<longrightarrow> waiting (mark_completed js_now i worker t) a = waiting t a)"
proof -
  let ?t' = "mark_completed js_now i worker t"
  have ids: "distinct (map oe_id t)" using t(1) by (simp add: outbox_keys_def)
  have own: "owned_by i worker f \<longleftrightarrow> f = e" if "f \<in> set t" for f
    using that e same_id [OF ids that e(1)] by (auto simp: owned_by_def)
  have keys: "event_key f = event_key e \<longleftrightarrow> f = e" if "f \<in> set t" for f
    using same_id [OF ids that e(1)] by (auto simp: event_key_def)
  have rest: "open_keys ?t' a = open_keys t a - {event_key e}" for a
  proof -
    let ?S = "{f \<in> set t. aggregate_of f = a \<and> unfinished f}"
    let ?done = "\<lambda>f. f\<lparr>oe_status := OeCompleted, oe_processed_at := Some js_now, oe_locked_at := None,
      oe_locked_by := None, oe_last_error := None, oe_updated_at := js_now\<rparr>"
    have "set ?t' = (\<lambda>f. if f = e then ?done f else f) ` set t"
      unfolding mark_completed_def update_where_def set_map using own by (intro image_cong) simp_all
    then have "set ?t' = insert (?done e) (set t - {e})" using e(1) by auto
    moreover have "\<not> unfinished (?done e)" by (simp add: unfinished_iff)
    ultimately have "{f \<in> set ?t'. aggregate_of f = a \<and> unfinished f} = ?S - {e}" by (rule filter_replaced)
    then show ?thesis unfolding open_keys_def by (simp only:) (rule image_without, simp add: keys)
  qed
  have open_e: "event_key e \<in> open_keys t (aggregate_of e)"
    using e by (auto simp: open_keys_def owned_by_def unfinished_def)
  have "\<not> k < event_key e" if "k \<in> open_keys t (aggregate_of e)" for k
  proof
    assume "k < event_key e"
    with that obtain p where p: "p \<in> set t" "precedes p e" "unfinished p" by (auto simp: open_keys_def precedes_def)
    have "started e" using e(2) by (simp add: started_def owned_by_def)
    then have "oe_status p = OeCompleted" using in_turnD [OF t(2) e(1) p(1) _ p(2)] by blast
    with p(3) show False by (simp add: unfinished_iff)
  qed
  then have "Min (open_keys t (aggregate_of e)) = event_key e"
    using open_e by (intro Min_eqI) (auto simp: not_less)
  then have "sorted_list_of_set (open_keys t (aggregate_of e))
      = event_key e # sorted_list_of_set (open_keys t (aggregate_of e) - {event_key e})"
    using sorted_list_of_set_nonempty [of "open_keys t (aggregate_of e)"] open_e by auto
  moreover have "open_keys t a - {event_key e} = open_keys t a" if "a \<noteq> aggregate_of e" for a
    unfolding open_keys_def using that keys by fastforce
  moreover have "key_id (event_key e) = i" using e(2) by (simp add: event_key_def owned_by_def)
  ultimately show ?thesis by (simp add: waiting_def rest)
qed

lemma waiting_dispatch:
  assumes "outbox_keys t" and "in_turn t" and op: "op = OpDispatch js_now worker run c"
  shows "queue_apply (queue_action op t) (waiting t) = Some (waiting (dispatch js_now worker run c t))"
proof (cases "dispatch_end c run")
  case (Fail input)
  have "waiting (reschedule js_now (cl_id c) worker input t) = waiting t"
    unfolding reschedule_def
    by (rule waiting_update) (auto simp: same_event_def aggregate_of_def owned_by_def unfinished_def)
  with Fail show ?thesis by (simp add: queue_action_def op dispatch_def split: option.split)
next
  case Complete
  show ?thesis
  proof (cases "find (owned_by (cl_id c) worker) t")
    case None
    then have "mark_completed js_now (cl_id c) worker t = t"
      by (auto simp: mark_completed_def update_where_def find_None_iff intro!: map_idI)
    with None Complete show ?thesis by (simp add: queue_action_def op dispatch_def)
  next
    case (Some e)
    then have e: "e \<in> set t" "owned_by (cl_id c) worker e" by (auto simp: find_Some_iff)
    have "queue_action op t = Take (aggregate_of e) (oe_id e)" by (simp add: queue_action_def op Some Complete)
    moreover have "oe_id e = cl_id c" using e(2) by (simp add: owned_by_def)
    ultimately show ?thesis
      using waiting_complete [OF assms(1,2) e, of js_now] Complete by (auto simp: dispatch_def fun_eq_iff)
  qed
qed

lemma waiting_claim:
  assumes "distinct (map oe_id t)"
  shows "waiting (snd (claim_batch js_now db_now locked worker limit t)) = waiting t"
  unfolding claim_batch_def Let_def snd_conv
  by (rule waiting_update) (use claimableD(1) [OF claimed_row [OF assms]] in
    \<open>simp add: same_event_def lock_event_def aggregate_of_def unfinished_iff\<close>)

lemma waiting_renew: "waiting (snd (renew_lease js_now i worker t)) = waiting t"
  unfolding renew_lease_def snd_conv
  by (rule waiting_update) (simp add: same_event_def aggregate_of_def unfinished_iff)

lemma waiting_requeue: "waiting (snd (requeue_dead_letter js_now i org hook t)) = waiting t"
  by (auto simp: requeue_dead_letter_def Let_def same_event_def revive_def aggregate_of_def unfinished_iff
      split: option.splits intro!: waiting_update)

lemma waiting_ensure:
  assumes "distinct (map oe_id t)"
  shows "waiting (snd (ensure_aggregate_event_scheduled db_now input t)) = waiting t"
proof (cases "oldest_dead input t")
  case (Some d)
  have "oe_status e = OeDead" if "e \<in> set t" "oe_id e = oe_id d" for e
    using same_id [OF assms that(1) oldest_dead_Some(1) [OF Some] that(2)] oldest_dead_Some(2) [OF Some] by simp
  then have "waiting (update_where (\<lambda>e. oe_id e = oe_id d) (revive db_now) t) = waiting t"
    by (intro waiting_update) (simp add: same_event_def revive_def aggregate_of_def unfinished_iff)
  with Some show ?thesis by (simp add: ensure_aggregate_event_scheduled_def)
qed (simp add: ensure_aggregate_event_scheduled_def)

lemma waiting_purge_completed:
  assumes "distinct (map oe_id t)"
  shows "waiting (snd (purge_completed type cutoff limit t)) = waiting t"
  unfolding purge_completed_def Let_def snd_conv
  by (rule waiting_purge) (use purged_row [OF assms] in auto)


subsection \<open>Runs\<close>

text \<open>A sequence of operations, \<open>None\<close> when one inserts an event that is not created last.\<close>

definition admissible :: "outbox_op \<Rightarrow> outbox \<Rightarrow> bool" where
  "admissible op t \<longleftrightarrow> (case inserted_event op of None \<Rightarrow> True | Some e \<Rightarrow> created_last e t)"

fun outbox_run :: "outbox_op list \<Rightarrow> outbox \<Rightarrow> outbox option" where
  "outbox_run [] t = Some t"
| "outbox_run (op # ops) t = (if admissible op t then outbox_run ops (outbox_apply op t) else None)"

lemma outbox_run_reachable: "outbox_run ops t = Some t' \<Longrightarrow> outbox_reachable t \<Longrightarrow> outbox_reachable t'"
proof (induction ops arbitrary: t)
  case (Cons op ops)
  then have "outbox_step t op (outbox_apply op t)"
    by (intro outbox_step.step) (auto simp: admissible_def split: if_splits)
  with Cons show ?case by (auto split: if_splits intro: outbox_reachable.step)
qed simp

definition sample_enqueue :: "string \<Rightarrow> enqueue_input" where
  "sample_enqueue k =
     \<lparr>en_event_type = ''run.done'', en_organization = Some ''org'', en_aggregate_type = ''run'', en_aggregate_id = ''r'',
      en_dedupe_key = k, en_payload = [], en_max_attempts = None, en_available_at = None\<rparr>"

definition sample_claimed :: "string \<Rightarrow> claimed" where
  "sample_claimed i =
     \<lparr>cl_id = i, cl_event_type = ''run.done'', cl_organization = Some ''org'', cl_aggregate_type = ''run'',
      cl_aggregate_id = ''r'', cl_dedupe_key = i, cl_payload = [], cl_attempts = 1, cl_max_attempts = 8\<rparr>"

definition delivered :: dispatch_run where
  "delivered = \<lparr>dr_listeners = ListenersReturned 1, dr_heartbeats = [], dr_complete_error = None\<rparr>"

definition sample_ops :: "outbox_op list" where
  "sample_ops =
     [OpEnqueue 0 0 ''a'' (sample_enqueue ''a''), OpEnqueue 1000 1000 ''b'' (sample_enqueue ''b''),
      OpClaim 2000 2000 (\<lambda>_. False) ''w'' 10, OpDispatch 3000 ''w'' delivered (sample_claimed ''a''),
      OpClaim 4000 4000 (\<lambda>_. False) ''v'' 10]"

lemma sample_run:
  "\<exists>p e. outbox_run sample_ops [] = Some [p, e] \<and> oe_id p = ''a'' \<and> oe_id e = ''b'' \<and> precedes p e
     \<and> oe_status e = OeProcessing \<and> oe_locked_by e = Some ''v'' \<and> oe_locked_at e = Some 4000
     \<and> aggregate_of e = (Some ''org'', ''run'', ''r'')"
proof -
  have "case outbox_run sample_ops [] of
      Some [p, e] \<Rightarrow> oe_id p = ''a'' \<and> oe_id e = ''b'' \<and> precedes p e
        \<and> oe_status e = OeProcessing \<and> oe_locked_by e = Some ''v'' \<and> oe_locked_at e = Some 4000
        \<and> aggregate_of e = (Some ''org'', ''run'', ''r'')
    | _ \<Rightarrow> False"
    by code_simp
  then show ?thesis by (auto split: option.splits list.splits)
qed



end
