(* ===== verification/Fencing.thy ===== *)
theory Fencing
  imports Prelude
begin

section \<open>Fenced stores\<close>

text \<open>
  The interface that the outbox and the leases of MCP runtimes have in common: entries that are
  held by someone under a token, and operations that name an entry and a token and do nothing
  unless the token is the one that holds the entry.
\<close>

locale fenced_store =
  fixes invariant :: "'s \<Rightarrow> bool"
    and entry :: "'s \<Rightarrow> 'k \<Rightarrow> 'r option"
    and holder :: "'s \<Rightarrow> 'k \<Rightarrow> 'f option"
    and act :: "'op \<Rightarrow> 'k \<Rightarrow> 'f \<Rightarrow> 's \<Rightarrow> 's"
  assumes act_invariant: "invariant s \<Longrightarrow> invariant (act op k f s)"
    and act_fenced: "invariant s \<Longrightarrow> holder s k \<noteq> Some f \<Longrightarrow> act op k f s = s"
    and act_local: "invariant s \<Longrightarrow> k' \<noteq> k \<Longrightarrow>
      entry (act op k f s) k' = entry s k' \<and> holder (act op k f s) k' = holder s k'"
begin

definition acts :: "('op \<times> 'k \<times> 'f) list \<Rightarrow> 's \<Rightarrow> 's" where
  "acts ops s = foldl (\<lambda>s (op, k, f). act op k f s) s ops"

lemma act_other:
  assumes "invariant s" and "holder s k = Some f" and "(k', f') \<noteq> (k, f)"
  shows "entry (act op k' f' s) k = entry s k \<and> holder (act op k' f' s) k = Some f"
proof (cases "k' = k")
  case True
  with assms have "act op k' f' s = s" by (intro act_fenced) auto
  with assms(2) show ?thesis by simp
next
  case False
  with assms act_local [of s k k' op f'] show ?thesis by simp
qed

lemma acts_others:
  assumes "invariant s" and "holder s k = Some f" and "\<forall>(op, k', f') \<in> set ops. (k', f') \<noteq> (k, f)"
  shows "entry (acts ops s) k = entry s k \<and> holder (acts ops s) k = Some f"
  using assms
proof (induction ops arbitrary: s)
  case (Cons x ops)
  obtain op k' f' where x: "x = (op, k', f')" by (cases x)
  have "entry (act op k' f' s) k = entry s k \<and> holder (act op k' f' s) k = Some f"
    using Cons.prems by (intro act_other) (auto simp: x)
  with Cons.IH [of "act op k' f' s"] Cons.prems act_invariant show ?case by (simp add: x acts_def)
qed (simp add: acts_def)

end

end
