(* ===== verification/Outbox_Leases.thy ===== *)
theory Outbox_Leases
  imports Outbox_Order Fencing
begin

section \<open>Claims, leases and failures of the outbox\<close>

text \<open>
  What one claim takes, what a lease protects and what a failed dispatch does.  The rows and their
  holders are a fenced store, and the operations under a lease its actions.
\<close>

subsection \<open>What a claim takes\<close>

lemma take_sort_claimed:
  assumes "outbox_keys t" and "e \<in> set t"
  shows "oe_id e \<in> set (claim_ids js_now db_now locked limit t) \<longleftrightarrow>
    e \<in> set (take (bounded limit MAX_BATCH_SIZE)
      (sort_key event_key (filter (\<lambda>e. claimable db_now (js_now - OUTBOX_LEASE) t e \<and> \<not> locked e) t)))"
proof -
  let ?xs = "sort_key event_key (filter (\<lambda>e. claimable db_now (js_now - OUTBOX_LEASE) t e \<and> \<not> locked e) t)"
  have "f = e" if "f \<in> set (take n ?xs)" "oe_id f = oe_id e" for f n
    using that same_id [of t f e] assms by (auto simp: outbox_keys_def dest!: in_set_takeD)
  then show ?thesis by (auto simp: claim_ids_def)
qed

definition claimed_rows :: "time \<Rightarrow> time \<Rightarrow> (outbox_event \<Rightarrow> bool) \<Rightarrow> int \<Rightarrow> outbox \<Rightarrow> outbox" where
  "claimed_rows js_now db_now locked limit t =
     take (bounded limit MAX_BATCH_SIZE)
       (sort_key event_key (filter (\<lambda>e. claimable db_now (js_now - OUTBOX_LEASE) t e \<and> \<not> locked e) t))"

lemma claim_batch_rows:
  assumes "outbox_keys t"
  shows "snd (claim_batch js_now db_now locked worker limit t)
    = map (\<lambda>e. if e \<in> set (claimed_rows js_now db_now locked limit t) then lock_event db_now worker e else e) t"
  unfolding claim_batch_def Let_def snd_conv update_where_def claimed_rows_def
  using take_sort_claimed [OF assms] by (intro map_cong) simp_all

lemma claimed_row_claimable:
  "e \<in> set (claimed_rows js_now db_now locked limit t) \<Longrightarrow> e \<in> set t \<and> claimable db_now (js_now - OUTBOX_LEASE) t e \<and> \<not> locked e"
  by (auto simp: claimed_rows_def dest!: in_set_takeD)

lemma claimable_unique:
  assumes "outbox_keys t" and "e \<in> set t" "f \<in> set t" and "claimable db before t e" "claimable db before t f"
    and "aggregate_of e = aggregate_of f"
  shows "e = f"
proof (rule ccontr)
  assume "e \<noteq> f"
  then have "event_key e \<noteq> event_key f"
    using same_id [of t e f] assms(1-3) by (auto simp: event_key_def outbox_keys_def)
  then consider "precedes e f" | "precedes f e"
    using assms(6) by (auto simp: precedes_def neq_iff)
  then show False
    using claimableD [OF assms(4)] claimableD [OF assms(5)] assms(2,3) by cases blast+
qed

lemma map_update_where: "(\<And>e. g (f e) = g e) \<Longrightarrow> map g (update_where P f t) = map g t"
  by (simp add: update_where_def)

lemma claimed_ids:
  "map cl_id (fst (claim_batch js_now db_now locked worker limit t))
   = filter (\<lambda>i. i \<in> set (claim_ids js_now db_now locked limit t)) (map oe_id t)"
proof -
  have "map cl_id (fst (claim_batch js_now db_now locked worker limit t))
      = filter (\<lambda>i. i \<in> set (claim_ids js_now db_now locked limit t))
          (map oe_id (snd (claim_batch js_now db_now locked worker limit t)))"
    by (simp add: claim_batch_def Let_def claimed_of_def filter_map o_def)
  moreover have "map oe_id (snd (claim_batch js_now db_now locked worker limit t)) = map oe_id t"
    by (simp add: claim_batch_def Let_def map_update_where lock_event_def)
  ultimately show ?thesis by simp
qed

text \<open>
  A claim takes, in the order of their creation, as many of the events that may be claimed as
  it was asked for, at least one and at most 200; of one aggregate it never takes two.  The events
  taken are in work for the worker that claims, with one attempt more; no other row is changed.
  As long as an event may be claimed and is not locked by another transaction, some event is taken.
\<close>

theorem claim_takes_events_in_order:
  assumes "outbox_reachable t"
  shows "snd (claim_batch js_now db_now locked worker limit t)
      = map (\<lambda>e. if e \<in> set (claimed_rows js_now db_now locked limit t) then lock_event db_now worker e else e) t
    \<and> length (claimed_rows js_now db_now locked limit t) \<le> 200
    \<and> sorted (map event_key (claimed_rows js_now db_now locked limit t))
    \<and> distinct (map aggregate_of (claimed_rows js_now db_now locked limit t))
    \<and> set (map cl_id (fst (claim_batch js_now db_now locked worker limit t)))
      = set (map oe_id (claimed_rows js_now db_now locked limit t))
    \<and> (claimed_rows js_now db_now locked limit t = []
       \<longrightarrow> (\<forall>e \<in> set t. claimable db_now (js_now - OUTBOX_LEASE) t e \<longrightarrow> locked e))"
proof (intro conjI)
  let ?rows = "claimed_rows js_now db_now locked limit t"
  let ?all = "sort_key event_key (filter (\<lambda>e. claimable db_now (js_now - OUTBOX_LEASE) t e \<and> \<not> locked e) t)"
  have keys: "outbox_keys t" by (rule reachable_keys [OF assms])
  show "snd (claim_batch js_now db_now locked worker limit t)
      = map (\<lambda>e. if e \<in> set ?rows then lock_event db_now worker e else e) t"
    by (rule claim_batch_rows [OF keys])
  show "length ?rows \<le> 200" by (simp add: claimed_rows_def bounded_def MAX_BATCH_SIZE_def)
  show "sorted (map event_key ?rows)"
    by (simp add: claimed_rows_def take_map [symmetric] sorted_wrt_take)
  have "distinct (map oe_id t)" using keys by (simp add: outbox_keys_def)
  then have "distinct ?rows" by (simp add: claimed_rows_def distinct_map)
  moreover have "e = f" if "e \<in> set ?rows" "f \<in> set ?rows" "aggregate_of e = aggregate_of f" for e f
    using claimable_unique [OF keys] claimed_row_claimable that by metis
  ultimately show "distinct (map aggregate_of ?rows)" by (auto simp: distinct_map inj_on_def)
  have "set (map cl_id (fst (claim_batch js_now db_now locked worker limit t)))
      = oe_id ` set t \<inter> set (claim_ids js_now db_now locked limit t)"
    by (auto simp: claimed_ids)
  also have "\<dots> = oe_id ` set t \<inter> oe_id ` set ?rows" by (simp add: claim_ids_def claimed_rows_def)
  also have "\<dots> = set (map oe_id ?rows)"
    using claimed_row_claimable [of _ js_now db_now locked limit t] by auto
  finally show "set (map cl_id (fst (claim_batch js_now db_now locked worker limit t))) = set (map oe_id ?rows)" .
  show "?rows = [] \<longrightarrow> (\<forall>e \<in> set t. claimable db_now (js_now - OUTBOX_LEASE) t e \<longrightarrow> locked e)"
  proof
    assume "?rows = []"
    then have "?all = []" by (simp add: claimed_rows_def bounded_def)
    then have "set ?all = {}" by simp
    then show "\<forall>e \<in> set t. claimable db_now (js_now - OUTBOX_LEASE) t e \<longrightarrow> locked e" by auto
  qed
qed

lemma claim_takes_events_in_order_witness:
  "\<exists>t. outbox_run (take 2 sample_ops) [] = Some t
     \<and> length (claimed_rows 2000 2000 (\<lambda>_. False) 10 t) \<le> 200"
proof -
  have "outbox_run (take 2 sample_ops) [] \<noteq> None" by code_simp
  then obtain t where t: "outbox_run (take 2 sample_ops) [] = Some t" by blast
  from claim_takes_events_in_order [OF outbox_run_reachable [OF t outbox_reachable.empty]] t show ?thesis by blast
qed

subsection \<open>Leases\<close>

datatype lease_act = LeaseRenew time | LeaseComplete time | LeaseReschedule time reschedule_input

definition lease_act :: "lease_act \<Rightarrow> string \<Rightarrow> string \<Rightarrow> outbox \<Rightarrow> outbox" where
  "lease_act a i worker t =
     (case a of
        LeaseRenew now \<Rightarrow> snd (renew_lease now i worker t)
      | LeaseComplete now \<Rightarrow> mark_completed now i worker t
      | LeaseReschedule now input \<Rightarrow> reschedule now i worker input t)"

definition row_of :: "outbox \<Rightarrow> string \<Rightarrow> outbox_event option" where
  "row_of t i = find (\<lambda>e. oe_id e = i) t"

definition lease_holder :: "outbox \<Rightarrow> string \<Rightarrow> string option" where
  "lease_holder t i =
     (case row_of t i of
        None \<Rightarrow> None | Some e \<Rightarrow> if oe_status e = OeProcessing then oe_locked_by e else None)"

lemma lease_act_update:
  "\<exists>f. lease_act a i worker t = update_where (owned_by i worker) f t \<and> (\<forall>e. same_event e (f e))"
  by (cases a) (auto simp: lease_act_def renew_lease_def mark_completed_def reschedule_def same_event_def
      aggregate_of_def)

lemma row_of_Some: "outbox_keys t \<Longrightarrow> e \<in> set t \<Longrightarrow> row_of t (oe_id e) = Some e"
  unfolding row_of_def outbox_keys_def
  by (induction t) (auto simp: image_iff)

lemma find_update_where:
  assumes "\<And>e. oe_id (f e) = oe_id e" and "\<And>e. P e \<Longrightarrow> oe_id e \<noteq> i"
  shows "row_of (update_where P f t) i = row_of t i"
  unfolding row_of_def update_where_def using assms by (induction t) auto

interpretation outbox_leases: fenced_store outbox_keys row_of lease_holder lease_act
proof
  fix t a i worker
  assume keys: "outbox_keys t"
  obtain f where f: "lease_act a i worker t = update_where (owned_by i worker) f t" "\<forall>e. same_event e (f e)"
    using lease_act_update by blast
  show "outbox_keys (lease_act a i worker t)"
    using keys f(2) map_update_where [of oe_id f] map_update_where [of oe_dedupe_key f]
    by (simp add: f(1) outbox_keys_def same_event_def)
  show "lease_act a i worker t = t" if "lease_holder t i \<noteq> Some worker"
  proof -
    have "\<not> owned_by i worker e" if "e \<in> set t" for e
      using row_of_Some [OF keys that] \<open>lease_holder t i \<noteq> Some worker\<close> by (auto simp: owned_by_def lease_holder_def)
    then show ?thesis by (auto simp: f(1) update_where_def intro: map_idI)
  qed
  show "row_of (lease_act a i worker t) k = row_of t k \<and> lease_holder (lease_act a i worker t) k = lease_holder t k"
    if "k \<noteq> i" for k
  proof -
    have "row_of (lease_act a i worker t) k = row_of t k"
      using f(2) that unfolding f(1) by (intro find_update_where) (auto simp: same_event_def owned_by_def)
    then show ?thesis by (simp add: lease_holder_def)
  qed
qed

text \<open>
  C11: The lease excludes everyone else.  While a worker has an event in work and its lease has not
  run out by the clock of whoever claims, no claim takes the event; and whatever renewals,
  completions and reschedulings other workers, or this worker for other events, come with, late or
  repeated, the row of the event stays as it is.
\<close>

theorem lease_excludes_others:
  assumes "outbox_reachable t" and "e \<in> set t"
    and "oe_status e = OeProcessing" and "oe_locked_by e = Some worker" and "oe_locked_at e = Some since"
    and "\<forall>(act, i, w) \<in> set ops. (i, w) \<noteq> (oe_id e, worker)"
  shows "row_of (foldl (\<lambda>t (act, i, w). lease_act act i w t) t ops) (oe_id e) = Some e
    \<and> (js_now < since + OUTBOX_LEASE \<longrightarrow> e \<notin> set (claimed_rows js_now db_now locked limit t))"
proof
  have keys: "outbox_keys t" by (rule reachable_keys [OF assms(1)])
  have row: "row_of t (oe_id e) = Some e" by (rule row_of_Some [OF keys assms(2)])
  then have "lease_holder t (oe_id e) = Some worker" using assms(3,4) by (simp add: lease_holder_def)
  from outbox_leases.acts_others [OF keys this assms(6)] row
  show "row_of (foldl (\<lambda>t (act, i, w). lease_act act i w t) t ops) (oe_id e) = Some e"
    by (simp add: outbox_leases.acts_def)
  have "since \<le> js_now - OUTBOX_LEASE" if "e \<in> set (claimed_rows js_now db_now locked limit t)"
    using claimed_row_claimable [OF that] assms(3,5) by (simp add: claimable_def lease_ended_def)
  then show "js_now < since + OUTBOX_LEASE \<longrightarrow> e \<notin> set (claimed_rows js_now db_now locked limit t)" by linarith
qed

lemma lease_excludes_others_witness:
  "\<exists>p e. outbox_run sample_ops [] = Some [p, e]
     \<and> row_of (foldl (\<lambda>t (act, i, w). lease_act act i w t) [p, e]
          [(LeaseComplete 5000, ''b'', ''w''), (LeaseRenew 5000, ''a'', ''v'')]) ''b'' = Some e"
proof -
  obtain p e where pe: "outbox_run sample_ops [] = Some [p, e]" "oe_id e = ''b''" "oe_status e = OeProcessing"
    "oe_locked_by e = Some ''v''" "oe_locked_at e = Some 4000"
    using sample_run by blast
  have "e \<in> set [p, e]" by simp
  note here = lease_excludes_others [OF outbox_run_reachable [OF pe(1) outbox_reachable.empty] this pe(3-5)]
  have "\<forall>(act, i, w) \<in> set [(LeaseComplete 5000, ''b'', ''w''), (LeaseRenew 5000, ''a'', ''v'')].
      (i, w) \<noteq> (oe_id e, ''v'')"
    by (simp add: pe(2))
  from here [OF this] pe(1,2) show ?thesis by auto
qed

subsection \<open>Failures\<close>

text \<open>
  A dispatch that fails (a listener throws, nobody listens, or the lease is lost) and still
  holds its lease puts the event back for a later attempt, or among the dead letters when this was
  the last of its attempts.  The delay is 1 s after the first attempt, doubles with every attempt
  and is at most 15 min; the error kept is at most 4000 characters long.
\<close>

theorem failed_dispatch_is_retried:
  assumes "outbox_keys t" and "e \<in> set t" and "owned_by (oe_id e) worker e" and "c = claimed_of e"
    and "dispatch_error c run = Some error"
  shows "\<exists>e'. row_of (dispatch js_now worker run c t) (oe_id e) = Some e'
    \<and> oe_status e' = (if oe_attempts e \<ge> oe_max_attempts e then OeDead else OePending)
    \<and> oe_attempts e' = oe_attempts e \<and> oe_locked_by e' = None \<and> oe_locked_at e' = None
    \<and> (oe_attempts e < oe_max_attempts e \<longrightarrow>
        oe_available_at e' = js_now + int (retry_delay_ms (oe_attempts e)) * 1000)
    \<and> (\<exists>m. oe_last_error e' = Some m \<and> length m \<le> 4000)
    \<and> 1000 \<le> retry_delay_ms (oe_attempts e) \<and> retry_delay_ms (oe_attempts e) \<le> 900000
    \<and> retry_delay_ms (Suc (Suc (oe_attempts e))) = min (2 * retry_delay_ms (Suc (oe_attempts e))) 900000"
proof -
  obtain input where input: "dispatch_end c run = Fail input"
    "rs_dead input \<longleftrightarrow> oe_attempts e \<ge> oe_max_attempts e"
    "\<not> rs_dead input \<Longrightarrow> rs_delay_ms input = retry_delay_ms (oe_attempts e)" "length (rs_error input) \<le> 4000"
    using assms(4,5) by (auto simp: dispatch_end_def Let_def claimed_of_def error_message_def MAX_ERROR_LENGTH_def)
  let ?e = "e\<lparr>oe_status := (if rs_dead input then OeDead else OePending),
    oe_available_at := js_now + int (rs_delay_ms input) * 1000, oe_locked_at := None,
    oe_locked_by := None, oe_last_error := Some (rs_error input), oe_updated_at := js_now\<rparr>"
  let ?t' = "reschedule js_now (oe_id e) worker input t"
  have "?t' = lease_act (LeaseReschedule js_now input) (oe_id e) worker t" by (simp add: lease_act_def)
  then have "outbox_keys ?t'" using outbox_leases.act_invariant [OF assms(1)] by simp
  moreover have "?e \<in> set ?t'" using assms(2,3) by (auto simp: reschedule_def update_where_def image_iff)
  ultimately have "row_of ?t' (oe_id ?e) = Some ?e" by (rule row_of_Some)
  moreover have "dispatch js_now worker run c t = ?t'" using input(1) assms(4) by (simp add: dispatch_def claimed_of_def)
  moreover have "retry_delay_ms (Suc (Suc n)) = min (2 * retry_delay_ms (Suc n)) 900000" for n
    by (simp add: retry_delay_ms_def min_def)
  moreover have "1000 \<le> retry_delay_ms n \<and> retry_delay_ms n \<le> 900000" for n by (simp add: retry_delay_ms_def)
  ultimately show ?thesis using input(2-4) by (intro exI [of _ ?e]) (auto simp: not_le)
qed

lemma failed_dispatch_is_retried_witness:
  "\<exists>p e e'. outbox_run sample_ops [] = Some [p, e]
     \<and> row_of (dispatch 9000 ''v'' (delivered\<lparr>dr_listeners := ListenersReturned 0\<rparr>) (claimed_of e) [p, e]) ''b'' = Some e'
     \<and> oe_attempts e' = oe_attempts e"
proof -
  obtain p e where pe: "outbox_run sample_ops [] = Some [p, e]" "oe_id e = ''b''" "oe_status e = OeProcessing"
    "oe_locked_by e = Some ''v''"
    using sample_run by blast
  have keys: "outbox_keys [p, e]" by (rule reachable_keys [OF outbox_run_reachable [OF pe(1) outbox_reachable.empty]])
  have "e \<in> set [p, e]" "owned_by (oe_id e) ''v'' e" using pe by (simp_all add: owned_by_def)
  moreover obtain m where "dispatch_error (claimed_of e) (delivered\<lparr>dr_listeners := ListenersReturned 0\<rparr>) = Some m"
    by (simp add: dispatch_error_def)
  ultimately show ?thesis
    using failed_dispatch_is_retried [OF keys _ _ refl, of e "''v''" _ _ 9000] pe(1,2) by metis
qed

end
