(* ===== verification/Outbox_Recovery.thy ===== *)
theory Outbox_Recovery
  imports Outbox_Leases
begin

section \<open>Retries, dead letters, receipts and cleaning up\<close>

text \<open>
  The paths of the outbox beside the dispatch: attempts that end in a crash, requeueing dead letters,
  paging through them, receipts against duplicate messages, and the cleanup of old rows.
\<close>

subsection \<open>Workers that die\<close>

lemma claim_single:
  assumes "oe_status e = OePending \<and> oe_available_at e \<le> now
    \<or> oe_status e = OeProcessing \<and> oe_locked_at e = Some (now - OUTBOX_LEASE)"
  shows "snd (claim_batch now now (\<lambda>_. False) w 1 [e]) = [lock_event now w e]"
proof -
  have "claimable now (now - OUTBOX_LEASE) [e] e"
    using assms by (auto simp: claimable_def lease_ended_def precedes_def)
  then have "claim_ids now now (\<lambda>_. False) 1 [e] = [oe_id e]"
    by (simp add: claim_ids_def bounded_def MAX_BATCH_SIZE_def)
  then show ?thesis by (simp add: claim_batch_def Let_def update_where_def)
qed

lemma crashing_event:
  "\<exists>e. outbox_reachable [e] \<and> oe_max_attempts e = 1 \<and> oe_attempts e = n
     \<and> (if n = 0 then oe_status e = OePending \<and> oe_available_at e = 0
        else oe_status e = OeProcessing \<and> oe_locked_at e = Some (int n * OUTBOX_LEASE))"
proof (induction n)
  case 0
  let ?op = "OpEnqueue 0 0 ''e'' ((sample_enqueue ''e'')\<lparr>en_max_attempts := Some 1\<rparr>)"
  let ?e = "enqueued_event 0 0 ''e'' ((sample_enqueue ''e'')\<lparr>en_max_attempts := Some 1\<rparr>)"
  have "outbox_step [] ?op (outbox_apply ?op [])" by (rule outbox_step.step) (simp add: created_last_def)
  moreover have "outbox_apply ?op [] = [?e]"
    by (simp add: enqueue_outbox_event_def insert_event_def has_dedupe_key_def)
  ultimately have "outbox_reachable [?e]" by (metis outbox_reachable.intros)
  then show ?case by (intro exI [of _ ?e]) (simp add: enqueued_event_def sample_enqueue_def)
next
  case (Suc n)
  then obtain e where e: "outbox_reachable [e]" "oe_max_attempts e = 1" "oe_attempts e = n"
    "if n = 0 then oe_status e = OePending \<and> oe_available_at e = 0
     else oe_status e = OeProcessing \<and> oe_locked_at e = Some (int n * OUTBOX_LEASE)" by blast
  let ?now = "int (Suc n) * OUTBOX_LEASE"
  let ?op = "OpClaim ?now ?now (\<lambda>_. False) ''w'' 1"
  have lease: "?now - OUTBOX_LEASE = int n * OUTBOX_LEASE" "0 \<le> ?now"
    by (simp_all add: algebra_simps OUTBOX_LEASE_def)
  have "outbox_apply ?op [e] = [lock_event ?now ''w'' e]"
    using claim_single [of e ?now "''w''"] e(4) lease by (auto split: if_splits)
  moreover have "outbox_step [e] ?op (outbox_apply ?op [e])" by (rule outbox_step.step) simp
  ultimately have "outbox_reachable [lock_event ?now ''w'' e]"
    using e(1) by (metis outbox_reachable.step)
  then show ?case using e(2,3) by (intro exI [of _ "lock_event ?now ''w'' e"]) (simp add: lock_event_def)
qed

text \<open>
  Code bug.  The limit on attempts is checked by the dispatch that fails, not by the claim: an
  event whose worker dies before the dispatch ends is claimed again whenever its lease has run
  out.  For every number \<open>n\<close> the table can come to hold an event that allows one attempt and is in
  work, or waiting, after \<open>n\<close> attempts.
\<close>

theorem crashed_attempts_are_unbounded:
  "\<exists>t e. outbox_reachable t \<and> e \<in> set t \<and> oe_max_attempts e = 1 \<and> oe_attempts e = n \<and> oe_status e \<noteq> OeDead"
  using crashing_event [of n] by (metis list.set_intros(1) outbox_status.distinct(5,9))

subsection \<open>Requeueing for an aggregate\<close>

text \<open>
  The documentation of \<open>ensureAggregateEventScheduledWithExecutor\<close> says that the oldest dead
  event of the aggregate is put back only when it is of the requested type.  The statement puts it
  back whatever its type is, and only the answer depends on the type.
\<close>

theorem ensure_requeues_other_types:
  assumes "outbox_keys t" and "oldest_dead input t = Some d" and "oe_event_type d \<noteq> es_event_type input"
  shows "fst (ensure_aggregate_event_scheduled now input t) = False
    \<and> row_of (snd (ensure_aggregate_event_scheduled now input t)) (oe_id d) = Some (revive now d)
    \<and> oe_status (revive now d) = OePending"
proof -
  let ?t' = "update_where (\<lambda>e. oe_id e = oe_id d) (revive now) t"
  have "map oe_id ?t' = map oe_id t" "map oe_dedupe_key ?t' = map oe_dedupe_key t"
    by (simp_all add: map_update_where revive_def)
  then have "outbox_keys ?t'" using assms(1) unfolding outbox_keys_def by metis
  moreover have "revive now d \<in> set ?t'"
    using oldest_dead_Some(1) [OF assms(2)] by (auto simp: update_where_def)
  ultimately have "row_of ?t' (oe_id (revive now d)) = Some (revive now d)" by (rule row_of_Some)
  then show ?thesis
    using assms(2,3) by (simp add: ensure_aggregate_event_scheduled_def revive_def)
qed

definition sample_poison :: outbox_event where
  "sample_poison =
     poison_event 0 ''p'' \<lparr>ki_topic = ''t'', ki_partition = 0, ki_offset = ''7''\<rparr> (1, ''00'') ''no json'' (Some ''org'')"

definition sample_ensure :: ensure_input where
  "sample_ensure =
     \<lparr>es_organization = ''org'', es_event_type = ''finding.reconcile'', es_aggregate_type = ''kafka_message'',
      es_aggregate_id = ''t:0:7''\<rparr>"

lemma ensure_requeues_other_types_witness:
  "fst (ensure_aggregate_event_scheduled 5 sample_ensure [sample_poison]) = False
   \<and> row_of (snd (ensure_aggregate_event_scheduled 5 sample_ensure [sample_poison])) ''p'' = Some (revive 5 sample_poison)"
proof -
  have "outbox_keys [sample_poison]" by (simp add: outbox_keys_def)
  moreover have "case oldest_dead sample_ensure [sample_poison] of
      None \<Rightarrow> False | Some d \<Rightarrow> oe_id d = ''p'' \<and> oe_event_type d \<noteq> es_event_type sample_ensure"
    by code_simp
  then obtain d where d: "oldest_dead sample_ensure [sample_poison] = Some d" "oe_id d = ''p''"
    "oe_event_type d \<noteq> es_event_type sample_ensure"
    by (auto split: option.splits)
  moreover have "d = sample_poison" using oldest_dead_Some(1) [OF d(1)] by simp
  ultimately show ?thesis using ensure_requeues_other_types [of "[sample_poison]" sample_ensure d 5] by simp
qed

subsection \<open>Receipts\<close>

lemma has_dedupe_update_where:
  "(\<And>e. oe_dedupe_key (f e) = oe_dedupe_key e) \<Longrightarrow> has_dedupe_key (update_where P f t) k \<longleftrightarrow> has_dedupe_key t k"
  unfolding has_dedupe_key_def using map_update_where [of oe_dedupe_key f P t] by (metis list.set_map)

lemma has_dedupe_apply:
  assumes "has_dedupe_key t k" and "\<forall>type cutoff limit. op \<noteq> OpPurge type cutoff limit"
  shows "has_dedupe_key (outbox_apply op t) k"
proof (cases op)
  case (OpDispatch now w run c)
  with assms(1) show ?thesis
    by (auto simp: dispatch_def mark_completed_def reschedule_def has_dedupe_update_where split: dispatch_end.split)
next
  case (OpRequeue now i org hook)
  with assms(1) show ?thesis
    by (auto simp: requeue_dead_letter_def Let_def has_dedupe_update_where revive_def split: option.split)
next
  case (OpReceipt now i r failure)
  with assms(1) show ?thesis
    unfolding OpReceipt apply_receipt by (auto simp: insert_event_def has_dedupe_key_def)
qed (use assms in \<open>auto simp: enqueue_outbox_event_def insert_event_def claim_batch_def Let_def renew_lease_def
    ensure_aggregate_event_scheduled_def record_kafka_poison_message_def has_dedupe_update_where lock_event_def
    revive_def has_dedupe_key_def [of "_ @ _"] has_dedupe_key_def [of t] split: option.split\<close>)

lemma has_dedupe_run:
  "outbox_run ops t = Some t' \<Longrightarrow> \<forall>op \<in> set ops. \<forall>type cutoff limit. op \<noteq> OpPurge type cutoff limit
   \<Longrightarrow> has_dedupe_key t k \<Longrightarrow> has_dedupe_key t' k"
  by (induction ops arbitrary: t) (auto simp: has_dedupe_apply split: if_splits)

text \<open>
  C39: A Kafka message is projected exactly once.  When \<open>runKafkaMessageOnce\<close> answers \<open>true\<close> the
  projection has been applied, and whatever the outbox does until its receipts are cleaned up, a
  second delivery of the message answers \<open>false\<close> and changes nothing.  When the projection throws,
  no receipt is left and a later delivery runs it again.
\<close>

theorem kafka_messages_are_projected_once:
  assumes "run_kafka_message_once now i k org project (t, w) = (Inr True, t1, w1)"
    and "outbox_run ops t1 = Some t2" and "\<forall>op \<in> set ops. \<forall>type cutoff limit. op \<noteq> OpPurge type cutoff limit"
  shows "project w = Inr w1 \<and> \<not> has_kafka_message_receipt k t \<and> has_kafka_message_receipt k t2
    \<and> run_kafka_message_once now' i' k org' project' (t2, w2) = (Inr False, t2, w2)
    \<and> (\<forall>err. project'' w = Inl err \<longrightarrow> run_kafka_message_once now i k org project'' (t, w) = (Inl err, t, w))"
proof -
  have first: "project w = Inr w1" "\<not> has_dedupe_key t (kafka_receipt_dedupe_key k)"
    "oe_id (receipt_event now i (message_receipt k org)) \<notin> oe_id ` set t"
    "t1 = t @ [receipt_event now i (message_receipt k org)]"
    using assms(1) by (auto simp: run_kafka_message_once_def run_kafka_receipt_once_def insert_event_def
        receipt_event_def message_receipt_def split: if_splits sum.splits)
  then have "has_dedupe_key t1 (kafka_receipt_dedupe_key k)"
    by (simp add: has_dedupe_key_def receipt_event_def message_receipt_def)
  then have "has_dedupe_key t2 (kafka_receipt_dedupe_key k)" by (rule has_dedupe_run [OF assms(2,3)])
  with first show ?thesis
    by (auto simp: has_kafka_message_receipt_def run_kafka_message_once_def run_kafka_receipt_once_def
        insert_event_def receipt_event_def message_receipt_def)
qed

lemma kafka_messages_are_projected_once_witness:
  "let k = \<lparr>ki_topic = ''events'', ki_partition = 1, ki_offset = ''42''\<rparr>
   in \<exists>t. run_kafka_message_once 5 ''i'' k None (\<lambda>n. Inr (n + 1)) ([], 0 :: nat) = (Inr True, t, 1)
     \<and> run_kafka_message_once 6 ''j'' k None (\<lambda>n. Inr (n + 1)) (t, 1 :: nat) = (Inr False, t, 1)"
proof -
  let ?k = "\<lparr>ki_topic = ''events'', ki_partition = 1, ki_offset = ''42''\<rparr>"
  have first: "run_kafka_message_once 5 ''i'' ?k None (\<lambda>n. Inr (n + 1)) ([], 0 :: nat)
      = (Inr True, [receipt_event 5 ''i'' (message_receipt ?k None)], 1)"
    by (simp add: run_kafka_message_once_def run_kafka_receipt_once_def insert_event_def has_dedupe_key_def)
  have "run_kafka_message_once 6 ''j'' ?k None (\<lambda>n. Inr (n + 1)) ([receipt_event 5 ''i'' (message_receipt ?k None)], 1 :: nat)
      = (Inr False, [receipt_event 5 ''i'' (message_receipt ?k None)], 1)"
    by (rule kafka_messages_are_projected_once [OF first, of "[]" _ _ _ _ _ _ "\<lambda>_. Inl []", THEN conjunct2,
          THEN conjunct2, THEN conjunct2, THEN conjunct1]) simp_all
  with first show ?thesis unfolding Let_def by blast
qed

subsection \<open>Pages of dead letters\<close>

text \<open>All dead letters of an organization, the newest first, and the pages a client reads one after the other.\<close>

definition dead_letters :: "string \<Rightarrow> outbox \<Rightarrow> outbox" where
  "dead_letters org t =
     rev (sort_key event_key (filter (\<lambda>e. oe_organization e = Some org \<and> oe_status e = OeDead) t))"

fun dead_letter_pages :: "nat \<Rightarrow> string \<Rightarrow> int \<Rightarrow> cursor option \<Rightarrow> outbox \<Rightarrow> outbox list" where
  "dead_letter_pages 0 org limit c t = []"
| "dead_letter_pages (Suc n) org limit c t =
     (case list_dead_letters org limit c t of
        (items, None) \<Rightarrow> [items]
      | (items, Some c') \<Rightarrow> items # dead_letter_pages n org limit (Some c') t)"

lemma list_dead_letters_filter:
  "list_dead_letters org limit c t =
     (let page = bounded limit 100; rows = filter (before_cursor c) (dead_letters org t); items = take page rows
      in (items, if length rows > page then Some (js_date (oe_created_at (last items)), oe_id (last items)) else None))"
proof -
  let ?rows = "filter (before_cursor c) (dead_letters org t)" and ?page = "bounded limit 100"
  let ?items = "take ?page (take (?page + 1) ?rows)"
  let ?P = "\<lambda>e. oe_organization e = Some org \<and> oe_status e = OeDead"
  have "filter (\<lambda>e. oe_organization e = Some org \<and> oe_status e = OeDead \<and> before_cursor c e) t
      = filter (before_cursor c) (filter ?P t)"
    by (simp add: conj_assoc)
  then have rows: "rev (sort_key event_key
      (filter (\<lambda>e. oe_organization e = Some org \<and> oe_status e = OeDead \<and> before_cursor c e) t)) = ?rows"
    by (simp only: dead_letters_def filter_sort [symmetric] rev_filter)
  have page: "?page > 0" by (simp add: bounded_def)
  have items: "?items = take ?page ?rows" by simp
  have "length (take (?page + 1) ?rows) > ?page \<and> ?items \<noteq> [] \<longleftrightarrow> length ?rows > ?page"
    unfolding items using page by auto
  then show ?thesis unfolding list_dead_letters_def rows Let_def items by simp
qed

lemma sorted_desc_filter:
  fixes k :: "'a \<Rightarrow> 'b::linorder"
  assumes "sorted_wrt (\<lambda>a b. k b < k a) xs" and "i < length xs"
  shows "filter (\<lambda>e. k e < k (xs ! i)) xs = drop (Suc i) xs"
  using assms
proof (induction xs arbitrary: i)
  case (Cons x xs)
  show ?case
  proof (cases i)
    case 0
    with Cons.prems show ?thesis by (auto simp: filter_id_conv)
  next
    case (Suc j)
    with Cons.prems have "k (xs ! j) < k x" "j < length xs" by simp_all
    moreover from this have "\<not> k x < k (xs ! j)" by simp
    ultimately show ?thesis using Cons.IH [of j] Cons.prems(1) Suc by simp
  qed
qed simp

lemma dead_letters_desc:
  assumes "outbox_keys t"
  shows "sorted_wrt (\<lambda>a b. event_key b < event_key a) (dead_letters org t)"
proof -
  let ?xs = "sort_key event_key (filter (\<lambda>e. oe_organization e = Some org \<and> oe_status e = OeDead) t)"
  have inj: "inj_on event_key (set t)"
    using assms same_id [of t] by (auto simp: inj_on_def outbox_keys_def event_key_def)
  have "distinct ?xs" using assms by (simp add: outbox_keys_def distinct_map)
  then have "distinct (map event_key ?xs)"
    using inj by (auto simp: distinct_map intro: inj_on_subset)
  then have "sorted_wrt (<) (map event_key ?xs)" by (simp add: strict_sorted_iff)
  then show ?thesis by (simp add: dead_letters_def sorted_wrt_map sorted_wrt_rev)
qed

lemma pages_from:
  assumes "outbox_keys t" and "\<forall>e \<in> set t. js_date (oe_created_at e) = oe_created_at e"
    and "filter (before_cursor c) (dead_letters org t) = drop k (dead_letters org t)"
    and "length (dead_letters org t) < n + k"
  shows "concat (dead_letter_pages n org limit c t) = drop k (dead_letters org t)"
  using assms(3,4)
proof (induction n arbitrary: c k)
  case (Suc n)
  let ?L = "dead_letters org t" and ?page = "bounded limit 100"
  have page: "?page > 0" by (simp add: bounded_def)
  show ?case
  proof (cases "length (drop k ?L) > ?page")
    case False
    with Suc.prems show ?thesis by (simp add: list_dead_letters_filter Let_def)
  next
    case True
    let ?i = "k + ?page - 1"
    have i: "?i < length ?L" and Suc_i: "Suc ?i = k + ?page" using True page by simp_all
    have "last (take ?page (drop k ?L)) = take ?page (drop k ?L) ! (?page - 1)"
      using True page by (subst last_conv_nth) (auto simp: min_def)
    then have last: "last (take ?page (drop k ?L)) = ?L ! ?i" using True page by simp
    have "?L ! ?i \<in> set t" using nth_mem [OF i] by (auto simp: dead_letters_def)
    with assms(2) have date: "js_date (oe_created_at (?L ! ?i)) = oe_created_at (?L ! ?i)" by blast
    let ?c = "Some (oe_created_at (?L ! ?i), oe_id (?L ! ?i))"
    have "before_cursor ?c = (\<lambda>e. event_key e < event_key (?L ! ?i))"
      by (simp add: before_cursor_def event_key_def less_event_key_def fun_eq_iff)
    then have "filter (before_cursor ?c) ?L = drop (k + ?page) ?L"
      using sorted_desc_filter [OF dead_letters_desc [OF assms(1)] i] unfolding Suc_i by simp
    from Suc.IH [OF this] Suc.prems(2) page
    have "concat (dead_letter_pages n org limit ?c t) = drop (k + ?page) ?L" by simp
    with True Suc.prems(1) last date show ?thesis
      by (simp add: list_dead_letters_filter Let_def add.commute [of k] drop_drop [symmetric] del: drop_drop)
  qed
qed simp

text \<open>
  Reading the dead letters page by page, each time from the cursor of the page before, gives
  every dead letter of the organization exactly once, from the newest to the oldest, provided that
  the rows were created on whole milliseconds.
\<close>

theorem pages_list_all_dead_letters:
  assumes "outbox_reachable t" and "\<forall>e \<in> set t. js_date (oe_created_at e) = oe_created_at e"
    and "length (dead_letters org t) < n"
  shows "concat (dead_letter_pages n org limit None t) = dead_letters org t
    \<and> set (dead_letters org t) = {e \<in> set t. oe_organization e = Some org \<and> oe_status e = OeDead}
    \<and> distinct (dead_letters org t)"
proof (intro conjI)
  have keys: "outbox_keys t" by (rule reachable_keys [OF assms(1)])
  have "filter (before_cursor None) (dead_letters org t) = drop 0 (dead_letters org t)"
    by (simp add: before_cursor_def)
  from pages_from [OF keys assms(2) this] assms(3)
  show "concat (dead_letter_pages n org limit None t) = dead_letters org t" by simp
  show "set (dead_letters org t) = {e \<in> set t. oe_organization e = Some org \<and> oe_status e = OeDead}"
    by (auto simp: dead_letters_def)
  show "distinct (dead_letters org t)" using keys by (simp add: dead_letters_def outbox_keys_def distinct_map)
qed

definition poison_ops :: "time \<Rightarrow> outbox_op list" where
  "poison_ops now =
     [OpPoison now ''a'' \<lparr>ki_topic = ''t'', ki_partition = 0, ki_offset = ''1''\<rparr> (1, ''00'') ''bad'' (Some ''org''),
      OpPoison now ''b'' \<lparr>ki_topic = ''t'', ki_partition = 0, ki_offset = ''2''\<rparr> (1, ''00'') ''bad'' (Some ''org'')]"

lemma pages_list_all_dead_letters_witness:
  "\<exists>t. outbox_run (poison_ops 7000) [] = Some t \<and> length (concat (dead_letter_pages 3 ''org'' 1 None t)) = 2"
proof -
  have "case outbox_run (poison_ops 7000) [] of None \<Rightarrow> False
    | Some t \<Rightarrow> list_all (\<lambda>e. js_date (oe_created_at e) = oe_created_at e) t \<and> length (dead_letters ''org'' t) = 2"
    by code_simp
  then obtain t where t: "outbox_run (poison_ops 7000) [] = Some t"
    "list_all (\<lambda>e. js_date (oe_created_at e) = oe_created_at e) t" "length (dead_letters ''org'' t) = 2"
    by (auto split: option.splits)
  have "concat (dead_letter_pages 3 ''org'' 1 None t) = dead_letters ''org'' t"
    using pages_list_all_dead_letters [OF outbox_run_reachable [OF t(1) outbox_reachable.empty], of "''org''" 3 1] t(2,3)
    by (simp add: list_all_iff)
  with t show ?thesis by auto
qed

text \<open>
  Code bug.  The cursor is a \<open>Date\<close> and so loses the microseconds of \<open>created_at\<close>, which
  the database compares with.  Of two dead letters that one transaction stored 400 microseconds
  after a full millisecond, a client that reads pages of one is given the first only.
\<close>

definition fine_letter :: "string \<Rightarrow> outbox_event" where
  "fine_letter i =
     (enqueued_event 0 7000400 i (sample_enqueue i))\<lparr>oe_status := OeDead, oe_attempts := 8\<rparr>"

theorem pages_skip_dead_letters:
  "length (dead_letters ''org'' [fine_letter ''a'', fine_letter ''b'']) = 2
   \<and> map (map oe_id) (dead_letter_pages n ''org'' 1 None [fine_letter ''a'', fine_letter ''b''])
     = take n [[''b''], []]"
proof -
  let ?t = "[fine_letter ''a'', fine_letter ''b'']"
  have "length (dead_letters ''org'' ?t) = 2" by code_simp
  moreover have first: "list_dead_letters ''org'' 1 None ?t = ([fine_letter ''b''], Some (7000000, ''b''))" by code_simp
  moreover have second: "list_dead_letters ''org'' 1 (Some (7000000, ''b'')) ?t = ([], None)" by code_simp
  moreover have "oe_id (fine_letter ''b'') = ''b''" by (simp add: fine_letter_def enqueued_event_def)
  moreover have "n = 0 \<or> n = 1 \<or> (\<exists>m. n = Suc (Suc m))" by (metis One_nat_def not0_implies_Suc)
  ultimately show ?thesis by (elim disjE exE) simp_all
qed

subsection \<open>Cleaning up\<close>

definition expired_events :: "string \<Rightarrow> time \<Rightarrow> outbox \<Rightarrow> outbox" where
  "expired_events type cutoff t = sort_key event_key (filter (expired type cutoff) t)"

lemma purge_completed_rows:
  assumes "outbox_keys t"
  shows "purge_completed type cutoff (int CLEANUP_BATCH_SIZE) t
    = (length (take CLEANUP_BATCH_SIZE (expired_events type cutoff t)),
       filter (\<lambda>e. e \<notin> set (take CLEANUP_BATCH_SIZE (expired_events type cutoff t))) t)"
proof -
  let ?X = "take CLEANUP_BATCH_SIZE (expired_events type cutoff t)"
  have size: "bounded (int CLEANUP_BATCH_SIZE) MAX_RECEIPT_CLEANUP_BATCH_SIZE = CLEANUP_BATCH_SIZE"
    by (simp add: bounded_def CLEANUP_BATCH_SIZE_def MAX_RECEIPT_CLEANUP_BATCH_SIZE_def)
  have sub: "set ?X \<subseteq> set t" by (auto simp: expired_events_def dest!: in_set_takeD)
  have ids: "distinct (map oe_id t)" using assms by (simp add: outbox_keys_def)
  have "oe_id e \<in> oe_id ` set ?X \<longleftrightarrow> e \<in> set ?X" if e: "e \<in> set t" for e
  proof
    assume "oe_id e \<in> oe_id ` set ?X"
    then obtain f where f: "f \<in> set ?X" "oe_id e = oe_id f" by blast
    with sub have "f \<in> set t" by blast
    from same_id [OF ids e this f(2)] f(1) show "e \<in> set ?X" by simp
  qed (rule imageI)
  then have "filter (\<lambda>e. oe_id e \<notin> set (map oe_id ?X)) t = filter (\<lambda>e. e \<notin> set ?X) t"
    by (intro filter_cong) simp_all
  then show ?thesis
    unfolding purge_completed_def Let_def size expired_events_def [symmetric] by simp
qed

lemma filter_swap: "filter P (filter Q xs) = filter Q (filter P xs)"
  by (induction xs) auto

lemma filter_notin_take:
  assumes "distinct xs"
  shows "filter (\<lambda>e. e \<notin> set (take n xs)) xs = drop n xs"
proof -
  have "set (take n xs) \<inter> set (drop n xs) = {}"
    using assms by (simp add: set_take_disj_set_drop_if_distinct)
  then have "filter (\<lambda>e. e \<notin> set (take n xs)) (drop n xs) = drop n xs"
    by (auto simp: filter_id_conv)
  moreover have "filter (\<lambda>e. e \<notin> set (take n xs)) (take n xs) = []" by simp
  ultimately show ?thesis by (metis append_Nil append_take_drop_id filter_append)
qed

lemma expired_after_removal:
  assumes "outbox_keys t"
  shows "expired_events type cutoff (filter (\<lambda>e. e \<notin> set (take n (expired_events type cutoff t))) t)
    = drop n (expired_events type cutoff t)"
proof -
  let ?M = "expired_events type cutoff t"
  have "distinct ?M" using assms by (simp add: expired_events_def outbox_keys_def distinct_map)
  then have "filter (\<lambda>e. e \<notin> set (take n ?M)) ?M = drop n ?M" by (rule filter_notin_take)
  moreover have "expired_events type cutoff (filter (\<lambda>e. e \<notin> set (take n ?M)) t) = filter (\<lambda>e. e \<notin> set (take n ?M)) ?M"
    using filter_swap [of "expired type cutoff" "\<lambda>e. e \<notin> set (take n ?M)" t]
    by (simp only: expired_events_def filter_sort)
  ultimately show ?thesis by simp
qed

lemma outbox_keys_filter: "outbox_keys t \<Longrightarrow> outbox_keys (filter P t)"
  by (simp add: outbox_keys_def distinct_map_filter)

lemma drain_batches_rows:
  assumes "outbox_keys t"
  shows "drain_batches (purge_completed type cutoff (int CLEANUP_BATCH_SIZE)) n t
    = (length (take (n * CLEANUP_BATCH_SIZE) (expired_events type cutoff t)),
       filter (\<lambda>e. e \<notin> set (take (n * CLEANUP_BATCH_SIZE) (expired_events type cutoff t))) t)"
  using assms
proof (induction n arbitrary: t)
  case 0
  then show ?case by simp
next
  case (Suc n)
  let ?M = "expired_events type cutoff t" and ?k = CLEANUP_BATCH_SIZE
  let ?t' = "filter (\<lambda>e. e \<notin> set (take ?k ?M)) t"
  have one: "purge_completed type cutoff (int ?k) t = (length (take ?k ?M), ?t')"
    by (rule purge_completed_rows [OF Suc.prems])
  show ?case
  proof (cases "length ?M < ?k")
    case True
    then show ?thesis by (simp add: one)
  next
    case False
    have "expired_events type cutoff ?t' = drop ?k ?M" by (rule expired_after_removal [OF Suc.prems])
    with Suc.IH [OF outbox_keys_filter [OF Suc.prems]]
    have more: "drain_batches (purge_completed type cutoff (int ?k)) n ?t'
        = (length (take (n * ?k) (drop ?k ?M)), filter (\<lambda>e. e \<notin> set (take (n * ?k) (drop ?k ?M))) ?t')"
      by simp
    have split: "take (Suc n * ?k) ?M = take ?k ?M @ take (n * ?k) (drop ?k ?M)" by (simp add: take_add)
    have "length (take ?k ?M) = ?k" using False by simp
    then show ?thesis using more unfolding split by (simp add: one conj_commute)
  qed
qed

text \<open>
  C40: A cleanup removes, of the receipts and of the delivered publications that were created before
  the retention period, the oldest 200000 of each kind, so all of them unless there are more, and
  returns how many it removed; it never removes an event that is not completed, nor any other.
\<close>

theorem cleanup_removes_the_oldest:
  assumes "outbox_reachable t" and "cutoff = now - days * 24 * 60 * 60 * 1000 * 1000"
    and "receipts = take 200000 (expired_events KAFKA_INGEST_RECEIPT_EVENT_TYPE cutoff t)"
    and "publications = take 200000 (expired_events DURABLE_KAFKA_PUBLISH_EVENT cutoff t)"
  shows "cleanup_once days now t
      = (length receipts + length publications, filter (\<lambda>e. e \<notin> set receipts \<and> e \<notin> set publications) t)
    \<and> (\<forall>e \<in> set receipts \<union> set publications. oe_status e = OeCompleted \<and> oe_created_at e < cutoff)"
proof -
  let ?R = "expired_events KAFKA_INGEST_RECEIPT_EVENT_TYPE cutoff"
    and ?P = "expired_events DURABLE_KAFKA_PUBLISH_EVENT cutoff" and ?n = "MAX_BATCHES_PER_CLEANUP * CLEANUP_BATCH_SIZE"
  have keys: "outbox_keys t" by (rule reachable_keys [OF assms(1)])
  have n: "?n = 200000" by (simp add: MAX_BATCHES_PER_CLEANUP_def CLEANUP_BATCH_SIZE_def)
  let ?t1 = "filter (\<lambda>e. e \<notin> set (take ?n (?R t))) t"
  have "\<not> expired DURABLE_KAFKA_PUBLISH_EVENT cutoff e" if "e \<in> set (take ?n (?R t))" for e
    using that by (auto simp: expired_events_def expired_def KAFKA_INGEST_RECEIPT_EVENT_TYPE_def
        DURABLE_KAFKA_PUBLISH_EVENT_def dest!: in_set_takeD)
  then have "?P ?t1 = ?P t"
    by (auto simp: expired_events_def intro!: arg_cong [of _ _ "sort_key event_key"] filter_cong)
  then have "cleanup_once days now t
      = (length (take ?n (?R t)) + length (take ?n (?P t)),
         filter (\<lambda>e. e \<notin> set (take ?n (?P t))) ?t1)"
    using drain_batches_rows [OF keys] drain_batches_rows [OF outbox_keys_filter [OF keys]]
    unfolding cleanup_once_def purge_kafka_receipts_before_def purge_completed_telemetry_publications_before_def
    by (simp add: Let_def assms(2))
  then show ?thesis
    unfolding n assms(3,4) by (auto simp: expired_events_def expired_def dest!: in_set_takeD)
qed

lemma cleanup_removes_the_oldest_witness:
  "\<exists>t. outbox_run sample_ops [] = Some t \<and> snd (cleanup_once 30 0 t) = t"
proof -
  obtain p e where pe: "outbox_run sample_ops [] = Some [p, e]" using sample_run by blast
  have "case outbox_run sample_ops [] of None \<Rightarrow> False
    | Some t \<Rightarrow> list_all (\<lambda>e. oe_created_at e \<ge> 0) t"
    by code_simp
  then have new: "oe_created_at p \<ge> 0" "oe_created_at e \<ge> 0" using pe by simp_all
  then have none: "expired_events type cutoff [p, e] = []" if "cutoff \<le> 0" for type cutoff
    using that by (simp add: expired_events_def expired_def)
  have "snd (cleanup_once 30 0 [p, e]) = [p, e]"
    using cleanup_removes_the_oldest [OF outbox_run_reachable [OF pe outbox_reachable.empty] refl refl refl, of 30 0]
    by (simp add: none)
  with pe show ?thesis by blast
qed

end
