(* ===== verification/Runtime_Lease.thy ===== *)
theory Runtime_Lease
  imports Json Fencing
begin

section \<open>Leases of MCP runtimes\<close>

text \<open>
  \<open>worker/src/mcp-runtime\<close>: which process runs the runtime of a key is decided by a lease in Redis,
  one per hash of a runtime key.  Each script of \<open>mcp-runtime-lease.scripts.ts\<close> is atomic; the
  repository (\<open>mcp-runtime-lease.repository.ts\<close>) calls them and checks what they return.

  A value with a time to live is stored with the millisecond it expires at and is there up to and
  including it.  Times are those of the Redis server.  A stored lease is the record, not its JSON
  text.  The hash, the serializations of keys, the collation of \<open>localeCompare\<close> and what Lua's JSON
  library makes of a key (it rounds large integers) are fields of \<open>lease_env\<close>.
\<close>

record fence =
  fe_runtime :: string
  fe_owner :: string
  fe_epoch :: string
  fe_generation :: nat

datatype lease_state = Starting | Ready | Draining

record publication =
  pb_address :: string
  pb_era :: string
  pb_version :: string
  pb_fingerprint :: string

record runtime_key =
  rk_source :: string
  rk_transport :: string
  rk_config :: string
  rk_organization :: "string option"
  rk_principal :: string
  rk_credential :: "string option"
  rk_credential_generation :: "nat option"

text \<open>Version 1 stored the key itself, version 2 stores its hash and its text.\<close>

datatype stored_key = KeyV1 runtime_key | KeyV2 string string

record lease =
  le_key :: stored_key
  le_address :: string
  le_fence :: fence
  le_state :: lease_state
  le_expires_at :: nat
  le_published :: "publication option"

type_synonym owner = "string \<times> string"

definition owner_of :: "fence \<Rightarrow> owner" where
  "owner_of f = (fe_owner f, fe_epoch f)"

record redis =
  rd_now :: nat
  rd_leases :: "(string, lease \<times> nat) js_map"
  rd_generations :: "(string, nat) js_map"
  rd_owners :: "(owner, (string, nat) js_map \<times> nat) js_map"

subsection \<open>The scripts\<close>

definition get_lease :: "redis \<Rightarrow> string \<Rightarrow> lease option" where
  "get_lease s h =
     (case map_of (rd_leases s) h of
        None \<Rightarrow> None | Some (l, expires) \<Rightarrow> if rd_now s \<le> expires then Some l else None)"

definition set_lease :: "string \<Rightarrow> lease \<Rightarrow> nat \<Rightarrow> redis \<Rightarrow> redis" where
  "set_lease h l ttl s = s\<lparr>rd_leases := AList.update h (l, rd_now s + ttl) (rd_leases s)\<rparr>"

definition del_lease :: "string \<Rightarrow> redis \<Rightarrow> redis" where
  "del_lease h s = s\<lparr>rd_leases := AList.delete h (rd_leases s)\<rparr>"

definition owner_index :: "redis \<Rightarrow> owner \<Rightarrow> (string, nat) js_map" where
  "owner_index s o1 =
     (case map_of (rd_owners s) o1 of
        None \<Rightarrow> [] | Some (scores, expires) \<Rightarrow> if rd_now s \<le> expires then scores else [])"

text \<open>\<open>refresh_owner_index\<close>, given the scores that the index has now.\<close>

definition refresh_owner_index :: "owner \<Rightarrow> (string, nat) js_map \<Rightarrow> redis \<Rightarrow> redis" where
  "refresh_owner_index o1 scores s =
     (let kept = filter (\<lambda>hs. snd hs > rd_now s) scores
      in if kept = [] then s\<lparr>rd_owners := AList.delete o1 (rd_owners s)\<rparr>
         else s\<lparr>rd_owners := AList.update o1 (kept, Max (snd ` set kept)) (rd_owners s)\<rparr>)"

definition index_add :: "owner \<Rightarrow> string \<Rightarrow> nat \<Rightarrow> redis \<Rightarrow> redis" where
  "index_add o1 h score s = refresh_owner_index o1 (AList.update h score (owner_index s o1)) s"

definition index_remove :: "owner \<Rightarrow> string \<Rightarrow> redis \<Rightarrow> redis" where
  "index_remove o1 h s = refresh_owner_index o1 (AList.delete h (owner_index s o1)) s"

text \<open>What the scripts do to keep a lease: the lease with its new expiry, and its place in the index.\<close>

definition keep_lease :: "string \<Rightarrow> lease \<Rightarrow> nat \<Rightarrow> redis \<Rightarrow> lease \<times> redis" where
  "keep_lease h l ttl s =
     (let l' = l\<lparr>le_expires_at := rd_now s + ttl\<rparr>
      in (l', index_add (owner_of (le_fence l)) h (rd_now s + ttl) (set_lease h l' ttl s)))"

definition reserve_script ::
  "string \<Rightarrow> string \<Rightarrow> owner \<Rightarrow> string \<Rightarrow> string \<Rightarrow> nat \<Rightarrow> redis \<Rightarrow> (bool \<times> lease) \<times> redis" where
  "reserve_script h runtime o1 address key_json ttl s =
     (case get_lease s h of
        Some l \<Rightarrow> ((False, l), s)
      | None \<Rightarrow>
          let generation = get_or 0 (rd_generations s) h + 1;
              s1 = s\<lparr>rd_generations := AList.update h generation (rd_generations s)\<rparr>;
              l = \<lparr>le_key = KeyV2 h key_json, le_address = address,
                   le_fence = \<lparr>fe_runtime = runtime, fe_owner = fst o1, fe_epoch = snd o1,
                               fe_generation = generation\<rparr>,
                   le_state = Starting, le_expires_at = 0, le_published = None\<rparr>
          in case keep_lease h l ttl s1 of (l', s2) \<Rightarrow> ((True, l'), s2))"

datatype script_result = Refused | AddressDiffers | Conflicts | Done lease

definition publish_ready_script :: "string \<Rightarrow> fence \<Rightarrow> publication \<Rightarrow> nat \<Rightarrow> redis \<Rightarrow> script_result \<times> redis" where
  "publish_ready_script h f pub ttl s =
     (case get_lease s h of
        None \<Rightarrow> (Refused, s)
      | Some l \<Rightarrow>
          if le_fence l \<noteq> f then (Refused, s)
          else if le_address l \<noteq> pb_address pub then (AddressDiffers, s)
          else if le_state l = Ready then
            (if le_published l = Some pub then (Done l, s) else (Conflicts, s))
          else if le_state l \<noteq> Starting then (Refused, s)
          else (case keep_lease h (l\<lparr>le_state := Ready, le_published := Some pub\<rparr>) ttl s of
                  (l', s') \<Rightarrow> (Done l', s')))"

definition renew_script :: "string \<Rightarrow> fence \<Rightarrow> nat \<Rightarrow> redis \<Rightarrow> script_result \<times> redis" where
  "renew_script h f ttl s =
     (case get_lease s h of
        None \<Rightarrow> (Refused, s)
      | Some l \<Rightarrow>
          if le_fence l \<noteq> f then (Refused, s)
          else if le_state l \<noteq> Ready then (Refused, s)
          else (case keep_lease h l ttl s of (l', s') \<Rightarrow> (Done l', s')))"

definition remaining_ttl :: "redis \<Rightarrow> string \<Rightarrow> nat" where
  "remaining_ttl s h = (case map_of (rd_leases s) h of None \<Rightarrow> 0 | Some (l, expires) \<Rightarrow> expires - rd_now s)"

definition begin_drain_script :: "string \<Rightarrow> fence \<Rightarrow> redis \<Rightarrow> script_result \<times> redis" where
  "begin_drain_script h f s =
     (case get_lease s h of
        None \<Rightarrow> (Refused, s)
      | Some l \<Rightarrow>
          if le_fence l \<noteq> f then (Refused, s)
          else if le_state l = Draining then (Done l, s)
          else if le_state l \<noteq> Ready then (Refused, s)
          else if remaining_ttl s h = 0 then (Refused, s)
          else (case keep_lease h (l\<lparr>le_state := Draining\<rparr>) (remaining_ttl s h) s of
                  (l', s') \<Rightarrow> (Done l', s')))"

definition compare_and_delete_script :: "string \<Rightarrow> fence \<Rightarrow> redis \<Rightarrow> bool \<times> redis" where
  "compare_and_delete_script h f s =
     (case get_lease s h of
        None \<Rightarrow> (False, s)
      | Some l \<Rightarrow>
          if le_fence l \<noteq> f then (False, s)
          else (True, index_remove (owner_of f) h (del_lease h s)))"

text \<open>\<open>lua_round\<close>: a key after a round trip through Lua's JSON library.\<close>

definition delete_exact_legacy_starting_script ::
  "(runtime_key \<Rightarrow> runtime_key) \<Rightarrow> string \<Rightarrow> lease \<Rightarrow> owner \<Rightarrow> runtime_key \<Rightarrow> redis \<Rightarrow> bool \<times> redis" where
  "delete_exact_legacy_starting_script lua_round h expected o1 k s =
     (case get_lease s h of
        None \<Rightarrow> (False, s)
      | Some l \<Rightarrow>
          if l \<noteq> expected then (False, s)
          else (case le_key l of
                  KeyV2 _ _ \<Rightarrow> (False, s)
                | KeyV1 stored \<Rightarrow>
                    if le_state l \<noteq> Starting then (False, s)
                    else if stored \<noteq> lua_round k then (False, s)
                    else (True, index_remove o1 h (del_lease h s))))"

subsection \<open>The repository\<close>

record lease_env =
  en_hash :: "runtime_key \<Rightarrow> string"
  en_serialize :: "runtime_key \<Rightarrow> string"
  en_json :: "runtime_key \<Rightarrow> string"
  en_parse :: "string \<Rightarrow> runtime_key option"
  en_lua_round :: "runtime_key \<Rightarrow> runtime_key"
  en_collate :: "string \<Rightarrow> nat"

datatype lease_error =
    KeyNotJson
  | KeyHashDiffers
  | IdentityDiffers
  | UnexpectedState lease_state
  | AddressDiffersError
  | PublicationConflicts
  | NotSettled
  | OwnerIndexDiffers

record decoded_lease =
  dl_legacy :: bool
  dl_key :: runtime_key
  dl_hash :: string
  dl_ref :: lease

definition decode_stored_lease :: "lease_env \<Rightarrow> lease \<Rightarrow> lease_error + decoded_lease" where
  "decode_stored_lease env l =
     (case le_key l of
        KeyV1 k \<Rightarrow> Inr \<lparr>dl_legacy = True, dl_key = k, dl_hash = en_hash env k, dl_ref = l\<rparr>
      | KeyV2 h json \<Rightarrow>
          (case en_parse env json of
             None \<Rightarrow> Inl KeyNotJson
           | Some k \<Rightarrow>
               if en_hash env k \<noteq> h then Inl KeyHashDiffers
               else Inr \<lparr>dl_legacy = False, dl_key = k, dl_hash = h, dl_ref = l\<rparr>))"

definition runtime_identity_matches :: "lease_env \<Rightarrow> decoded_lease \<Rightarrow> runtime_key \<Rightarrow> bool" where
  "runtime_identity_matches env d k \<longleftrightarrow>
     dl_hash d = en_hash env k \<and> en_serialize env (dl_key d) = en_serialize env k"

definition is_potentially_rounded :: "lease_env \<Rightarrow> decoded_lease \<Rightarrow> runtime_key \<Rightarrow> bool" where
  "is_potentially_rounded env d k \<longleftrightarrow>
     (if \<not> dl_legacy d \<or> le_state (dl_ref d) \<noteq> Starting then False
      else if rk_credential_generation k = None \<or> rk_credential_generation (dl_key d) = None
           \<or> rk_credential_generation (dl_key d) = rk_credential_generation k then False
      else en_serialize env (dl_key d)
           = en_serialize env (k\<lparr>rk_credential_generation := rk_credential_generation (dl_key d)\<rparr>))"

definition MAX_RESERVE_ATTEMPTS :: nat where
  "MAX_RESERVE_ATTEMPTS = 4"

text \<open>The loop of \<open>reserve\<close>; the list holds the fresh runtime id of each attempt that is left.\<close>

fun reserve_attempts ::
  "lease_env \<Rightarrow> runtime_key \<Rightarrow> owner \<Rightarrow> string \<Rightarrow> nat \<Rightarrow> string list \<Rightarrow> redis
   \<Rightarrow> (lease_error + bool \<times> lease) \<times> redis" where
  "reserve_attempts env k o1 address ttl [] s = (Inl NotSettled, s)"
| "reserve_attempts env k o1 address ttl (runtime # runtimes) s =
     (case reserve_script (en_hash env k) runtime o1 address (en_json env k) ttl s of
        ((created, l), s1) \<Rightarrow>
          (case decode_stored_lease env l of
             Inl err \<Rightarrow> (Inl err, s1)
           | Inr d \<Rightarrow>
               if runtime_identity_matches env d k then (Inr (created, l), s1)
               else if \<not> is_potentially_rounded env d k then (Inl IdentityDiffers, s1)
               else reserve_attempts env k o1 address ttl runtimes
                      (snd (delete_exact_legacy_starting_script (en_lua_round env) (en_hash env k) l
                              (owner_of (le_fence l)) k s1))))"

definition reserve ::
  "lease_env \<Rightarrow> runtime_key \<Rightarrow> owner \<Rightarrow> string \<Rightarrow> nat \<Rightarrow> (nat \<Rightarrow> string) \<Rightarrow> redis
   \<Rightarrow> (lease_error + bool \<times> lease) \<times> redis" where
  "reserve env k o1 address ttl fresh s =
     reserve_attempts env k o1 address ttl (map fresh [0..<MAX_RESERVE_ATTEMPTS]) s"

definition checked_lease :: "lease_env \<Rightarrow> runtime_key \<Rightarrow> lease \<Rightarrow> lease_error + lease" where
  "checked_lease env k l =
     bind_result (decode_stored_lease env l) (\<lambda>d.
       if runtime_identity_matches env d k then Inr (dl_ref d) else Inl IdentityDiffers)"

definition expected_state :: "lease_env \<Rightarrow> runtime_key \<Rightarrow> lease_state \<Rightarrow> lease \<Rightarrow> lease_error + lease" where
  "expected_state env k st l =
     bind_result (checked_lease env k l) (\<lambda>r. if le_state r \<noteq> st then Inl (UnexpectedState (le_state r)) else Inr r)"

definition read_lease :: "lease_env \<Rightarrow> runtime_key \<Rightarrow> redis \<Rightarrow> lease_error + lease option" where
  "read_lease env k s =
     (case get_lease s (en_hash env k) of
        None \<Rightarrow> Inr None | Some l \<Rightarrow> map_sum (\<lambda>e. e) Some (checked_lease env k l))"

definition matches_fence_by_hash :: "lease_env \<Rightarrow> string \<Rightarrow> fence \<Rightarrow> redis \<Rightarrow> lease_error + bool" where
  "matches_fence_by_hash env h f s =
     (case get_lease s h of
        None \<Rightarrow> Inr False
      | Some l \<Rightarrow>
          if remaining_ttl s h = 0 then Inr False
          else bind_result (decode_stored_lease env l) (\<lambda>d.
                 if dl_hash d \<noteq> h then Inl IdentityDiffers else Inr (le_fence (dl_ref d) = f)))"

definition script_ref ::
  "lease_env \<Rightarrow> runtime_key \<Rightarrow> lease_state \<Rightarrow> script_result \<times> redis \<Rightarrow> (lease_error + lease option) \<times> redis" where
  "script_ref env k st r =
     (case r of
        (Refused, s) \<Rightarrow> (Inr None, s)
      | (AddressDiffers, s) \<Rightarrow> (Inl AddressDiffersError, s)
      | (Conflicts, s) \<Rightarrow> (Inl PublicationConflicts, s)
      | (Done l, s) \<Rightarrow> (map_sum (\<lambda>e. e) Some (expected_state env k st l), s))"

definition publish_ready ::
  "lease_env \<Rightarrow> nat \<Rightarrow> runtime_key \<Rightarrow> fence \<Rightarrow> publication \<Rightarrow> redis \<Rightarrow> (lease_error + lease option) \<times> redis" where
  "publish_ready env ttl k f pub s = script_ref env k Ready (publish_ready_script (en_hash env k) f pub ttl s)"

definition renew :: "lease_env \<Rightarrow> nat \<Rightarrow> runtime_key \<Rightarrow> fence \<Rightarrow> redis \<Rightarrow> (lease_error + lease option) \<times> redis" where
  "renew env ttl k f s = script_ref env k Ready (renew_script (en_hash env k) f ttl s)"

definition begin_drain :: "lease_env \<Rightarrow> runtime_key \<Rightarrow> fence \<Rightarrow> redis \<Rightarrow> (lease_error + lease option) \<times> redis" where
  "begin_drain env k f s = script_ref env k Draining (begin_drain_script (en_hash env k) f s)"

definition compare_and_delete :: "lease_env \<Rightarrow> runtime_key \<Rightarrow> fence \<Rightarrow> redis \<Rightarrow> bool \<times> redis" where
  "compare_and_delete env k f s = compare_and_delete_script (en_hash env k) f s"

text \<open>\<open>listOwned\<close>: what the index names, as far as it is still owned and has not run out.\<close>

definition owned_lease :: "lease_env \<Rightarrow> owner \<Rightarrow> redis \<Rightarrow> string \<Rightarrow> lease_error + decoded_lease option" where
  "owned_lease env o1 s h =
     (case get_lease s h of
        None \<Rightarrow> Inr None
      | Some l \<Rightarrow>
          bind_result (decode_stored_lease env l) (\<lambda>d.
            if dl_hash d \<noteq> h then Inl OwnerIndexDiffers
            else if owner_of (le_fence l) \<noteq> o1 then Inr None
            else if le_expires_at l \<le> rd_now s then Inr None
            else Inr (Some d)))"

definition list_owned :: "lease_env \<Rightarrow> owner \<Rightarrow> redis \<Rightarrow> lease_error + decoded_lease list" where
  "list_owned env o1 s =
     (let hashes = map fst (filter (\<lambda>hs. rd_now s \<le> snd hs) (owner_index s o1))
      in bind_result (traverse (owned_lease env o1 s) hashes) (\<lambda>ds.
           Inr (sort_key (\<lambda>d. en_collate env (en_serialize env (dl_key d))) (map the (filter (\<lambda>d. d \<noteq> None) ds)))))"

text \<open>The options of the repository.\<close>

definition positive_ttl :: "js_num \<Rightarrow> nat option" where
  "positive_ttl n =
     (case n of
        Finite r \<Rightarrow>
          if r = of_int \<lfloor>r\<rfloor> \<and> 0 < r \<and> r \<le> 24 * 60 * 60 * 1000 then Some (nat \<lfloor>r\<rfloor>) else None
      | _ \<Rightarrow> None)"

definition normalized_key_prefix :: "string \<Rightarrow> string option" where
  "normalized_key_prefix given =
     (let p = rev (dropWhile (\<lambda>c. c = CHR '':'') (rev given))
      in if p = [] \<or> length p > 256 \<or> list_ex js_space p \<or> list_ex (\<lambda>c. c \<in> set ''*?[]'') p then None else Some p)"

subsection \<open>Steps\<close>

datatype lease_op = Publish publication nat | Renew nat | Drain | Delete

definition lease_op :: "lease_op \<Rightarrow> string \<Rightarrow> fence \<Rightarrow> redis \<Rightarrow> redis" where
  "lease_op a h f s =
     (case a of
        Publish pub ttl \<Rightarrow> snd (publish_ready_script h f pub ttl s)
      | Renew ttl \<Rightarrow> snd (renew_script h f ttl s)
      | Drain \<Rightarrow> snd (begin_drain_script h f s)
      | Delete \<Rightarrow> snd (compare_and_delete_script h f s))"

datatype redis_op =
    OpReserve string string owner string string nat
  | OpAct lease_op string fence
  | OpLegacy "runtime_key \<Rightarrow> runtime_key" string lease owner runtime_key
  | OpTick nat

fun redis_apply :: "redis_op \<Rightarrow> redis \<Rightarrow> redis" where
  "redis_apply (OpReserve h runtime o1 address key_json ttl) s = snd (reserve_script h runtime o1 address key_json ttl s)"
| "redis_apply (OpAct a h f) s = lease_op a h f s"
| "redis_apply (OpLegacy lua_round h expected o1 k) s =
     snd (delete_exact_legacy_starting_script lua_round h expected o1 k s)"
| "redis_apply (OpTick ms) s = s\<lparr>rd_now := rd_now s + ms\<rparr>"

definition redis_run :: "redis_op list \<Rightarrow> redis \<Rightarrow> redis" where
  "redis_run ops s = foldl (\<lambda>s op. redis_apply op s) s ops"

lemma redis_run_simps [simp]:
  "redis_run [] s = s" "redis_run (op # ops) s = redis_run ops (redis_apply op s)"
  by (simp_all add: redis_run_def)

subsection \<open>Reading after writing\<close>

lemma refresh_simps [simp]:
  "rd_now (refresh_owner_index o1 z s) = rd_now s" "rd_leases (refresh_owner_index o1 z s) = rd_leases s"
  "rd_generations (refresh_owner_index o1 z s) = rd_generations s"
  by (simp_all add: refresh_owner_index_def Let_def)

lemma index_simps [simp]:
  "rd_now (index_add o1 h e s) = rd_now s" "rd_leases (index_add o1 h e s) = rd_leases s"
  "rd_generations (index_add o1 h e s) = rd_generations s"
  "rd_now (index_remove o1 h s) = rd_now s" "rd_leases (index_remove o1 h s) = rd_leases s"
  "rd_generations (index_remove o1 h s) = rd_generations s"
  by (simp_all add: index_add_def index_remove_def)

lemma get_lease_index [simp]:
  "get_lease (index_add o1 h e s) h' = get_lease s h'" "get_lease (index_remove o1 h s) h' = get_lease s h'"
  by (simp_all add: get_lease_def split: option.split prod.split)

lemma get_lease_set [simp]: "get_lease (set_lease h l ttl s) h' = (if h' = h then Some l else get_lease s h')"
  by (simp add: get_lease_def set_lease_def split: option.split prod.split)

lemma get_lease_del [simp]: "get_lease (del_lease h s) h' = (if h' = h then None else get_lease s h')"
  by (simp add: get_lease_def del_lease_def split: option.split prod.split)

lemma write_simps [simp]:
  "rd_now (set_lease h l ttl s) = rd_now s" "rd_generations (set_lease h l ttl s) = rd_generations s"
  "rd_now (del_lease h s) = rd_now s" "rd_generations (del_lease h s) = rd_generations s"
  by (simp_all add: set_lease_def del_lease_def)

lemma keep_lease_simps [simp]:
  "fst (keep_lease h l ttl s) = l\<lparr>le_expires_at := rd_now s + ttl\<rparr>"
  "rd_now (snd (keep_lease h l ttl s)) = rd_now s"
  "rd_generations (snd (keep_lease h l ttl s)) = rd_generations s"
  "get_lease (snd (keep_lease h l ttl s)) h' =
     (if h' = h then Some (l\<lparr>le_expires_at := rd_now s + ttl\<rparr>) else get_lease s h')"
  by (simp_all add: keep_lease_def Let_def)

text \<open>A lease that an operation keeps: the same holder, and further along.\<close>

text \<open>What an operation under a fence does to the lease it names, and that it does nothing else.\<close>

definition acted :: "lease_op \<Rightarrow> redis \<Rightarrow> string \<Rightarrow> lease \<Rightarrow> lease option" where
  "acted a s h l =
     (case a of
        Publish pub ttl \<Rightarrow>
          Some (if le_address l = pb_address pub \<and> le_state l = Starting
                then l\<lparr>le_state := Ready, le_published := Some pub, le_expires_at := rd_now s + ttl\<rparr> else l)
      | Renew ttl \<Rightarrow> Some (if le_state l = Ready then l\<lparr>le_expires_at := rd_now s + ttl\<rparr> else l)
      | Drain \<Rightarrow>
          Some (if le_state l = Ready \<and> remaining_ttl s h > 0
                then l\<lparr>le_state := Draining, le_expires_at := rd_now s + remaining_ttl s h\<rparr> else l)
      | Delete \<Rightarrow> None)"

lemma lease_op_lease:
  "get_lease (lease_op a h f s) h' =
     (case get_lease s h' of
        None \<Rightarrow> None
      | Some l \<Rightarrow> if h' = h \<and> le_fence l = f then acted a s h l else Some l)"
proof (cases a)
  case (Publish pub ttl)
  then show ?thesis
    by (auto simp: lease_op_def publish_ready_script_def acted_def case_prod_beta split: option.splits)
next
  case (Renew ttl)
  then show ?thesis
    by (auto simp: lease_op_def renew_script_def acted_def case_prod_beta split: option.splits)
next
  case Drain
  then show ?thesis
    by (auto simp: lease_op_def begin_drain_script_def acted_def case_prod_beta split: option.splits)
next
  case Delete
  then show ?thesis
    by (auto simp: lease_op_def compare_and_delete_script_def acted_def split: option.splits)
qed

lemma lease_op_clock [simp]: "rd_now (lease_op a h f s) = rd_now s" "rd_generations (lease_op a h f s) = rd_generations s"
  by (auto simp: lease_op_def publish_ready_script_def renew_script_def begin_drain_script_def
      compare_and_delete_script_def case_prod_beta split: lease_op.split option.split)

end
