(* ===== verification/Runtime_Lease_Safety.thy ===== *)
theory Runtime_Lease_Safety
  imports Runtime_Lease
begin

section \<open>What the leases guarantee\<close>

text \<open>
  The scripts as operations on the store, in any order and from any process, with time passing in
  between.  The invariant \<open>lease_store_ok\<close> ties the leases to the expiry they carry, to the
  generation counters and to the index of their owners; it makes the leases a fenced store.
\<close>

subsection \<open>The invariant of the store\<close>

definition index_bounded :: "redis \<Rightarrow> bool" where
  "index_bounded s \<longleftrightarrow> (\<forall>o1 z e. map_of (rd_owners s) o1 = Some (z, e) \<longrightarrow> (\<forall>hs \<in> set z. snd hs \<le> e))"

definition lease_store_ok :: "redis \<Rightarrow> bool" where
  "lease_store_ok s \<longleftrightarrow>
     (\<forall>h l e. map_of (rd_leases s) h = Some (l, e) \<longrightarrow>
        e = le_expires_at l \<and> fe_generation (le_fence l) \<le> get_or 0 (rd_generations s) h)
     \<and> index_bounded s
     \<and> (\<forall>h l. get_lease s h = Some l \<longrightarrow> rd_now s < le_expires_at l \<longrightarrow>
          map_of (owner_index s (owner_of (le_fence l))) h = Some (le_expires_at l))"

lemma lease_store_okD:
  assumes "lease_store_ok s"
  shows "map_of (rd_leases s) h = Some (l, e) \<Longrightarrow>
      e = le_expires_at l \<and> fe_generation (le_fence l) \<le> get_or 0 (rd_generations s) h"
    and "map_of (rd_owners s) o1 = Some (z, e) \<Longrightarrow> hs \<in> set z \<Longrightarrow> snd hs \<le> e"
    and "get_lease s h = Some l \<Longrightarrow> rd_now s < le_expires_at l \<Longrightarrow>
      map_of (owner_index s (owner_of (le_fence l))) h = Some (le_expires_at l)"
  using assms unfolding lease_store_ok_def index_bounded_def by blast+

lemma get_lease_Some:
  "get_lease s h = Some l \<longleftrightarrow> (\<exists>e. map_of (rd_leases s) h = Some (l, e) \<and> rd_now s \<le> e)"
  by (auto simp: get_lease_def split: option.split prod.split)

lemma live_lease:
  assumes "lease_store_ok s" and "get_lease s h = Some l"
  shows "map_of (rd_leases s) h = Some (l, le_expires_at l)" "rd_now s \<le> le_expires_at l"
    "fe_generation (le_fence l) \<le> get_or 0 (rd_generations s) h"
  using assms lease_store_okD(1) [OF assms(1)] by (auto simp: get_lease_Some)

lemma map_of_filter_kept: "map_of z k = Some v \<Longrightarrow> P (k, v) \<Longrightarrow> map_of (filter P z) k = Some v"
  by (induction z) (auto split: if_splits)

lemma owner_index_refresh:
  "owner_index (refresh_owner_index o1 z s) o2 = (if o2 = o1 then filter (\<lambda>hs. snd hs > rd_now s) z else owner_index s o2)"
proof (cases "filter (\<lambda>hs. snd hs > rd_now s) z = []")
  case False
  then obtain h c where "(h, c) \<in> set (filter (\<lambda>hs. snd hs > rd_now s) z)" by (metis last_in_set prod.collapse)
  then have "\<exists>a \<in> snd ` set (filter (\<lambda>hs. snd hs > rd_now s) z). rd_now s < a" by force
  then have "rd_now s < Max (snd ` set (filter (\<lambda>hs. snd hs > rd_now s) z))"
    by (subst Max_gr_iff) auto
  with False show ?thesis
    by (simp add: refresh_owner_index_def owner_index_def Let_def split: option.split prod.split)
qed (simp add: refresh_owner_index_def owner_index_def Let_def split: option.split)

lemma get_lease_refresh [simp]: "get_lease (refresh_owner_index o1 z s) h = get_lease s h"
  by (simp add: get_lease_def split: option.split prod.split)

lemma index_bounded_clock [simp]:
  "index_bounded (s\<lparr>rd_now := n\<rparr>) = index_bounded s" "index_bounded (s\<lparr>rd_generations := g\<rparr>) = index_bounded s"
  by (simp_all add: index_bounded_def)

lemma generation_simps [simp]:
  "get_lease (s\<lparr>rd_generations := g\<rparr>) h = get_lease s h" "owner_index (s\<lparr>rd_generations := g\<rparr>) o1 = owner_index s o1"
  by (simp_all add: get_lease_def owner_index_def split: option.split prod.split)

lemma index_bounded_refresh: "index_bounded s \<Longrightarrow> index_bounded (refresh_owner_index o1 z s)"
  by (auto simp: index_bounded_def refresh_owner_index_def Let_def split: if_splits)

lemma owners_writes [simp]:
  "rd_owners (set_lease h l ttl s) = rd_owners s" "rd_owners (del_lease h s) = rd_owners s"
  "owner_index (set_lease h l ttl s) o1 = owner_index s o1" "owner_index (del_lease h s) o1 = owner_index s o1"
  by (simp_all add: set_lease_def del_lease_def owner_index_def split: option.split prod.split)

lemma ok_keep_lease:
  assumes ok: "lease_store_ok s" and gen: "fe_generation (le_fence l) \<le> get_or 0 (rd_generations s) h"
  shows "lease_store_ok (snd (keep_lease h l ttl s))"
proof -
  let ?o = "owner_of (le_fence l)" and ?e = "rd_now s + ttl"
  let ?l = "l\<lparr>le_expires_at := ?e\<rparr>"
  let ?z = "AList.update h ?e (owner_index s ?o)"
  let ?s = "refresh_owner_index ?o ?z (set_lease h ?l ttl s)"
  have s': "snd (keep_lease h l ttl s) = ?s"
    by (simp add: keep_lease_def Let_def index_add_def)
  show ?thesis unfolding s' lease_store_ok_def
  proof (intro conjI allI impI)
    fix h' l' e assume "map_of (rd_leases ?s) h' = Some (l', e)"
    then have "if h' = h then l' = ?l \<and> e = ?e else map_of (rd_leases s) h' = Some (l', e)"
      by (auto simp: set_lease_def split: if_splits)
    then show "e = le_expires_at l'" "fe_generation (le_fence l') \<le> get_or 0 (rd_generations ?s) h'"
      using gen lease_store_okD(1) [OF ok] by (auto split: if_splits)
  next
    have "index_bounded (set_lease h ?l ttl s)" using ok by (simp add: lease_store_ok_def index_bounded_def)
    then show "index_bounded ?s" by (rule index_bounded_refresh)
  next
    fix h' l' assume l': "get_lease ?s h' = Some l'" "rd_now ?s < le_expires_at l'"
    show "map_of (owner_index ?s (owner_of (le_fence l'))) h' = Some (le_expires_at l')"
    proof (cases "h' = h")
      case True
      with l' have "l' = ?l" by simp
      with True l'(2) show ?thesis
        by (simp add: owner_index_refresh map_of_filter_kept)
    next
      case False
      with l' have old: "get_lease s h' = Some l'" "rd_now s < le_expires_at l'"
        by simp_all
      from lease_store_okD(3) [OF ok this] have idx: "map_of (owner_index s (owner_of (le_fence l'))) h' = Some (le_expires_at l')" .
      show ?thesis
      proof (cases "owner_of (le_fence l') = ?o")
        case True
        with idx False have "map_of ?z h' = Some (le_expires_at l')" by simp
        with True old(2) show ?thesis by (simp add: owner_index_refresh map_of_filter_kept)
      next
        case False
        with idx show ?thesis by (simp add: owner_index_refresh)
      qed
    qed
  qed
qed

lemma ok_forget_lease:
  assumes ok: "lease_store_ok s"
  shows "lease_store_ok (index_remove o1 h (del_lease h s))"
proof -
  let ?z = "AList.delete h (owner_index s o1)"
  let ?s = "refresh_owner_index o1 ?z (del_lease h s)"
  have s': "index_remove o1 h (del_lease h s) = ?s" by (simp add: index_remove_def)
  show ?thesis unfolding s' lease_store_ok_def
  proof (intro conjI allI impI)
    fix h' l' e assume "map_of (rd_leases ?s) h' = Some (l', e)"
    then have "map_of (rd_leases s) h' = Some (l', e)" by (auto simp: del_lease_def split: if_splits)
    then show "e = le_expires_at l'" "fe_generation (le_fence l') \<le> get_or 0 (rd_generations ?s) h'"
      using lease_store_okD(1) [OF ok] by auto
  next
    have "index_bounded (del_lease h s)" using ok by (simp add: lease_store_ok_def index_bounded_def)
    then show "index_bounded ?s" by (rule index_bounded_refresh)
  next
    fix h' l' assume l': "get_lease ?s h' = Some l'" "rd_now ?s < le_expires_at l'"
    then have "h' \<noteq> h" and old: "get_lease s h' = Some l'" "rd_now s < le_expires_at l'"
      by (auto split: if_splits)
    have idx: "map_of (owner_index s (owner_of (le_fence l'))) h' = Some (le_expires_at l')"
      by (rule lease_store_okD(3) [OF ok old])
    show "map_of (owner_index ?s (owner_of (le_fence l'))) h' = Some (le_expires_at l')"
    proof (cases "owner_of (le_fence l') = o1")
      case True
      with idx \<open>h' \<noteq> h\<close> have "map_of ?z h' = Some (le_expires_at l')" by simp
      with True old(2) show ?thesis by (simp add: owner_index_refresh map_of_filter_kept)
    next
      case False
      with idx show ?thesis by (simp add: owner_index_refresh)
    qed
  qed
qed

lemma ok_tick:
  assumes ok: "lease_store_ok s"
  shows "lease_store_ok (s\<lparr>rd_now := rd_now s + ms\<rparr>)"
  unfolding lease_store_ok_def
proof (intro conjI allI impI)
  let ?s = "s\<lparr>rd_now := rd_now s + ms\<rparr>"
  fix h l assume l: "get_lease ?s h = Some l" "rd_now ?s < le_expires_at l"
  then have "get_lease s h = Some l" "rd_now s < le_expires_at l" by (auto simp: get_lease_Some)
  from lease_store_okD(3) [OF ok this]
  have idx: "map_of (owner_index s (owner_of (le_fence l))) h = Some (le_expires_at l)" .
  then obtain z e where z: "map_of (rd_owners s) (owner_of (le_fence l)) = Some (z, e)" "map_of z h = Some (le_expires_at l)"
    by (auto simp: owner_index_def split: option.splits if_splits)
  have "le_expires_at l \<le> e"
    using lease_store_okD(2) [OF ok z(1) map_of_SomeD [OF z(2)]] by simp
  with z l(2) show "map_of (owner_index ?s (owner_of (le_fence l))) h = Some (le_expires_at l)"
    by (simp add: owner_index_def)
qed (use ok in \<open>auto simp: lease_store_ok_def\<close>)

lemma ok_generation:
  assumes "lease_store_ok s" and "get_or 0 (rd_generations s) h \<le> g"
  shows "lease_store_ok (s\<lparr>rd_generations := AList.update h g (rd_generations s)\<rparr>)"
  using assms unfolding lease_store_ok_def by (auto intro: le_trans)

lemma ok_reserve:
  assumes "lease_store_ok s"
  shows "lease_store_ok (snd (reserve_script h runtime o1 address key_json ttl s))"
proof (cases "get_lease s h")
  case None
  then show ?thesis
    by (auto simp: reserve_script_def Let_def case_prod_beta intro!: ok_keep_lease ok_generation assms)
qed (simp add: reserve_script_def assms)

lemma ok_lease_op:
  assumes "lease_store_ok s"
  shows "lease_store_ok (lease_op a h f s)"
proof -
  have keep: "lease_store_ok (snd (keep_lease h l' ttl s))"
    if "get_lease s h = Some l" "le_fence l' = le_fence l" for l l' ttl
    using live_lease(3) [OF assms that(1)] that(2) by (intro ok_keep_lease [OF assms]) simp
  show ?thesis
    by (cases a) (auto simp: lease_op_def publish_ready_script_def renew_script_def begin_drain_script_def
        compare_and_delete_script_def case_prod_beta split: option.split intro: keep ok_forget_lease assms)
qed

lemma ok_legacy:
  "lease_store_ok s \<Longrightarrow> lease_store_ok (snd (delete_exact_legacy_starting_script r h l o1 k s))"
  by (auto simp: delete_exact_legacy_starting_script_def split: option.split stored_key.split intro: ok_forget_lease)

lemma ok_apply: "lease_store_ok s \<Longrightarrow> lease_store_ok (redis_apply op s)"
  by (cases op) (simp_all add: ok_reserve ok_lease_op ok_legacy ok_tick)

lemma ok_run: "lease_store_ok s \<Longrightarrow> lease_store_ok (redis_run ops s)"
  by (induction ops arbitrary: s) (simp_all add: ok_apply)

definition empty_redis :: redis where
  "empty_redis = \<lparr>rd_now = 0, rd_leases = [], rd_generations = [], rd_owners = []\<rparr>"

lemma ok_empty: "lease_store_ok empty_redis"
  by (simp add: lease_store_ok_def empty_redis_def get_lease_def index_bounded_def)

subsection \<open>The store is fenced\<close>

definition lease_fence :: "redis \<Rightarrow> string \<Rightarrow> fence option" where
  "lease_fence s h = map_option le_fence (get_lease s h)"

interpretation runtime_leases: fenced_store lease_store_ok get_lease lease_fence lease_op
proof
  fix s a h f
  assume ok: "lease_store_ok s"
  show "lease_store_ok (lease_op a h f s)" by (rule ok_lease_op [OF ok])
  show "lease_op a h f s = s" if "lease_fence s h \<noteq> Some f"
    using that by (cases a) (auto simp: lease_fence_def lease_op_def publish_ready_script_def renew_script_def
        begin_drain_script_def compare_and_delete_script_def split: option.splits)
  show "get_lease (lease_op a h f s) k = get_lease s k \<and> lease_fence (lease_op a h f s) k = lease_fence s k"
    if "k \<noteq> h" for k
    using that by (simp add: lease_fence_def lease_op_lease split: option.split)
qed

subsection \<open>A lease is exclusive while it runs\<close>

lemma clock_apply: "rd_now s \<le> rd_now (redis_apply op s)"
  by (cases op) (auto simp: reserve_script_def Let_def case_prod_beta delete_exact_legacy_starting_script_def
      split: option.split stored_key.split)

lemma clock_run: "rd_now s \<le> rd_now (redis_run ops s)"
  by (induction ops arbitrary: s) (auto intro: le_trans clock_apply)

text \<open>An operation of somebody else: it does not name this key under this fence.\<close>

definition foreign :: "string \<Rightarrow> fence \<Rightarrow> redis_op \<Rightarrow> bool" where
  "foreign h f op \<longleftrightarrow> (case op of OpAct a h' f' \<Rightarrow> (h', f') \<noteq> (h, f) | _ \<Rightarrow> True)"

lemma foreign_apply:
  assumes ok: "lease_store_ok s" and l: "get_lease s h = Some l" and v2: "le_key l = KeyV2 kh kj"
    and op: "foreign h (le_fence l) op" and time: "rd_now (redis_apply op s) \<le> le_expires_at l"
  shows "get_lease (redis_apply op s) h = Some l"
proof (cases op)
  case (OpReserve h' runtime o1 address key_json ttl)
  then show ?thesis
    using l by (cases "get_lease s h'") (auto simp: reserve_script_def Let_def case_prod_beta)
next
  case (OpAct a h' f')
  with op have "(h', f') \<noteq> (h, le_fence l)" by (simp add: foreign_def)
  moreover have "lease_fence s h = Some (le_fence l)" using l by (simp add: lease_fence_def)
  ultimately show ?thesis using runtime_leases.act_other [OF ok] l OpAct by simp
next
  case (OpLegacy r h' expected o1 k)
  with l v2 show ?thesis
    by (auto simp: delete_exact_legacy_starting_script_def split: option.split stored_key.split)
next
  case (OpTick ms)
  with time live_lease(1) [OF ok l] show ?thesis by (simp add: get_lease_Some)
qed

text \<open>
  C12: While a lease runs nobody else gets its key: whatever reservations, publications, renewals,
  drains and deletions other owners, or earlier incarnations of the same owner, attempt, until the
  time the lease was granted for the key is held under its fence, and the lease is unchanged.
\<close>

theorem lease_is_exclusive:
  assumes "lease_store_ok s" and "get_lease s h = Some l" and "le_key l = KeyV2 kh kj"
    and "\<forall>op \<in> set ops. foreign h (le_fence l) op" and "rd_now (redis_run ops s) \<le> le_expires_at l"
  shows "get_lease (redis_run ops s) h = Some l"
  using assms
proof (induction ops arbitrary: s)
  case (Cons op ops)
  have "rd_now (redis_apply op s) \<le> le_expires_at l"
    using Cons.prems(5) clock_run [of "redis_apply op s" ops] by simp
  then have "get_lease (redis_apply op s) h = Some l"
    using Cons.prems by (intro foreign_apply) simp_all
  then show ?case using Cons.IH [OF ok_apply [OF Cons.prems(1)]] Cons.prems by simp
qed simp

subsection \<open>A fence that is lost stays lost\<close>

definition lost_fence :: "redis \<Rightarrow> string \<Rightarrow> fence \<Rightarrow> bool" where
  "lost_fence s h f \<longleftrightarrow> fe_generation f \<le> get_or 0 (rd_generations s) h \<and> lease_fence s h \<noteq> Some f"

lemma lost_apply:
  assumes "lost_fence s h f"
  shows "lost_fence (redis_apply op s) h f"
proof (cases op)
  case (OpReserve h' runtime o1 address key_json ttl)
  with assms show ?thesis
    by (cases "get_lease s h'") (auto simp: lost_fence_def lease_fence_def reserve_script_def Let_def case_prod_beta)
next
  case (OpAct a h' f')
  with assms show ?thesis
    by (cases a) (auto simp: lost_fence_def lease_fence_def lease_op_lease acted_def split: option.splits if_splits)
next
  case (OpLegacy r h' expected o1 k)
  with assms show ?thesis
    by (auto simp: lost_fence_def lease_fence_def delete_exact_legacy_starting_script_def
        split: option.split stored_key.split)
next
  case (OpTick ms)
  with assms show ?thesis
    by (auto simp: lost_fence_def lease_fence_def get_lease_def split: option.splits prod.splits if_splits)
qed

lemma lost_run: "lost_fence s h f \<Longrightarrow> lost_fence (redis_run ops s) h f"
  by (induction ops arbitrary: s) (simp_all add: lost_apply)

text \<open>
  C13: Fencing.  A fence that has been issued for a key and no longer holds it, because the lease ran
  out or was deleted, never holds it again, and every operation under it is refused from then on
  and changes nothing: a process that was stopped and comes back cannot act on a runtime that has
  been given to someone else.  Every new reservation is under a greater generation.
\<close>

theorem lost_fences_stay_lost:
  assumes "lease_store_ok s" and "fe_generation f \<le> get_or 0 (rd_generations s) h" and "lease_fence s h \<noteq> Some f"
  shows "lease_fence (redis_run ops s) h \<noteq> Some f \<and> lease_op a h f (redis_run ops s) = redis_run ops s
    \<and> (case reserve_script h runtime o1 address key_json ttl (redis_run ops s) of
         ((created, l), _) \<Rightarrow> created \<longrightarrow> fe_generation f < fe_generation (le_fence l))"
proof -
  let ?s = "redis_run ops s"
  have lost: "lost_fence ?s h f" using assms by (intro lost_run) (simp add: lost_fence_def)
  then have "lease_fence ?s h \<noteq> Some f" "fe_generation f \<le> get_or 0 (rd_generations ?s) h"
    by (simp_all add: lost_fence_def)
  moreover have "lease_op a h f ?s = ?s"
    using runtime_leases.act_fenced [OF ok_run [OF assms(1)]] calculation(1) by blast
  ultimately show ?thesis
    by (cases "get_lease ?s h") (simp_all add: reserve_script_def Let_def case_prod_beta)
qed

subsection \<open>The life of a lease\<close>

instantiation lease_state :: linorder
begin

fun state_rank :: "lease_state \<Rightarrow> nat" where
  "state_rank Starting = 0" | "state_rank Ready = 1" | "state_rank Draining = 2"

definition less_lease_state :: "lease_state \<Rightarrow> lease_state \<Rightarrow> bool" where
  "less_lease_state a b \<longleftrightarrow> state_rank a < state_rank b"

definition less_eq_lease_state :: "lease_state \<Rightarrow> lease_state \<Rightarrow> bool" where
  "less_eq_lease_state a b \<longleftrightarrow> state_rank a \<le> state_rank b"

instance
proof
  fix a b :: lease_state
  assume "a \<le> b" "b \<le> a"
  then show "a = b" by (cases a; cases b) (simp_all add: less_eq_lease_state_def)
qed (auto simp: less_eq_lease_state_def less_lease_state_def)

end

definition progressed :: "lease \<Rightarrow> lease \<Rightarrow> bool" where
  "progressed l l' \<longleftrightarrow>
     le_fence l' = le_fence l \<and> le_key l' = le_key l \<and> le_address l' = le_address l \<and> le_state l \<le> le_state l'
     \<and> (le_state l \<noteq> Starting \<longrightarrow> le_published l' = le_published l)"

lemma progressed_refl: "progressed l l"
  by (simp add: progressed_def)

lemma progressed_trans: "progressed a b \<Longrightarrow> progressed b c \<Longrightarrow> progressed a c"
  by (auto simp: progressed_def less_eq_lease_state_def) (metis le_zero_eq state_rank.cases state_rank.simps zero_neq_one zero_neq_numeral)+

lemma progressed_acted: "acted a s h l = Some l' \<Longrightarrow> progressed l l'"
  by (cases a) (auto simp: acted_def progressed_def less_eq_lease_state_def split: if_splits)

lemma progressed_apply:
  assumes "lease_store_ok s" and "get_lease s h = Some l"
  shows "lost_fence (redis_apply op s) h (le_fence l)
    \<or> (\<exists>l'. get_lease (redis_apply op s) h = Some l' \<and> progressed l l')"
proof -
  note gen = live_lease(3) [OF assms]
  show ?thesis
  proof (cases op)
    case (OpReserve h' runtime o1 address key_json ttl)
    then show ?thesis
      using assms by (cases "get_lease s h'") (auto simp: reserve_script_def Let_def case_prod_beta progressed_refl)
  next
    case (OpAct a h' f')
    then show ?thesis
      using assms gen progressed_acted [of a s h l]
      by (auto simp: lease_op_lease lost_fence_def lease_fence_def progressed_refl split: option.splits)
  next
    case (OpLegacy r h' expected o1 k)
    then show ?thesis
      using assms gen by (auto simp: lost_fence_def lease_fence_def delete_exact_legacy_starting_script_def progressed_refl
          split: option.split stored_key.split)
  next
    case (OpTick ms)
    then show ?thesis
      using assms gen by (auto simp: lost_fence_def lease_fence_def get_lease_def progressed_refl
          split: option.splits prod.splits if_splits)
  qed
qed

text \<open>
  As long as a fence holds a key, its lease moves only forward, from starting over ready to
  draining: it never becomes ready twice, is never taken back from draining, its key and its
  address never change, and what was published stays as it was published.
\<close>

theorem lease_moves_forward:
  assumes "lease_store_ok s" and "get_lease s h = Some l"
    and "get_lease (redis_run ops s) h = Some l'" and "le_fence l' = le_fence l"
  shows "le_state l \<le> le_state l' \<and> le_key l' = le_key l \<and> le_address l' = le_address l
    \<and> (le_state l \<noteq> Starting \<longrightarrow> le_published l' = le_published l)"
proof -
  have "lost_fence (redis_run ops s) h (le_fence l) \<or> (\<exists>l'. get_lease (redis_run ops s) h = Some l' \<and> progressed l l')"
    using assms(1,2)
  proof (induction ops arbitrary: s l)
    case Nil
    then show ?case by (simp add: progressed_refl)
  next
    case (Cons op ops)
    from progressed_apply [OF Cons.prems, of op] show ?case
    proof
      assume "lost_fence (redis_apply op s) h (le_fence l)"
      then show ?thesis by (simp add: lost_run)
    next
      assume "\<exists>l1. get_lease (redis_apply op s) h = Some l1 \<and> progressed l l1"
      then obtain l1 where l1: "get_lease (redis_apply op s) h = Some l1" "progressed l l1" by blast
      from Cons.IH [OF ok_apply [OF Cons.prems(1)] l1(1)] l1(2) show ?thesis
        by (auto simp: progressed_def [of l l1] intro: progressed_trans [OF l1(2)])
    qed
  qed
  with assms(3,4) show ?thesis by (auto simp: lost_fence_def lease_fence_def progressed_def)
qed

subsection \<open>What an owner finds of its own\<close>

lemma owned_lease_Some:
  "owned_lease env o1 s h = Inr (Some d) \<longleftrightarrow>
     (\<exists>l. get_lease s h = Some l \<and> owner_of (le_fence l) = o1 \<and> rd_now s < le_expires_at l
          \<and> decode_stored_lease env l = Inr d \<and> dl_hash d = h)"
  by (auto simp: owned_lease_def result_simps split: option.splits if_splits)

lemma dl_ref_decoded: "decode_stored_lease env l = Inr d \<Longrightarrow> dl_ref d = l"
  by (auto simp: decode_stored_lease_def split: stored_key.splits option.splits if_splits)

lemma traverse_Inr_image: "traverse f xs = Inr ys \<Longrightarrow> y \<in> set ys \<longleftrightarrow> (\<exists>x \<in> set xs. f x = Inr y)"
  by (metis traverse_Inr_mem traverse_Inr_memE sum.inject(2))

text \<open>
  The index of an owner is complete: whenever \<open>listOwned\<close> returns, its answer is exactly the
  leases that are held by this owner in this epoch and have not run out, whatever happened to the
  store before.
\<close>

theorem list_owned_is_complete:
  assumes "lease_store_ok s" and "list_owned env o1 (redis_run ops s) = Inr ds"
  shows "(\<exists>d \<in> set ds. dl_hash d = h \<and> dl_ref d = l) \<longleftrightarrow>
    get_lease (redis_run ops s) h = Some l \<and> owner_of (le_fence l) = o1 \<and> rd_now (redis_run ops s) < le_expires_at l"
proof -
  let ?s = "redis_run ops s"
  let ?hs = "map fst (filter (\<lambda>hs. rd_now ?s \<le> snd hs) (owner_index ?s o1))"
  have ok: "lease_store_ok ?s" by (rule ok_run [OF assms(1)])
  obtain xs where xs: "traverse (owned_lease env o1 ?s) ?hs = Inr xs"
    "ds = sort_key (\<lambda>d. en_collate env (en_serialize env (dl_key d))) (map the (filter (\<lambda>d. d \<noteq> None) xs))"
    using assms(2) by (auto simp: list_owned_def Let_def result_simps)
  have ds: "d \<in> set ds \<longleftrightarrow> Some d \<in> set xs" for d unfolding xs(2) by force
  have found: "d \<in> set ds \<longleftrightarrow> (\<exists>h \<in> set ?hs. owned_lease env o1 ?s h = Inr (Some d))" for d
    unfolding ds by (rule traverse_Inr_image [OF xs(1)])
  show ?thesis
  proof
    assume "\<exists>d \<in> set ds. dl_hash d = h \<and> dl_ref d = l"
    then show "get_lease ?s h = Some l \<and> owner_of (le_fence l) = o1 \<and> rd_now ?s < le_expires_at l"
      using found owned_lease_Some dl_ref_decoded by metis
  next
    assume l: "get_lease ?s h = Some l \<and> owner_of (le_fence l) = o1 \<and> rd_now ?s < le_expires_at l"
    then have "map_of (owner_index ?s o1) h = Some (le_expires_at l)" using lease_store_okD(3) [OF ok] by blast
    then have h: "h \<in> set ?hs" using l by (force dest: map_of_SomeD)
    obtain x where x: "x \<in> set xs" "owned_lease env o1 ?s h = Inr x"
      using traverse_Inr_mem [OF xs(1) h] by blast
    then obtain d where "x = Some d" "decode_stored_lease env l = Inr d" "dl_hash d = h"
      using l by (auto simp: owned_lease_def result_simps split: if_splits)
    with x ds dl_ref_decoded show "\<exists>d \<in> set ds. dl_hash d = h \<and> dl_ref d = l" by blast
  qed
qed

subsection \<open>A run\<close>

definition sample_key :: "string \<Rightarrow> runtime_key" where
  "sample_key h =
     \<lparr>rk_source = h, rk_transport = ''stdio'', rk_config = [], rk_organization = None, rk_principal = [],
      rk_credential = None, rk_credential_generation = None\<rparr>"

definition sample_lease_env :: lease_env where
  "sample_lease_env =
     \<lparr>en_hash = rk_source, en_serialize = rk_source, en_json = rk_source, en_parse = (\<lambda>j. Some (sample_key j)),
      en_lua_round = (\<lambda>k. k), en_collate = length\<rparr>"

definition sample_fence :: "string \<Rightarrow> nat \<Rightarrow> fence" where
  "sample_fence o1 g = \<lparr>fe_runtime = ''r'', fe_owner = o1, fe_epoch = ''1'', fe_generation = g\<rparr>"

definition sample_publication :: publication where
  "sample_publication = \<lparr>pb_address = ''a'', pb_era = ''modern'', pb_version = ''1'', pb_fingerprint = []\<rparr>"

definition sample_start :: "redis_op list" where
  "sample_start =
     [OpReserve ''k'' ''r'' (''x'', ''1'') ''a'' ''k'' 10, OpAct (Publish sample_publication 20) ''k'' (sample_fence ''x'' 1)]"

definition sample_redis :: redis where
  "sample_redis = redis_run sample_start empty_redis"

lemma sample_redis_lease:
  "\<exists>l. get_lease sample_redis ''k'' = Some l \<and> le_key l = KeyV2 ''k'' ''k'' \<and> le_fence l = sample_fence ''x'' 1
     \<and> le_expires_at l = 20 \<and> le_state l = Ready"
proof -
  have "case get_lease sample_redis ''k'' of None \<Rightarrow> False
    | Some l \<Rightarrow> le_key l = KeyV2 ''k'' ''k'' \<and> le_fence l = sample_fence ''x'' 1 \<and> le_expires_at l = 20 \<and> le_state l = Ready"
    by code_simp
  then show ?thesis by (auto split: option.splits)
qed

lemma ok_sample: "lease_store_ok sample_redis"
  unfolding sample_redis_def by (rule ok_run [OF ok_empty])

definition sample_rivals :: "redis_op list" where
  "sample_rivals =
     [OpTick 15, OpReserve ''k'' ''q'' (''y'', ''1'') ''b'' ''k'' 10, OpAct Delete ''k'' (sample_fence ''y'' 1),
      OpAct (Renew 5) ''k'' (sample_fence ''x'' 0)]"

lemma lease_is_exclusive_witness:
  "\<exists>l. get_lease (redis_run sample_rivals sample_redis) ''k'' = Some l \<and> le_fence l = sample_fence ''x'' 1"
proof -
  obtain l where l: "get_lease sample_redis ''k'' = Some l" "le_key l = KeyV2 ''k'' ''k''"
    "le_fence l = sample_fence ''x'' 1" "le_expires_at l = 20"
    using sample_redis_lease by blast
  have "\<forall>op \<in> set sample_rivals. foreign ''k'' (le_fence l) op"
    by (simp add: sample_rivals_def foreign_def l(3) sample_fence_def)
  moreover have "rd_now (redis_run sample_rivals sample_redis) = 15" by code_simp
  then have "rd_now (redis_run sample_rivals sample_redis) \<le> le_expires_at l" by (simp add: l(4))
  ultimately show ?thesis using lease_is_exclusive [OF ok_sample l(1,2)] l(3) by blast
qed

lemma lost_fences_stay_lost_witness:
  "lease_op (Renew 50) ''k'' (sample_fence ''x'' 1) (redis_run [OpTick 21, OpReserve ''k'' ''q'' (''y'', ''1'') ''b'' ''k'' 10] sample_redis)
   = redis_run [OpTick 21, OpReserve ''k'' ''q'' (''y'', ''1'') ''b'' ''k'' 10] sample_redis"
proof -
  let ?s = "redis_run [OpTick 21] sample_redis"
  have "fe_generation (sample_fence ''x'' 1) \<le> get_or 0 (rd_generations ?s) ''k''" by code_simp
  moreover have "get_lease ?s ''k'' = None" by code_simp
  then have "lease_fence ?s ''k'' \<noteq> Some (sample_fence ''x'' 1)" by (simp add: lease_fence_def)
  ultimately have "lease_op (Renew 50) ''k'' (sample_fence ''x'' 1) (redis_run [OpReserve ''k'' ''q'' (''y'', ''1'') ''b'' ''k'' 10] ?s)
      = redis_run [OpReserve ''k'' ''q'' (''y'', ''1'') ''b'' ''k'' 10] ?s"
    using lost_fences_stay_lost [OF ok_run [OF ok_sample]] by blast
  then show ?thesis by simp
qed

lemma lease_moves_forward_witness:
  "\<exists>l l'. get_lease sample_redis ''k'' = Some l
     \<and> get_lease (redis_run [OpAct Drain ''k'' (sample_fence ''x'' 1)] sample_redis) ''k'' = Some l'
     \<and> le_state l = Ready \<and> le_state l \<le> le_state l' \<and> le_state l' = Draining \<and> le_published l' = le_published l"
proof -
  let ?s = "redis_run [OpAct Drain ''k'' (sample_fence ''x'' 1)] sample_redis"
  obtain l where l: "get_lease sample_redis ''k'' = Some l" "le_fence l = sample_fence ''x'' 1" "le_state l = Ready"
    using sample_redis_lease by blast
  have "case get_lease ?s ''k'' of None \<Rightarrow> False
    | Some l' \<Rightarrow> le_fence l' = sample_fence ''x'' 1 \<and> le_state l' = Draining"
    by code_simp
  then obtain l' where l': "get_lease ?s ''k'' = Some l'" "le_fence l' = sample_fence ''x'' 1" "le_state l' = Draining"
    by (auto split: option.splits)
  have "le_fence l' = le_fence l" using l(2) l'(2) by simp
  from lease_moves_forward [OF ok_sample l(1) l'(1) this] l l' show ?thesis by auto
qed

lemma list_owned_is_complete_witness:
  "\<exists>ds d. list_owned sample_lease_env (''x'', ''1'') sample_redis = Inr ds \<and> d \<in> set ds \<and> dl_hash d = ''k''"
proof -
  obtain l where l: "get_lease sample_redis ''k'' = Some l" "le_fence l = sample_fence ''x'' 1" "le_expires_at l = 20"
    using sample_redis_lease by blast
  have "case list_owned sample_lease_env (''x'', ''1'') sample_redis of Inl _ \<Rightarrow> False | Inr _ \<Rightarrow> True" by code_simp
  then obtain ds where ds: "list_owned sample_lease_env (''x'', ''1'') sample_redis = Inr ds" by (auto split: sum.splits)
  moreover have "rd_now sample_redis = 0" by code_simp
  ultimately have "\<exists>d \<in> set ds. dl_hash d = ''k'' \<and> dl_ref d = l"
    using list_owned_is_complete [OF ok_sample, of sample_lease_env "(''x'', ''1'')" "[]" ds "''k''" l] l
    by (simp add: owner_of_def sample_fence_def)
  with ds show ?thesis by blast
qed

end
