(* ===== verification/Triage.thy ===== *)
theory Triage
  imports Outbox
begin

section \<open>Triage of findings\<close>

text \<open>
  \<open>backend/src/findings\<close>: an operator moves a finding through the states of its triage, assigns it,
  overrides its severity and keeps notes.  The service (\<open>finding-triage.service.ts\<close>) decides on a
  record it has read before; the repository (\<open>finding-triage.repository.ts\<close>) commits the change, its
  history and the events for the outbox in one transaction, provided the version of the record is
  still the one that was read.

  What other requests do between the reads and the transactions of a request are functions in
  \<open>tx_env\<close>.  The tables never lose rows.  \<open>toISOString\<close> is \<open>tx_iso\<close>; the columns \<open>sla_deadline\<close> and the
  ids of history rows, which the service only passes on, are left out.
\<close>

subsection \<open>States and transitions\<close>

datatype triage_status = TsNew | TsTriaged | TsInProgress | TsFixed | TsVerified | TsWontFix | TsAcceptedRisk

fun status_text :: "triage_status \<Rightarrow> string" where
  "status_text TsNew = ''new''"
| "status_text TsTriaged = ''triaged''"
| "status_text TsInProgress = ''in_progress''"
| "status_text TsFixed = ''fixed''"
| "status_text TsVerified = ''verified''"
| "status_text TsWontFix = ''wont_fix''"
| "status_text TsAcceptedRisk = ''accepted_risk''"

definition status_of_text :: "string \<Rightarrow> triage_status option" where
  "status_of_text s =
     find (\<lambda>st. status_text st = s)
       [TsNew, TsTriaged, TsInProgress, TsFixed, TsVerified, TsWontFix, TsAcceptedRisk]"

lemma status_of_text [simp]: "status_of_text (status_text st) = Some st"
  by (cases st) (simp_all add: status_of_text_def)

lemma status_text_inject [simp]: "status_text a = status_text b \<longleftrightarrow> a = b"
  by (metis option.inject status_of_text)

fun VALID_TRANSITIONS :: "triage_status \<Rightarrow> triage_status list" where
  "VALID_TRANSITIONS TsNew = [TsTriaged, TsWontFix, TsAcceptedRisk]"
| "VALID_TRANSITIONS TsTriaged = [TsInProgress, TsWontFix, TsAcceptedRisk]"
| "VALID_TRANSITIONS TsInProgress = [TsFixed, TsWontFix, TsAcceptedRisk]"
| "VALID_TRANSITIONS TsFixed = [TsVerified, TsInProgress]"
| "VALID_TRANSITIONS TsVerified = []"
| "VALID_TRANSITIONS TsWontFix = [TsTriaged]"
| "VALID_TRANSITIONS TsAcceptedRisk = [TsTriaged]"

definition validate_transition :: "triage_status \<Rightarrow> triage_status \<Rightarrow> bool \<times> triage_status list" where
  "validate_transition current target =
     (let allowed = VALID_TRANSITIONS current in (target \<in> set allowed, allowed))"

subsection \<open>The tables\<close>

record triage_record =
  tr_id :: string
  tr_organization :: string
  tr_finding :: string
  tr_status :: triage_status
  tr_assignee :: "string option"
  tr_severity :: "string option"
  tr_notes :: "string option"
  tr_version :: nat
  tr_created :: time
  tr_updated :: time

record triage_event =
  tv_triage :: string
  tv_type :: string
  tv_field :: "string option"
  tv_old :: "string option"
  tv_new :: "string option"
  tv_user :: string
  tv_comment :: "string option"

record triage_db =
  td_records :: "triage_record list"
  td_events :: "(triage_event \<times> time) list"
  td_outbox :: outbox

definition same_finding :: "string \<Rightarrow> string \<Rightarrow> triage_record \<Rightarrow> bool" where
  "same_finding org f r \<longleftrightarrow> tr_organization r = org \<and> tr_finding r = f"

definition find_triage :: "string \<Rightarrow> string \<Rightarrow> triage_db \<Rightarrow> triage_record option" where
  "find_triage org f db = find (same_finding org f) (td_records db)"

definition find_by_ids :: "string \<Rightarrow> string list \<Rightarrow> triage_db \<Rightarrow> triage_record list" where
  "find_by_ids org fs db = filter (\<lambda>r. tr_organization r = org \<and> tr_finding r \<in> set fs) (td_records db)"

subsection \<open>Requests\<close>

text \<open>\<open>None\<close> is a field that is not given, \<open>Some None\<close> one that is \<open>null\<close>.\<close>

record triage_input =
  ti_status :: "triage_status option"
  ti_assignee :: "string option option"
  ti_severity :: "string option option"
  ti_notes :: "string option option"
  ti_comment :: "string option"

record triage_request =
  tq_organization :: string
  tq_finding :: string
  tq_input :: triage_input
  tq_source :: string
  tq_user :: string

datatype triage_error =
    InvalidTransition triage_status triage_status
  | AssigneeNotMember
  | NoChange
  | ConcurrentChange
  | FindingNotFound string
  | FindingsUnavailable

definition current_status :: "triage_record option \<Rightarrow> triage_status" where
  "current_status existing = (case existing of None \<Rightarrow> TsNew | Some r \<Rightarrow> tr_status r)"

definition check_transition :: "triage_input \<Rightarrow> triage_record option \<Rightarrow> triage_error option" where
  "check_transition input existing =
     (case ti_status input of
        None \<Rightarrow> None
      | Some st \<Rightarrow>
          if st \<noteq> current_status existing \<and> \<not> fst (validate_transition (current_status existing) st)
          then Some (InvalidTransition (current_status existing) st) else None)"

definition field_event ::
  "string \<Rightarrow> string \<Rightarrow> string option \<Rightarrow> string \<Rightarrow> string \<Rightarrow> string option \<Rightarrow> string option \<Rightarrow> triage_event list" where
  "field_event triage user comment type field old new =
     (if new = old then []
      else [\<lparr>tv_triage = triage, tv_type = type, tv_field = Some field, tv_old = old, tv_new = new,
             tv_user = user, tv_comment = comment\<rparr>])"

definition build_events ::
  "triage_record option \<Rightarrow> triage_input \<Rightarrow> string \<Rightarrow> string \<Rightarrow> triage_event list" where
  "build_events existing input triage user =
     (let event = field_event triage user (ti_comment input);
          notes = (case existing of None \<Rightarrow> None | Some r \<Rightarrow> tr_notes r)
      in (case ti_status input of
            None \<Rightarrow> []
          | Some st \<Rightarrow> event ''status_change'' ''status''
                         (Some (status_text (current_status existing))) (Some (status_text st)))
       @ (case ti_assignee input of
            None \<Rightarrow> []
          | Some a \<Rightarrow> event ''assignment_change'' ''assignee_user_id''
                        (case existing of None \<Rightarrow> None | Some r \<Rightarrow> tr_assignee r) a)
       @ (case ti_severity input of
            None \<Rightarrow> []
          | Some v \<Rightarrow> event ''severity_override'' ''severity_override''
                        (case existing of None \<Rightarrow> None | Some r \<Rightarrow> tr_severity r) v)
       @ (case ti_notes input of
            None \<Rightarrow> []
          | Some n \<Rightarrow> event (if truthy_str notes then ''note_updated'' else ''note_added'') ''notes'' notes n))"

subsection \<open>The audit log\<close>

text \<open>
  \<open>recordDurableWithExecutor\<close> (\<open>audit/audit-log.service.ts\<close>): an entry of the audit log is an event of the
  outbox; \<open>audit_context\<close> is what it takes from the request.
\<close>

record audit_context =
  au_id :: string
  au_organization :: "string option"
  au_actor :: "string option"
  au_actor_type :: string
  au_ip :: "string option"
  au_user_agent :: "string option"
  au_correlation :: "string option"

record audit_entry =
  ae_action :: string
  ae_resource_type :: string
  ae_resource_id :: "string option"
  ae_metadata :: json

definition or_null :: "string option \<Rightarrow> json" where
  "or_null s = (case s of None \<Rightarrow> JNull | Some t \<Rightarrow> JString t)"

definition audit_insert :: "audit_context \<Rightarrow> string \<Rightarrow> audit_entry \<Rightarrow> enqueue_input" where
  "audit_insert ctx occurred e =
     (let org = (case au_organization ctx of None \<Rightarrow> ''local-dev'' | Some o1 \<Rightarrow> o1)
      in \<lparr>en_event_type = ''audit.log.persist.v1'', en_organization = Some org,
          en_aggregate_type = ''audit_log'', en_aggregate_id = au_id ctx,
          en_dedupe_key = ''audit.log:'' @ au_id ctx,
          en_payload =
            [(''auditId'', JString (au_id ctx)), (''organizationId'', JString org),
             (''actorId'', or_null (au_actor ctx)), (''actorType'', JString (au_actor_type ctx)),
             (''actorDisplay'', JNull), (''action'', JString (ae_action e)),
             (''resourceType'', JString (ae_resource_type e)), (''resourceId'', or_null (ae_resource_id e)),
             (''resourceName'', JNull), (''metadata'', ae_metadata e), (''ip'', or_null (au_ip ctx)),
             (''userAgent'', or_null (au_user_agent ctx)), (''correlationId'', or_null (au_correlation ctx)),
             (''occurredAt'', JString occurred)],
          en_max_attempts = None, en_available_at = None\<rparr>)"

definition audit_changes :: "triage_event list \<Rightarrow> json" where
  "audit_changes events =
     JObject (map_of_entries (map (\<lambda>e. (case tv_field e of None \<Rightarrow> ''null'' | Some f \<Rightarrow> f,
                                        JObject [(''old'', or_null (tv_old e)), (''new'', or_null (tv_new e))])) events))"

definition triage_audit :: "triage_request \<Rightarrow> triage_event list \<Rightarrow> audit_entry" where
  "triage_audit q events =
     \<lparr>ae_action = ''findings.triage'', ae_resource_type = ''finding_triage'',
      ae_resource_id = Some (tq_finding q),
      ae_metadata = JObject [(''findingOpensearchId'', JString (tq_finding q)), (''changes'', audit_changes events)]\<rparr>"

definition bulk_audit :: "triage_request \<Rightarrow> triage_event list \<Rightarrow> audit_entry" where
  "bulk_audit q events =
     \<lparr>ae_action = ''findings.bulk_triage'', ae_resource_type = ''finding_triage'',
      ae_resource_id = Some (tq_finding q),
      ae_metadata = JObject
        [(''findingOpensearchId'', JString (tq_finding q)),
         (''requestedStatus'', or_null (map_option status_text (ti_status (tq_input q)))),
         (''requestedAssigneeUserId'', or_null (case ti_assignee (tq_input q) of None \<Rightarrow> None | Some a \<Rightarrow> a)),
         (''changes'', audit_changes events)]\<rparr>"

subsection \<open>Committing a change\<close>

record tx_env =
  tx_js_now :: time
  tx_db_now :: time
  tx_iso :: "time \<Rightarrow> string"
  tx_triage_id :: string
  tx_ids :: "nat \<Rightarrow> string"
  tx_audit :: audit_context
  tx_meanwhile :: "triage_db \<Rightarrow> triage_db"
  tx_afterwards :: "triage_db \<Rightarrow> triage_db"

record commit_input =
  tc_organization :: string
  tc_finding :: string
  tc_triage :: string
  tc_expected_version :: nat
  tc_previous_status :: triage_status
  tc_source :: string
  tc_user :: string
  tc_data :: triage_input
  tc_events :: "triage_event list"

definition FINDING_TRIAGE_PROJECTION_EVENT :: string where
  "FINDING_TRIAGE_PROJECTION_EVENT = ''finding.triage.project.v1''"

definition FINDING_TRIAGE_CHANGED_EVENT :: string where
  "FINDING_TRIAGE_CHANGED_EVENT = ''finding.triage.changed''"

definition or_keep :: "'a option \<Rightarrow> 'a \<Rightarrow> 'a" where
  "or_keep given old = (case given of None \<Rightarrow> old | Some v \<Rightarrow> v)"

definition inserted_record :: "tx_env \<Rightarrow> commit_input \<Rightarrow> triage_record" where
  "inserted_record env ci =
     \<lparr>tr_id = tc_triage ci, tr_organization = tc_organization ci, tr_finding = tc_finding ci,
      tr_status = or_keep (ti_status (tc_data ci)) TsNew,
      tr_assignee = or_keep (ti_assignee (tc_data ci)) None,
      tr_severity = or_keep (ti_severity (tc_data ci)) None,
      tr_notes = or_keep (ti_notes (tc_data ci)) None,
      tr_version = 1, tr_created = tx_db_now env, tr_updated = tx_js_now env\<rparr>"

definition updated_record :: "tx_env \<Rightarrow> commit_input \<Rightarrow> triage_record \<Rightarrow> triage_record" where
  "updated_record env ci r =
     r\<lparr>tr_status := or_keep (ti_status (tc_data ci)) (tr_status r),
       tr_assignee := or_keep (ti_assignee (tc_data ci)) (tr_assignee r),
       tr_severity := or_keep (ti_severity (tc_data ci)) (tr_severity r),
       tr_notes := or_keep (ti_notes (tc_data ci)) (tr_notes r),
       tr_version := tr_version r + 1, tr_updated := tx_js_now env\<rparr>"

text \<open>\<open>None\<close> is the conflict: the row is there, but of another version.\<close>

definition upsert_record ::
  "tx_env \<Rightarrow> commit_input \<Rightarrow> triage_record list \<Rightarrow> (triage_record \<times> triage_record list) option" where
  "upsert_record env ci rs =
     (case find (same_finding (tc_organization ci) (tc_finding ci)) rs of
        None \<Rightarrow> Some (inserted_record env ci, rs @ [inserted_record env ci])
      | Some r \<Rightarrow>
          if tr_version r = tc_expected_version ci
          then Some (updated_record env ci r,
                     map (\<lambda>x. if same_finding (tc_organization ci) (tc_finding ci) x then updated_record env ci x else x) rs)
          else None)"

definition triage_payload :: "(time \<Rightarrow> string) \<Rightarrow> commit_input \<Rightarrow> triage_record \<Rightarrow> json_record" where
  "triage_payload to_iso ci r =
     [(''findingTriageId'', JString (tr_id r)), (''findingOpensearchId'', JString (tr_finding r)),
      (''organizationId'', JString (tr_organization r)), (''status'', JString (status_text (tr_status r))),
      (''previousStatus'', JString (status_text (tc_previous_status ci))),
      (''assigneeUserId'', or_null (tr_assignee r)), (''severityOverride'', or_null (tr_severity r)),
      (''notes'', or_null (tr_notes r)), (''updatedAt'', JString (to_iso (tr_updated r))),
      (''projectionVersion'', JNumber (Finite (of_nat (tr_version r)))),
      (''source'', JString (tc_source ci)), (''userId'', JString (tc_user ci))]"

definition triage_outbox_input ::
  "string \<Rightarrow> string \<Rightarrow> nat \<Rightarrow> (time \<Rightarrow> string) \<Rightarrow> commit_input \<Rightarrow> triage_record \<Rightarrow> enqueue_input" where
  "triage_outbox_input type key_start attempts to_iso ci r =
     \<lparr>en_event_type = type, en_organization = Some (tc_organization ci),
      en_aggregate_type = ''finding'', en_aggregate_id = tc_finding ci,
      en_dedupe_key = key_start @ '':'' @ tc_organization ci @ '':'' @ tc_finding ci @ '':v'' @ show_nat (tr_version r),
      en_payload = triage_payload to_iso ci r,
      en_max_attempts = Some attempts, en_available_at = None\<rparr>"

definition commit_change :: "tx_env \<Rightarrow> commit_input \<Rightarrow> triage_db \<Rightarrow> (triage_record \<times> triage_db) option" where
  "commit_change env ci db =
     (case upsert_record env ci (td_records db) of
        None \<Rightarrow> None
      | Some (r, rs) \<Rightarrow>
          let put = enqueue_outbox_event (tx_js_now env) (tx_db_now env)
          in Some (r, db\<lparr>td_records := rs,
                         td_events := td_events db @
                           map (\<lambda>e. (e\<lparr>tv_triage := tr_id r, tv_user := tc_user ci\<rparr>, tx_db_now env)) (tc_events ci),
                         td_outbox :=
                           put (tx_ids env 1)
                             (triage_outbox_input FINDING_TRIAGE_CHANGED_EVENT ''finding-triage-changed'' 8 (tx_iso env) ci r)
                           (put (tx_ids env 0)
                             (triage_outbox_input FINDING_TRIAGE_PROJECTION_EVENT ''finding-triage-project'' 12 (tx_iso env) ci r)
                             (td_outbox db))\<rparr>))"

definition commit_transaction ::
  "(triage_event list \<Rightarrow> audit_entry) \<Rightarrow> tx_env \<Rightarrow> commit_input \<Rightarrow> triage_db \<Rightarrow> (triage_record \<times> triage_db) option" where
  "commit_transaction audit env ci db =
     map_option (\<lambda>(r, db').
         (r, db'\<lparr>td_outbox := enqueue_outbox_event (tx_js_now env) (tx_db_now env) (tx_ids env 2)
                                (audit_insert (tx_audit env) (tx_iso env (tx_js_now env)) (audit (tc_events ci)))
                                (td_outbox db')\<rparr>))
       (commit_change env ci db)"

subsection \<open>The service\<close>

text \<open>One attempt: an error, the record unchanged, or what to commit.\<close>

definition plan_attempt ::
  "triage_request \<Rightarrow> string \<Rightarrow> triage_record option \<Rightarrow> triage_error + triage_record + commit_input" where
  "plan_attempt q fresh existing =
     (case check_transition (tq_input q) existing of
        Some err \<Rightarrow> Inl err
      | None \<Rightarrow>
          let triage = (case existing of None \<Rightarrow> fresh | Some r \<Rightarrow> tr_id r);
              events = build_events existing (tq_input q) triage (tq_user q)
          in if events = [] then (case existing of None \<Rightarrow> Inl NoChange | Some r \<Rightarrow> Inr (Inl r))
             else Inr (Inr
               \<lparr>tc_organization = tq_organization q, tc_finding = tq_finding q, tc_triage = triage,
                tc_expected_version = (case existing of None \<Rightarrow> 0 | Some r \<Rightarrow> tr_version r),
                tc_previous_status = current_status existing, tc_source = tq_source q, tc_user = tq_user q,
                tc_data = tq_input q, tc_events = events\<rparr>))"

fun commit_attempts ::
  "(triage_event list \<Rightarrow> audit_entry) \<Rightarrow> triage_request \<Rightarrow> tx_env list \<Rightarrow> triage_record option \<Rightarrow> triage_db
   \<Rightarrow> (triage_error + triage_record \<times> triage_event list) \<times> triage_db" where
  "commit_attempts audit q [] existing db = (Inl ConcurrentChange, db)"
| "commit_attempts audit q (env # envs) existing db =
     (case plan_attempt q (tx_triage_id env) existing of
        Inl err \<Rightarrow> (Inl err, db)
      | Inr (Inl r) \<Rightarrow> (Inr (r, []), db)
      | Inr (Inr ci) \<Rightarrow>
          (let db1 = tx_meanwhile env db
           in case commit_transaction audit env ci db1 of
                Some (r, db2) \<Rightarrow> (Inr (r, tc_events ci), db2)
              | None \<Rightarrow>
                  if envs = [] then (Inl ConcurrentChange, db1)
                  else (let db2 = tx_afterwards env db1
                        in commit_attempts audit q envs (find_triage (tq_organization q) (tq_finding q) db2) db2)))"

definition commit_with_retry ::
  "(triage_event list \<Rightarrow> audit_entry) \<Rightarrow> triage_request \<Rightarrow> tx_env \<times> tx_env \<Rightarrow> triage_record option \<Rightarrow> triage_db
   \<Rightarrow> (triage_error + triage_record \<times> triage_event list) \<times> triage_db" where
  "commit_with_retry audit q envs existing db = commit_attempts audit q [fst envs, snd envs] existing db"

datatype finding_check = FindingExists | FindingMissing | FindingsDown

definition assert_finding_exists :: "finding_check \<Rightarrow> string \<Rightarrow> triage_error option" where
  "assert_finding_exists check f =
     (case check of
        FindingExists \<Rightarrow> None | FindingMissing \<Rightarrow> Some (FindingNotFound f) | FindingsDown \<Rightarrow> Some FindingsUnavailable)"

definition check_assignee :: "string list \<Rightarrow> triage_input \<Rightarrow> triage_error option" where
  "check_assignee members input =
     (case ti_assignee input of
        Some (Some a) \<Rightarrow> if a \<in> set members then None else Some AssigneeNotMember
      | _ \<Rightarrow> None)"

definition upsert_triage ::
  "finding_check \<Rightarrow> string list \<Rightarrow> tx_env \<times> tx_env \<Rightarrow> triage_request \<Rightarrow> triage_db
   \<Rightarrow> (triage_error + triage_record) \<times> triage_db" where
  "upsert_triage check members envs q db =
     (case assert_finding_exists check (tq_finding q) of
        Some err \<Rightarrow> (Inl err, db)
      | None \<Rightarrow>
          (let existing = find_triage (tq_organization q) (tq_finding q) db
           in case check_transition (tq_input q) existing of
                Some err \<Rightarrow> (Inl err, db)
              | None \<Rightarrow>
                  (case check_assignee members (tq_input q) of
                     Some err \<Rightarrow> (Inl err, db)
                   | None \<Rightarrow>
                       (case commit_with_retry (triage_audit q) q envs existing db of
                          (res, db') \<Rightarrow> (map_sum (\<lambda>e. e) fst res, db')))))"

record bulk_result =
  br_finding :: string
  br_success :: bool
  br_error :: "string option"

record bulk_item =
  bi_finding :: string
  bi_check :: finding_check
  bi_envs :: "tx_env \<times> tx_env"

definition bulk_failure :: "string \<Rightarrow> string \<Rightarrow> bulk_result" where
  "bulk_failure f msg = \<lparr>br_finding = f, br_success = False, br_error = Some msg\<rparr>"

definition transition_message :: "triage_status \<Rightarrow> triage_status \<Rightarrow> string" where
  "transition_message a b = ''Invalid transition from '' @ quoted (status_text a) @ '' to '' @ quoted (status_text b)"

text \<open>What the \<open>catch\<close> of the loop turns into a result: conflicts and bad requests.\<close>

definition caught_message :: "triage_error \<Rightarrow> string option" where
  "caught_message err =
     (case err of
        ConcurrentChange \<Rightarrow> Some ''Finding triage changed concurrently; retry the update''
      | NoChange \<Rightarrow> Some ''Triage update does not change state''
      | AssigneeNotMember \<Rightarrow> Some ''Assignee must be a member of the organization''
      | _ \<Rightarrow> None)"

fun bulk_loop ::
  "(string \<Rightarrow> triage_request) \<Rightarrow> triage_record list \<Rightarrow> bulk_item list \<Rightarrow> bulk_result list \<Rightarrow> triage_db
   \<Rightarrow> (triage_error + bulk_result list) \<times> triage_db" where
  "bulk_loop request known [] results db = (Inr results, db)"
| "bulk_loop request known (it # its) results db =
     (let f = bi_finding it; q = request f
      in case bi_check it of
           FindingsDown \<Rightarrow> (Inl FindingsUnavailable, db)
         | FindingMissing \<Rightarrow>
             bulk_loop request known its (results @ [bulk_failure f (''Finding '' @ f @ '' not found'')]) db
         | FindingExists \<Rightarrow>
             (let existing = find (\<lambda>r. tr_finding r = f) known
              in case check_transition (tq_input q) existing of
                   Some (InvalidTransition a b) \<Rightarrow>
                     bulk_loop request known its (results @ [bulk_failure f (transition_message a b)]) db
                 | Some err \<Rightarrow> (Inl err, db)
                 | None \<Rightarrow>
                     (case commit_with_retry (bulk_audit q) q (bi_envs it) existing db of
                        (Inr _, db') \<Rightarrow>
                          bulk_loop request known its
                            (results @ [\<lparr>br_finding = f, br_success = True, br_error = None\<rparr>]) db'
                      | (Inl err, db') \<Rightarrow>
                          (case caught_message err of
                             Some msg \<Rightarrow> bulk_loop request known its (results @ [bulk_failure f msg]) db'
                           | None \<Rightarrow> (Inl err, db')))))"

definition bulk_request :: "string \<Rightarrow> string \<Rightarrow> triage_input \<Rightarrow> string \<Rightarrow> triage_request" where
  "bulk_request org user input f =
     \<lparr>tq_organization = org, tq_finding = f,
      tq_input = input\<lparr>ti_severity := None, ti_notes := None\<rparr>, tq_source = ''user'', tq_user = user\<rparr>"

text \<open>The results with the numbers of successes and failures.\<close>

definition bulk_triage ::
  "string list \<Rightarrow> string \<Rightarrow> string \<Rightarrow> triage_input \<Rightarrow> bulk_item list \<Rightarrow> triage_db
   \<Rightarrow> (triage_error + bulk_result list \<times> nat \<times> nat) \<times> triage_db" where
  "bulk_triage members org user input items db =
     (case check_assignee members input of
        Some err \<Rightarrow> (Inl err, db)
      | None \<Rightarrow>
          (case bulk_loop (bulk_request org user input) (find_by_ids org (map bi_finding items) db) items [] db of
             (res, db') \<Rightarrow>
               (map_sum (\<lambda>e. e)
                  (\<lambda>rs. (rs, length (filter br_success rs), length (filter (\<lambda>r. \<not> br_success r) rs))) res, db')))"

text \<open>\<open>getHistory\<close>: the newest events first; among events of one transaction the order is not specified.\<close>

definition get_history :: "string \<Rightarrow> string \<Rightarrow> nat \<Rightarrow> triage_db \<Rightarrow> (triage_event \<times> time) list" where
  "get_history org f limit db =
     (case find_triage org f db of
        None \<Rightarrow> []
      | Some r \<Rightarrow>
          take limit (rev (sort_key snd (filter (\<lambda>(e, _). tv_triage e = tr_id r) (td_events db)))))"

definition enrich_with_triage_state :: "string \<Rightarrow> string list \<Rightarrow> triage_db \<Rightarrow> (string \<times> triage_record option) list" where
  "enrich_with_triage_state org items db =
     (let records = map_of_entries (map (\<lambda>r. (tr_finding r, r)) (find_by_ids org items db))
      in map (\<lambda>i. (i, map_of records i)) items)"

end
