(* ===== verification/Finding_Projection.thy ===== *)
theory Finding_Projection
  imports Triage
begin

section \<open>The projection of triage into the search index\<close>

text \<open>
  The findings of an organization are documents of a search index; what triage knows of a finding
  is copied into its document, so that searches can filter by it.  An event of the outbox carries
  every change there (\<open>finding-triage-projector.service.ts\<close>, \<open>security-analytics.service.ts\<close>); a
  reconciler (\<open>finding-triage-reconciler.service.ts\<close>) pages through the records and repairs the
  documents that are behind, and the health of the projection says whether the documents can be
  trusted (\<open>getProjectionHealth\<close>).

  The model is of one organization.  Of a document only its triage is kept.  OpenSearch may fail any
  call, before or after it has taken effect, and its searches may answer with an older state
  (\<open>be_seen\<close>).  Dates are whole milliseconds in JavaScript and are compared as such, also where the
  code compares their ISO texts.
\<close>

subsection \<open>Documents\<close>

record projection =
  pj_status :: triage_status
  pj_assignee :: "string option"
  pj_severity :: "string option"
  pj_notes :: "string option"
  pj_updated :: string
  pj_version :: nat

type_synonym documents = "(string, projection option) js_map"

record findings_index =
  fi_uuid :: string
  fi_docs :: documents

definition to_projection :: "(time \<Rightarrow> string) \<Rightarrow> triage_record \<Rightarrow> projection" where
  "to_projection to_iso r =
     \<lparr>pj_status = tr_status r, pj_assignee = tr_assignee r, pj_severity = tr_severity r, pj_notes = tr_notes r,
      pj_updated = to_iso (tr_updated r), pj_version = tr_version r\<rparr>"

text \<open>A call that fails may have been applied (\<open>EsFailed True\<close>).\<close>

datatype es_call = EsDone | EsFailed bool

text \<open>The script: only a newer version replaces what is there.\<close>

definition project_document :: "string \<Rightarrow> projection \<Rightarrow> documents \<Rightarrow> documents" where
  "project_document f p docs =
     (case map_of docs f of
        Some (Some current) \<Rightarrow> if pj_version current < pj_version p then AList.update f (Some p) docs else docs
      | Some None \<Rightarrow> AList.update f (Some p) docs
      | None \<Rightarrow> docs)"

definition project_finding_triage :: "es_call \<Rightarrow> string \<Rightarrow> projection \<Rightarrow> documents \<Rightarrow> bool \<times> documents" where
  "project_finding_triage call f p docs =
     (case call of
        EsDone \<Rightarrow> (has_own docs f, project_document f p docs)
      | EsFailed applied \<Rightarrow> (False, if applied then project_document f p docs else docs))"

definition get_projection_versions :: "documents \<Rightarrow> string list \<Rightarrow> (string, nat) js_map" where
  "get_projection_versions docs fs =
     map_of_entries
       (concat (map (\<lambda>(f, d). case d of None \<Rightarrow> [] | Some p \<Rightarrow> if f \<in> set fs then [(f, pj_version p)] else []) docs))"

subsection \<open>The projector\<close>

definition SEVERITY_VALUES :: "string list" where
  "SEVERITY_VALUES = [''critical'', ''high'', ''medium'', ''low'', ''info'', ''none'']"

definition parse_text :: "(string \<Rightarrow> bool) \<Rightarrow> json \<Rightarrow> string option" where
  "parse_text P v = (case v of JString s \<Rightarrow> if P s then Some s else None | _ \<Rightarrow> None)"

definition parse_nullable :: "(string \<Rightarrow> bool) \<Rightarrow> json \<Rightarrow> string option option" where
  "parse_nullable P v = (if v = JNull then Some None else map_option Some (parse_text P v))"

definition parse_version :: "json \<Rightarrow> nat option" where
  "parse_version v =
     (case v of
        JNumber (Finite q) \<Rightarrow> if q = of_int \<lfloor>q\<rfloor> \<and> q > 0 then Some (nat \<lfloor>q\<rfloor>) else None
      | _ \<Rightarrow> None)"

text \<open>\<open>FindingTriageProjectionEventSchema\<close>; \<open>is_datetime\<close> is the test on ISO texts.\<close>

definition parse_projection_event ::
  "(string \<Rightarrow> bool) \<Rightarrow> json_record \<Rightarrow> (string \<times> string \<times> projection) option" where
  "parse_projection_event is_datetime payload =
     Option.bind (parse_text (\<lambda>s. s \<noteq> [] \<and> length s \<le> 191) (get_prop payload ''organizationId'')) (\<lambda>org.
     Option.bind (parse_text (\<lambda>s. s \<noteq> [] \<and> length s \<le> 512) (get_prop payload ''findingOpensearchId'')) (\<lambda>f.
     Option.bind (parse_text (\<lambda>_. True) (get_prop payload ''status'')) (\<lambda>st.
     Option.bind (status_of_text st) (\<lambda>status.
     Option.bind (parse_nullable (\<lambda>s. length s \<le> 191) (get_prop payload ''assigneeUserId'')) (\<lambda>assignee.
     Option.bind (parse_nullable (\<lambda>s. s \<in> set SEVERITY_VALUES) (get_prop payload ''severityOverride'')) (\<lambda>severity.
     Option.bind (parse_nullable (\<lambda>s. length s \<le> 10000) (get_prop payload ''notes'')) (\<lambda>notes.
     Option.bind (parse_text is_datetime (get_prop payload ''updatedAt'')) (\<lambda>updated.
     Option.bind (parse_version (get_prop payload ''projectionVersion'')) (\<lambda>version.
       Some (org, f, \<lparr>pj_status = status, pj_assignee = assignee, pj_severity = severity, pj_notes = notes,
                      pj_updated = updated, pj_version = version\<rparr>))))))))))"

definition handle_projection ::
  "(string \<Rightarrow> bool) \<Rightarrow> (string \<Rightarrow> es_call) \<Rightarrow> json_record \<Rightarrow> documents \<Rightarrow> bool \<times> documents" where
  "handle_projection is_datetime calls payload docs =
     (case parse_projection_event is_datetime payload of
        None \<Rightarrow> (False, docs)
      | Some (org, f, p) \<Rightarrow> project_finding_triage (calls f) f p docs)"

subsection \<open>The state of a reconciliation\<close>

record recon_state =
  rn_cursor :: "string option"
  rn_started :: "time option"
  rn_cutoff :: "time option"
  rn_checked :: nat
  rn_repaired :: nat
  rn_failed :: nat
  rn_completed :: "time option"
  rn_through :: "time option"

record watermark =
  wm_uuid :: string
  wm_through :: time
  wm_completed :: time
  wm_checked :: nat
  wm_repaired :: nat
  wm_failed :: nat

record projection_sys =
  ps_records :: "triage_record list"
  ps_index :: findings_index
  ps_watermark :: "watermark option"
  ps_state :: "recon_state option"

record cycle =
  cy_cursor :: "string option"
  cy_started :: time
  cy_cutoff :: time
  cy_checked :: nat
  cy_repaired :: nat
  cy_failed :: nat

definition resolve_cycle :: "time \<Rightarrow> recon_state option \<Rightarrow> cycle" where
  "resolve_cycle now persisted =
     (let fresh = \<lparr>cy_cursor = None, cy_started = now, cy_cutoff = now, cy_checked = 0, cy_repaired = 0, cy_failed = 0\<rparr>
      in case persisted of
           None \<Rightarrow> fresh
         | Some s \<Rightarrow>
             (case (rn_started s, rn_cutoff s) of
                (Some started, Some cutoff) \<Rightarrow>
                  if truthy_str (rn_cursor s)
                  then \<lparr>cy_cursor = rn_cursor s, cy_started = started, cy_cutoff = cutoff, cy_checked = rn_checked s,
                        cy_repaired = rn_repaired s, cy_failed = rn_failed s\<rparr>
                  else fresh
              | _ \<Rightarrow> fresh))"

definition list_projection_page ::
  "string \<Rightarrow> string option \<Rightarrow> time \<Rightarrow> nat \<Rightarrow> triage_record list \<Rightarrow> triage_record list" where
  "list_projection_page org after cutoff limit rs =
     take limit (sort_key tr_id
       (filter (\<lambda>r. tr_organization r = org \<and> tr_updated r \<le> cutoff
                    \<and> (case after of None \<Rightarrow> True | Some c \<Rightarrow> c = [] \<or> tr_id r > c)) rs))"

subsection \<open>One batch\<close>

text \<open>
  What happens around a batch: the clock at its start and at its end, what the search for versions
  answers (\<open>None\<close> when it throws), the calls that project, and whether the check of storage ids, the
  write of the watermark and the write of the state succeed.
\<close>

record batch_env =
  be_now :: time
  be_end :: time
  be_seen :: "documents \<Rightarrow> documents option"
  be_calls :: "string \<Rightarrow> es_call"
  be_integrity :: bool
  be_watermark :: bool
  be_save :: bool
  be_iso :: "time \<Rightarrow> string"

text \<open>The chunks of twenty only bound how many calls are under way: the findings of a page are different.\<close>

fun project_all :: "batch_env \<Rightarrow> triage_record list \<Rightarrow> documents \<Rightarrow> (nat \<times> nat) \<times> documents" where
  "project_all env [] docs = ((0, 0), docs)"
| "project_all env (r # rs) docs =
     (case project_finding_triage (be_calls env (tr_finding r)) (tr_finding r) (to_projection (be_iso env) r) docs of
        (ok, docs1) \<Rightarrow>
          (case project_all env rs docs1 of
             ((repaired, failed), docs2) \<Rightarrow>
               (if ok then (repaired + 1, failed) else (repaired, failed + 1), docs2)))"

definition reconcile_records :: "batch_env \<Rightarrow> triage_record list \<Rightarrow> documents \<Rightarrow> (nat \<times> nat) \<times> documents" where
  "reconcile_records env records docs =
     (if records = [] then ((0, 0), docs)
      else case be_seen env docs of
             None \<Rightarrow> ((0, length records), docs)
           | Some seen \<Rightarrow>
               (let versions = get_projection_versions seen (map tr_finding records)
                in project_all env (filter (\<lambda>r. get_or 0 versions (tr_finding r) < tr_version r) records) docs))"

definition begin_batch :: "batch_env \<Rightarrow> string \<Rightarrow> nat \<Rightarrow> projection_sys \<Rightarrow> cycle \<times> triage_record list" where
  "begin_batch env org limit sys =
     (let cycle = resolve_cycle (be_now env) (ps_state sys)
      in (cycle, list_projection_page org (cy_cursor cycle) (cy_cutoff cycle) limit (ps_records sys)))"

record batch_result =
  ba_complete :: bool
  ba_checked :: nat
  ba_repaired :: nat
  ba_failed :: nat

text \<open>
  The rest of \<open>reconcileOrganizationBatchUnderLock\<close>, on the state that was read at the start.  The
  result is \<open>None\<close> when a call throws; what was written before it stays.
\<close>

definition finish_batch ::
  "batch_env \<Rightarrow> nat \<Rightarrow> recon_state option \<Rightarrow> cycle \<times> triage_record list \<Rightarrow> projection_sys
   \<Rightarrow> batch_result option \<times> projection_sys" where
  "finish_batch env limit persisted batch sys =
     (case batch of (cycle, records) \<Rightarrow>
        (case reconcile_records env records (fi_docs (ps_index sys)) of
           ((r, f), docs) \<Rightarrow>
             (let sys1 = sys\<lparr>ps_index := (ps_index sys)\<lparr>fi_docs := docs\<rparr>\<rparr>;
                  checked = cy_checked cycle + length records;
                  repaired = cy_repaired cycle + r;
                  failed = cy_failed cycle + f
              in if length records = limit then
                   (if \<not> be_save env then (None, sys1)
                    else (Some \<lparr>ba_complete = False, ba_checked = checked, ba_repaired = repaired, ba_failed = failed\<rparr>,
                          sys1\<lparr>ps_state := Some
                            \<lparr>rn_cursor = Some (tr_id (last records)), rn_started = Some (cy_started cycle),
                             rn_cutoff = Some (cy_cutoff cycle), rn_checked = checked, rn_repaired = repaired,
                             rn_failed = failed, rn_completed = Option.bind persisted rn_completed,
                             rn_through = Option.bind persisted rn_through\<rparr>\<rparr>))
                 else if \<not> be_integrity env then (None, sys1)
                 else if \<not> be_watermark env then (None, sys1)
                 else
                   (let sys2 = sys1\<lparr>ps_watermark := Some
                          \<lparr>wm_uuid = fi_uuid (ps_index sys1), wm_through = cy_cutoff cycle, wm_completed = be_end env,
                           wm_checked = checked, wm_repaired = repaired, wm_failed = failed\<rparr>\<rparr>
                    in if \<not> be_save env then (None, sys2)
                       else (Some \<lparr>ba_complete = True, ba_checked = checked, ba_repaired = repaired, ba_failed = failed\<rparr>,
                             sys2\<lparr>ps_state := Some
                               \<lparr>rn_cursor = None, rn_started = None, rn_cutoff = None, rn_checked = checked,
                                rn_repaired = repaired, rn_failed = failed, rn_completed = Some (be_end env),
                                rn_through = Some (cy_cutoff cycle)\<rparr>\<rparr>)))))"

definition bounded_batch_size :: "int \<Rightarrow> nat" where
  "bounded_batch_size n = nat (max 1 (min n 500))"

definition reconcile_batch ::
  "batch_env \<Rightarrow> string \<Rightarrow> int \<Rightarrow> projection_sys \<Rightarrow> batch_result option \<times> projection_sys" where
  "reconcile_batch env org batch sys =
     (let limit = bounded_batch_size batch
      in finish_batch env limit (ps_state sys) (begin_batch env org limit sys) sys)"

text \<open>
  The loop over the batches of an organization.  \<open>others\<close> is what other processes do before each
  batch; \<open>None\<close> is a loop that has not ended when the list does.
\<close>

fun reconcile_organization ::
  "string \<Rightarrow> int \<Rightarrow> (batch_env \<times> (projection_sys \<Rightarrow> projection_sys)) list \<Rightarrow> projection_sys
   \<Rightarrow> (batch_result option \<times> projection_sys) option" where
  "reconcile_organization org batch [] sys = None"
| "reconcile_organization org batch ((env, others) # rest) sys =
     (case reconcile_batch env org batch (others sys) of
        (None, sys') \<Rightarrow> Some (None, sys')
      | (Some b, sys') \<Rightarrow>
          if ba_complete b then Some (Some b, sys') else reconcile_organization org batch rest sys')"

subsection \<open>Health\<close>

datatype health_reason =
    NotReconciled
  | ReconciliationInProgress
  | ReconciliationFailed
  | AuthoritativeUpdatesPending
  | WatermarkMissing
  | ObservationIndexRebuilt
  | WatermarkMismatch
  | ProjectionEventsPending
  | HealthCheckFailed

record projection_health =
  ph_available :: bool
  ph_completed :: "time option"
  ph_through :: "time option"
  ph_reason :: "health_reason option"

definition degraded :: "recon_state option \<Rightarrow> health_reason \<Rightarrow> projection_health" where
  "degraded s reason =
     \<lparr>ph_available = False, ph_completed = Option.bind s rn_completed, ph_through = Option.bind s rn_through,
      ph_reason = Some reason\<rparr>"

text \<open>\<open>sources\<close>: whether the database and the search can be asked; otherwise the check itself fails.\<close>

definition get_projection_health :: "string \<Rightarrow> bool \<Rightarrow> projection_sys \<Rightarrow> projection_health" where
  "get_projection_health org sources sys =
     (if \<not> sources then
        \<lparr>ph_available = False, ph_completed = None, ph_through = None, ph_reason = Some HealthCheckFailed\<rparr>
      else if \<not> list_ex (\<lambda>r. tr_organization r = org) (ps_records sys) then
        \<lparr>ph_available = True, ph_completed = None, ph_through = None, ph_reason = None\<rparr>
      else
        (case ps_state sys of
           None \<Rightarrow> degraded None NotReconciled
         | Some s \<Rightarrow>
             (case (rn_completed s, rn_through s) of
                (Some completed, Some through) \<Rightarrow>
                  if truthy_str (rn_cursor s) \<or> rn_started s \<noteq> None \<or> rn_cutoff s \<noteq> None
                  then degraded (Some s) ReconciliationInProgress
                  else if rn_failed s > 0 then degraded (Some s) ReconciliationFailed
                  else if list_ex (\<lambda>r. tr_organization r = org \<and> tr_updated r > through) (ps_records sys)
                  then degraded (Some s) AuthoritativeUpdatesPending
                  else
                    (case ps_watermark sys of
                       None \<Rightarrow> degraded (Some s) WatermarkMissing
                     | Some w \<Rightarrow>
                         if wm_uuid w \<noteq> fi_uuid (ps_index sys) then degraded (Some s) ObservationIndexRebuilt
                         else if wm_completed w \<noteq> completed \<or> wm_through w \<noteq> through \<or> wm_checked w \<noteq> rn_checked s
                              \<or> wm_repaired w \<noteq> rn_repaired s \<or> wm_failed w \<noteq> rn_failed s
                         then degraded (Some s) WatermarkMismatch
                         else \<lparr>ph_available = True, ph_completed = Some completed, ph_through = Some through,
                               ph_reason = None\<rparr>)
              | _ \<Rightarrow> degraded (Some s) NotReconciled)))"

text \<open>\<open>findings-query.service.ts\<close>: what searches report, with the events that are still under way.\<close>

definition query_projection_health :: "string \<Rightarrow> bool \<Rightarrow> outbox option \<Rightarrow> projection_sys \<Rightarrow> projection_health" where
  "query_projection_health org sources outbox sys =
     (let health = get_projection_health org sources sys
      in if (case outbox of None \<Rightarrow> True | Some t \<Rightarrow> has_outstanding_event org FINDING_TRIAGE_PROJECTION_EVENT t)
         then health\<lparr>ph_available := False, ph_reason := Some ProjectionEventsPending\<rparr> else health)"

end
