(* ===== verification/Triage_History.thy ===== *)
theory Triage_History
  imports Triage
begin

section \<open>What triage guarantees\<close>

text \<open>
  Requests in any interleaving: a request reads a record, decides on what it has read, however old
  that is by then, and runs its transaction.  The second component of a state holds every read that
  was ever made; whoever runs the outbox may change it at any time.
\<close>

type_synonym triage_reads = "(string \<times> string \<times> triage_record option) set"

inductive triage_reachable :: "triage_db \<Rightarrow> triage_reads \<Rightarrow> bool" where
  start: "triage_reachable \<lparr>td_records = [], td_events = [], td_outbox = t\<rparr> {}"
| read: "triage_reachable db R \<Longrightarrow> triage_reachable db (insert (org, f, find_triage org f db) R)"
| commit: "triage_reachable db R \<Longrightarrow> (tq_organization q, tq_finding q, existing) \<in> R
    \<Longrightarrow> fresh \<notin> tr_id ` set (td_records db) \<Longrightarrow> plan_attempt q fresh existing = Inr (Inr ci)
    \<Longrightarrow> commit_transaction audit env ci db = Some (r, db') \<Longrightarrow> triage_reachable db' R"
| outbox: "triage_reachable db R \<Longrightarrow> triage_reachable (db\<lparr>td_outbox := t\<rparr>) R"

subsection \<open>Replaying a history\<close>

record triage_view =
  vw_status :: triage_status
  vw_assignee :: "string option"
  vw_severity :: "string option"
  vw_notes :: "string option"

definition view_of :: "triage_record \<Rightarrow> triage_view" where
  "view_of r = \<lparr>vw_status = tr_status r, vw_assignee = tr_assignee r, vw_severity = tr_severity r, vw_notes = tr_notes r\<rparr>"

definition new_view :: triage_view where
  "new_view = \<lparr>vw_status = TsNew, vw_assignee = None, vw_severity = None, vw_notes = None\<rparr>"

definition replay_status :: "string option \<Rightarrow> string option \<Rightarrow> triage_view \<Rightarrow> triage_view option" where
  "replay_status old new v =
     (case Option.bind new status_of_text of
        None \<Rightarrow> None
      | Some st \<Rightarrow>
          if old = Some (status_text (vw_status v)) \<and> st \<in> set (VALID_TRANSITIONS (vw_status v))
          then Some (v\<lparr>vw_status := st\<rparr>) else None)"

text \<open>An event fits a view when its old value is the one of the view; a status must be allowed to follow.\<close>

definition replay_event :: "triage_event \<Rightarrow> triage_view \<Rightarrow> triage_view option" where
  "replay_event e v =
     (if tv_field e = Some ''status'' then replay_status (tv_old e) (tv_new e) v
      else if tv_field e = Some ''assignee_user_id'' then
        (if tv_old e = vw_assignee v then Some (v\<lparr>vw_assignee := tv_new e\<rparr>) else None)
      else if tv_field e = Some ''severity_override'' then
        (if tv_old e = vw_severity v then Some (v\<lparr>vw_severity := tv_new e\<rparr>) else None)
      else if tv_field e = Some ''notes'' then
        (if tv_old e = vw_notes v then Some (v\<lparr>vw_notes := tv_new e\<rparr>) else None)
      else None)"

fun replay :: "triage_event list \<Rightarrow> triage_view \<Rightarrow> triage_view option" where
  "replay [] v = Some v"
| "replay (e # es) v = Option.bind (replay_event e v) (replay es)"

lemma bind_replay_Nil [simp]: "Option.bind x (replay []) = x"
  by (cases x) simp_all

lemma replay_append: "replay (xs @ ys) v = Option.bind (replay xs v) (replay ys)"
  by (induction xs arbitrary: v) (auto split: bind_splits)

definition history_of :: "triage_record \<Rightarrow> triage_db \<Rightarrow> triage_event list" where
  "history_of r db = filter (\<lambda>e. tv_triage e = tr_id r) (map fst (td_events db))"

subsection \<open>The events of one change\<close>

definition requested_view :: "triage_input \<Rightarrow> triage_view \<Rightarrow> triage_view" where
  "requested_view input v =
     \<lparr>vw_status = or_keep (ti_status input) (vw_status v), vw_assignee = or_keep (ti_assignee input) (vw_assignee v),
      vw_severity = or_keep (ti_severity input) (vw_severity v), vw_notes = or_keep (ti_notes input) (vw_notes v)\<rparr>"

definition existing_view :: "triage_record option \<Rightarrow> triage_view" where
  "existing_view existing = (case existing of None \<Rightarrow> new_view | Some r \<Rightarrow> view_of r)"

definition owned_events :: "string \<Rightarrow> string \<Rightarrow> triage_event list \<Rightarrow> triage_event list" where
  "owned_events triage user es = map (\<lambda>e. e\<lparr>tv_triage := triage, tv_user := user\<rparr>) es"

lemma replay_owned [simp]: "replay (owned_events triage user es) v = replay es v"
  by (induction es arbitrary: v) (auto simp: owned_events_def replay_event_def split: bind_splits)

lemma replay_field_event:
  "replay (field_event triage user comment type field old new) v =
     (if new = old then Some v
      else replay_event \<lparr>tv_triage = triage, tv_type = type, tv_field = Some field, tv_old = old, tv_new = new,
                         tv_user = user, tv_comment = comment\<rparr> v)"
  by (simp add: field_event_def)

lemma replay_build_events:
  assumes "check_transition input existing = None"
  shows "replay (build_events existing input triage user) (existing_view existing)
    = Some (requested_view input (existing_view existing))"
proof -
  have st: "st = current_status existing \<or> st \<in> set (VALID_TRANSITIONS (current_status existing))"
    if "ti_status input = Some st" for st
    using assms that by (auto simp: check_transition_def validate_transition_def Let_def split: if_splits)
  have cur: "current_status existing = vw_status (existing_view existing)"
    "(case existing of None \<Rightarrow> None | Some r \<Rightarrow> tr_assignee r) = vw_assignee (existing_view existing)"
    "(case existing of None \<Rightarrow> None | Some r \<Rightarrow> tr_severity r) = vw_severity (existing_view existing)"
    "(case existing of None \<Rightarrow> None | Some r \<Rightarrow> tr_notes r) = vw_notes (existing_view existing)"
    by (cases existing; simp add: existing_view_def current_status_def new_view_def view_of_def)+
  show ?thesis
    using st unfolding build_events_def Let_def cur
    by (cases "ti_status input"; cases "ti_assignee input"; cases "ti_severity input"; cases "ti_notes input")
      (auto simp: replay_append replay_field_event requested_view_def or_keep_def replay_event_def replay_status_def)
qed

subsection \<open>The invariant\<close>

definition finding_key :: "triage_record \<Rightarrow> string \<times> string" where
  "finding_key r = (tr_organization r, tr_finding r)"

text \<open>A read that was made at some time: the record may have changed since, but not at the same version.\<close>

definition read_of :: "triage_record list \<Rightarrow> string \<Rightarrow> string \<Rightarrow> triage_record option \<Rightarrow> bool" where
  "read_of rs org f existing \<longleftrightarrow>
     (case existing of
        None \<Rightarrow> True
      | Some x \<Rightarrow> \<exists>r \<in> set rs. same_finding org f x \<and> finding_key r = finding_key x \<and> tr_id r = tr_id x
          \<and> tr_version x \<le> tr_version r \<and> (tr_version x = tr_version r \<longrightarrow> x = r))"

definition triage_ok :: "triage_db \<Rightarrow> triage_reads \<Rightarrow> bool" where
  "triage_ok db R \<longleftrightarrow>
     distinct (map tr_id (td_records db)) \<and> distinct (map finding_key (td_records db))
     \<and> (\<forall>e \<in> set (map fst (td_events db)). tv_triage e \<in> tr_id ` set (td_records db))
     \<and> (\<forall>r \<in> set (td_records db). tr_version r > 0 \<and> replay (history_of r db) new_view = Some (view_of r))
     \<and> (\<forall>(org, f, existing) \<in> R. read_of (td_records db) org f existing)"

lemma same_finding_key: "same_finding org f r \<longleftrightarrow> finding_key r = (org, f)"
  by (simp add: same_finding_def finding_key_def)

lemma find_same_finding:
  assumes "distinct (map finding_key rs)"
  shows "find (same_finding org f) rs = Some r \<longleftrightarrow> r \<in> set rs \<and> finding_key r = (org, f)"
proof
  assume "find (same_finding org f) rs = Some r"
  then show "r \<in> set rs \<and> finding_key r = (org, f)"
    by (auto simp: find_Some_iff same_finding_key)
next
  assume r: "r \<in> set rs \<and> finding_key r = (org, f)"
  then obtain x where x: "find (same_finding org f) rs = Some x"
    by (metis find_None_iff not_None_eq same_finding_key)
  then have "x \<in> set rs" "finding_key x = (org, f)" by (auto simp: find_Some_iff same_finding_key)
  with r assms have "x = r" by (auto simp: distinct_map inj_on_def)
  with x show "find (same_finding org f) rs = Some r" by simp
qed

lemma plan_attempt_Commit:
  assumes "plan_attempt q fresh existing = Inr (Inr ci)"
  shows "check_transition (tq_input q) existing = None"
    "ci = \<lparr>tc_organization = tq_organization q, tc_finding = tq_finding q,
           tc_triage = (case existing of None \<Rightarrow> fresh | Some r \<Rightarrow> tr_id r),
           tc_expected_version = (case existing of None \<Rightarrow> 0 | Some r \<Rightarrow> tr_version r),
           tc_previous_status = current_status existing, tc_source = tq_source q, tc_user = tq_user q,
           tc_data = tq_input q,
           tc_events = build_events existing (tq_input q) (case existing of None \<Rightarrow> fresh | Some r \<Rightarrow> tr_id r) (tq_user q)\<rparr>"
  using assms by (auto simp: plan_attempt_def Let_def split: option.splits if_splits)

text \<open>What a transaction that succeeds does to the records and the history.\<close>

lemma commit_cases:
  assumes ok: "triage_ok db R" and existing: "read_of (td_records db) (tq_organization q) (tq_finding q) existing"
    and plan: "plan_attempt q fresh existing = Inr (Inr ci)"
    and commit: "commit_transaction audit env ci db = Some (r, db')"
  obtains (insert) "existing = None" "r = inserted_record env ci" "td_records db' = td_records db @ [r]"
      "\<forall>x \<in> set (td_records db). finding_key x \<noteq> finding_key r" "tr_id r = fresh"
      "view_of r = requested_view (tq_input q) new_view"
      "map fst (td_events db') = map fst (td_events db) @ owned_events fresh (tq_user q) (tc_events ci)"
  | (update) x where "existing = Some x" "x \<in> set (td_records db)" "r = updated_record env ci x"
      "td_records db' = map (\<lambda>y. if y = x then r else y) (td_records db)"
      "view_of r = requested_view (tq_input q) (view_of x)"
      "map fst (td_events db') = map fst (td_events db) @ owned_events (tr_id x) (tq_user q) (tc_events ci)"
proof -
  let ?rs = "td_records db" and ?find = "find (same_finding (tq_organization q) (tq_finding q)) (td_records db)"
  note ci = plan_attempt_Commit(2) [OF plan]
  from commit obtain rs where up: "upsert_record env ci ?rs = Some (r, rs)" and rs: "td_records db' = rs"
    and ev: "map fst (td_events db') = map fst (td_events db) @ owned_events (tr_id r) (tc_user ci) (tc_events ci)"
    by (auto simp: commit_transaction_def commit_change_def Let_def owned_events_def comp_def split: option.splits)
  have keys: "distinct (map finding_key ?rs)" and pos: "\<forall>r \<in> set ?rs. tr_version r > 0"
    using ok by (simp_all add: triage_ok_def)
  show thesis
  proof (cases ?find)
    case None
    then have fresh_key: "\<forall>x \<in> set ?rs. finding_key x \<noteq> (tq_organization q, tq_finding q)"
      by (auto simp: find_None_iff same_finding_key)
    with existing have "existing = None"
      by (auto simp: read_of_def same_finding_key split: option.splits)
    moreover have r: "r = inserted_record env ci" "rs = ?rs @ [r]"
      using up None by (auto simp: upsert_record_def ci)
    ultimately show ?thesis using fresh_key ev
      by (intro insert) (simp_all add: rs inserted_record_def finding_key_def ci view_of_def requested_view_def new_view_def)
  next
    case (Some y)
    then have y: "y \<in> set ?rs" "finding_key y = (tq_organization q, tq_finding q)"
      using find_same_finding [OF keys] by auto
    with up Some have v: "tr_version y = tc_expected_version ci" and r: "r = updated_record env ci y"
      and rs': "rs = map (\<lambda>x. if same_finding (tq_organization q) (tq_finding q) x then updated_record env ci x else x) ?rs"
      by (auto simp: upsert_record_def ci split: if_splits)
    from v pos y(1) obtain x where x: "existing = Some x" "tr_version x = tr_version y"
      by (cases existing) (auto simp: ci)
    with existing y keys have "x = y"
      by (auto simp: read_of_def same_finding_key distinct_map inj_on_def)
    moreover have "rs = map (\<lambda>z. if z = y then r else z) ?rs"
      using keys y by (auto simp: rs' same_finding_key r distinct_map inj_on_def)
    moreover have "tr_id r = tr_id y" "view_of r = requested_view (tq_input q) (view_of y)" "tc_user ci = tq_user q"
      by (simp_all add: r updated_record_def ci view_of_def requested_view_def)
    ultimately show ?thesis using ev r x y(1) rs by (intro update) simp_all
  qed
qed

lemma filter_owned [simp]:
  "filter (\<lambda>e. tv_triage e = i) (owned_events t u es) = (if i = t then owned_events t u es else [])"
  by (induction es) (auto simp: owned_events_def)

lemma history_append:
  assumes "map fst (td_events db') = map fst (td_events db) @ owned_events t u es"
  shows "history_of x db' = history_of x db @ (if tr_id x = t then owned_events t u es else [])"
  using assms by (simp add: history_of_def)

lemma replayed_commit:
  assumes "replay h new_view = Some (existing_view existing)" and "plan_attempt q fresh existing = Inr (Inr ci)"
  shows "replay (h @ owned_events t u (tc_events ci)) new_view = Some (requested_view (tq_input q) (existing_view existing))"
  using assms(1) replay_build_events [OF plan_attempt_Commit(1) [OF assms(2)]]
  by (simp add: replay_append plan_attempt_Commit(2) [OF assms(2)])

lemma read_of_append: "read_of rs org f existing \<Longrightarrow> read_of (rs @ xs) org f existing"
  by (auto simp: read_of_def split: option.splits)

lemma read_of_update:
  assumes "read_of rs org f existing" and "x \<in> set rs" and "finding_key r = finding_key x" and "tr_id r = tr_id x"
    and "tr_version x < tr_version r"
  shows "read_of (map (\<lambda>y. if y = x then r else y) rs) org f existing"
proof (cases existing)
  case (Some z)
  with assms(1) obtain y where y: "same_finding org f z" "y \<in> set rs" "finding_key y = finding_key z" "tr_id y = tr_id z"
    "tr_version z \<le> tr_version y" "tr_version z = tr_version y \<longrightarrow> z = y"
    by (auto simp: read_of_def)
  show ?thesis
  proof (cases "y = x")
    case True
    with y assms show ?thesis by (auto simp: read_of_def Some intro!: bexI [of _ r])
  next
    case False
    with y show ?thesis by (auto simp: read_of_def Some intro!: bexI [of _ y])
  qed
qed (simp add: read_of_def)

lemma triage_okD:
  assumes "triage_ok db R"
  shows "distinct (map tr_id (td_records db))" "distinct (map finding_key (td_records db))"
    "e \<in> set (map fst (td_events db)) \<Longrightarrow> tv_triage e \<in> tr_id ` set (td_records db)"
    "r \<in> set (td_records db) \<Longrightarrow> tr_version r > 0"
    "r \<in> set (td_records db) \<Longrightarrow> replay (history_of r db) new_view = Some (view_of r)"
    "(org, f, existing) \<in> R \<Longrightarrow> read_of (td_records db) org f existing"
  using assms unfolding triage_ok_def by blast+

lemma triage_ok_commit:
  assumes ok: "triage_ok db R" and R: "(tq_organization q, tq_finding q, existing) \<in> R"
    and fresh: "fresh \<notin> tr_id ` set (td_records db)" and plan: "plan_attempt q fresh existing = Inr (Inr ci)"
    and commit: "commit_transaction audit env ci db = Some (r, db')"
  shows "triage_ok db' R"
proof -
  note okD = triage_okD [OF ok]
  from ok okD(6) [OF R] plan commit show ?thesis
  proof (cases rule: commit_cases)
    case insert
    have none: "history_of r db = []"
      using okD(3) fresh by (fastforce simp: history_of_def insert(5) filter_empty_conv)
    have "replay (history_of r db') new_view = Some (view_of r)"
      using replayed_commit [OF _ plan, of "[]" fresh "tq_user q"] none
      by (simp add: history_append [OF insert(7)] insert(1,5,6) existing_view_def)
    moreover have "history_of y db' = history_of y db" if "y \<in> set (td_records db)" for y
      using that fresh by (auto simp: history_append [OF insert(7)])
    moreover have "tr_version r > 0" by (simp add: insert(2) inserted_record_def)
    moreover have "tv_triage e = fresh" if "e \<in> set (owned_events fresh (tq_user q) (tc_events ci))" for e
      using that by (auto simp: owned_events_def)
    ultimately show ?thesis
      using okD fresh insert(4,5) unfolding triage_ok_def insert(3,7)
      by (auto intro: read_of_append)
  next
    case (update x)
    have same: "finding_key r = finding_key x" "tr_id r = tr_id x" "tr_version x < tr_version r"
      by (simp_all add: update(3) updated_record_def finding_key_def)
    have ids: "map tr_id (td_records db') = map tr_id (td_records db)"
      and keys: "map finding_key (td_records db') = map finding_key (td_records db)"
      using same by (simp_all add: update(4))
    have r: "replay (history_of r db') new_view = Some (view_of r)"
    proof -
      have "history_of r db = history_of x db" by (simp add: history_of_def same)
      with replayed_commit [OF _ plan, of "history_of x db" "tr_id x" "tq_user q"] okD(5) [OF update(2)] show ?thesis
        by (simp add: history_append [OF update(6)] same update(1,5) existing_view_def)
    qed
    have others: "replay (history_of y db') new_view = Some (view_of y)" if y: "y \<in> set (td_records db)" "y \<noteq> x" for y
    proof -
      have "tr_id y \<noteq> tr_id x" using y update(2) okD(1) by (auto simp: distinct_map inj_on_def)
      with okD(5) [OF y(1)] show ?thesis by (simp add: history_append [OF update(6)])
    qed
    have rows: "y = r \<or> y \<in> set (td_records db) \<and> y \<noteq> x" if "y \<in> set (td_records db')" for y
      using that by (auto simp: update(4) split: if_splits)
    have "tr_id ` set (td_records db') = tr_id ` set (td_records db)"
      using arg_cong [OF ids, of set] by simp
    with okD(3) update(2) have events: "\<forall>e \<in> set (map fst (td_events db')). tv_triage e \<in> tr_id ` set (td_records db')"
      by (auto simp: update(6) owned_events_def)
    have records: "\<forall>y \<in> set (td_records db'). tr_version y > 0 \<and> replay (history_of y db') new_view = Some (view_of y)"
      using rows r others okD(4) same(3) by (metis gr_zeroI not_less_zero)
    have reads: "read_of (td_records db') org f e" if "(org, f, e) \<in> R" for org f e
      unfolding update(4) by (intro read_of_update okD(6) that update(2) same)
    show ?thesis
      unfolding triage_ok_def ids keys using okD(1,2) events records reads by blast
  qed
qed

lemma reachable_ok: "triage_reachable db R \<Longrightarrow> triage_ok db R"
proof (induction rule: triage_reachable.induct)
  case (start t)
  show ?case by (simp add: triage_ok_def)
next
  case (read db R org f)
  have "read_of (td_records db) org f (find_triage org f db)"
  proof (cases "find_triage org f db")
    case (Some r)
    then have "r \<in> set (td_records db) \<and> finding_key r = (org, f)"
      using find_same_finding [OF triage_okD(2) [OF read.IH]] by (simp add: find_triage_def)
    with Some show ?thesis by (auto simp: read_of_def same_finding_key)
  qed (simp add: read_of_def)
  with triage_okD [OF read.IH] show ?case unfolding triage_ok_def by blast
next
  case (commit db R q existing fresh ci audit env r db')
  show ?case by (rule triage_ok_commit [OF commit.IH commit.hyps(2-)])
next
  case (outbox db R t)
  then show ?case by (simp add: triage_ok_def history_of_def)
qed

text \<open>
  C24: The history is the state.  However requests interleave, the events of a finding, replayed from
  an untriaged one in the order in which they were stored, give exactly its status, assignee,
  severity and notes: no change is lost, none is overwritten by a request that had read an older
  record, and every status in the history is one that may follow the one before it.
\<close>

theorem history_is_the_state:
  assumes "triage_reachable db R" and "r \<in> set (td_records db)"
  shows "replay (history_of r db) new_view = Some (view_of r)"
  by (rule triage_okD(5) [OF reachable_ok [OF assms(1)] assms(2)])

subsection \<open>One request among others\<close>

text \<open>What others do during a request are steps of theirs, and the ids it draws are new when it needs them.\<close>

definition others_behave :: "tx_env \<Rightarrow> bool" where
  "others_behave env \<longleftrightarrow>
     (\<forall>db R. triage_reachable db R \<longrightarrow>
        (\<exists>R'. R \<subseteq> R' \<and> triage_reachable (tx_meanwhile env db) R')
        \<and> (\<exists>R'. R \<subseteq> R' \<and> triage_reachable (tx_afterwards env db) R'))"

fun fresh_ids :: "tx_env list \<Rightarrow> triage_db \<Rightarrow> bool" where
  "fresh_ids [] db = True"
| "fresh_ids (env # envs) db =
     (tx_triage_id env \<notin> tr_id ` set (td_records (tx_meanwhile env db))
      \<and> fresh_ids envs (tx_afterwards env (tx_meanwhile env db)))"

lemma others_behaveD:
  assumes "others_behave env" and "triage_reachable db R"
  shows "\<exists>R'. R \<subseteq> R' \<and> triage_reachable (tx_meanwhile env db) R'"
    "\<exists>R'. R \<subseteq> R' \<and> triage_reachable (tx_afterwards env db) R'"
  using assms unfolding others_behave_def by blast+

lemma requested_view_idem: "requested_view input (requested_view input v) = requested_view input v"
  by (auto simp: requested_view_def or_keep_def split: option.splits)

lemma field_event_Nil [simp]: "field_event t u c ty f old new = [] \<longleftrightarrow> new = old"
  by (simp add: field_event_def)

lemma build_events_Nil:
  assumes "build_events (Some r) input triage user = []"
  shows "requested_view input (view_of r) = view_of r"
proof -
  have "ti_status input = Some st \<Longrightarrow> st = tr_status r" "ti_assignee input = Some a \<Longrightarrow> a = tr_assignee r"
    "ti_severity input = Some v \<Longrightarrow> v = tr_severity r" "ti_notes input = Some n \<Longrightarrow> n = tr_notes r" for st a v n
    using assms by (simp_all add: build_events_def Let_def current_status_def)
  then show ?thesis
    by (cases "ti_status input"; cases "ti_assignee input"; cases "ti_severity input"; cases "ti_notes input")
      (simp_all add: requested_view_def view_of_def or_keep_def)
qed

lemma plan_attempt_Nothing:
  assumes "plan_attempt q fresh existing = Inr (Inl r)"
  shows "existing = Some r" "requested_view (tq_input q) (view_of r) = view_of r"
  using assms
  by (auto simp: plan_attempt_def Let_def split: option.splits if_splits dest: build_events_Nil)

lemma find_triage_Some:
  assumes "triage_reachable db R" and "find_triage org f db = Some r"
  shows "r \<in> set (td_records db)"
  using assms(2) find_same_finding [OF triage_okD(2) [OF reachable_ok [OF assms(1)]]] by (simp add: find_triage_def)

lemma commit_attempts_reachable:
  assumes "triage_reachable db R" and "\<forall>env \<in> set envs. others_behave env" and "fresh_ids envs db"
    and "existing = find_triage (tq_organization q) (tq_finding q) db"
    and "commit_attempts audit q envs existing db = (res, db')"
  shows "\<exists>R'. R \<subseteq> R' \<and> triage_reachable db' R'
    \<and> (\<forall>r es. res = Inr (r, es) \<longrightarrow> r \<in> set (td_records db') \<and> requested_view (tq_input q) (view_of r) = view_of r)"
  using assms
proof (induction audit q envs existing db arbitrary: R rule: commit_attempts.induct)
  case (2 audit q env envs existing db)
  let ?org = "tq_organization q" and ?f = "tq_finding q"
  have reach: "triage_reachable db (insert (?org, ?f, existing) R)"
    using triage_reachable.read [OF "2.prems"(1)] "2.prems"(4) by simp
  have env: "others_behave env" using "2.prems"(2) by simp
  have fresh: "tx_triage_id env \<notin> tr_id ` set (td_records (tx_meanwhile env db))" using "2.prems"(3) by simp
  obtain R1 where R1: "insert (?org, ?f, existing) R \<subseteq> R1" "triage_reachable (tx_meanwhile env db) R1"
    using others_behaveD(1) [OF env reach] by blast
  show ?case
  proof (cases "plan_attempt q (tx_triage_id env) existing")
    case (Inl err)
    with "2.prems" show ?thesis by auto
  next
    case (Inr plan)
    show ?thesis
    proof (cases plan)
      case (Inl r)
      note stays = plan_attempt_Nothing [OF Inr [unfolded Inl]]
      moreover have "r \<in> set (td_records db)"
        using find_triage_Some [OF "2.prems"(1)] stays(1) "2.prems"(4) by simp
      ultimately show ?thesis using "2.prems"(1,5) Inr Inl by auto
    next
      case (Inr ci)
      note plan = \<open>plan_attempt q (tx_triage_id env) existing = Inr plan\<close> [unfolded Inr]
      have read: "(?org, ?f, existing) \<in> R1" and "R \<subseteq> R1" using R1(1) by blast+
      show ?thesis
      proof (cases "commit_transaction audit env ci (tx_meanwhile env db)")
        case None
        show ?thesis
        proof (cases "envs = []")
          case True
          with "2.prems"(5) plan None R1(2) \<open>R \<subseteq> R1\<close> show ?thesis by auto
        next
          case False
          let ?db2 = "tx_afterwards env (tx_meanwhile env db)"
          obtain R2 where R2: "R1 \<subseteq> R2" "triage_reachable ?db2 R2"
            using others_behaveD(2) [OF env R1(2)] by blast
          have run: "commit_attempts audit q envs (find_triage ?org ?f ?db2) ?db2 = (res, db')"
            using "2.prems"(5) plan None False by (simp add: Let_def)
          have "\<forall>env \<in> set envs. others_behave env" "fresh_ids envs ?db2" using "2.prems"(2,3) by simp_all
          note IH = "2.IH" [OF plan refl refl None False refl R2(2) this refl run]
          have sub: "R \<subseteq> R2" using R2(1) \<open>R \<subseteq> R1\<close> by blast
          show ?thesis using IH
            by (elim exE conjE, intro exI conjI) (rule order_trans [OF sub])
        qed
      next
        case (Some rdb)
        obtain r db2 where rdb: "rdb = (r, db2)" by (cases rdb)
        note committed = Some [unfolded rdb]
        have "triage_reachable db2 R1"
          by (rule triage_reachable.commit [OF R1(2) read fresh plan committed])
        moreover have "r \<in> set (td_records db2) \<and> requested_view (tq_input q) (view_of r) = view_of r"
          using reachable_ok [OF R1(2)] triage_okD(6) [OF reachable_ok [OF R1(2)] read] plan committed
          by (cases rule: commit_cases) (auto simp: requested_view_idem)
        ultimately show ?thesis using "2.prems"(5) plan committed \<open>R \<subseteq> R1\<close> by (auto simp: Let_def)
      qed
    qed
  qed
qed auto

lemma map_sum_Inr: "map_sum (\<lambda>e. e) f x = Inr y \<longleftrightarrow> (\<exists>z. x = Inr z \<and> y = f z)"
  by (cases x) auto

lemma upsert_attempts:
  assumes "upsert_triage check members envs q db = (Inr r, db')"
  shows "check = FindingExists \<and> check_assignee members (tq_input q) = None
    \<and> (\<exists>es. commit_attempts (triage_audit q) q [fst envs, snd envs]
           (find_triage (tq_organization q) (tq_finding q) db) db = (Inr (r, es), db'))"
  using assms
  by (auto simp: upsert_triage_def assert_finding_exists_def commit_with_retry_def Let_def map_sum_Inr
      split: finding_check.splits option.splits prod.splits)

lemma upsert_reachable:
  assumes "triage_reachable db R" and "others_behave (fst envs)" and "others_behave (snd envs)"
    and "fresh_ids [fst envs, snd envs] db"
    and "upsert_triage check members envs q db = (res, db')"
  shows "\<exists>R'. R \<subseteq> R' \<and> triage_reachable db' R'
    \<and> (\<forall>r. res = Inr r \<longrightarrow> r \<in> set (td_records db') \<and> requested_view (tq_input q) (view_of r) = view_of r)"
proof -
  have envs: "\<forall>env \<in> set [fst envs, snd envs]. others_behave env" using assms(2,3) by simp
  let ?run = "commit_attempts (triage_audit q) q [fst envs, snd envs]
      (find_triage (tq_organization q) (tq_finding q) db) db"
  obtain res1 db1 where run: "?run = (res1, db1)" by (cases ?run)
  from assms(5) consider "db' = db" "\<exists>err. res = Inl err" | "db' = db1" "res = map_sum (\<lambda>e. e) fst res1"
    by (auto simp: upsert_triage_def commit_with_retry_def Let_def run split: option.splits simp del: commit_attempts.simps)
  then show ?thesis
  proof cases
    case 1
    then show ?thesis using assms(1) by blast
  next
    case 2
    with commit_attempts_reachable [OF assms(1) envs assms(4) refl run] show ?thesis
      by (auto simp: map_sum_Inr)
  qed
qed

text \<open>
  C26: A request that succeeds has been applied: whatever other requests do before, between and after
  its attempts, the record it returns is in the table and has every value the request asked for;
  the finding exists and a new assignee is a member of the organization.
\<close>

theorem upsert_applies_request:
  assumes "triage_reachable db R" and "others_behave (fst envs)" and "others_behave (snd envs)"
    and "fresh_ids [fst envs, snd envs] db"
    and "upsert_triage check members envs q db = (Inr r, db')"
  shows "(\<exists>R'. triage_reachable db' R') \<and> r \<in> set (td_records db')
    \<and> requested_view (tq_input q) (view_of r) = view_of r
    \<and> check = FindingExists \<and> (\<forall>a. ti_assignee (tq_input q) = Some (Some a) \<longrightarrow> a \<in> set members)"
  using upsert_reachable [OF assms] upsert_attempts [OF assms(5)]
  by (auto simp: check_assignee_def split: if_splits)

subsection \<open>A finding that two operators triage at once\<close>

definition sample_input :: "triage_status \<Rightarrow> triage_input" where
  "sample_input st = \<lparr>ti_status = Some st, ti_assignee = None, ti_severity = None, ti_notes = None, ti_comment = None\<rparr>"

definition sample_triage :: "string \<Rightarrow> triage_status \<Rightarrow> triage_request" where
  "sample_triage f st =
     \<lparr>tq_organization = ''org'', tq_finding = f, tq_input = sample_input st, tq_source = ''user'', tq_user = ''ana''\<rparr>"

definition sample_tx :: "string \<Rightarrow> (triage_db \<Rightarrow> triage_db) \<Rightarrow> tx_env" where
  "sample_tx i others =
     \<lparr>tx_js_now = 5000, tx_db_now = 6000, tx_iso = (\<lambda>_. ''now''), tx_triage_id = i, tx_ids = (\<lambda>n. i @ show_nat n),
      tx_audit = \<lparr>au_id = i, au_organization = Some ''org'', au_actor = Some ''ana'', au_actor_type = ''user'',
                  au_ip = None, au_user_agent = None, au_correlation = None\<rparr>,
      tx_meanwhile = others, tx_afterwards = (\<lambda>db. db)\<rparr>"

definition quiet_tx :: "string \<Rightarrow> tx_env \<times> tx_env" where
  "quiet_tx i = (sample_tx i (\<lambda>db. db), sample_tx i (\<lambda>db. db))"

definition sample_upsert :: "string \<Rightarrow> string \<Rightarrow> triage_status \<Rightarrow> triage_db \<Rightarrow> (triage_error + triage_record) \<times> triage_db" where
  "sample_upsert i f st = upsert_triage FindingExists [] (quiet_tx i) (sample_triage f st)"

definition empty_triage :: triage_db where
  "empty_triage = \<lparr>td_records = [], td_events = [], td_outbox = []\<rparr>"

lemma empty_reachable: "triage_reachable empty_triage {}"
  unfolding empty_triage_def by (rule triage_reachable.start)

lemma quiet_behaves: "others_behave (sample_tx i (\<lambda>db. db))"
  by (auto simp: others_behave_def sample_tx_def)

text \<open>The other operator moves the finding from \<open>new\<close> to \<open>wont_fix\<close> while this one triages it.\<close>

definition other_operator :: "triage_status \<Rightarrow> triage_db \<Rightarrow> triage_db" where
  "other_operator st db =
     (if ''a'' \<in> tr_id ` set (td_records db) then db else snd (sample_upsert ''a'' ''f'' st db))"

definition disturbed_tx :: "triage_status \<Rightarrow> tx_env \<times> tx_env" where
  "disturbed_tx st = (sample_tx ''b'' (other_operator st), sample_tx ''b'' (\<lambda>db. db))"

lemma quiet_upsert_reachable:
  assumes "triage_reachable db R" and "i \<notin> tr_id ` set (td_records db)"
  shows "\<exists>R'. R \<subseteq> R' \<and> triage_reachable (snd (sample_upsert i f st db)) R'"
proof -
  obtain res db' where up: "upsert_triage FindingExists [] (quiet_tx i) (sample_triage f st) db = (res, db')"
    by (cases "upsert_triage FindingExists [] (quiet_tx i) (sample_triage f st) db")
  have "fresh_ids [fst (quiet_tx i), snd (quiet_tx i)] db" using assms(2) by (simp add: quiet_tx_def sample_tx_def)
  from upsert_reachable [OF assms(1) _ _ this up] show ?thesis
    by (auto simp: quiet_tx_def quiet_behaves sample_upsert_def up [unfolded quiet_tx_def])
qed

lemma disturbed_behaves: "others_behave (fst (disturbed_tx st))" "others_behave (snd (disturbed_tx st))"
proof -
  have "\<exists>R'. R \<subseteq> R' \<and> triage_reachable (other_operator st db) R'" if "triage_reachable db R" for db R
    using that quiet_upsert_reachable [OF that, of "''a''"] by (auto simp: other_operator_def)
  then show "others_behave (fst (disturbed_tx st))" "others_behave (snd (disturbed_tx st))"
    by (auto simp: others_behave_def disturbed_tx_def sample_tx_def)
qed

definition disturbed_upsert :: "(triage_error + triage_record) \<times> triage_db" where
  "disturbed_upsert = upsert_triage FindingExists [] (disturbed_tx TsWontFix) (sample_triage ''f'' TsTriaged) empty_triage"

lemma disturbed_upsert_succeeds:
  "\<exists>r db'. disturbed_upsert = (Inr r, db') \<and> td_records db' = [r] \<and> tr_version r = 2 \<and> tr_status r = TsTriaged
    \<and> map tv_new (history_of r db') = [Some ''wont_fix'', Some ''triaged'']"
proof -
  obtain res db' where d: "disturbed_upsert = (res, db')" by (cases disturbed_upsert)
  have "case disturbed_upsert of
      (Inr r, db') \<Rightarrow> td_records db' = [r] \<and> tr_version r = 2 \<and> tr_status r = TsTriaged
        \<and> map tv_new (history_of r db') = [Some ''wont_fix'', Some ''triaged'']
    | _ \<Rightarrow> False"
    by code_simp
  then show ?thesis unfolding d by (cases res) simp_all
qed

lemma disturbed_fresh: "fresh_ids [fst (disturbed_tx TsWontFix), snd (disturbed_tx TsWontFix)] empty_triage"
  by code_simp

lemma history_is_the_state_witness:
  "\<exists>db R r. triage_reachable db R \<and> td_records db = [r] \<and> tr_version r = 2
    \<and> replay (history_of r db) new_view = Some (view_of r) \<and> tr_status r = TsTriaged"
proof -
  obtain r db where d: "disturbed_upsert = (Inr r, db)" "td_records db = [r]" "tr_version r = 2" "tr_status r = TsTriaged"
    using disturbed_upsert_succeeds by blast
  from upsert_reachable [OF empty_reachable disturbed_behaves disturbed_fresh d(1) [unfolded disturbed_upsert_def]]
  obtain R where "triage_reachable db R" by blast
  with history_is_the_state [OF this, of r] d show ?thesis by auto
qed

lemma upsert_applies_request_witness:
  "\<exists>r db'. disturbed_upsert = (Inr r, db') \<and> (\<exists>R'. triage_reachable db' R') \<and> tr_version r = 2
    \<and> requested_view (sample_input TsTriaged) (view_of r) = view_of r"
proof -
  obtain r db where d: "disturbed_upsert = (Inr r, db)" "tr_version r = 2"
    using disturbed_upsert_succeeds by blast
  from upsert_applies_request [OF empty_reachable disturbed_behaves disturbed_fresh d(1) [unfolded disturbed_upsert_def]] d
  show ?thesis by (auto simp: sample_triage_def)
qed

text \<open>Two findings have been triaged; a bulk request moves both on, and meanwhile the second is dismissed.\<close>

definition triaged_pair :: triage_db where
  "triaged_pair = snd (sample_upsert ''y'' ''f'' TsTriaged (snd (sample_upsert ''x'' ''e'' TsTriaged empty_triage)))"

definition disturbed_bulk :: "bulk_item list" where
  "disturbed_bulk =
     [\<lparr>bi_finding = ''e'', bi_check = FindingExists, bi_envs = quiet_tx ''u''\<rparr>,
      \<lparr>bi_finding = ''f'', bi_check = FindingExists, bi_envs = disturbed_tx TsWontFix\<rparr>]"

text \<open>
  Code bug.  The loop of a bulk request catches what a conflict leads to, but not the error of a
  transition that has become invalid through the concurrent change: instead of a failure for this
  finding the whole request ends in the error, although the findings before it have been changed.
\<close>

theorem bulk_aborts_after_conflict:
  "case bulk_triage [] ''org'' ''ana'' (sample_input TsInProgress) disturbed_bulk triaged_pair of
     (Inl err, db) \<Rightarrow> err = InvalidTransition TsWontFix TsInProgress
       \<and> map (\<lambda>r. (tr_finding r, tr_status r)) (td_records db) = [(''e'', TsInProgress), (''f'', TsWontFix)]
   | (Inr _, _) \<Rightarrow> False"
  by code_simp

end
