(* ===== verification/Finding_Projection_Safety.thy ===== *)
theory Finding_Projection_Safety
  imports Finding_Projection Triage_History
begin

section \<open>What the projection guarantees\<close>

text \<open>
  Changes of triage, deliveries of their events, the batches of the reconciler and rebuilds of the
  index, in any interleaving: a batch is two steps, between which others act, and may be abandoned.
  An event may be delivered late, more than once and out of order.  Of the clocks it is required
  that a change that comes after the start of a cycle is later than its cutoff; of the index, that
  it is not rebuilt while a cycle is under way.
\<close>

type_synonym running_batch = "nat \<times> recon_state option \<times> cycle \<times> triage_record list"

text \<open>A search may show an older version of a document, never one that is newer than the document.\<close>

definition at_least :: "documents \<Rightarrow> string \<Rightarrow> nat \<Rightarrow> bool" where
  "at_least docs f v \<longleftrightarrow> (\<exists>p. map_of docs f = Some (Some p) \<and> v \<le> pj_version p)"

definition lags_behind :: "documents option \<Rightarrow> documents \<Rightarrow> bool" where
  "lags_behind seen docs \<longleftrightarrow>
     (\<forall>s f p. seen = Some s \<longrightarrow> (f, Some p) \<in> set s \<longrightarrow> at_least docs f (pj_version p))"

definition untriaged :: "documents \<Rightarrow> bool" where
  "untriaged docs \<longleftrightarrow> (\<forall>d \<in> set docs. snd d = None)"

definition cycle_active :: "recon_state option \<Rightarrow> bool" where
  "cycle_active s \<longleftrightarrow> (case s of None \<Rightarrow> False | Some s \<Rightarrow> truthy_str (rn_cursor s))"

inductive projection_reachable ::
  "string \<Rightarrow> (time \<Rightarrow> string) \<Rightarrow> projection_sys \<Rightarrow> running_batch option \<Rightarrow> time
   \<Rightarrow> (string \<times> projection) set \<Rightarrow> string set \<Rightarrow> bool"
  for org :: string and to_iso :: "time \<Rightarrow> string" where
  start: "untriaged docs \<Longrightarrow> projection_reachable org to_iso
      \<lparr>ps_records = [], ps_index = \<lparr>fi_uuid = u, fi_docs = docs\<rparr>, ps_watermark = None, ps_state = None\<rparr>
      None cutoff {} {u}"
| commit: "projection_reachable org to_iso sys b cutoff sent uuids
    \<Longrightarrow> upsert_record env ci (ps_records sys) = Some (r, rs) \<Longrightarrow> cutoff < tx_js_now env
    \<Longrightarrow> (find (same_finding (tc_organization ci) (tc_finding ci)) (ps_records sys) = None
          \<Longrightarrow> tc_triage ci \<notin> tr_id ` set (ps_records sys))
    \<Longrightarrow> projection_reachable org to_iso (sys\<lparr>ps_records := rs\<rparr>) b cutoff
          (if tr_organization r = org then insert (tr_finding r, to_projection to_iso r) sent else sent) uuids"
| document: "projection_reachable org to_iso sys b cutoff sent uuids
    \<Longrightarrow> \<not> has_own (fi_docs (ps_index sys)) f
    \<Longrightarrow> projection_reachable org to_iso
          (sys\<lparr>ps_index := (ps_index sys)\<lparr>fi_docs := fi_docs (ps_index sys) @ [(f, None)]\<rparr>\<rparr>) b cutoff sent uuids"
| deliver: "projection_reachable org to_iso sys b cutoff sent uuids \<Longrightarrow> (f, p) \<in> sent
    \<Longrightarrow> projection_reachable org to_iso
          (sys\<lparr>ps_index := (ps_index sys)\<lparr>fi_docs := snd (project_finding_triage call f p (fi_docs (ps_index sys)))\<rparr>\<rparr>)
          b cutoff sent uuids"
| batch_begin: "projection_reachable org to_iso sys None cutoff sent uuids \<Longrightarrow> 0 < limit
    \<Longrightarrow> begin_batch env org limit sys = (cycle, records)
    \<Longrightarrow> projection_reachable org to_iso sys (Some (limit, ps_state sys, cycle, records))
          (max cutoff (cy_cutoff cycle)) sent uuids"
| batch_finish: "projection_reachable org to_iso sys (Some (limit, persisted, batch)) cutoff sent uuids
    \<Longrightarrow> be_iso env = to_iso \<Longrightarrow> lags_behind (be_seen env (fi_docs (ps_index sys))) (fi_docs (ps_index sys))
    \<Longrightarrow> finish_batch env limit persisted batch sys = (res, sys')
    \<Longrightarrow> projection_reachable org to_iso sys' None cutoff sent uuids"
| batch_abandon: "projection_reachable org to_iso sys b cutoff sent uuids
    \<Longrightarrow> projection_reachable org to_iso sys None cutoff sent uuids"
| rebuild: "projection_reachable org to_iso sys None cutoff sent uuids \<Longrightarrow> \<not> cycle_active (ps_state sys)
    \<Longrightarrow> u \<notin> uuids \<Longrightarrow> untriaged docs
    \<Longrightarrow> projection_reachable org to_iso (sys\<lparr>ps_index := \<lparr>fi_uuid = u, fi_docs = docs\<rparr>\<rparr>) None cutoff sent (insert u uuids)"

subsection \<open>Documents only move forward\<close>

definition docs_step :: "(string \<times> projection) set \<Rightarrow> documents \<Rightarrow> documents \<Rightarrow> bool" where
  "docs_step sent docs docs' \<longleftrightarrow>
     (\<forall>f v. at_least docs f v \<longrightarrow> at_least docs' f v)
     \<and> (\<forall>f p. map_of docs' f = Some (Some p) \<longrightarrow> map_of docs f = Some (Some p) \<or> (f, p) \<in> sent)"

lemma docs_step_refl: "docs_step sent docs docs"
  by (simp add: docs_step_def)

lemma docs_step_trans: "docs_step sent a b \<Longrightarrow> docs_step sent b c \<Longrightarrow> docs_step sent a c"
  unfolding docs_step_def by blast

lemma project_document_step: "(f, p) \<in> sent \<Longrightarrow> docs_step sent docs (project_document f p docs)"
  by (auto simp: docs_step_def project_document_def at_least_def split: option.splits if_splits)

lemma project_document_at_least: "has_own docs f \<Longrightarrow> at_least (project_document f p docs) f (pj_version p)"
  by (auto simp: project_document_def at_least_def has_own_def split: option.splits)

lemma project_finding_step: "(f, p) \<in> sent \<Longrightarrow> docs_step sent docs (snd (project_finding_triage call f p docs))"
  by (auto simp: project_finding_triage_def project_document_step docs_step_refl split: es_call.splits)

lemma project_finding_done:
  "project_finding_triage call f p docs = (True, docs') \<Longrightarrow> at_least docs' f (pj_version p)"
  by (auto simp: project_finding_triage_def project_document_at_least split: es_call.splits)

lemma project_all_step:
  assumes "project_all env rs docs = ((repaired, failed), docs')"
    and "\<forall>r \<in> set rs. (tr_finding r, to_projection (be_iso env) r) \<in> sent"
  shows "docs_step sent docs docs' \<and> (failed = 0 \<longrightarrow> (\<forall>r \<in> set rs. at_least docs' (tr_finding r) (tr_version r)))"
  using assms
proof (induction rs arbitrary: docs repaired failed)
  case Nil
  then show ?case by (simp add: docs_step_refl)
next
  case (Cons r rs)
  let ?p = "to_projection (be_iso env) r"
  obtain ok docs1 where one: "project_finding_triage (be_calls env (tr_finding r)) (tr_finding r) ?p docs = (ok, docs1)"
    by (cases "project_finding_triage (be_calls env (tr_finding r)) (tr_finding r) ?p docs")
  obtain r1 f1 where rest: "project_all env rs docs1 = ((r1, f1), docs')"
    and counts: "failed = (if ok then f1 else f1 + 1)"
    using Cons.prems(1) one by (auto split: prod.splits if_splits)
  have "docs_step sent docs docs1"
    using project_finding_step [of "tr_finding r" ?p sent docs "be_calls env (tr_finding r)"] Cons.prems(2) one by simp
  moreover have IH: "docs_step sent docs1 docs'"
    "failed = 0 \<longrightarrow> (\<forall>r \<in> set rs. at_least docs' (tr_finding r) (tr_version r))"
    using Cons.IH [OF rest] Cons.prems(2) counts by auto
  moreover have "at_least docs' (tr_finding r) (tr_version r)" if "failed = 0"
  proof -
    from that counts have "ok" by (auto split: if_splits)
    with project_finding_done [of "be_calls env (tr_finding r)" "tr_finding r" ?p docs docs1] one
    have "at_least docs1 (tr_finding r) (tr_version r)" by (simp add: to_projection_def)
    with IH(1) show ?thesis by (simp add: docs_step_def)
  qed
  ultimately show ?case by (auto intro: docs_step_trans)
qed

lemma versions_seen:
  assumes "lags_behind (Some seen) docs" and "0 < v" and "v \<le> get_or 0 (get_projection_versions seen fs) f"
  shows "at_least docs f v"
proof -
  let ?es = "concat (map (\<lambda>(f, d). case d of None \<Rightarrow> [] | Some p \<Rightarrow> if f \<in> set fs then [(f, pj_version p)] else []) seen)"
  from assms(2,3) obtain w where w: "map_of (rev ?es) f = Some w" "v \<le> w"
    by (auto simp: get_or_def get_projection_versions_def split: option.splits)
  from map_of_SomeD [OF w(1)] obtain p where "(f, Some p) \<in> set seen" "w = pj_version p"
    by (auto split: option.splits if_splits)
  with assms(1) w(2) show ?thesis by (fastforce simp: lags_behind_def at_least_def)
qed

lemma reconcile_records_step:
  assumes "reconcile_records env rs docs = ((repaired, failed), docs')"
    and "\<forall>r \<in> set rs. (tr_finding r, to_projection (be_iso env) r) \<in> sent"
    and "lags_behind (be_seen env docs) docs" and "\<forall>r \<in> set rs. 0 < tr_version r"
  shows "docs_step sent docs docs' \<and> (failed = 0 \<longrightarrow> (\<forall>r \<in> set rs. at_least docs' (tr_finding r) (tr_version r)))"
proof (cases "rs = [] \<or> be_seen env docs = None")
  case True
  with assms(1) show ?thesis by (auto simp: reconcile_records_def docs_step_refl split: if_splits)
next
  case False
  then obtain seen where seen: "be_seen env docs = Some seen" by auto
  let ?stale = "\<lambda>r. get_or 0 (get_projection_versions seen (map tr_finding rs)) (tr_finding r) < tr_version r"
  from assms(1) False seen have "project_all env (filter ?stale rs) docs = ((repaired, failed), docs')"
    by (simp add: reconcile_records_def Let_def)
  from project_all_step [OF this] assms(2)
  have all: "docs_step sent docs docs'"
    "failed = 0 \<longrightarrow> (\<forall>r \<in> set rs. ?stale r \<longrightarrow> at_least docs' (tr_finding r) (tr_version r))"
    by auto
  have "at_least docs' (tr_finding r) (tr_version r)" if "r \<in> set rs" "\<not> ?stale r" for r
    using versions_seen [OF assms(3) [unfolded seen], of "tr_version r" _ "tr_finding r"] that assms(4) all(1)
    by (simp add: docs_step_def not_less)
  with all show ?thesis by blast
qed

subsection \<open>The invariant\<close>

definition docs_of :: "projection_sys \<Rightarrow> documents" where
  "docs_of sys = fi_docs (ps_index sys)"

text \<open>The records of the organization that are not newer than a time and satisfy \<open>P\<close> are projected.\<close>

definition projected_where :: "string \<Rightarrow> projection_sys \<Rightarrow> time \<Rightarrow> (triage_record \<Rightarrow> bool) \<Rightarrow> bool" where
  "projected_where org sys t P \<longleftrightarrow>
     (\<forall>r \<in> set (ps_records sys). tr_organization r = org \<longrightarrow> tr_updated r \<le> t \<longrightarrow> P r
        \<longrightarrow> at_least (docs_of sys) (tr_finding r) (tr_version r))"

definition after_cursor :: "string option \<Rightarrow> triage_record \<Rightarrow> bool" where
  "after_cursor c r \<longleftrightarrow> (case c of None \<Rightarrow> True | Some c \<Rightarrow> c = [] \<or> tr_id r > c)"

definition records_ok :: "string \<Rightarrow> (time \<Rightarrow> string) \<Rightarrow> projection_sys \<Rightarrow> (string \<times> projection) set \<Rightarrow> bool" where
  "records_ok org to_iso sys sent \<longleftrightarrow>
     distinct (map tr_id (ps_records sys)) \<and> distinct (map finding_key (ps_records sys))
     \<and> (\<forall>r \<in> set (ps_records sys). 0 < tr_version r)
     \<and> (\<forall>r \<in> set (ps_records sys). tr_organization r = org \<longrightarrow> (tr_finding r, to_projection to_iso r) \<in> sent)
     \<and> (\<forall>(f, p) \<in> sent. \<exists>r \<in> set (ps_records sys). finding_key r = (org, f) \<and> pj_version p \<le> tr_version r
          \<and> (pj_version p = tr_version r \<longrightarrow> p = to_projection to_iso r))"

definition docs_sent :: "projection_sys \<Rightarrow> (string \<times> projection) set \<Rightarrow> bool" where
  "docs_sent sys sent \<longleftrightarrow> (\<forall>f p. map_of (docs_of sys) f = Some (Some p) \<longrightarrow> (f, p) \<in> sent)"

definition watermark_ok :: "string \<Rightarrow> projection_sys \<Rightarrow> time \<Rightarrow> string set \<Rightarrow> bool" where
  "watermark_ok org sys cutoff uuids \<longleftrightarrow>
     fi_uuid (ps_index sys) \<in> uuids
     \<and> (\<forall>w. ps_watermark sys = Some w \<longrightarrow> wm_through w \<le> cutoff \<and> wm_uuid w \<in> uuids
          \<and> (wm_uuid w = fi_uuid (ps_index sys) \<longrightarrow> wm_failed w = 0 \<longrightarrow>
               projected_where org sys (wm_through w) (\<lambda>_. True)))"

definition state_ok :: "string \<Rightarrow> projection_sys \<Rightarrow> time \<Rightarrow> bool" where
  "state_ok org sys cutoff \<longleftrightarrow>
     (\<forall>s c t. ps_state sys = Some s \<longrightarrow> rn_cursor s = Some c \<longrightarrow> c \<noteq> [] \<longrightarrow> rn_cutoff s = Some t \<longrightarrow>
        t \<le> cutoff \<and> (rn_failed s = 0 \<longrightarrow> projected_where org sys t (\<lambda>r. tr_id r \<le> c)))"

definition batch_ok :: "string \<Rightarrow> (time \<Rightarrow> string) \<Rightarrow> projection_sys \<Rightarrow> running_batch option \<Rightarrow> time
    \<Rightarrow> (string \<times> projection) set \<Rightarrow> bool" where
  "batch_ok org to_iso sys b cutoff sent \<longleftrightarrow>
     (\<forall>limit persisted cy records. b = Some (limit, persisted, cy, records) \<longrightarrow>
        0 < limit \<and> persisted = ps_state sys \<and> cy_cutoff cy \<le> cutoff
        \<and> (\<forall>x \<in> set records. 0 < tr_version x \<and> (tr_finding x, to_projection to_iso x) \<in> sent)
        \<and> (\<forall>r \<in> set (ps_records sys). tr_organization r = org \<longrightarrow> tr_updated r \<le> cy_cutoff cy
             \<longrightarrow> after_cursor (cy_cursor cy) r
             \<longrightarrow> r \<in> set records \<or> (length records = limit \<and> tr_id (last records) < tr_id r))
        \<and> (cy_failed cy = 0 \<longrightarrow> projected_where org sys (cy_cutoff cy) (\<lambda>r. \<not> after_cursor (cy_cursor cy) r)))"

lemma projected_where_docs:
  assumes "projected_where org sys t P" and "docs_step sent (docs_of sys) (docs_of sys')"
    and "ps_records sys' = ps_records sys"
  shows "projected_where org sys' t P"
  using assms unfolding projected_where_def docs_step_def by metis

lemma docs_change_ok:
  assumes step: "docs_step sent (docs_of sys) (docs_of sys')" and same: "ps_records sys' = ps_records sys"
    "ps_watermark sys' = ps_watermark sys" "ps_state sys' = ps_state sys" "fi_uuid (ps_index sys') = fi_uuid (ps_index sys)"
  shows "records_ok org to_iso sys sent \<Longrightarrow> records_ok org to_iso sys' sent"
    and "docs_sent sys sent \<Longrightarrow> docs_sent sys' sent"
    and "watermark_ok org sys cutoff uuids \<Longrightarrow> watermark_ok org sys' cutoff uuids"
    and "state_ok org sys cutoff \<Longrightarrow> state_ok org sys' cutoff"
    and "batch_ok org to_iso sys b cutoff sent \<Longrightarrow> batch_ok org to_iso sys' b cutoff sent"
proof -
  note projected = projected_where_docs [OF _ step same(1)]
  show "records_ok org to_iso sys sent \<Longrightarrow> records_ok org to_iso sys' sent" by (simp add: records_ok_def same)
  show "docs_sent sys sent \<Longrightarrow> docs_sent sys' sent" using step unfolding docs_sent_def docs_step_def by metis
  show "watermark_ok org sys cutoff uuids \<Longrightarrow> watermark_ok org sys' cutoff uuids"
    using projected by (simp add: watermark_ok_def same)
  show "state_ok org sys cutoff \<Longrightarrow> state_ok org sys' cutoff"
    using projected by (simp add: state_ok_def same)
  show "batch_ok org to_iso sys b cutoff sent \<Longrightarrow> batch_ok org to_iso sys' b cutoff sent"
    using projected by (simp add: batch_ok_def same)
qed

text \<open>A change is later than every cutoff, so no claim about older records is affected.\<close>

lemma upsert_records:
  assumes up: "upsert_record env ci rs = Some (r, rs')" and keys: "distinct (map finding_key rs)"
    and fresh: "find (same_finding (tc_organization ci) (tc_finding ci)) rs = None \<longrightarrow> tc_triage ci \<notin> tr_id ` set rs"
  obtains (insert) "rs' = rs @ [r]" "finding_key r \<notin> finding_key ` set rs" "tr_id r \<notin> tr_id ` set rs"
      "0 < tr_version r" "tr_updated r = tx_js_now env"
  | (update) x where "x \<in> set rs" "rs' = map (\<lambda>y. if y = x then r else y) rs" "finding_key r = finding_key x"
      "tr_id r = tr_id x" "tr_version r = tr_version x + 1" "tr_updated r = tx_js_now env"
proof (cases "find (same_finding (tc_organization ci) (tc_finding ci)) rs")
  case None
  with up have "r = inserted_record env ci" "rs' = rs @ [r]" by (auto simp: upsert_record_def)
  moreover have "\<forall>x \<in> set rs. finding_key x \<noteq> (tc_organization ci, tc_finding ci)"
    using None by (auto simp: find_None_iff same_finding_key)
  ultimately show ?thesis using fresh None
    by (intro insert) (auto simp: inserted_record_def finding_key_def)
next
  case (Some x)
  then have x: "x \<in> set rs" "finding_key x = (tc_organization ci, tc_finding ci)"
    using find_same_finding [OF keys] by auto
  from up Some have r: "r = updated_record env ci x"
    and rs': "rs' = map (\<lambda>y. if same_finding (tc_organization ci) (tc_finding ci) y then updated_record env ci y else y) rs"
    by (auto simp: upsert_record_def split: if_splits)
  have "rs' = map (\<lambda>y. if y = x then r else y) rs"
    using keys x by (auto simp: rs' same_finding_key r distinct_map inj_on_def)
  with x(1) show ?thesis by (intro update) (auto simp: r updated_record_def finding_key_def)
qed

lemma upsert_older:
  assumes up: "upsert_record env ci rs = Some (r, rs')" and keys: "distinct (map finding_key rs)"
    and fresh: "find (same_finding (tc_organization ci) (tc_finding ci)) rs = None \<longrightarrow> tc_triage ci \<notin> tr_id ` set rs"
  shows "x \<in> set rs \<Longrightarrow> x \<in> set rs' \<or> (finding_key x = finding_key r \<and> tr_version x < tr_version r)"
    and "x \<in> set rs \<Longrightarrow> finding_key x = finding_key r \<Longrightarrow> tr_version x < tr_version r"
proof -
  have older: "tr_version x < tr_version r" if x: "x \<in> set rs" "finding_key x = finding_key r" for x
    using up keys fresh
  proof (cases rule: upsert_records)
    case insert
    with x show ?thesis by (metis image_eqI)
  next
    case (update y)
    with x keys have "x = y" by (auto simp: distinct_map inj_on_def)
    with update show ?thesis by simp
  qed
  have "x \<in> set rs' \<or> finding_key x = finding_key r" if "x \<in> set rs" for x
    using up keys fresh by (cases rule: upsert_records) (use that in auto)
  with older show "x \<in> set rs \<Longrightarrow> x \<in> set rs' \<or> (finding_key x = finding_key r \<and> tr_version x < tr_version r)"
    "x \<in> set rs \<Longrightarrow> finding_key x = finding_key r \<Longrightarrow> tr_version x < tr_version r" by blast+
qed

lemma upsert_members:
  assumes up: "upsert_record env ci rs = Some (r, rs')" and keys: "distinct (map finding_key rs)"
    and ids: "distinct (map tr_id rs)"
    and fresh: "find (same_finding (tc_organization ci) (tc_finding ci)) rs = None \<longrightarrow> tc_triage ci \<notin> tr_id ` set rs"
  shows "r \<in> set rs'" "tr_updated r = tx_js_now env" "0 < tr_version r"
    "y \<in> set rs' \<Longrightarrow> y = r \<or> y \<in> set rs"
    "distinct (map finding_key rs')" "distinct (map tr_id rs')"
proof -
  have "r \<in> set rs' \<and> tr_updated r = tx_js_now env \<and> 0 < tr_version r \<and> set rs' \<subseteq> Set.insert r (set rs)"
    using up keys fresh by (cases rule: upsert_records) auto
  moreover have "distinct (map finding_key rs') \<and> distinct (map tr_id rs')"
    using up keys fresh
  proof (cases rule: upsert_records)
    case (update x)
    then have "map finding_key rs' = map finding_key rs" "map tr_id rs' = map tr_id rs" by simp_all
    with keys ids show ?thesis by simp
  qed (use keys ids in simp)
  ultimately show "r \<in> set rs'" "tr_updated r = tx_js_now env" "0 < tr_version r"
    "y \<in> set rs' \<Longrightarrow> y = r \<or> y \<in> set rs"
    "distinct (map finding_key rs')" "distinct (map tr_id rs')"
    by auto
qed

definition projection_ok ::
  "string \<Rightarrow> (time \<Rightarrow> string) \<Rightarrow> projection_sys \<Rightarrow> running_batch option \<Rightarrow> time
   \<Rightarrow> (string \<times> projection) set \<Rightarrow> string set \<Rightarrow> bool" where
  "projection_ok org to_iso sys b cutoff sent uuids \<longleftrightarrow>
     records_ok org to_iso sys sent \<and> docs_sent sys sent \<and> watermark_ok org sys cutoff uuids
     \<and> state_ok org sys cutoff \<and> batch_ok org to_iso sys b cutoff sent"

lemma projected_where_commit:
  assumes "projected_where org sys t P" and "t < tr_updated r"
    and "\<And>y. y \<in> set rs' \<Longrightarrow> y = r \<or> y \<in> set (ps_records sys)"
  shows "projected_where org (sys\<lparr>ps_records := rs'\<rparr>) t P"
  using assms unfolding projected_where_def docs_of_def by fastforce

lemma projection_ok_commit:
  assumes ok: "projection_ok org to_iso sys b cutoff sent uuids"
    and up: "upsert_record env ci (ps_records sys) = Some (r, rs')" and late: "cutoff < tx_js_now env"
    and fresh: "find (same_finding (tc_organization ci) (tc_finding ci)) (ps_records sys) = None \<longrightarrow>
      tc_triage ci \<notin> tr_id ` set (ps_records sys)"
  shows "projection_ok org to_iso (sys\<lparr>ps_records := rs'\<rparr>) b cutoff
    (if tr_organization r = org then insert (tr_finding r, to_projection to_iso r) sent else sent) uuids"
proof -
  let ?sys = "sys\<lparr>ps_records := rs'\<rparr>"
    and ?sent = "if tr_organization r = org then insert (tr_finding r, to_projection to_iso r) sent else sent"
  have rec: "records_ok org to_iso sys sent" using ok by (simp add: projection_ok_def)
  then have "distinct (map finding_key (ps_records sys))" "distinct (map tr_id (ps_records sys))"
    by (simp_all add: records_ok_def)
  note older = upsert_older(1) [OF up this(1) fresh] and up = upsert_members [OF up this fresh]
  have sub: "sent \<subseteq> ?sent" by auto
  have old: "projected_where org ?sys t P" if "projected_where org sys t P" "t \<le> cutoff" for t P
    using projected_where_commit [OF that(1) _ up(4)] that(2) late up(2) by simp
  have "records_ok org to_iso ?sys ?sent"
  proof -
    have "\<exists>x \<in> set rs'. finding_key x = (org, f) \<and> pj_version p \<le> tr_version x
        \<and> (pj_version p = tr_version x \<longrightarrow> p = to_projection to_iso x)" if p: "(f, p) \<in> ?sent" for f p
    proof (cases "(f, p) \<in> sent")
      case True
      with rec obtain x where x: "x \<in> set (ps_records sys)" "finding_key x = (org, f)" "pj_version p \<le> tr_version x"
        "pj_version p = tr_version x \<longrightarrow> p = to_projection to_iso x"
        unfolding records_ok_def by blast
      from older [OF x(1)] show ?thesis
      proof
        assume "x \<in> set rs'"
        with x show ?thesis by blast
      next
        assume "finding_key x = finding_key r \<and> tr_version x < tr_version r"
        with x(2,3) up(1) show ?thesis by (intro bexI [of _ r]) auto
      qed
    next
      case False
      with p have "f = tr_finding r" "p = to_projection to_iso r" "tr_organization r = org"
        by (auto split: if_splits)
      with up(1) show ?thesis by (intro bexI [of _ r]) (auto simp: finding_key_def to_projection_def)
    qed
    moreover have "0 < tr_version x \<and> (tr_organization x = org \<longrightarrow> (tr_finding x, to_projection to_iso x) \<in> ?sent)"
      if "x \<in> set rs'" for x
    proof (cases "x = r")
      case False
      with up(4) [OF that] rec have "0 < tr_version x" "tr_organization x = org \<longrightarrow> (tr_finding x, to_projection to_iso x) \<in> sent"
        by (auto simp: records_ok_def)
      with sub show ?thesis by blast
    qed (simp add: up(3))
    ultimately show ?thesis using up(5,6) unfolding records_ok_def by auto
  qed
  moreover have "docs_sent ?sys ?sent"
    using ok sub by (auto simp: projection_ok_def docs_sent_def docs_of_def)
  moreover have "watermark_ok org ?sys cutoff uuids"
    using ok old by (auto simp: projection_ok_def watermark_ok_def)
  moreover have "state_ok org ?sys cutoff"
    using ok old by (auto simp: projection_ok_def state_ok_def)
  moreover have "batch_ok org to_iso ?sys b cutoff ?sent"
    unfolding batch_ok_def
  proof (intro allI impI)
    fix limit persisted cy records assume b: "b = Some (limit, persisted, cy, records)"
    have old_batch: "batch_ok org to_iso sys b cutoff sent" using ok by (simp add: projection_ok_def)
    then have *: "0 < limit" "persisted = ps_state sys" "cy_cutoff cy \<le> cutoff"
      "\<forall>x \<in> set records. 0 < tr_version x \<and> (tr_finding x, to_projection to_iso x) \<in> sent"
      and page: "\<And>x. x \<in> set (ps_records sys) \<Longrightarrow> tr_organization x = org \<Longrightarrow> tr_updated x \<le> cy_cutoff cy \<Longrightarrow>
        after_cursor (cy_cursor cy) x \<Longrightarrow> x \<in> set records \<or> (length records = limit \<and> tr_id (last records) < tr_id x)"
      and earlier: "cy_failed cy = 0 \<longrightarrow> projected_where org sys (cy_cutoff cy) (\<lambda>r. \<not> after_cursor (cy_cursor cy) r)"
      by (simp_all add: batch_ok_def b)
    have "x \<in> set (ps_records sys)" if "x \<in> set rs'" "tr_updated x \<le> cy_cutoff cy" for x
      using up(4) [OF that(1)] that(2) *(3) late up(2) by auto
    with page have "\<forall>x \<in> set rs'. tr_organization x = org \<longrightarrow> tr_updated x \<le> cy_cutoff cy \<longrightarrow>
        after_cursor (cy_cursor cy) x \<longrightarrow> x \<in> set records \<or> (length records = limit \<and> tr_id (last records) < tr_id x)"
      by blast
    with * earlier old show "0 < limit \<and> persisted = ps_state ?sys \<and> cy_cutoff cy \<le> cutoff
        \<and> (\<forall>x \<in> set records. 0 < tr_version x \<and> (tr_finding x, to_projection to_iso x) \<in> ?sent)
        \<and> (\<forall>r \<in> set (ps_records ?sys). tr_organization r = org \<longrightarrow> tr_updated r \<le> cy_cutoff cy
             \<longrightarrow> after_cursor (cy_cursor cy) r
             \<longrightarrow> r \<in> set records \<or> (length records = limit \<and> tr_id (last records) < tr_id r))
        \<and> (cy_failed cy = 0 \<longrightarrow> projected_where org ?sys (cy_cutoff cy) (\<lambda>r. \<not> after_cursor (cy_cursor cy) r))"
      by auto
  qed
  ultimately show ?thesis by (simp add: projection_ok_def)
qed

subsection \<open>The steps of a batch\<close>

lemma sort_key_take:
  fixes f :: "'a \<Rightarrow> 'b::linorder"
  assumes "distinct (map f xs)" and "x \<in> set xs"
  shows "x \<in> set (take n (sort_key f xs))
    \<or> (length (take n (sort_key f xs)) = n \<and> (0 < n \<longrightarrow> f (last (take n (sort_key f xs))) < f x))"
proof (cases "x \<in> set (take n (sort_key f xs))")
  case False
  let ?s = "sort_key f xs"
  have "x \<in> set ?s" using assms(2) by simp
  with False have drop: "x \<in> set (drop n ?s)"
    by (metis append_take_drop_id Un_iff set_append)
  then have n: "n < length ?s" by (metis drop_all empty_iff list.set(1) not_le)
  have "f (last (take n ?s)) < f x" if "0 < n"
  proof -
    from n have "length (take n ?s) = n" by simp
    with that have "take n ?s \<noteq> []" by (metis less_numeral_extra(3) list.size(3))
    then have l: "last (take n ?s) \<in> set (take n ?s)" by simp
    have "sorted (map f (take n ?s) @ map f (drop n ?s))"
      by (metis append_take_drop_id map_append sorted_sort_key)
    with l drop have "f (last (take n ?s)) \<le> f x" by (auto simp: sorted_append)
    moreover have "f (last (take n ?s)) \<noteq> f x"
    proof -
      have "distinct (map f (take n ?s) @ map f (drop n ?s))"
        using assms(1) by (metis append_take_drop_id distinct_map distinct_sort map_append set_sort)
      with l drop show ?thesis by auto
    qed
    ultimately show ?thesis by simp
  qed
  with n show ?thesis by simp
qed simp

lemma resolve_cycle_cases:
  obtains (resume) s c t where "persisted = Some s" "rn_cursor s = Some c" "c \<noteq> []" "rn_cutoff s = Some t"
      "cy_cursor (resolve_cycle now persisted) = Some c" "cy_cutoff (resolve_cycle now persisted) = t"
      "cy_failed (resolve_cycle now persisted) = rn_failed s"
  | (fresh) "cy_cursor (resolve_cycle now persisted) = None"
proof (cases "\<exists>s st t c. persisted = Some s \<and> rn_started s = Some st \<and> rn_cutoff s = Some t \<and> rn_cursor s = Some c \<and> c \<noteq> []")
  case True
  then obtain s st t c where *: "persisted = Some s" "rn_started s = Some st" "rn_cutoff s = Some t" "rn_cursor s = Some c" "c \<noteq> []"
    by blast
  then show ?thesis by (intro resume) (simp_all add: resolve_cycle_def)
next
  case False
  then have "cy_cursor (resolve_cycle now persisted) = None"
    by (cases persisted) (auto simp: resolve_cycle_def Let_def truthy_str_def split: option.splits)
  then show ?thesis by (rule fresh)
qed

lemma projection_ok_begin:
  assumes ok: "projection_ok org to_iso sys None cutoff sent uuids" and limit: "0 < limit"
    and begin_: "begin_batch env org limit sys = (cy, records)"
  shows "projection_ok org to_iso sys (Some (limit, ps_state sys, cy, records)) (max cutoff (cy_cutoff cy)) sent uuids"
proof -
  let ?rs = "ps_records sys" and ?c = "max cutoff (cy_cutoff cy)"
  let ?P = "\<lambda>r. tr_organization r = org \<and> tr_updated r \<le> cy_cutoff cy \<and> after_cursor (cy_cursor cy) r"
  have cy: "cy = resolve_cycle (be_now env) (ps_state sys)"
    and records: "records = take limit (sort_key tr_id (filter ?P ?rs))"
    using begin_ by (auto simp: begin_batch_def Let_def list_projection_page_def after_cursor_def)
  have rec: "records_ok org to_iso sys sent" using ok by (simp add: projection_ok_def)
  have mono: "watermark_ok org sys ?c uuids" "state_ok org sys ?c"
    using ok by (fastforce simp: projection_ok_def watermark_ok_def state_ok_def)+
  have "distinct (map tr_id (filter ?P ?rs))"
    using rec by (auto simp: records_ok_def distinct_map intro: inj_on_subset)
  then have page: "r \<in> set records \<or> (length records = limit \<and> tr_id (last records) < tr_id r)"
    if "r \<in> set ?rs" "?P r" for r
    using sort_key_take [of tr_id "filter ?P ?rs" r limit] that limit unfolding records by auto
  have own: "x \<in> set ?rs \<and> tr_organization x = org" if "x \<in> set records" for x
    using that unfolding records by (auto dest: in_set_takeD)
  have old: "projected_where org sys (cy_cutoff cy) (\<lambda>r. \<not> after_cursor (cy_cursor cy) r)" if "cy_failed cy = 0"
  proof (cases rule: resolve_cycle_cases [of "ps_state sys" "be_now env"])
    case (resume s c t)
    with ok that have "projected_where org sys t (\<lambda>r. tr_id r \<le> c)"
      by (simp add: projection_ok_def state_ok_def cy)
    with resume show ?thesis by (auto simp: projected_where_def after_cursor_def cy not_less)
  next
    case fresh
    then show ?thesis by (simp add: projected_where_def after_cursor_def cy)
  qed
  have "batch_ok org to_iso sys (Some (limit, ps_state sys, cy, records)) ?c sent"
    unfolding batch_ok_def
  proof (intro allI impI)
    fix limit' persisted cy' records'
    assume "Some (limit, ps_state sys, cy, records) = Some (limit', persisted, cy', records')"
    then have eq: "limit' = limit" "persisted = ps_state sys" "cy' = cy" "records' = records" by simp_all
    have "\<forall>x \<in> set records. 0 < tr_version x \<and> (tr_finding x, to_projection to_iso x) \<in> sent"
      using own rec by (auto simp: records_ok_def)
    with limit page old show "0 < limit' \<and> persisted = ps_state sys \<and> cy_cutoff cy' \<le> ?c
        \<and> (\<forall>x \<in> set records'. 0 < tr_version x \<and> (tr_finding x, to_projection to_iso x) \<in> sent)
        \<and> (\<forall>r \<in> set ?rs. tr_organization r = org \<longrightarrow> tr_updated r \<le> cy_cutoff cy'
             \<longrightarrow> after_cursor (cy_cursor cy') r
             \<longrightarrow> r \<in> set records' \<or> (length records' = limit' \<and> tr_id (last records') < tr_id r))
        \<and> (cy_failed cy' = 0 \<longrightarrow> projected_where org sys (cy_cutoff cy') (\<lambda>r. \<not> after_cursor (cy_cursor cy') r))"
      unfolding eq by simp
  qed
  with ok mono show ?thesis by (simp add: projection_ok_def)
qed

lemma batch_ok_None: "batch_ok org to_iso sys None cutoff sent"
  by (simp add: batch_ok_def)

text \<open>What a page has repaired, and what it means for the records up to its last.\<close>

lemma batch_projects:
  assumes ok: "projection_ok org to_iso sys (Some (limit, persisted, cy, records)) cutoff sent uuids"
    and iso: "be_iso env = to_iso" and lag: "lags_behind (be_seen env (docs_of sys)) (docs_of sys)"
    and run: "reconcile_records env records (docs_of sys) = ((r, f), docs)"
  shows "docs_step sent (docs_of sys) docs"
    and "cy_failed cy + f = 0 \<Longrightarrow> x \<in> set (ps_records sys) \<Longrightarrow> tr_organization x = org \<Longrightarrow> tr_updated x \<le> cy_cutoff cy
      \<Longrightarrow> at_least docs (tr_finding x) (tr_version x) \<or> (length records = limit \<and> tr_id (last records) < tr_id x)"
proof -
  have b: "\<forall>x \<in> set records. 0 < tr_version x \<and> (tr_finding x, to_projection to_iso x) \<in> sent"
    and page: "\<And>x. x \<in> set (ps_records sys) \<Longrightarrow> tr_organization x = org \<Longrightarrow> tr_updated x \<le> cy_cutoff cy \<Longrightarrow>
      after_cursor (cy_cursor cy) x \<Longrightarrow> x \<in> set records \<or> (length records = limit \<and> tr_id (last records) < tr_id x)"
    and earlier: "cy_failed cy = 0 \<longrightarrow> projected_where org sys (cy_cutoff cy) (\<lambda>r. \<not> after_cursor (cy_cursor cy) r)"
    using ok by (simp_all add: projection_ok_def batch_ok_def)
  have "\<forall>x \<in> set records. (tr_finding x, to_projection (be_iso env) x) \<in> sent" "\<forall>x \<in> set records. 0 < tr_version x"
    using b iso by simp_all
  note step = reconcile_records_step [OF run this(1) lag this(2)]
  then show "docs_step sent (docs_of sys) docs" by simp
  show "at_least docs (tr_finding x) (tr_version x) \<or> (length records = limit \<and> tr_id (last records) < tr_id x)"
    if x: "cy_failed cy + f = 0" "x \<in> set (ps_records sys)" "tr_organization x = org" "tr_updated x \<le> cy_cutoff cy"
  proof (cases "after_cursor (cy_cursor cy) x")
    case True
    with page [OF x(2-4)] step x(1) show ?thesis by auto
  next
    case False
    with earlier x have "at_least (docs_of sys) (tr_finding x) (tr_version x)" by (auto simp: projected_where_def)
    with step show ?thesis by (simp add: docs_step_def)
  qed
qed

lemma projection_ok_finish:
  assumes ok: "projection_ok org to_iso sys (Some (limit, persisted, batch)) cutoff sent uuids"
    and iso: "be_iso env = to_iso" and lag: "lags_behind (be_seen env (docs_of sys)) (docs_of sys)"
    and fin: "finish_batch env limit persisted batch sys = (res, sys')"
  shows "projection_ok org to_iso sys' None cutoff sent uuids"
proof -
  obtain cy records where batch: "batch = (cy, records)" by (cases batch)
  obtain r f docs where run: "reconcile_records env records (docs_of sys) = ((r, f), docs)"
    by (metis prod.exhaust)
  note step = batch_projects [OF ok [unfolded batch] iso lag run]
  define sys1 where "sys1 = sys\<lparr>ps_index := (ps_index sys)\<lparr>fi_docs := docs\<rparr>\<rparr>"
  have sys1: "docs_of sys1 = docs" "ps_records sys1 = ps_records sys" "ps_watermark sys1 = ps_watermark sys"
    "ps_state sys1 = ps_state sys" "fi_uuid (ps_index sys1) = fi_uuid (ps_index sys)"
    by (simp_all add: sys1_def docs_of_def)
  have ok1: "records_ok org to_iso sys1 sent" "docs_sent sys1 sent" "watermark_ok org sys1 cutoff uuids" "state_ok org sys1 cutoff"
    using docs_change_ok(1-4) [of sent sys sys1] step(1) ok sys1 by (simp_all add: projection_ok_def)
  have cutoff: "cy_cutoff cy \<le> cutoff" using ok by (simp add: projection_ok_def batch_ok_def batch)
  let ?checked = "cy_checked cy + length records" and ?repaired = "cy_repaired cy + r" and ?failed = "cy_failed cy + f"
  let ?next = "\<lparr>rn_cursor = Some (tr_id (last records)), rn_started = Some (cy_started cy), rn_cutoff = Some (cy_cutoff cy),
    rn_checked = ?checked, rn_repaired = ?repaired, rn_failed = ?failed, rn_completed = Option.bind persisted rn_completed,
    rn_through = Option.bind persisted rn_through\<rparr>"
  let ?final = "\<lparr>rn_cursor = None, rn_started = None, rn_cutoff = None, rn_checked = ?checked, rn_repaired = ?repaired,
    rn_failed = ?failed, rn_completed = Some (be_end env), rn_through = Some (cy_cutoff cy)\<rparr>"
  let ?mark = "\<lparr>wm_uuid = fi_uuid (ps_index sys1), wm_through = cy_cutoff cy, wm_completed = be_end env,
    wm_checked = ?checked, wm_repaired = ?repaired, wm_failed = ?failed\<rparr>"
  note fin = fin [unfolded finish_batch_def batch prod.case run [unfolded docs_of_def] Let_def sys1_def [symmetric]]
  have next_page: "projection_ok org to_iso sys' None cutoff sent uuids"
    if next_page: "length records = limit" "sys' = sys1\<lparr>ps_state := Some s\<rparr>" "rn_cursor s = Some (tr_id (last records))"
        "rn_cutoff s = Some (cy_cutoff cy)" "rn_failed s = cy_failed cy + f" for s
  proof -
    have "projected_where org sys' (cy_cutoff cy) (\<lambda>x. tr_id x \<le> tr_id (last records))" if "cy_failed cy + f = 0"
      using step(2) [OF that] by (auto simp: projected_where_def next_page(2) docs_of_def sys1_def dest: leD)
    then have "state_ok org sys' cutoff"
      using cutoff next_page by (auto simp: state_ok_def)
    moreover have "records_ok org to_iso sys' sent" "docs_sent sys' sent" "watermark_ok org sys' cutoff uuids"
      using ok1(1-3) by (simp_all add: next_page(2) records_ok_def docs_sent_def watermark_ok_def projected_where_def docs_of_def)
    ultimately show ?thesis by (simp add: projection_ok_def batch_ok_None)
  qed
  have complete: "projection_ok org to_iso sys' None cutoff sent uuids"
    if complete: "length records \<noteq> limit" "wm_uuid w = fi_uuid (ps_index sys1)" "wm_through w = cy_cutoff cy"
        "wm_failed w = cy_failed cy + f"
        "sys' = sys1\<lparr>ps_watermark := Some w\<rparr> \<or> (\<exists>s. rn_cursor s = None \<and> sys' = sys1\<lparr>ps_watermark := Some w, ps_state := Some s\<rparr>)" for w
  proof -
    have same: "ps_records sys' = ps_records sys" "ps_index sys' = ps_index sys1" "ps_watermark sys' = Some w"
      "docs_of sys' = docs" "ps_state sys' = ps_state sys1 \<or> (\<exists>s. rn_cursor s = None \<and> ps_state sys' = Some s)"
      using complete(5) sys1 by (auto simp: docs_of_def)
    have "projected_where org sys' (cy_cutoff cy) (\<lambda>_. True)" if "cy_failed cy + f = 0"
      using step(2) [OF that] complete(1) by (auto simp: projected_where_def same)
    then have "watermark_ok org sys' cutoff uuids"
      using ok1(3) cutoff complete by (auto simp: watermark_ok_def same)
    moreover have "state_ok org sys' cutoff"
      using ok1(4) same(5) by (auto simp: state_ok_def projected_where_def same sys1)
    moreover have "records_ok org to_iso sys' sent" "docs_sent sys' sent"
      using ok1(1,2) by (simp_all add: records_ok_def docs_sent_def same sys1)
    ultimately show ?thesis by (simp add: projection_ok_def batch_ok_None)
  qed
  have ends: "sys' = sys1 \<or> (length records = limit \<and> sys' = sys1\<lparr>ps_state := Some ?next\<rparr>)
    \<or> (length records \<noteq> limit \<and> (sys' = sys1\<lparr>ps_watermark := Some ?mark\<rparr>
         \<or> sys' = sys1\<lparr>ps_watermark := Some ?mark, ps_state := Some ?final\<rparr>))"
    using fin by (cases "length records = limit"; cases "be_save env"; cases "be_integrity env"; cases "be_watermark env")
      simp_all
  then show ?thesis
  proof (elim disjE conjE)
    assume "sys' = sys1"
    with ok1 show ?thesis by (simp add: projection_ok_def batch_ok_None)
  next
    assume "length records = limit" "sys' = sys1\<lparr>ps_state := Some ?next\<rparr>"
    then show ?thesis by (rule next_page) simp_all
  next
    assume "length records \<noteq> limit" "sys' = sys1\<lparr>ps_watermark := Some ?mark\<rparr>"
    then show ?thesis by (intro complete [of ?mark]) simp_all
  next
    assume "length records \<noteq> limit" "sys' = sys1\<lparr>ps_watermark := Some ?mark, ps_state := Some ?final\<rparr>"
    then show ?thesis by (intro complete [of ?mark] disjI2 exI [of _ ?final]) simp_all
  qed
qed

lemma projection_ok_docs:
  assumes "projection_ok org to_iso sys b cutoff sent uuids" and "docs_step sent (docs_of sys) docs"
  shows "projection_ok org to_iso (sys\<lparr>ps_index := (ps_index sys)\<lparr>fi_docs := docs\<rparr>\<rparr>) b cutoff sent uuids"
proof -
  let ?sys = "sys\<lparr>ps_index := (ps_index sys)\<lparr>fi_docs := docs\<rparr>\<rparr>"
  have "docs_step sent (docs_of sys) (docs_of ?sys)" using assms(2) by (simp add: docs_of_def)
  note keep = docs_change_ok [of sent sys ?sys, OF this]
  from assms(1) show ?thesis unfolding projection_ok_def by (auto intro!: keep)
qed

lemma untriaged_lookup: "untriaged docs \<Longrightarrow> map_of docs f \<noteq> Some (Some p)"
  by (auto simp: untriaged_def dest!: map_of_SomeD)

lemma projection_reachable_ok:
  assumes "projection_reachable org to_iso sys b cutoff sent uuids"
  shows "projection_ok org to_iso sys b cutoff sent uuids"
  using assms
proof induction
  case (start docs u cutoff)
  then show ?case
    by (simp add: projection_ok_def records_ok_def docs_sent_def docs_of_def untriaged_lookup watermark_ok_def
        state_ok_def batch_ok_None)
next
  case (commit sys b cutoff sent uuids env ci r rs)
  show ?case by (rule projection_ok_commit [OF commit.IH commit.hyps(2,3)]) (use commit.hyps(4) in blast)
next
  case (document sys b cutoff sent uuids f)
  have "map_of (d @ [(f, None)]) g = Some (Some q) \<longleftrightarrow> map_of d g = Some (Some q)" for d :: documents and g q
    by (auto simp: map_add_def split: option.splits)
  then have "docs_step sent (docs_of sys) (docs_of sys @ [(f, None)])"
    by (simp add: docs_step_def at_least_def)
  from projection_ok_docs [OF document.IH this] show ?case by (simp add: docs_of_def)
next
  case (deliver sys b cutoff sent uuids f p call)
  show ?case using projection_ok_docs [OF deliver.IH project_finding_step [OF deliver.hyps(2)]] by (simp add: docs_of_def)
next
  case (batch_begin sys cutoff sent uuids limit env cycle records)
  show ?case by (rule projection_ok_begin [OF batch_begin.IH batch_begin.hyps(2,3)])
next
  case (batch_finish sys limit persisted batch cutoff sent uuids env res sys')
  show ?case
    by (rule projection_ok_finish [OF batch_finish.IH batch_finish.hyps(2) _ batch_finish.hyps(4)])
      (use batch_finish.hyps(3) in \<open>simp add: docs_of_def\<close>)
next
  case (batch_abandon sys b cutoff sent uuids)
  then show ?case by (simp add: projection_ok_def batch_ok_None)
next
  case (rebuild sys cutoff sent uuids u docs)
  let ?sys = "sys\<lparr>ps_index := \<lparr>fi_uuid = u, fi_docs = docs\<rparr>\<rparr>"
  have ok: "records_ok org to_iso sys sent" "watermark_ok org sys cutoff uuids"
    using rebuild.IH by (simp_all add: projection_ok_def)
  have "watermark_ok org ?sys cutoff (insert u uuids)"
    using ok(2) rebuild.hyps(3) by (auto simp: watermark_ok_def)
  moreover have "state_ok org ?sys cutoff"
    using rebuild.hyps(2) by (auto simp: state_ok_def cycle_active_def)
  moreover have "docs_sent ?sys sent" using rebuild.hyps(4) by (simp add: docs_sent_def docs_of_def untriaged_lookup)
  moreover have "records_ok org to_iso ?sys sent" using ok(1) by (simp add: records_ok_def)
  ultimately show ?case by (simp add: projection_ok_def batch_ok_None)
qed


subsection \<open>Deliveries in any order\<close>

definition deliver_all :: "string \<Rightarrow> projection list \<Rightarrow> documents \<Rightarrow> documents" where
  "deliver_all f ps docs = foldl (\<lambda>d p. project_document f p d) docs ps"

definition newer :: "projection option \<Rightarrow> projection \<Rightarrow> projection option" where
  "newer current p =
     (case current of None \<Rightarrow> Some p | Some c \<Rightarrow> if pj_version c < pj_version p then Some p else Some c)"

lemma deliver_all_lookup:
  "map_of docs f = Some d \<Longrightarrow> map_of (deliver_all f ps docs) f = Some (foldl newer d ps)"
proof (induction ps arbitrary: docs d)
  case (Cons p ps)
  have "map_of (project_document f p docs) f = Some (newer d p)"
    using Cons.prems by (auto simp: project_document_def newer_def split: option.splits)
  from Cons.IH [OF this] show ?case by (simp add: deliver_all_def)
qed (simp add: deliver_all_def)

definition version_of :: "projection option \<Rightarrow> nat option" where
  "version_of d = map_option pj_version d"

lemma foldl_newer:
  "(foldl newer d ps = d \<or> (\<exists>p \<in> set ps. foldl newer d ps = Some p \<and> (\<forall>c. d = Some c \<longrightarrow> pj_version c < pj_version p)))
   \<and> (\<forall>p \<in> set ps. \<exists>q. foldl newer d ps = Some q \<and> pj_version p \<le> pj_version q)"
proof (induction ps arbitrary: d)
  case (Cons p ps)
  have "newer d p = d \<and> (\<exists>c. d = Some c \<and> pj_version p \<le> pj_version c)
      \<or> newer d p = Some p \<and> (\<forall>c. d = Some c \<longrightarrow> pj_version c < pj_version p)"
    by (auto simp: newer_def split: option.splits)
  then consider c where "newer d p = d" "d = Some c" "pj_version p \<le> pj_version c"
    | "newer d p = Some p" "\<forall>c. d = Some c \<longrightarrow> pj_version c < pj_version p" by blast
  then show ?case
  proof cases
    case 1
    then have e: "foldl newer d (p # ps) = foldl newer d ps" by simp
    have "\<exists>q. foldl newer d ps = Some q \<and> pj_version p \<le> pj_version q"
    proof (cases "foldl newer d ps = d")
      case True
      with 1 show ?thesis by simp
    next
      case False
      with Cons.IH [of d] 1(2,3) show ?thesis by fastforce
    qed
    with Cons.IH [of d] show ?thesis unfolding e by auto
  next
    case 2
    then have e: "foldl newer d (p # ps) = foldl newer (Some p) ps" by simp
    have "\<exists>q. foldl newer (Some p) ps = Some q \<and> pj_version p \<le> pj_version q
        \<and> (q = p \<or> q \<in> set ps)"
      using Cons.IH [of "Some p"] by fastforce
    then obtain q where q: "foldl newer (Some p) ps = Some q" "pj_version p \<le> pj_version q" "q = p \<or> q \<in> set ps"
      by blast
    have "\<forall>c. d = Some c \<longrightarrow> pj_version c < pj_version q" using 2(2) q(2) by auto
    with q Cons.IH [of "Some p"] show ?thesis unfolding e by auto
  qed
qed simp

text \<open>
  C28: Deliveries commute.  However often and in whatever order the events of a finding arrive at its
  document, it ends up the same: with the newest version among them, unless it was newer before.
\<close>

theorem deliveries_in_any_order:
  assumes "has_own docs f" and "set ps = set qs"
    and "\<forall>p \<in> set ps. \<forall>q \<in> set ps. pj_version p = pj_version q \<longrightarrow> p = q"
  shows "map_of (deliver_all f ps docs) f = map_of (deliver_all f qs docs) f"
proof -
  from assms(1) obtain d where d: "map_of docs f = Some d" by (auto simp: has_own_def)
  have half: "foldl newer d ys = d" if "foldl newer d xs = d" "set xs = set ys" for xs ys
  proof (rule ccontr)
    assume "foldl newer d ys \<noteq> d"
    then obtain p where p: "p \<in> set ys" "foldl newer d ys = Some p" "\<forall>c. d = Some c \<longrightarrow> pj_version c < pj_version p"
      using foldl_newer [of d ys] by blast
    with foldl_newer [of d xs] that obtain q where "d = Some q" "pj_version p \<le> pj_version q" by metis
    with p(3) show False by auto
  qed
  have "foldl newer d ps = foldl newer d qs"
  proof (cases "foldl newer d ps = d")
    case True
    with half [OF True assms(2)] show ?thesis by simp
  next
    case False
    with half [of qs ps] assms(2) have "foldl newer d qs \<noteq> d" by auto
    with False obtain p q where pq: "p \<in> set ps" "foldl newer d ps = Some p" "q \<in> set qs" "foldl newer d qs = Some q"
      using foldl_newer [of d ps] foldl_newer [of d qs] by blast
    with foldl_newer [of d ps] foldl_newer [of d qs] assms(2) have "pj_version p = pj_version q"
      by (metis antisym option.inject)
    with assms(2,3) pq show ?thesis by auto
  qed
  then show ?thesis by (simp add: deliver_all_lookup [OF d])
qed

subsection \<open>What the repository sends is what the projector reads\<close>

lemma parse_nullable_or_null: "(\<forall>t. s = Some t \<longrightarrow> P t) \<Longrightarrow> parse_nullable P (or_null s) = Some s"
  by (cases s) (simp_all add: parse_nullable_def parse_text_def or_null_def)

lemma parse_version_of_nat: "0 < n \<Longrightarrow> parse_version (JNumber (Finite (of_nat n))) = Some n"
  by (simp add: parse_version_def)

text \<open>
  Round trip.  For every record whose texts are within the limits that requests are checked
  against, the payload the repository puts into the outbox is read by the projector as exactly
  the projection that the reconciler makes of the record.
\<close>

theorem payload_round_trip:
  assumes "tr_organization r \<noteq> []" and "length (tr_organization r) \<le> 191"
    and "tr_finding r \<noteq> []" and "length (tr_finding r) \<le> 512"
    and "\<forall>a. tr_assignee r = Some a \<longrightarrow> length a \<le> 191"
    and "\<forall>v. tr_severity r = Some v \<longrightarrow> v \<in> set SEVERITY_VALUES"
    and "\<forall>n. tr_notes r = Some n \<longrightarrow> length n \<le> 10000"
    and "is_datetime (to_iso (tr_updated r))" and "0 < tr_version r"
  shows "parse_projection_event is_datetime (triage_payload to_iso ci r)
    = Some (tr_organization r, tr_finding r, to_projection to_iso r)"
proof -
  have props: "get_prop (triage_payload to_iso ci r) ''organizationId'' = JString (tr_organization r)"
    "get_prop (triage_payload to_iso ci r) ''findingOpensearchId'' = JString (tr_finding r)"
    "get_prop (triage_payload to_iso ci r) ''status'' = JString (status_text (tr_status r))"
    "get_prop (triage_payload to_iso ci r) ''assigneeUserId'' = or_null (tr_assignee r)"
    "get_prop (triage_payload to_iso ci r) ''severityOverride'' = or_null (tr_severity r)"
    "get_prop (triage_payload to_iso ci r) ''notes'' = or_null (tr_notes r)"
    "get_prop (triage_payload to_iso ci r) ''updatedAt'' = JString (to_iso (tr_updated r))"
    "get_prop (triage_payload to_iso ci r) ''projectionVersion'' = JNumber (Finite (of_nat (tr_version r)))"
    by (simp_all add: triage_payload_def get_prop_def)
  show ?thesis
    unfolding parse_projection_event_def props parse_nullable_or_null [OF assms(5)]
      parse_nullable_or_null [OF assms(6)] parse_nullable_or_null [OF assms(7)] parse_version_of_nat [OF assms(9)]
    using assms by (simp add: parse_text_def to_projection_def)
qed

end
