(* ===== verification/Finding_Reconciliation.thy ===== *)
theory Finding_Reconciliation
  imports Finding_Projection_Safety
begin

section \<open>Running a reconciliation\<close>

text \<open>
  The loop over the batches of an organization ends, although others change records meanwhile; and
  what happens when the index is rebuilt during a cycle.  At the end, runs on concrete states.
\<close>

subsection \<open>The loop ends\<close>

definition old_ids :: "string \<Rightarrow> time \<Rightarrow> projection_sys \<Rightarrow> string set" where
  "old_ids org t sys = tr_id ` {r \<in> set (ps_records sys). tr_organization r = org \<and> tr_updated r \<le> t}"

definition cycle_cutoff :: "batch_env \<Rightarrow> projection_sys \<Rightarrow> time" where
  "cycle_cutoff env sys = cy_cutoff (resolve_cycle (be_now env) (ps_state sys))"

text \<open>Others leave the state of the reconciliation alone, which the lock protects, and date no change back.\<close>

definition leaves_cycle :: "string \<Rightarrow> time \<Rightarrow> string set \<Rightarrow> (projection_sys \<Rightarrow> projection_sys) \<Rightarrow> bool" where
  "leaves_cycle org t ids others \<longleftrightarrow>
     (\<forall>sys. ps_state (others sys) = ps_state sys \<and> (old_ids org t sys \<subseteq> ids \<longrightarrow> old_ids org t (others sys) \<subseteq> ids))"

definition ids_left :: "string set \<Rightarrow> string option \<Rightarrow> string set" where
  "ids_left ids c = {i \<in> ids. case c of None \<Rightarrow> True | Some c \<Rightarrow> c = [] \<or> i > c}"

lemma sorted_le_last: "sorted ys \<Longrightarrow> y \<in> set ys \<Longrightarrow> y \<le> last ys"
  by (induction ys) auto

lemma resolve_cycle_resume:
  assumes "rn_cursor s = Some c" and "c \<noteq> []" and "rn_started s = Some st" and "rn_cutoff s = Some t"
  shows "cy_cursor (resolve_cycle now (Some s)) = Some c" "cy_cutoff (resolve_cycle now (Some s)) = t"
  using assms by (simp_all add: resolve_cycle_def)

text \<open>A batch that does not end the loop has moved the cursor over an id that was left.\<close>

lemma batch_advances:
  assumes run: "reconcile_batch env org batch sys = (Some b, sys')" and more: "\<not> ba_complete b"
    and ids: "old_ids org t sys \<subseteq> ids" and t: "cycle_cutoff env sys = t" and nonempty: "[] \<notin> ids"
  obtains s c where "ps_state sys' = Some s" "rn_cursor s = Some c" "c \<noteq> []" "rn_cutoff s = Some t" "rn_started s \<noteq> None"
    "c \<in> ids_left ids (cy_cursor (resolve_cycle (be_now env) (ps_state sys)))" "ps_records sys' = ps_records sys"
proof -
  let ?cy = "resolve_cycle (be_now env) (ps_state sys)" and ?limit = "bounded_batch_size batch"
  let ?P = "\<lambda>r. tr_organization r = org \<and> tr_updated r \<le> cy_cutoff ?cy \<and> after_cursor (cy_cursor ?cy) r"
  define records where "records = take ?limit (sort_key tr_id (filter ?P (ps_records sys)))"
  have begin_: "begin_batch env org ?limit sys = (?cy, records)"
    by (simp add: begin_batch_def Let_def list_projection_page_def records_def after_cursor_def)
  obtain r f docs where rec: "reconcile_records env records (fi_docs (ps_index sys)) = ((r, f), docs)"
    by (metis prod.exhaust)
  from run more have full: "length records = ?limit"
    by (auto simp: reconcile_batch_def Let_def begin_ finish_batch_def rec split: if_splits)
  moreover have "0 < ?limit" by (simp add: bounded_batch_size_def)
  ultimately have "last records \<in> set records" by (metis last_in_set less_numeral_extra(3) list.size(3))
  then have last: "last records \<in> set (ps_records sys)" "?P (last records)"
    unfolding records_def by (auto dest!: in_set_takeD)
  have "tr_id (last records) \<in> old_ids org t sys" using last t by (auto simp: old_ids_def cycle_cutoff_def)
  with ids nonempty have c: "tr_id (last records) \<in> ids" "tr_id (last records) \<noteq> []" by auto
  have "tr_id (last records) \<in> ids_left ids (cy_cursor ?cy)"
    using c(1) last(2) by (simp add: ids_left_def after_cursor_def)
  with run more full c(2) t show thesis
    by (intro that) (auto simp: reconcile_batch_def Let_def begin_ finish_batch_def rec cycle_cutoff_def split: if_splits)
qed

lemma reconcile_organization_returns:
  assumes "finite ids" and "[] \<notin> ids" and "envs \<noteq> []"
    and "\<forall>(env, others) \<in> set envs. leaves_cycle org t ids others"
    and "old_ids org t sys \<subseteq> ids" and "cycle_cutoff (fst (hd envs)) sys = t"
    and "card (ids_left ids (cy_cursor (resolve_cycle (be_now (fst (hd envs))) (ps_state sys)))) < length envs"
  shows "\<exists>res. reconcile_organization org batch envs sys = Some res"
  using assms(3-)
proof (induction envs arbitrary: sys)
  case (Cons e rest)
  obtain env others where e: "e = (env, others)" by (cases e)
  let ?sys = "others sys"
  have quiet: "ps_state ?sys = ps_state sys" "old_ids org t ?sys \<subseteq> ids"
    using Cons.prems(2,3) by (auto simp: e leaves_cycle_def)
  obtain res sys' where run: "reconcile_batch env org batch ?sys = (res, sys')"
    by (cases "reconcile_batch env org batch ?sys")
  show ?case
  proof (cases "\<exists>b. res = Some b \<and> \<not> ba_complete b")
    case False
    with run show ?thesis by (auto simp: e split: option.splits)
  next
    case True
    then obtain b where b: "res = Some b" "\<not> ba_complete b" by blast
    let ?cur = "cy_cursor (resolve_cycle (be_now env) (ps_state sys))"
    have cut: "cycle_cutoff env ?sys = t" using Cons.prems(4) quiet(1) by (simp add: e cycle_cutoff_def)
    from batch_advances [OF run [unfolded b(1)] b(2) quiet(2) cut assms(2)] obtain s c
      where s: "ps_state sys' = Some s" "rn_cursor s = Some c" "c \<noteq> []" "rn_cutoff s = Some t" "rn_started s \<noteq> None"
        and c: "c \<in> ids_left ids ?cur" and same: "ps_records sys' = ps_records ?sys"
      unfolding quiet(1) by blast
    obtain st where st: "rn_started s = Some st" using s(5) by blast
    note resume = resolve_cycle_resume [OF s(2,3) st s(4)]
    have "ids_left ids (Some c) \<subset> ids_left ids ?cur"
      using c s(3) by (auto simp: ids_left_def split: option.splits)
    moreover have "finite (ids_left ids ?cur)" using assms(1) by (simp add: ids_left_def)
    ultimately have less: "card (ids_left ids (Some c)) < card (ids_left ids ?cur)" by (rule psubset_card_mono [rotated])
    have "0 < card (ids_left ids ?cur)" using less by simp
    with Cons.prems(5) have rest: "rest \<noteq> []" by (auto simp: e)
    have "\<exists>res. reconcile_organization org batch rest sys' = Some res"
    proof (rule Cons.IH [OF rest])
      show "\<forall>(env, others) \<in> set rest. leaves_cycle org t ids others" using Cons.prems(2) by simp
      show "old_ids org t sys' \<subseteq> ids" using quiet(2) by (simp add: old_ids_def same)
      show "cycle_cutoff (fst (hd rest)) sys' = t" by (simp add: cycle_cutoff_def s(1) resume)
      show "card (ids_left ids (cy_cursor (resolve_cycle (be_now (fst (hd rest))) (ps_state sys')))) < length rest"
        using less Cons.prems(5) by (simp add: s(1) resume e)
    qed
    with run b show ?thesis by (simp add: e)
  qed
qed simp

text \<open>
  C27: The reconciliation of an organization ends.  Whatever the batches do and whatever others change
  between them, as long as their changes carry times after the start of the cycle, the loop ends
  after at most one batch more than there are records that are older than its start: the records that
  are added or changed meanwhile cannot keep it going.
\<close>

theorem reconciliation_ends:
  assumes "finite ids" and "[] \<notin> ids" and "old_ids org (cycle_cutoff (fst (hd envs)) sys) sys \<subseteq> ids"
    and "\<forall>(env, others) \<in> set envs. leaves_cycle org (cycle_cutoff (fst (hd envs)) sys) ids others"
    and "card ids < length envs"
  shows "\<exists>res. reconcile_organization org batch envs sys = Some res"
proof (rule reconcile_organization_returns [OF assms(1,2) _ assms(4,3) refl])
  show "envs \<noteq> []" using assms(5) by auto
  have "card (ids_left ids c) \<le> card ids" for c using assms(1) by (intro card_mono) (auto simp: ids_left_def)
  with assms(5) show "card (ids_left ids (cy_cursor (resolve_cycle (be_now (fst (hd envs))) (ps_state sys)))) < length envs"
    using le_less_trans by blast
qed

subsection \<open>Runs on concrete states\<close>

definition sample_record :: "string \<Rightarrow> string \<Rightarrow> time \<Rightarrow> triage_record" where
  "sample_record i f t =
     \<lparr>tr_id = i, tr_organization = ''org'', tr_finding = f, tr_status = TsTriaged, tr_assignee = Some ''ana'',
      tr_severity = Some ''high'', tr_notes = None, tr_version = 1, tr_created = t, tr_updated = t\<rparr>"

definition sample_iso :: "time \<Rightarrow> string" where
  "sample_iso t = ''now''"

definition sample_batch :: "time \<Rightarrow> batch_env" where
  "sample_batch t =
     \<lparr>be_now = t, be_end = t, be_seen = Some, be_calls = (\<lambda>_. EsDone), be_integrity = True, be_watermark = True,
      be_save = True, be_iso = sample_iso\<rparr>"

definition sample_sys :: "triage_record list \<Rightarrow> string list \<Rightarrow> projection_sys" where
  "sample_sys rs fs =
     \<lparr>ps_records = rs, ps_index = \<lparr>fi_uuid = ''u1'', fi_docs = map (\<lambda>f. (f, None)) fs\<rparr>, ps_watermark = None, ps_state = None\<rparr>"

definition sample_commit :: commit_input where
  "sample_commit =
     \<lparr>tc_organization = ''org'', tc_finding = ''f'', tc_triage = ''a'', tc_expected_version = 0,
      tc_previous_status = TsNew, tc_source = ''user'', tc_user = ''ana'',
      tc_data = \<lparr>ti_status = Some TsTriaged, ti_assignee = Some (Some ''ana''), ti_severity = Some (Some ''high''),
                 ti_notes = None, ti_comment = None\<rparr>,
      tc_events = []\<rparr>"

definition reconciled_sys :: projection_sys where
  "reconciled_sys = snd (reconcile_batch (sample_batch 9) ''org'' 500 (sample_sys [sample_record ''a'' ''f'' 5] [''f'']))"

lemma sample_sys_reachable:
  "projection_reachable ''org'' sample_iso (sample_sys [sample_record ''a'' ''f'' 5] [''f'']) None 0
     {(''f'', to_projection sample_iso (sample_record ''a'' ''f'' 5))} {''u1''}"
proof -
  define env where "env = (sample_tx ''a'' (\<lambda>db. db))\<lparr>tx_js_now := 5, tx_db_now := 5\<rparr>"
  have "projection_reachable ''org'' sample_iso (sample_sys [] [''f'']) None 0 {} {''u1''}"
    unfolding sample_sys_def by (rule projection_reachable.start) (simp add: untriaged_def)
  moreover have "upsert_record env sample_commit (ps_records (sample_sys [] [''f''])) =
      Some (sample_record ''a'' ''f'' 5, [sample_record ''a'' ''f'' 5])"
    unfolding env_def by code_simp
  ultimately have "projection_reachable ''org'' sample_iso
      ((sample_sys [] [''f''])\<lparr>ps_records := [sample_record ''a'' ''f'' 5]\<rparr>) None 0
      (if tr_organization (sample_record ''a'' ''f'' 5) = ''org''
       then insert (tr_finding (sample_record ''a'' ''f'' 5), to_projection sample_iso (sample_record ''a'' ''f'' 5)) {} else {}) {''u1''}"
    by (rule projection_reachable.commit) (simp_all add: env_def sample_sys_def)
  then show ?thesis by (simp add: sample_sys_def) (simp add: sample_record_def)
qed

lemma reconciled_sys_reachable:
  "\<exists>cutoff. projection_reachable ''org'' sample_iso reconciled_sys None cutoff
     {(''f'', to_projection sample_iso (sample_record ''a'' ''f'' 5))} {''u1''}"
proof -
  let ?sys = "sample_sys [sample_record ''a'' ''f'' 5] [''f'']" and ?env = "sample_batch 9" and ?limit = "bounded_batch_size 500"
  obtain cy records where b: "begin_batch ?env ''org'' ?limit ?sys = (cy, records)"
    by (cases "begin_batch ?env ''org'' ?limit ?sys")
  have begun: "projection_reachable ''org'' sample_iso ?sys (Some (?limit, ps_state ?sys, cy, records)) (max 0 (cy_cutoff cy))
      {(''f'', to_projection sample_iso (sample_record ''a'' ''f'' 5))} {''u1''}"
    by (rule projection_reachable.batch_begin [OF sample_sys_reachable _ b]) (simp add: bounded_batch_size_def)
  have fin: "finish_batch ?env ?limit (ps_state ?sys) (cy, records) ?sys
      = (fst (reconcile_batch ?env ''org'' 500 ?sys), reconciled_sys)"
    by (simp add: reconciled_sys_def reconcile_batch_def Let_def b)
  show ?thesis
    by (rule exI, rule projection_reachable.batch_finish [OF begun _ _ fin])
      (simp_all add: sample_batch_def lags_behind_def sample_sys_def)
qed


definition sample_projection :: "nat \<Rightarrow> projection" where
  "sample_projection n = (to_projection sample_iso (sample_record ''a'' ''f'' 5))\<lparr>pj_version := n\<rparr>"

lemma deliveries_in_any_order_witness:
  "map_of (deliver_all ''f'' [sample_projection 2, sample_projection 1, sample_projection 2] [(''f'', None)]) ''f''
   = map_of (deliver_all ''f'' [sample_projection 1, sample_projection 2] [(''f'', None)]) ''f''"
  by (rule deliveries_in_any_order) (auto simp: has_own_def sample_projection_def)

lemma payload_round_trip_witness:
  "parse_projection_event (\<lambda>_. True) (triage_payload sample_iso sample_commit (sample_record ''a'' ''f'' 5))
   = Some (''org'', ''f'', to_projection sample_iso (sample_record ''a'' ''f'' 5))"
  using payload_round_trip [of "sample_record ''a'' ''f'' 5" "\<lambda>_. True" sample_iso sample_commit]
  by (simp add: sample_record_def SEVERITY_VALUES_def)

text \<open>Two records, pages of one: the loop needs three batches.\<close>

definition sample_pair :: projection_sys where
  "sample_pair = sample_sys [sample_record ''a'' ''f'' 5, sample_record ''b'' ''g'' 6] [''f'', ''g'']"

lemma reconciliation_ends_witness:
  "\<exists>res. reconcile_organization ''org'' 1 [(sample_batch 9, \<lambda>s. s), (sample_batch 9, \<lambda>s. s), (sample_batch 9, \<lambda>s. s)]
     sample_pair = Some res"
proof (rule reconciliation_ends [where ids = "{''a'', ''b''}"])
  show "old_ids ''org'' (cycle_cutoff (fst (hd [(sample_batch 9, \<lambda>s. s), (sample_batch 9, \<lambda>s. s), (sample_batch 9, \<lambda>s. s)]))
      sample_pair) sample_pair \<subseteq> {''a'', ''b''}"
    by (auto simp: old_ids_def sample_pair_def sample_sys_def sample_record_def)
qed (simp_all add: leaves_cycle_def)

definition rebuilt_during_cycle :: projection_sys where
  "rebuilt_during_cycle =
     snd (reconcile_batch (sample_batch 9) ''org'' 1
       (snd (reconcile_batch (sample_batch 9) ''org'' 1
         ((snd (reconcile_batch (sample_batch 9) ''org'' 1 sample_pair))
            \<lparr>ps_index := \<lparr>fi_uuid = ''u2'', fi_docs = [(''f'', None), (''g'', None)]\<rparr>\<rparr>))))"


end
