(* ===== verification/Mcp_Capabilities.thy ===== *)
theory Mcp_Capabilities
  imports Runtime_Lease "HOL-Library.List_Lexorder" "HOL-Library.Char_ord"
    "HOL-Library.Product_Lexorder"
begin

section \<open>Capabilities and manifests of MCP operations\<close>

text \<open>
  \<open>packages/shared/src/mcp-capabilities.ts\<close> and the manifests of \<open>mcp-invocation.ts\<close>: a grant says
  which sources a run, a studio or discovery operation or an operator turn may use, a snapshot what
  those sources offer, and the manifest built from both lists the operations that may be invoked.

  The values are those the zod schemas produce.  Of the schemas the model keeps the alternatives and
  the conditions between fields; the formats of UUIDs and fingerprints and the limits on the size of
  JSON texts are not modelled.  Descriptive fields that are only copied (titles, icons, annotations,
  metadata) are left out.

  An ISO text is the instant it denotes and how it spells it: \<open>toISOString\<close> always writes spelling 0.
\<close>

datatype iso = Iso (instant: int) (spelling: nat)

definition to_iso :: "int \<Rightarrow> iso" where
  "to_iso t = Iso t 0"

lemma instant_to_iso [simp]: "instant (to_iso t) = t"
  by (simp add: to_iso_def)

lemma to_iso_inject [simp]: "to_iso s = to_iso t \<longleftrightarrow> s = t"
  by (simp add: to_iso_def)

datatype subject_kind = SubjectRun | SubjectStudio | SubjectDiscovery | SubjectOperator

datatype scope =
    RunScope "string option" string string "string option"
  | StudioScope "string option" string string iso
  | DiscoveryScope "string option" string string iso
  | OperatorScope string string string string iso

text \<open>
  The fields: organization, run and grant and, if any, the invoking node; organization, operation,
  grant and expiry (twice); organization, session, turn, grant and expiry.
\<close>

fun scope_kind :: "scope \<Rightarrow> subject_kind" where
  "scope_kind (RunScope _ _ _ _) = SubjectRun"
| "scope_kind (StudioScope _ _ _ _) = SubjectStudio"
| "scope_kind (DiscoveryScope _ _ _ _) = SubjectDiscovery"
| "scope_kind (OperatorScope _ _ _ _ _) = SubjectOperator"

fun scope_organization :: "scope \<Rightarrow> string option" where
  "scope_organization (RunScope org _ _ _) = org"
| "scope_organization (StudioScope org _ _ _) = org"
| "scope_organization (DiscoveryScope org _ _ _) = org"
| "scope_organization (OperatorScope org _ _ _ _) = Some org"

fun scope_grant :: "scope \<Rightarrow> string" where
  "scope_grant (RunScope _ _ grant _) = grant"
| "scope_grant (StudioScope _ _ grant _) = grant"
| "scope_grant (DiscoveryScope _ _ grant _) = grant"
| "scope_grant (OperatorScope _ _ _ grant _) = grant"

fun execution_subject_id :: "scope \<Rightarrow> string" where
  "execution_subject_id (RunScope _ run _ _) = run"
| "execution_subject_id (StudioScope _ operation _ _) = operation"
| "execution_subject_id (DiscoveryScope _ operation _ _) = operation"
| "execution_subject_id (OperatorScope _ _ turn _ _) = turn"

fun scope_run :: "scope \<Rightarrow> string option" where
  "scope_run (RunScope _ run _ _) = Some run"
| "scope_run _ = None"

datatype subject =
    RunSubject string
  | StudioSubject string iso
  | DiscoverySubject string iso
  | OperatorSubject string string iso

fun subject_kind_of :: "subject \<Rightarrow> subject_kind" where
  "subject_kind_of (RunSubject _) = SubjectRun"
| "subject_kind_of (StudioSubject _ _) = SubjectStudio"
| "subject_kind_of (DiscoverySubject _ _) = SubjectDiscovery"
| "subject_kind_of (OperatorSubject _ _ _) = SubjectOperator"

fun capability_subject_id :: "subject \<Rightarrow> string" where
  "capability_subject_id (RunSubject run) = run"
| "capability_subject_id (StudioSubject operation _) = operation"
| "capability_subject_id (DiscoverySubject operation _) = operation"
| "capability_subject_id (OperatorSubject _ turn _) = turn"

datatype tool_access = AllTools | ToolSubset "string list"

record capability_grant =
  cg_id :: string
  cg_organization :: "string option"
  cg_subject :: subject
  cg_sources :: "(string \<times> tool_access) list"
  cg_created :: iso

datatype retry_policy = PreDispatchOnly | ReviewedIdempotent

datatype effects_source = SentrisContract | OperatorPolicy | McpAnnotation | UnknownEffects

text \<open>Source, node, component and binding fingerprint; source, name upstream and fingerprint.\<close>

datatype tool_source = ComponentSource string string string string | McpSource string string string

fun source_id_of :: "tool_source \<Rightarrow> string" where
  "source_id_of (ComponentSource source _ _ _) = source"
| "source_id_of (McpSource source _ _) = source"

fun from_component :: "tool_source \<Rightarrow> bool" where
  "from_component (ComponentSource _ _ _ _) = True"
| "from_component (McpSource _ _ _) = False"

record tool_descriptor =
  td_name :: string
  td_description :: "string option"
  td_schema :: json
  td_source :: tool_source
  td_effects :: effects_source
  td_retry :: retry_policy

record runtime_binding =
  rb_key :: runtime_key
  rb_era :: string
  rb_version :: string
  rb_fingerprint :: string

text \<open>
  Resources, resource templates and prompts are the source and the URI, template or name.  Version 1
  of a snapshot has no bindings.
\<close>

record snapshot =
  sn_id :: string
  sn_scope :: scope
  sn_config :: string
  sn_tools :: "tool_descriptor list"
  sn_resources :: "(string \<times> string) list"
  sn_templates :: "(string \<times> string) list"
  sn_prompts :: "(string \<times> string) list"
  sn_created :: iso
  sn_bindings :: "(string, runtime_binding) js_map option"

definition snapshot_bindings :: "snapshot \<Rightarrow> (string, runtime_binding) js_map" where
  "snapshot_bindings s = (case sn_bindings s of None \<Rightarrow> [] | Some bindings \<Rightarrow> bindings)"

subsection \<open>Operations, requests and manifests\<close>

datatype op_kind = KindTool | KindResource | KindPrompt

datatype operation =
    ToolCall string json_record
  | ResourceRead string
  | PromptGet string "(string, string) js_map"

fun kind_of :: "operation \<Rightarrow> op_kind" where
  "kind_of (ToolCall _ _) = KindTool"
| "kind_of (ResourceRead _) = KindResource"
| "kind_of (PromptGet _ _) = KindPrompt"

record op_request =
  rq_id :: string
  rq_scope :: scope
  rq_snapshot :: string
  rq_source :: string
  rq_target :: string
  rq_operation :: operation
  rq_requested :: iso
  rq_deadline :: iso

record tool_request =
  tq_id :: string
  tq_scope :: scope
  tq_snapshot :: string
  tq_tool :: string
  tq_input :: json_record
  tq_requested :: iso
  tq_deadline :: iso

datatype destination = ComponentActivity | McpActivity

record op_entry =
  oe_kind :: op_kind
  oe_target :: string
  oe_source :: string
  oe_destination :: destination
  oe_retry :: retry_policy

record tool_entry =
  te_tool :: string
  te_source :: string
  te_destination :: destination
  te_retry :: retry_policy

datatype manifest_entry = ToolEntry tool_entry | OpEntry op_entry

text \<open>A manifest of version 1 has tool entries, one of version 2 entries of operations.\<close>

datatype entries = EntriesV1 "tool_entry list" | EntriesV2 "op_entry list"

record manifest =
  mf_snapshot :: string
  mf_grant :: string
  mf_entries :: entries

fun entry_list :: "entries \<Rightarrow> manifest_entry list" where
  "entry_list (EntriesV1 es) = map ToolEntry es"
| "entry_list (EntriesV2 es) = map OpEntry es"

datatype mcp_error =
    Conflict string
  | NotFound string
  | SchemaError
  | DatabaseError
  | PlainError string

definition MAX_TARGET :: nat where
  "MAX_TARGET = 8192"

definition MAX_TOOL_NAME :: nat where
  "MAX_TOOL_NAME = 128"

definition MAX_ENTRIES :: nat where
  "MAX_ENTRIES = 1024"

text \<open>What the schemas of requests and of manifest entries demand of lengths and times.\<close>

definition op_request_ok :: "op_request \<Rightarrow> bool" where
  "op_request_ok r \<longleftrightarrow>
     rq_source r \<noteq> [] \<and> rq_target r \<noteq> [] \<and> length (rq_target r) \<le> MAX_TARGET
     \<and> instant (rq_requested r) \<le> instant (rq_deadline r)"

definition tool_request_ok :: "tool_request \<Rightarrow> bool" where
  "tool_request_ok r \<longleftrightarrow>
     tq_tool r \<noteq> [] \<and> length (tq_tool r) \<le> MAX_TOOL_NAME
     \<and> instant (tq_requested r) \<le> instant (tq_deadline r)"

definition op_entry_ok :: "op_entry \<Rightarrow> bool" where
  "op_entry_ok e \<longleftrightarrow> oe_target e \<noteq> [] \<and> length (oe_target e) \<le> MAX_TARGET \<and> oe_source e \<noteq> []"

definition tool_entry_ok :: "tool_entry \<Rightarrow> bool" where
  "tool_entry_ok e \<longleftrightarrow> te_tool e \<noteq> [] \<and> te_source e \<noteq> []"

fun entries_ok :: "entries \<Rightarrow> bool" where
  "entries_ok (EntriesV1 es) = (length es \<le> MAX_ENTRIES \<and> list_all tool_entry_ok es)"
| "entries_ok (EntriesV2 es) = (length es \<le> MAX_ENTRIES \<and> list_all op_entry_ok es)"

subsection \<open>Does a grant apply\<close>

fun subject_applies :: "scope \<Rightarrow> subject \<Rightarrow> bool" where
  "subject_applies (RunScope _ run _ _) (RunSubject run') = (run = run')"
| "subject_applies (StudioScope _ operation _ expires) (StudioSubject operation' expires') =
     (operation = operation' \<and> expires = expires')"
| "subject_applies (DiscoveryScope _ operation _ expires) (DiscoverySubject operation' expires') =
     (operation = operation' \<and> expires = expires')"
| "subject_applies (OperatorScope _ session turn _ expires) (OperatorSubject session' turn' expires') =
     (session = session' \<and> turn = turn' \<and> expires = expires')"
| "subject_applies _ _ = False"

definition assert_grant_applies :: "scope \<Rightarrow> capability_grant \<Rightarrow> mcp_error + unit" where
  "assert_grant_applies s g =
     (if scope_grant s \<noteq> cg_id g then Inl (PlainError ''grant'')
      else if scope_organization s \<noteq> cg_organization g then Inl (PlainError ''organization'')
      else if scope_kind s \<noteq> subject_kind_of (cg_subject g) then Inl (PlainError ''subject kind'')
      else if \<not> subject_applies s (cg_subject g) then Inl (PlainError ''subject'')
      else Inr ())"

subsection \<open>Building a manifest\<close>

definition manifest_retry_policy :: "tool_descriptor \<Rightarrow> retry_policy" where
  "manifest_retry_policy t =
     (if td_retry t = ReviewedIdempotent
         \<and> (td_effects t = SentrisContract \<or> td_effects t = OperatorPolicy)
      then ReviewedIdempotent else PreDispatchOnly)"

text \<open>The loops over a \<open>Set\<close> of what was seen: the first name that is there already.\<close>

fun first_repeated :: "string set \<Rightarrow> string list \<Rightarrow> string option" where
  "first_repeated seen [] = None"
| "first_repeated seen (x # xs) = (if x \<in> seen then Some x else first_repeated (insert x seen) xs)"

definition access_of :: "capability_grant \<Rightarrow> string \<Rightarrow> tool_access option" where
  "access_of g source = map_of (rev (cg_sources g)) source"

definition tool_granted :: "capability_grant \<Rightarrow> tool_descriptor \<Rightarrow> bool" where
  "tool_granted g t =
     (case access_of g (source_id_of (td_source t)) of
        None \<Rightarrow> False
      | Some AllTools \<Rightarrow> True
      | Some (ToolSubset names) \<Rightarrow> td_name t \<in> set names)"

definition entry_of_tool :: "tool_descriptor \<Rightarrow> op_entry" where
  "entry_of_tool t =
     \<lparr>oe_kind = KindTool, oe_target = td_name t, oe_source = source_id_of (td_source t),
      oe_destination = (if from_component (td_source t) then ComponentActivity else McpActivity),
      oe_retry = manifest_retry_policy t\<rparr>"

definition outbound_entry :: "op_kind \<Rightarrow> string \<times> string \<Rightarrow> op_entry" where
  "outbound_entry kind = (\<lambda>(source, target).
     \<lparr>oe_kind = kind, oe_target = target, oe_source = source, oe_destination = McpActivity,
      oe_retry = ReviewedIdempotent\<rparr>)"

definition tool_entries :: "snapshot \<Rightarrow> capability_grant \<Rightarrow> op_entry list" where
  "tool_entries s g = map entry_of_tool (filter (tool_granted g) (sn_tools s))"

definition outbound_entries :: "snapshot \<Rightarrow> capability_grant \<Rightarrow> op_entry list" where
  "outbound_entries s g =
     (let granted = (\<lambda>e. oe_source e \<in> fst ` set (cg_sources g))
      in filter granted (map (outbound_entry KindResource) (sn_resources s)
                         @ map (outbound_entry KindResource) (sn_templates s))
         @ filter granted (map (outbound_entry KindPrompt) (sn_prompts s)))"

fun kind_text :: "op_kind \<Rightarrow> string" where
  "kind_text KindTool = ''tool-call''"
| "kind_text KindResource = ''resource-read''"
| "kind_text KindPrompt = ''prompt-get''"

definition entry_identity :: "op_entry \<Rightarrow> string" where
  "entry_identity e = kind_text (oe_kind e) @ CHR 0x00 # oe_target e @ CHR 0x00 # oe_source e"

text \<open>
  \<open>localeCompare\<close> is the order of the collation keys of its arguments, which the environment gives.
\<close>

definition sorted_entries :: "(string \<Rightarrow> string) \<Rightarrow> op_entry list \<Rightarrow> op_entry list" where
  "sorted_entries collation =
     sort_key (\<lambda>e. (collation (kind_text (oe_kind e)), collation (oe_target e), collation (oe_source e)))"

definition tool_entry_of :: "op_entry \<Rightarrow> tool_entry" where
  "tool_entry_of e =
     \<lparr>te_tool = oe_target e, te_source = oe_source e, te_destination = oe_destination e,
      te_retry = oe_retry e\<rparr>"

definition build_invocation_manifest ::
  "(string \<Rightarrow> string) \<Rightarrow> snapshot \<Rightarrow> capability_grant \<Rightarrow> mcp_error + manifest" where
  "build_invocation_manifest collation s g =
     bind_result (assert_grant_applies (sn_scope s) g) (\<lambda>_.
       if first_repeated {} (map td_name (sn_tools s)) \<noteq> None
       then Inl (PlainError ''Duplicate canonical tool name'')
       else
         let tools = tool_entries s g;
             es = sorted_entries collation (tools @ outbound_entries s g)
         in if first_repeated {} (map entry_identity es) \<noteq> None
            then Inl (PlainError ''Duplicate MCP operation manifest entry'')
            else
              let listed = (if sn_bindings s = None then EntriesV1 (map tool_entry_of tools)
                            else EntriesV2 es)
              in if entries_ok listed
                 then Inr \<lparr>mf_snapshot = sn_id s, mf_grant = cg_id g, mf_entries = listed\<rparr>
                 else Inl SchemaError)"

subsection \<open>Finding the entry of a request\<close>

definition resolve_invocation_entry ::
  "manifest \<Rightarrow> scope \<Rightarrow> string \<Rightarrow> string \<Rightarrow> mcp_error + tool_entry" where
  "resolve_invocation_entry m s snapshot_id tool =
     (if scope_grant s \<noteq> mf_grant m then Inl (PlainError ''execution scope grant'')
      else if snapshot_id \<noteq> mf_snapshot m then Inl (PlainError ''capability snapshot'')
      else case find (\<lambda>c. case c of ToolEntry e \<Rightarrow> te_tool e = tool
                           | OpEntry e \<Rightarrow> oe_kind e = KindTool \<and> oe_target e = tool)
                     (entry_list (mf_entries m)) of
             None \<Rightarrow> Inl (PlainError ''not authorized'')
           | Some (ToolEntry e) \<Rightarrow> Inr e
           | Some (OpEntry e) \<Rightarrow> Inr (tool_entry_of e))"

definition entry_matches :: "op_request \<Rightarrow> manifest_entry \<Rightarrow> bool" where
  "entry_matches r c =
     (case c of
        ToolEntry e \<Rightarrow> kind_of (rq_operation r) = KindTool \<and> te_tool e = rq_target r \<and> te_source e = rq_source r
      | OpEntry e \<Rightarrow> oe_kind e = kind_of (rq_operation r) \<and> oe_target e = rq_target r \<and> oe_source e = rq_source r)"

definition resolve_operation_entry :: "manifest \<Rightarrow> op_request \<Rightarrow> mcp_error + op_entry" where
  "resolve_operation_entry m r =
     (if scope_grant (rq_scope r) \<noteq> mf_grant m then Inl (PlainError ''execution scope grant'')
      else if rq_snapshot r \<noteq> mf_snapshot m then Inl (PlainError ''capability snapshot'')
      else case find (entry_matches r) (entry_list (mf_entries m)) of
             None \<Rightarrow> Inl (PlainError ''not authorized'')
           | Some (OpEntry e) \<Rightarrow> Inr e
           | Some (ToolEntry e) \<Rightarrow>
               let e' = \<lparr>oe_kind = KindTool, oe_target = te_tool e, oe_source = te_source e,
                         oe_destination = te_destination e, oe_retry = te_retry e\<rparr>
               in if op_entry_ok e' then Inr e' else Inl SchemaError)"

subsection \<open>What a manifest authorizes\<close>

text \<open>The grant schema refuses two entries for one source.\<close>

definition grant_ok :: "capability_grant \<Rightarrow> bool" where
  "grant_ok g \<longleftrightarrow> distinct (map fst (cg_sources g))"

definition may_use :: "capability_grant \<Rightarrow> string \<Rightarrow> string \<Rightarrow> bool" where
  "may_use g source tool \<longleftrightarrow>
     (\<exists>(src, access) \<in> set (cg_sources g). src = source
        \<and> (case access of AllTools \<Rightarrow> True | ToolSubset names \<Rightarrow> tool \<in> set names))"

text \<open>
  What the snapshot offers and the grant allows; a snapshot of version 1 is only for tools.
\<close>

definition offered :: "snapshot \<Rightarrow> capability_grant \<Rightarrow> op_kind \<Rightarrow> string \<Rightarrow> string \<Rightarrow> bool" where
  "offered s g kind target source \<longleftrightarrow>
     (case kind of
        KindTool \<Rightarrow>
          (\<exists>t \<in> set (sn_tools s). td_name t = target \<and> source_id_of (td_source t) = source)
          \<and> may_use g source target
      | KindResource \<Rightarrow>
          sn_bindings s \<noteq> None \<and> source \<in> fst ` set (cg_sources g)
          \<and> (source, target) \<in> set (sn_resources s) \<union> set (sn_templates s)
      | KindPrompt \<Rightarrow>
          sn_bindings s \<noteq> None \<and> source \<in> fst ` set (cg_sources g)
          \<and> (source, target) \<in> set (sn_prompts s))"

lemma first_repeated_None:
  "first_repeated seen xs = None \<longleftrightarrow> distinct xs \<and> set xs \<inter> seen = {}"
  by (induction xs arbitrary: seen) auto

lemma access_of_Some:
  assumes "grant_ok g"
  shows "access_of g source = Some a \<longleftrightarrow> (source, a) \<in> set (cg_sources g)"
proof -
  have "distinct (map fst (rev (cg_sources g)))" using assms by (simp add: grant_ok_def flip: rev_map)
  then show ?thesis by (simp add: access_of_def)
qed

lemma tool_granted_iff:
  assumes "grant_ok g"
  shows "tool_granted g t \<longleftrightarrow> may_use g (source_id_of (td_source t)) (td_name t)"
proof -
  let ?x = "source_id_of (td_source t)"
  have "may_use g ?x (td_name t) \<longleftrightarrow> (\<exists>access. access_of g ?x = Some access
      \<and> (case access of AllTools \<Rightarrow> True | ToolSubset names \<Rightarrow> td_name t \<in> set names))"
    unfolding may_use_def access_of_Some [OF assms] by blast
  then show ?thesis by (auto simp: tool_granted_def split: option.splits)
qed

lemma outbound_entry_simps [simp]:
  "oe_kind (outbound_entry k x) = k" "oe_target (outbound_entry k x) = snd x"
  "oe_source (outbound_entry k x) = fst x" "oe_destination (outbound_entry k x) = McpActivity"
  by (auto simp: outbound_entry_def split: prod.splits)

lemma entry_of_tool_simps [simp]:
  "oe_kind (entry_of_tool t) = KindTool" "oe_target (entry_of_tool t) = td_name t"
  "oe_source (entry_of_tool t) = source_id_of (td_source t)"
  by (simp_all add: entry_of_tool_def)

lemma tool_entry_offered:
  assumes "grant_ok g"
  shows "(\<exists>e \<in> set (tool_entries s g). oe_target e = target \<and> oe_source e = source)
    \<longleftrightarrow> offered s g KindTool target source"
  using assms by (auto simp: tool_entries_def offered_def tool_granted_iff)

lemma tool_entries_kind: "e \<in> set (tool_entries s g) \<Longrightarrow> oe_kind e = KindTool"
  by (auto simp: tool_entries_def)

lemma outbound_entries_kind: "e \<in> set (outbound_entries s g) \<Longrightarrow> oe_kind e \<noteq> KindTool"
  by (auto simp: outbound_entries_def Let_def)

lemma bex_outbound:
  "(\<exists>e \<in> set (outbound_entries s g). P e) \<longleftrightarrow>
     (\<exists>x \<in> set (sn_resources s) \<union> set (sn_templates s).
        fst x \<in> fst ` set (cg_sources g) \<and> P (outbound_entry KindResource x))
     \<or> (\<exists>x \<in> set (sn_prompts s). fst x \<in> fst ` set (cg_sources g) \<and> P (outbound_entry KindPrompt x))"
proof -
  have "(\<exists>e \<in> set (filter Q (map f xs)). P e) \<longleftrightarrow> (\<exists>x \<in> set xs. Q (f x) \<and> P (f x))"
    for Q :: "op_entry \<Rightarrow> bool" and f :: "string \<times> string \<Rightarrow> op_entry" and xs by auto
  from this [of "\<lambda>e. oe_source e \<in> fst ` set (cg_sources g)"] show ?thesis
    unfolding outbound_entries_def Let_def
    by (simp only: filter_append set_append bex_Un outbound_entry_simps disj_assoc)
qed

lemma outbound_entry_offered:
  assumes "sn_bindings s \<noteq> None" and "kind \<noteq> KindTool"
  shows "(\<exists>e \<in> set (outbound_entries s g). oe_kind e = kind \<and> oe_target e = target \<and> oe_source e = source)
    \<longleftrightarrow> offered s g kind target source"
proof (cases kind)
  case KindResource
  have "(\<exists>x \<in> A. fst x \<in> B \<and> snd x = target \<and> fst x = source) \<longleftrightarrow> source \<in> B \<and> (source, target) \<in> A"
    for A :: "(string \<times> string) set" and B by (metis fst_conv prod.collapse snd_conv)
  with assms KindResource show ?thesis by (simp add: bex_outbound offered_def del: Un_iff)
next
  case KindPrompt
  have "(\<exists>x \<in> A. fst x \<in> B \<and> snd x = target \<and> fst x = source) \<longleftrightarrow> source \<in> B \<and> (source, target) \<in> A"
    for A :: "(string \<times> string) set" and B by (metis fst_conv prod.collapse snd_conv)
  with assms KindPrompt show ?thesis by (simp add: bex_outbound offered_def del: Un_iff)
qed (use assms in simp)

lemma set_sorted_entries [simp]: "set (sorted_entries collation es) = set es"
  by (simp add: sorted_entries_def)

lemma find_iff: "(\<exists>x. find P xs = Some x) \<longleftrightarrow> (\<exists>x \<in> set xs. P x)"
  by (metis find_None_iff not_Some_eq)

lemma entry_matches_simps [simp]:
  "entry_matches r (OpEntry e) \<longleftrightarrow>
     oe_kind e = kind_of (rq_operation r) \<and> oe_target e = rq_target r \<and> oe_source e = rq_source r"
  "entry_matches r (ToolEntry t) \<longleftrightarrow>
     kind_of (rq_operation r) = KindTool \<and> te_tool t = rq_target r \<and> te_source t = rq_source r"
  by (simp_all add: entry_matches_def)

lemma tool_entry_of_simps [simp]:
  "te_tool (tool_entry_of e) = oe_target e" "te_source (tool_entry_of e) = oe_source e"
  by (simp_all add: tool_entry_of_def)

lemma manifest_entries:
  assumes "build_invocation_manifest collation s g = Inr m"
  shows "mf_snapshot m = sn_id s" "mf_grant m = cg_id g" "entries_ok (mf_entries m)"
    "entry_list (mf_entries m) =
       (if sn_bindings s = None then map (\<lambda>e. ToolEntry (tool_entry_of e)) (tool_entries s g)
        else map OpEntry (sorted_entries collation (tool_entries s g @ outbound_entries s g)))"
    "distinct (map entry_identity (sorted_entries collation (tool_entries s g @ outbound_entries s g)))"
    "distinct (map td_name (sn_tools s))"
  using assms
  by (auto simp: build_invocation_manifest_def Let_def first_repeated_None result_simps
      split: if_splits)

lemma entry_in_manifest:
  assumes "grant_ok g" and "build_invocation_manifest collation s g = Inr m"
  shows "(\<exists>c \<in> set (entry_list (mf_entries m)). entry_matches r c)
    \<longleftrightarrow> offered s g (kind_of (rq_operation r)) (rq_target r) (rq_source r)"
proof (cases "kind_of (rq_operation r) = KindTool")
  case True
  have "(\<exists>c \<in> set (entry_list (mf_entries m)). entry_matches r c)
      \<longleftrightarrow> (\<exists>e \<in> set (tool_entries s g). oe_target e = rq_target r \<and> oe_source e = rq_source r)"
    using True outbound_entries_kind [of _ s g] tool_entries_kind [of _ s g]
    by (auto simp: manifest_entries(4) [OF assms(2)] bex_Un)
  with True show ?thesis by (simp add: tool_entry_offered [OF assms(1)])
next
  case False
  show ?thesis
  proof (cases "sn_bindings s = None")
    case True
    with False show ?thesis
      by (cases "kind_of (rq_operation r)") (auto simp: manifest_entries(4) [OF assms(2)] offered_def)
  next
    case bound: False
    have "(\<exists>c \<in> set (entry_list (mf_entries m)). entry_matches r c)
        \<longleftrightarrow> (\<exists>e \<in> set (outbound_entries s g). oe_kind e = kind_of (rq_operation r)
               \<and> oe_target e = rq_target r \<and> oe_source e = rq_source r)"
      using False bound by (auto simp: manifest_entries(4) [OF assms(2)] dest: tool_entries_kind)
    with False bound show ?thesis by (simp add: outbound_entry_offered)
  qed
qed

lemma resolved_entry:
  assumes "resolve_operation_entry m r = Inr e"
  shows "oe_kind e = kind_of (rq_operation r)" "oe_target e = rq_target r" "oe_source e = rq_source r"
    "scope_grant (rq_scope r) = mf_grant m" "rq_snapshot r = mf_snapshot m"
proof -
  obtain c where c: "find (entry_matches r) (entry_list (mf_entries m)) = Some c"
    using assms by (auto simp: resolve_operation_entry_def split: if_splits option.splits)
  then have m: "entry_matches r c" by (metis find_Some_iff)
  then show "oe_kind e = kind_of (rq_operation r)" "oe_target e = rq_target r" "oe_source e = rq_source r"
    using assms c by (auto simp: resolve_operation_entry_def Let_def split: if_splits manifest_entry.splits)
  show "scope_grant (rq_scope r) = mf_grant m" "rq_snapshot r = mf_snapshot m"
    using assms by (auto simp: resolve_operation_entry_def split: if_splits)
qed

lemma resolve_total:
  assumes "entries_ok (mf_entries m)" and "op_request_ok r"
    and "scope_grant (rq_scope r) = mf_grant m" and "rq_snapshot r = mf_snapshot m"
    and "\<exists>c \<in> set (entry_list (mf_entries m)). entry_matches r c"
  shows "\<exists>e. resolve_operation_entry m r = Inr e"
proof -
  obtain c where c: "find (entry_matches r) (entry_list (mf_entries m)) = Some c"
    using assms(5) by (metis find_iff)
  then have "entry_matches r c" by (metis find_Some_iff)
  with c assms(2-4) show ?thesis
    by (cases c) (auto simp: resolve_operation_entry_def op_entry_ok_def op_request_ok_def)
qed

end
