(* ===== verification/Invocation_Rows.thy ===== *)
theory Invocation_Rows
  imports Mcp_Capabilities
begin

section \<open>The rows of the invocation journal\<close>

text \<open>
  The tables of \<open>database/schema/mcp-runtime.ts\<close>, the references and results that calls exchange
  (\<open>mcp-invocation.ts\<close>), and how \<open>mcp-runtime.repository.ts\<close> reads rows back: a row whose columns,
  JSON and current attempt do not agree is refused.

  A stored JSON text is the value it was written from: a request or a result of the general or of the
  older tool-only form, which no value has both of since the schemas are strict.
\<close>

datatype inv_status =
  StPlanned | StPrepared | StDispatched | StCompleted | StFailed | StAmbiguous | StCancelled

definition terminal_status :: "inv_status \<Rightarrow> bool" where
  "terminal_status s \<longleftrightarrow> s \<in> {StCompleted, StFailed, StAmbiguous, StCancelled}"

subsection \<open>Results\<close>

datatype op_outcome =
    OpCompleted json
  | OpRemoteFailure string bool
  | OpCancelled string
  | OpAmbiguous string
  | OpInputRequired string

record op_result =
  or_id :: string
  or_outcome :: op_outcome
  or_completed :: iso

datatype failure_class =
    FcValidation | FcAuthorization | FcDeadline | FcPreDispatch | FcRemoteTool | FcCancelled
  | FcAmbiguous | FcOwnerLoss

record tool_error =
  tx_class :: failure_class
  tx_message :: string
  tx_retryable :: bool

record tool_result =
  tr_id :: string
  tr_status :: inv_status
  tr_output :: "json option"
  tr_error :: "tool_error option"
  tr_completed :: iso

definition MAX_MESSAGE :: nat where
  "MAX_MESSAGE = 8192"

definition message_ok :: "string \<Rightarrow> bool" where
  "message_ok m \<longleftrightarrow> m \<noteq> [] \<and> length m \<le> MAX_MESSAGE"

fun outcome_ok :: "op_outcome \<Rightarrow> bool" where
  "outcome_ok (OpCompleted _) = True"
| "outcome_ok (OpRemoteFailure m _) = message_ok m"
| "outcome_ok (OpCancelled m) = message_ok m"
| "outcome_ok (OpAmbiguous m) = message_ok m"
| "outcome_ok (OpInputRequired m) = message_ok m"

definition op_result_ok :: "op_result \<Rightarrow> bool" where
  "op_result_ok r \<longleftrightarrow> outcome_ok (or_outcome r)"

definition tool_result_ok :: "tool_result \<Rightarrow> bool" where
  "tool_result_ok r \<longleftrightarrow>
     terminal_status (tr_status r)
     \<and> (if tr_status r = StCompleted then tr_output r \<noteq> None \<and> tr_error r = None
        else tr_output r = None \<and> (case tr_error r of None \<Rightarrow> False | Some e \<Rightarrow> message_ok (tx_message e)))"

fun outcome_status :: "op_outcome \<Rightarrow> inv_status" where
  "outcome_status (OpCompleted _) = StCompleted"
| "outcome_status (OpRemoteFailure _ _) = StFailed"
| "outcome_status (OpInputRequired _) = StFailed"
| "outcome_status (OpCancelled _) = StCancelled"
| "outcome_status (OpAmbiguous _) = StAmbiguous"

definition op_result_status :: "op_result \<Rightarrow> inv_status" where
  "op_result_status r = outcome_status (or_outcome r)"

text \<open>\<open>isDeepStrictEqual\<close> does not look at the order in which objects list their keys.\<close>

fun stable_json :: "json \<Rightarrow> json" where
  "stable_json (JArray vs) = JArray (map stable_json vs)"
| "stable_json (JObject kvs) = JObject (sort_key fst (map (\<lambda>(k, v). (k, stable_json v)) kvs))"
| "stable_json v = v"

fun stable_outcome :: "op_outcome \<Rightarrow> op_outcome" where
  "stable_outcome (OpCompleted v) = OpCompleted (stable_json v)"
| "stable_outcome r = r"

definition same_op_result :: "op_result \<Rightarrow> op_result \<Rightarrow> bool" where
  "same_op_result a b \<longleftrightarrow>
     a\<lparr>or_outcome := stable_outcome (or_outcome a)\<rparr> = b\<lparr>or_outcome := stable_outcome (or_outcome b)\<rparr>"

definition same_tool_result :: "tool_result \<Rightarrow> tool_result \<Rightarrow> bool" where
  "same_tool_result a b \<longleftrightarrow>
     a\<lparr>tr_output := map_option stable_json (tr_output a)\<rparr> = b\<lparr>tr_output := map_option stable_json (tr_output b)\<rparr>"

subsection \<open>References\<close>

record op_ref =
  of_id :: string
  of_attempt :: string
  of_number :: nat
  of_snapshot :: string
  of_grant :: string
  of_kind :: op_kind
  of_target :: string
  of_tool :: "string option"
  of_source :: string
  of_destination :: destination
  of_retry :: retry_policy
  of_prepared :: iso

record tool_ref =
  tf_id :: string
  tf_attempt :: string
  tf_number :: nat
  tf_snapshot :: string
  tf_grant :: string
  tf_tool :: string
  tf_source :: string
  tf_destination :: destination
  tf_retry :: retry_policy
  tf_prepared :: iso

definition tool_projection :: "op_kind \<Rightarrow> string \<Rightarrow> string option" where
  "tool_projection kind target = (if kind = KindTool then Some target else None)"

definition op_ref_ok :: "op_ref \<Rightarrow> bool" where
  "op_ref_ok r \<longleftrightarrow>
     0 < of_number r \<and> of_target r \<noteq> [] \<and> length (of_target r) \<le> MAX_TARGET \<and> of_source r \<noteq> []
     \<and> (\<forall>t \<in> set_option (of_tool r). t \<noteq> [] \<and> length t \<le> MAX_TOOL_NAME)
     \<and> of_tool r = tool_projection (of_kind r) (of_target r)
     \<and> (of_destination r = ComponentActivity \<longrightarrow> of_kind r = KindTool)"

definition tool_ref_ok :: "tool_ref \<Rightarrow> bool" where
  "tool_ref_ok r \<longleftrightarrow>
     0 < tf_number r \<and> tf_tool r \<noteq> [] \<and> length (tf_tool r) \<le> MAX_TOOL_NAME \<and> tf_source r \<noteq> []"

record plan =
  pl_ref :: op_ref
  pl_entry :: op_entry
  pl_operation :: operation
  pl_requested :: iso
  pl_deadline :: iso
  pl_binding :: "runtime_binding option"

definition plan_ok :: "plan \<Rightarrow> bool" where
  "plan_ok p \<longleftrightarrow>
     op_ref_ok (pl_ref p) \<and> op_entry_ok (pl_entry p)
     \<and> oe_kind (pl_entry p) = of_kind (pl_ref p) \<and> oe_target (pl_entry p) = of_target (pl_ref p)
     \<and> oe_source (pl_entry p) = of_source (pl_ref p)
     \<and> oe_destination (pl_entry p) = of_destination (pl_ref p)
     \<and> oe_retry (pl_entry p) = of_retry (pl_ref p) \<and> kind_of (pl_operation p) = of_kind (pl_ref p)
     \<and> (of_destination (pl_ref p) = McpActivity \<longleftrightarrow> pl_binding p \<noteq> None)
     \<and> instant (pl_requested p) \<le> instant (pl_deadline p)"

record runtime_ref =
  rr_fence :: fence
  rr_expires :: iso
  rr_era :: string
  rr_version :: string
  rr_address :: string
  rr_fingerprint :: string

definition fence_ok :: "fence \<Rightarrow> bool" where
  "fence_ok f \<longleftrightarrow> fe_owner f \<noteq> [] \<and> 0 < fe_generation f"

record dispatch_claim =
  dc_plan :: plan
  dc_runtime :: "runtime_ref option"

definition claim_ok :: "dispatch_claim \<Rightarrow> bool" where
  "claim_ok c \<longleftrightarrow>
     plan_ok (dc_plan c) \<and> (\<forall>r \<in> set_option (dc_runtime c). fence_ok (rr_fence r))
     \<and> (case of_destination (pl_ref (dc_plan c)) of
          ComponentActivity \<Rightarrow> pl_binding (dc_plan c) = None \<and> dc_runtime c = None
        | McpActivity \<Rightarrow>
            (case (pl_binding (dc_plan c), dc_runtime c) of
               (Some b, Some r) \<Rightarrow>
                 rb_era b = rr_era r \<and> rb_version b = rr_version r \<and> rb_fingerprint b = rr_fingerprint r
             | _ \<Rightarrow> False))"

subsection \<open>Rows\<close>

datatype stored_request = GeneralRequest op_request | ToolRequest tool_request

datatype stored_result = GeneralResult op_result | ToolResult tool_result

record invocation =
  iv_id :: string
  iv_subject_kind :: subject_kind
  iv_subject :: string
  iv_run :: "string option"
  iv_organization :: "string option"
  iv_grant :: string
  iv_snapshot :: string
  iv_kind :: "op_kind option"
  iv_target :: "string option"
  iv_tool :: "string option"
  iv_hash :: string
  iv_request :: stored_request
  iv_status :: inv_status
  iv_attempt :: nat
  iv_result :: "stored_result option"
  iv_created :: int
  iv_updated :: int
  iv_terminal :: "int option"

record inv_attempt =
  at_id :: string
  at_invocation :: string
  at_number :: nat
  at_source :: string
  at_destination :: destination
  at_retry :: retry_policy
  at_runtime :: "string option"
  at_owner :: "string option"
  at_epoch :: "string option"
  at_generation :: "nat option"
  at_status :: inv_status
  at_prepared :: "int option"
  at_dispatched :: "int option"
  at_completed :: "int option"

record grant_row =
  gr_id :: string
  gr_key :: string
  gr_organization :: "string option"
  gr_kind :: subject_kind
  gr_subject :: string
  gr_grant :: capability_grant
  gr_created :: int

record snapshot_row =
  sr_id :: string
  sr_grant :: string
  sr_config :: string
  sr_snapshot :: snapshot
  sr_manifest :: manifest
  sr_created :: int

record journal =
  jn_grants :: "grant_row list"
  jn_snapshots :: "snapshot_row list"
  jn_invocations :: "invocation list"
  jn_attempts :: "inv_attempt list"

text \<open>The join of an invocation with its current attempt.\<close>

definition current_attempt :: "journal \<Rightarrow> invocation \<Rightarrow> inv_attempt option" where
  "current_attempt db i =
     find (\<lambda>a. at_invocation a = iv_id i \<and> at_number a = iv_attempt i) (jn_attempts db)"

definition read_rows :: "string \<Rightarrow> journal \<Rightarrow> (invocation \<times> inv_attempt) option" where
  "read_rows x db =
     (case find (\<lambda>i. iv_id i = x) (jn_invocations db) of
        None \<Rightarrow> None | Some i \<Rightarrow> map_option (\<lambda>a. (i, a)) (current_attempt db i))"

definition scope_matches :: "invocation \<Rightarrow> scope \<Rightarrow> bool" where
  "scope_matches i s \<longleftrightarrow>
     (scope_kind s = SubjectRun \<or> scope_kind s = SubjectOperator)
     \<and> iv_subject_kind i = scope_kind s \<and> iv_subject i = execution_subject_id s
     \<and> iv_run i = scope_run s \<and> iv_organization i = scope_organization s \<and> iv_grant i = scope_grant s"

subsection \<open>Reading rows of operations\<close>

record parsed_operation =
  po_row :: invocation
  po_kind :: op_kind
  po_target :: string
  po_attempt :: inv_attempt
  po_request :: op_request
  po_result :: "op_result option"

definition normalize_identity :: "invocation \<Rightarrow> mcp_error + op_kind \<times> string" where
  "normalize_identity i =
     (case (iv_kind i, iv_target i) of
        (None, None) \<Rightarrow>
          (case iv_tool i of
             None \<Rightarrow> Inl (Conflict ''Legacy MCP invocation has no tool projection'')
           | Some tool \<Rightarrow> Inr (KindTool, tool))
      | (Some kind, Some target) \<Rightarrow> Inr (kind, target)
      | _ \<Rightarrow> Inl (Conflict ''Persisted MCP operation identity is incomplete''))"

definition project_tool_request :: "tool_request \<Rightarrow> string \<Rightarrow> mcp_error + op_request" where
  "project_tool_request r source =
     (let projected =
            \<lparr>rq_id = tq_id r, rq_scope = tq_scope r, rq_snapshot = tq_snapshot r, rq_source = source,
             rq_target = tq_tool r, rq_operation = ToolCall (tq_tool r) (tq_input r),
             rq_requested = tq_requested r, rq_deadline = tq_deadline r\<rparr>
      in if tool_request_ok r \<and> op_request_ok projected then Inr projected else Inl SchemaError)"

definition parse_request :: "stored_request \<Rightarrow> string \<Rightarrow> mcp_error + op_request" where
  "parse_request stored source =
     (case stored of
        GeneralRequest r \<Rightarrow> if op_request_ok r then Inr r else Inl SchemaError
      | ToolRequest r \<Rightarrow> project_tool_request r source)"

definition project_tool_result :: "tool_result \<Rightarrow> mcp_error + op_result" where
  "project_tool_result r =
     (if \<not> tool_result_ok r then Inl SchemaError
      else case (tr_output r, tr_error r) of
          (Some v, _) \<Rightarrow> Inr \<lparr>or_id = tr_id r, or_outcome = OpCompleted v, or_completed = tr_completed r\<rparr>
        | (None, None) \<Rightarrow> Inl (Conflict ''Legacy MCP invocation terminal result has no error'')
        | (None, Some e) \<Rightarrow>
            Inr \<lparr>or_id = tr_id r,
                 or_outcome =
                   (if tr_status r = StAmbiguous then OpAmbiguous (tx_message e)
                    else if tr_status r = StCancelled then OpCancelled (tx_message e)
                    else OpRemoteFailure (tx_message e) (tx_retryable e)),
                 or_completed = tr_completed r\<rparr>)"

definition parse_op_result :: "stored_result \<Rightarrow> mcp_error + op_result" where
  "parse_op_result stored =
     (case stored of
        GeneralResult r \<Rightarrow> if op_result_ok r then Inr r else Inl SchemaError
      | ToolResult r \<Rightarrow> project_tool_result r)"

definition parse_stored_operation :: "invocation \<times> inv_attempt \<Rightarrow> mcp_error + parsed_operation" where
  "parse_stored_operation = (\<lambda>(i, a).
     bind_result (normalize_identity i) (\<lambda>(kind, target).
     bind_result (parse_request (iv_request i) (at_source a)) (\<lambda>request.
     bind_result (case iv_result i of None \<Rightarrow> Inr None | Some r \<Rightarrow> map_sum id Some (parse_op_result r)) (\<lambda>result.
       let columns = [at_runtime a = None, at_owner a = None, at_epoch a = None, at_generation a = None];
           has_fence = (True \<notin> set columns)
       in if rq_id request \<noteq> iv_id i \<or> \<not> scope_matches i (rq_scope request)
             \<or> rq_snapshot request \<noteq> iv_snapshot i \<or> kind_of (rq_operation request) \<noteq> kind
             \<or> rq_target request \<noteq> target \<or> iv_tool i \<noteq> tool_projection kind target
          then Inl (Conflict ''Persisted MCP operation columns do not match request JSON'')
          else if at_invocation a \<noteq> iv_id i \<or> at_number a \<noteq> iv_attempt i \<or> at_status a \<noteq> iv_status i
          then Inl (Conflict ''Persisted MCP operation current-attempt projection diverged'')
          else if \<not> has_fence \<and> False \<in> set columns
          then Inl (Conflict ''Persisted MCP operation attempt has an incomplete runtime fence'')
          else if iv_status i = StDispatched \<and> at_destination a = McpActivity \<and> \<not> has_fence
          then Inl (Conflict ''Dispatched MCP operation attempt has no captured runtime fence'')
          else if at_destination a = ComponentActivity \<and> has_fence
          then Inl (Conflict ''Component MCP operation attempt cannot capture a runtime fence'')
          else if terminal_status (iv_status i) \<noteq> (result \<noteq> None)
             \<or> (\<exists>r \<in> set_option result. op_result_status r \<noteq> iv_status i \<or> or_id r \<noteq> iv_id i)
          then Inl (Conflict ''Persisted MCP operation terminal result is inconsistent'')
          else Inr \<lparr>po_row = i, po_kind = kind, po_target = target, po_attempt = a,
                    po_request = request, po_result = result\<rparr>))))"

definition read_operation :: "string \<Rightarrow> journal \<Rightarrow> mcp_error + parsed_operation option" where
  "read_operation x db =
     (case read_rows x db of None \<Rightarrow> Inr None | Some rows \<Rightarrow> map_sum id Some (parse_stored_operation rows))"

definition prepared_operation_ref :: "parsed_operation \<Rightarrow> mcp_error + op_ref" where
  "prepared_operation_ref p =
     (case at_prepared (po_attempt p) of
        None \<Rightarrow> Inl (Conflict ''MCP operation attempt has no preparation timestamp'')
      | Some t \<Rightarrow>
          let ref = \<lparr>of_id = iv_id (po_row p), of_attempt = at_id (po_attempt p),
                     of_number = at_number (po_attempt p), of_snapshot = iv_snapshot (po_row p),
                     of_grant = iv_grant (po_row p), of_kind = po_kind p, of_target = po_target p,
                     of_tool = iv_tool (po_row p), of_source = at_source (po_attempt p),
                     of_destination = at_destination (po_attempt p), of_retry = at_retry (po_attempt p),
                     of_prepared = to_iso t\<rparr>
          in if op_ref_ok ref then Inr ref else Inl SchemaError)"

definition operation_plan ::
  "parsed_operation \<Rightarrow> op_entry \<Rightarrow> operation \<Rightarrow> runtime_binding option \<Rightarrow> mcp_error + plan" where
  "operation_plan p entry operation binding =
     bind_result (prepared_operation_ref p) (\<lambda>ref.
       let result = \<lparr>pl_ref = ref, pl_entry = entry, pl_operation = operation,
                     pl_requested = rq_requested (po_request p), pl_deadline = rq_deadline (po_request p),
                     pl_binding = binding\<rparr>
       in if plan_ok result then Inr result else Inl SchemaError)"

definition assert_operation_replay :: "parsed_operation \<Rightarrow> op_request \<Rightarrow> string \<Rightarrow> mcp_error + unit" where
  "assert_operation_replay p r request_hash =
     (if iv_hash (po_row p) \<noteq> request_hash
      then Inl (Conflict ''MCP operation invocation ID was already used for a different request hash'')
      else if iv_id (po_row p) \<noteq> rq_id r \<or> \<not> scope_matches (po_row p) (rq_scope r)
         \<or> iv_snapshot (po_row p) \<noteq> rq_snapshot r \<or> po_kind p \<noteq> kind_of (rq_operation r)
         \<or> po_target p \<noteq> rq_target r
      then Inl (Conflict ''MCP operation replay crossed its persisted authority'')
      else Inr ())"

definition assert_operation_reference :: "parsed_operation \<Rightarrow> op_ref \<Rightarrow> mcp_error + unit" where
  "assert_operation_reference p ref =
     (let i = po_row p; a = po_attempt p
      in if iv_attempt i \<noteq> of_number ref \<or> at_number a \<noteq> of_number ref \<or> at_id a \<noteq> of_attempt ref
         then Inl (Conflict ''Prepared MCP operation reference is not the current attempt'')
         else if iv_id i \<noteq> of_id ref \<or> iv_grant i \<noteq> of_grant ref \<or> iv_snapshot i \<noteq> of_snapshot ref
            \<or> po_kind p \<noteq> of_kind ref \<or> po_target p \<noteq> of_target ref \<or> iv_tool i \<noteq> of_tool ref
            \<or> at_invocation a \<noteq> of_id ref \<or> map_option to_iso (at_prepared a) \<noteq> Some (of_prepared ref)
            \<or> at_source a \<noteq> of_source ref \<or> at_destination a \<noteq> of_destination ref
            \<or> at_retry a \<noteq> of_retry ref
         then Inl (Conflict ''Prepared MCP operation reference does not match persistence'')
         else Inr ())"

definition require_operation_result :: "parsed_operation \<Rightarrow> mcp_error + op_result" where
  "require_operation_result p =
     (case po_result p of
        None \<Rightarrow> Inl (Conflict ''Terminal MCP operation has no validated result'') | Some r \<Rightarrow> Inr r)"

definition captured_fence :: "inv_attempt \<Rightarrow> mcp_error + fence option" where
  "captured_fence a =
     (case (at_runtime a, at_owner a, at_epoch a, at_generation a) of
        (None, None, None, None) \<Rightarrow> Inr None
      | (Some r, Some owner, Some epoch, Some generation) \<Rightarrow>
          let f = \<lparr>fe_runtime = r, fe_owner = owner, fe_epoch = epoch, fe_generation = generation\<rparr>
          in if fence_ok f then Inr (Some f) else Inl SchemaError
      | _ \<Rightarrow> Inl SchemaError)"

subsection \<open>Reading rows of tool invocations\<close>

record parsed_invocation =
  pi_row :: invocation
  pi_attempt :: inv_attempt
  pi_request :: tool_request
  pi_result :: "tool_result option"

definition parse_stored_invocation :: "invocation \<times> inv_attempt \<Rightarrow> mcp_error + parsed_invocation" where
  "parse_stored_invocation = (\<lambda>(i, a).
     bind_result
       (case iv_request i of
          ToolRequest r \<Rightarrow> if tool_request_ok r then Inr r else Inl SchemaError
        | GeneralRequest _ \<Rightarrow> Inl SchemaError) (\<lambda>request.
     bind_result
       (case iv_result i of
          None \<Rightarrow> Inr None
        | Some (ToolResult r) \<Rightarrow> if tool_result_ok r then Inr (Some r) else Inl SchemaError
        | Some (GeneralResult _) \<Rightarrow> Inl SchemaError) (\<lambda>result.
       if tq_id request \<noteq> iv_id i \<or> scope_kind (tq_scope request) \<noteq> SubjectRun
          \<or> scope_run (tq_scope request) \<noteq> iv_run i
          \<or> scope_organization (tq_scope request) \<noteq> iv_organization i
          \<or> scope_grant (tq_scope request) \<noteq> iv_grant i \<or> tq_snapshot request \<noteq> iv_snapshot i
          \<or> Some (tq_tool request) \<noteq> iv_tool i
       then Inl (Conflict ''Persisted MCP invocation columns do not match request JSON'')
       else if at_invocation a \<noteq> iv_id i \<or> at_number a \<noteq> iv_attempt i
       then Inl (Conflict ''Persisted MCP invocation does not reference its current attempt'')
       else if at_status a \<noteq> iv_status i
       then Inl (Conflict ''MCP invocation and current-attempt status projection diverged'')
       else if terminal_status (iv_status i) \<noteq> (result \<noteq> None)
          \<or> (\<exists>r \<in> set_option result. tr_status r \<noteq> iv_status i \<or> tr_id r \<noteq> iv_id i)
       then Inl (Conflict ''Persisted MCP invocation terminal result is inconsistent'')
       else Inr \<lparr>pi_row = i, pi_attempt = a, pi_request = request, pi_result = result\<rparr>)))"

definition read_invocation :: "string \<Rightarrow> journal \<Rightarrow> mcp_error + parsed_invocation option" where
  "read_invocation x db =
     (case read_rows x db of None \<Rightarrow> Inr None | Some rows \<Rightarrow> map_sum id Some (parse_stored_invocation rows))"

definition prepared_tool_ref :: "parsed_invocation \<Rightarrow> mcp_error + tool_ref" where
  "prepared_tool_ref p =
     (case (at_prepared (pi_attempt p), iv_tool (pi_row p)) of
        (None, _) \<Rightarrow> Inl (Conflict ''MCP invocation attempt has no preparation timestamp'')
      | (Some _, None) \<Rightarrow> Inl SchemaError
      | (Some t, Some tool) \<Rightarrow>
          let ref = \<lparr>tf_id = iv_id (pi_row p), tf_attempt = at_id (pi_attempt p),
                     tf_number = at_number (pi_attempt p), tf_snapshot = iv_snapshot (pi_row p),
                     tf_grant = iv_grant (pi_row p), tf_tool = tool, tf_source = at_source (pi_attempt p),
                     tf_destination = at_destination (pi_attempt p), tf_retry = at_retry (pi_attempt p),
                     tf_prepared = to_iso t\<rparr>
          in if tool_ref_ok ref then Inr ref else Inl SchemaError)"

definition assert_invocation_replay :: "parsed_invocation \<Rightarrow> tool_request \<Rightarrow> string \<Rightarrow> mcp_error + unit" where
  "assert_invocation_replay p r request_hash =
     (let i = pi_row p
      in if iv_hash i \<noteq> request_hash
         then Inl (Conflict ''MCP invocation ID was already used for a different request hash'')
         else if iv_id i \<noteq> tq_id r \<or> scope_kind (tq_scope r) \<noteq> SubjectRun \<or> iv_run i \<noteq> scope_run (tq_scope r)
            \<or> iv_organization i \<noteq> scope_organization (tq_scope r) \<or> iv_grant i \<noteq> scope_grant (tq_scope r)
            \<or> iv_snapshot i \<noteq> tq_snapshot r \<or> iv_tool i \<noteq> Some (tq_tool r)
         then Inl (Conflict ''MCP invocation replay crossed its persisted run authority'')
         else Inr ())"

definition assert_tool_reference :: "parsed_invocation \<Rightarrow> tool_ref \<Rightarrow> mcp_error + unit" where
  "assert_tool_reference p ref =
     (let i = pi_row p; a = pi_attempt p
      in if iv_attempt i \<noteq> tf_number ref \<or> at_number a \<noteq> tf_number ref \<or> at_id a \<noteq> tf_attempt ref
         then Inl (Conflict ''Prepared MCP invocation reference is not the current attempt'')
         else if iv_id i \<noteq> tf_id ref \<or> iv_grant i \<noteq> tf_grant ref \<or> iv_snapshot i \<noteq> tf_snapshot ref
            \<or> iv_tool i \<noteq> Some (tf_tool ref) \<or> at_invocation a \<noteq> tf_id ref
            \<or> map_option to_iso (at_prepared a) \<noteq> Some (tf_prepared ref) \<or> at_source a \<noteq> tf_source ref
            \<or> at_destination a \<noteq> tf_destination ref \<or> at_retry a \<noteq> tf_retry ref
         then Inl (Conflict ''Prepared MCP invocation reference does not match persistence'')
         else Inr ())"

definition require_tool_result :: "parsed_invocation \<Rightarrow> mcp_error + tool_result" where
  "require_tool_result p =
     (case pi_result p of
        None \<Rightarrow> Inl (Conflict ''Terminal MCP invocation has no validated result'') | Some r \<Rightarrow> Inr r)"

end
