(* ===== verification/Transactions.thy ===== *)
theory Transactions
  imports Prelude
begin

section \<open>Transactions that interleave\<close>

text \<open>
  A call of a repository is a program over the database: a sequence of statements, each of which
  reads and changes the database at once and decides how the call goes on, and an answer at its end.
  Between two statements of a call other calls may commit (the isolation level is read committed).
  A program is a finite tree, so every call answers after finitely many of its own statements.

  The locales state how such calls are reasoned about: what every statement guarantees and may rely
  on (\<open>guarded_store\<close>), and what makes an answer one that at most one call can get
  (\<open>exclusive_claims\<close>).
\<close>

datatype ('s, 'a) program = Answer 'a | Statement "'s \<Rightarrow> 's \<times> ('s, 'a) program"

lemma program_induct [case_names Answer Statement, induct type: program]:
  assumes "\<And>a. P (Answer a)" and "\<And>f. (\<And>s. P (snd (f s))) \<Longrightarrow> P (Statement f)"
  shows "P p"
proof (induction p rule: program.induct)
  case (Statement f)
  show ?case by (rule assms(2), rule Statement) (auto simp: snds.simps prod_eq_iff)
qed (rule assms(1))

text \<open>A call that nobody disturbs.\<close>

primrec solo :: "('s, 'a) program \<Rightarrow> 's \<Rightarrow> 'a \<times> 's" where
  "solo (Answer a) = (\<lambda>s. (a, s))"
| "solo (Statement f) = (\<lambda>s. case (map_prod id solo \<circ> f) s of (s', go_on) \<Rightarrow> go_on s')"

lemma solo_Statement [simp]: "solo (Statement f) s = (case f s of (s', p) \<Rightarrow> solo p s')"
  by (simp add: case_prod_beta)

text \<open>The rest of a call, given the answer of its first part.\<close>

primrec chain :: "('a \<Rightarrow> ('s, 'b) program) \<Rightarrow> ('s, 'a) program \<Rightarrow> ('s, 'b) program" where
  "chain k (Answer a) = k a"
| "chain k (Statement f) = Statement (map_prod id (chain k) \<circ> f)"

lemma chain_Answer [simp]: "chain Answer p = p"
proof (induction p)
  case (Statement f)
  then show ?case by (simp add: fun_eq_iff prod_eq_iff)
qed simp

text \<open>
  A statement that only reads, and one that changes the database if its condition holds.  Both may
  throw: the call answers the error, and what the statement did is rolled back.
\<close>

definition query :: "('s \<Rightarrow> 'e + 'b) \<Rightarrow> ('b \<Rightarrow> ('s, 'e + 'a) program) \<Rightarrow> ('s, 'e + 'a) program" where
  "query f k = Statement (\<lambda>s. (s, case f s of Inl e \<Rightarrow> Answer (Inl e) | Inr x \<Rightarrow> k x))"

definition write_if ::
  "('s \<Rightarrow> 'e + ('b \<times> 's) option) \<Rightarrow> ('b \<Rightarrow> 'a) \<Rightarrow> ('s, 'e + 'a) program \<Rightarrow> ('s, 'e + 'a) program" where
  "write_if f answer missed =
     Statement (\<lambda>s. case f s of
         Inl e \<Rightarrow> (s, Answer (Inl e))
       | Inr None \<Rightarrow> (s, missed)
       | Inr (Some (x, s')) \<Rightarrow> (s', Answer (Inr (answer x))))"

lemma solo_query [simp]:
  "solo (query f k) s = (case f s of Inl e \<Rightarrow> (Inl e, s) | Inr x \<Rightarrow> solo (k x) s)"
  by (simp add: query_def split: sum.splits)

lemma solo_write_if [simp]:
  "solo (write_if f answer missed) s =
     (case f s of Inl e \<Rightarrow> (Inl e, s) | Inr None \<Rightarrow> solo missed s
      | Inr (Some (x, s')) \<Rightarrow> (Inr (answer x), s'))"
  by (simp add: write_if_def split: sum.splits option.splits prod.splits)

lemma solo_chain: "solo (chain k p) s = (case solo p s of (a, s') \<Rightarrow> solo (k a) s')"
proof (induction p arbitrary: s)
  case (Statement f)
  from Statement [of s "fst (f s)"] show ?case by (simp add: case_prod_beta)
qed simp

text \<open>The answer in another form; errors stay what they are.\<close>

definition answering :: "('a \<Rightarrow> 'b) \<Rightarrow> ('s, 'e + 'a) program \<Rightarrow> ('s, 'e + 'b) program" where
  "answering f = map_program (map_sum (\<lambda>e. e) f)"

lemma answering_simps [simp]:
  "answering f (Answer r) = Answer (map_sum (\<lambda>e. e) f r)"
  "answering f (Statement g) = Statement (map_prod id (answering f) \<circ> g)"
  by (simp_all add: answering_def)

lemma answering_query: "answering g (query f k) = query f (\<lambda>x. answering g (k x))"
  by (auto simp: query_def fun_eq_iff split: sum.split)

lemma answering_write_if: "answering g (write_if f h missed) = write_if f (\<lambda>x. g (h x)) (answering g missed)"
  by (auto simp: write_if_def fun_eq_iff split: sum.split option.split)

lemma solo_answering: "solo (answering f p) s = map_prod (map_sum (\<lambda>e. e) f) id (solo p s)"
proof (induction p arbitrary: s)
  case (Statement g)
  from Statement [of s "fst (g s)"] show ?case by (simp add: case_prod_beta)
qed simp

subsection \<open>Schedules\<close>

text \<open>The calls are numbered; a schedule says whose statement is next.\<close>

type_synonym ('s, 'a) calls = "nat \<Rightarrow> ('s, 'a) program"

definition advance :: "nat \<Rightarrow> 's \<times> ('s, 'a) calls \<Rightarrow> 's \<times> ('s, 'a) calls" where
  "advance i c =
     (case snd c i of
        Answer _ \<Rightarrow> c
      | Statement f \<Rightarrow> (case f (fst c) of (s', p) \<Rightarrow> (s', (snd c)(i := p))))"

definition run_schedule :: "nat list \<Rightarrow> 's \<times> ('s, 'a) calls \<Rightarrow> 's \<times> ('s, 'a) calls" where
  "run_schedule schedule c = foldl (\<lambda>c i. advance i c) c schedule"

definition answer_of :: "'s \<times> ('s, 'a) calls \<Rightarrow> nat \<Rightarrow> 'a option" where
  "answer_of c i = (case snd c i of Answer a \<Rightarrow> Some a | Statement _ \<Rightarrow> None)"

lemma answer_of_Some [simp]: "answer_of c i = Some a \<longleftrightarrow> snd c i = Answer a"
  by (simp add: answer_of_def split: program.splits)

lemma run_schedule_Nil [simp]: "run_schedule [] c = c"
  by (simp add: run_schedule_def)

lemma run_schedule_Cons [simp]: "run_schedule (i # sched) c = run_schedule sched (advance i c)"
  by (simp add: run_schedule_def)

lemma advance_Answer [simp]: "snd c i = Answer a \<Longrightarrow> advance i c = c"
  by (simp add: advance_def)

lemma advance_Statement:
  "snd c i = Statement f \<Longrightarrow> f (fst c) = (s', p) \<Longrightarrow> advance i c = (s', (snd c)(i := p))"
  by (simp add: advance_def)

lemma advance_query:
  "ps i = query f k \<Longrightarrow> f s = Inr x \<Longrightarrow> advance i (s, ps) = (s, ps(i := k x))"
  by (simp add: advance_def query_def)

lemma advance_reading:
  "ps i = query f (\<lambda>x. Answer (g x)) \<Longrightarrow> bind_result (f s) g = r \<Longrightarrow>
     advance i (s, ps) = (s, ps(i := Answer r))"
  by (auto simp: advance_def query_def bind_result_def split: sum.split)

lemma advance_written:
  "ps i = write_if f h missed \<Longrightarrow> f s = Inr (Some (x, t)) \<Longrightarrow>
     advance i (s, ps) = (t, ps(i := Answer (Inr (h x))))"
  by (simp add: advance_def write_if_def)

lemma advance_missed:
  "ps i = write_if f h missed \<Longrightarrow> f s = Inr None \<Longrightarrow> advance i (s, ps) = (s, ps(i := missed))"
  by (simp add: advance_def write_if_def)

lemma advance_missed_reading:
  "ps i = write_if f h (query g (\<lambda>x. Answer (k x))) \<Longrightarrow> f s = Inr None \<Longrightarrow> bind_result (g s) k = r \<Longrightarrow>
     advance i (advance i (s, ps)) = (s, ps(i := Answer r))"
  by (simp add: advance_missed advance_reading)

text \<open>A call that answers within a number of statements of its own.\<close>

primrec answers_within :: "('s, 'a) program \<Rightarrow> nat \<Rightarrow> bool" where
  "answers_within (Answer a) = (\<lambda>n. True)"
| "answers_within (Statement f) = (\<lambda>n. 0 < n \<and> (\<forall>s. snd ((map_prod id answers_within \<circ> f) s) (n - 1)))"

lemma answers_within_Statement [simp]: "answers_within (Statement f) n \<longleftrightarrow> 0 < n \<and> (\<forall>s. answers_within (snd (f s)) (n - 1))"
  by simp

declare answers_within.simps(2) [simp del]

lemma answers_within_query: "0 < n \<Longrightarrow> (\<And>x. answers_within (k x) (n - 1)) \<Longrightarrow> answers_within (query f k) n"
  by (auto simp: query_def split: sum.splits)

lemma answers_within_write_if: "0 < n \<Longrightarrow> answers_within missed (n - 1) \<Longrightarrow> answers_within (write_if f answer missed) n"
  by (auto simp: write_if_def split: sum.splits option.splits)

lemma answers_within_answering [simp]: "answers_within (answering f p) n \<longleftrightarrow> answers_within p n"
  by (induction p arbitrary: n) simp_all

lemma answers_within_answered:
  assumes "answers_within (snd c i) n" and "n \<le> count_list sched i"
  shows "\<exists>a. answer_of (run_schedule sched c) i = Some a"
  using assms
proof (induction sched arbitrary: c n)
  case Nil
  then show ?case by (cases "snd c i") simp_all
next
  case (Cons j sched)
  show ?case
  proof (cases "snd c j")
    case (Answer a)
    have "\<exists>m. answers_within (snd c i) m \<and> m \<le> count_list sched i"
      using Cons.prems Answer by (cases "j = i") auto
    then obtain m where "answers_within (snd c i) m" "m \<le> count_list sched i" by blast
    with Cons.IH [of c m] Answer show ?thesis by simp
  next
    case (Statement f)
    obtain t p where f: "f (fst c) = (t, p)" by (cases "f (fst c)")
    have "answers_within (snd (advance j c) i) (if j = i then n - 1 else n)"
    proof (cases "j = i")
      case True
      with Cons.prems(1) Statement have "answers_within (snd (f (fst c))) (n - 1)" by simp
      with f show ?thesis by (simp add: advance_Statement [OF Statement f] flip: True)
    qed (use Cons.prems(1) in \<open>simp add: advance_Statement [OF Statement f]\<close>)
    moreover have "(if j = i then n - 1 else n) \<le> count_list sched i" using Cons.prems(2) by auto
    ultimately have "\<exists>a. answer_of (run_schedule sched (advance j c)) i = Some a" by (rule Cons.IH)
    then show ?thesis by simp
  qed
qed

subsection \<open>What statements rely on and guarantee\<close>

locale guarded_store =
  fixes invariant :: "'s \<Rightarrow> bool"
    and evolves :: "'s \<Rightarrow> 's \<Rightarrow> bool"
  assumes evolves_refl [simp]: "invariant s \<Longrightarrow> evolves s s"
    and evolves_trans: "evolves s t \<Longrightarrow> evolves t u \<Longrightarrow> evolves s u"
begin

text \<open>
  From a database that has evolved, with the invariant, from \<open>s\<close>, every statement keeps the
  invariant and lets the database evolve, and the answer satisfies \<open>Q\<close>.
\<close>

primrec meets :: "('a \<Rightarrow> 's \<Rightarrow> bool) \<Rightarrow> ('s, 'a) program \<Rightarrow> 's \<Rightarrow> bool" where
  "meets Q (Answer a) = (\<lambda>s. Q a s)"
| "meets Q (Statement f) =
     (\<lambda>s. \<forall>s'. invariant s' \<longrightarrow> evolves s s' \<longrightarrow>
        (case (map_prod id (meets Q) \<circ> f) s' of
           (s'', rest) \<Rightarrow> invariant s'' \<and> evolves s' s'' \<and> rest s''))"

definition stable :: "('a \<Rightarrow> 's \<Rightarrow> bool) \<Rightarrow> bool" where
  "stable Q \<longleftrightarrow> (\<forall>a s t. invariant s \<longrightarrow> invariant t \<longrightarrow> evolves s t \<longrightarrow> Q a s \<longrightarrow> Q a t)"

lemma stableI:
  "(\<And>a s t. invariant s \<Longrightarrow> invariant t \<Longrightarrow> evolves s t \<Longrightarrow> Q a s \<Longrightarrow> Q a t) \<Longrightarrow> stable Q"
  by (simp add: stable_def)

lemma stableD:
  "stable Q \<Longrightarrow> invariant s \<Longrightarrow> invariant t \<Longrightarrow> evolves s t \<Longrightarrow> Q a s \<Longrightarrow> Q a t"
  by (simp add: stable_def)

lemma meets_StatementD:
  "meets Q (Statement f) s \<Longrightarrow> invariant s' \<Longrightarrow> evolves s s' \<Longrightarrow> f s' = (s'', p) \<Longrightarrow>
     invariant s'' \<and> evolves s' s'' \<and> meets Q p s''"
  by fastforce

lemma meets_evolves:
  assumes "stable Q" and "invariant s" and "invariant t" and "evolves s t" and "meets Q p s"
  shows "meets Q p t"
proof (cases p)
  case (Answer a)
  with assms show ?thesis by (simp add: stableD [of Q s t])
next
  case (Statement f)
  with assms show ?thesis by (auto intro: evolves_trans)
qed

lemma meets_Answer: "Q a s \<Longrightarrow> meets Q (Answer a) s"
  by simp

lemma meets_Statement:
  assumes "\<And>t. invariant t \<Longrightarrow> evolves s t \<Longrightarrow>
      invariant (fst (f t)) \<and> evolves t (fst (f t)) \<and> meets Q (snd (f t)) (fst (f t))"
  shows "meets Q (Statement f) s"
  using assms by (simp add: case_prod_beta)

lemma meets_query:
  assumes "\<And>e t. invariant t \<Longrightarrow> evolves s t \<Longrightarrow> f t = Inl e \<Longrightarrow> Q (Inl e) t"
    and "\<And>x t. invariant t \<Longrightarrow> evolves s t \<Longrightarrow> f t = Inr x \<Longrightarrow> meets Q (k x) t"
  shows "meets Q (query f k) s"
  unfolding query_def
proof (rule meets_Statement)
  fix t assume "invariant t" "evolves s t"
  with assms [of t] show "invariant (fst (t, case f t of Inl e \<Rightarrow> Answer (Inl e) | Inr x \<Rightarrow> k x)) \<and>
      evolves t (fst (t, case f t of Inl e \<Rightarrow> Answer (Inl e) | Inr x \<Rightarrow> k x)) \<and>
      meets Q (snd (t, case f t of Inl e \<Rightarrow> Answer (Inl e) | Inr x \<Rightarrow> k x))
        (fst (t, case f t of Inl e \<Rightarrow> Answer (Inl e) | Inr x \<Rightarrow> k x))"
    by (cases "f t") simp_all
qed

lemma meets_write_if:
  assumes "\<And>e t. invariant t \<Longrightarrow> evolves s t \<Longrightarrow> f t = Inl e \<Longrightarrow> Q (Inl e) t"
    and "\<And>t. invariant t \<Longrightarrow> evolves s t \<Longrightarrow> f t = Inr None \<Longrightarrow> meets Q missed t"
    and "\<And>x t u. invariant t \<Longrightarrow> evolves s t \<Longrightarrow> f t = Inr (Some (x, u)) \<Longrightarrow>
           invariant u \<and> evolves t u \<and> Q (Inr (answer x)) u"
  shows "meets Q (write_if f answer missed) s"
  unfolding write_if_def
proof (rule meets_Statement)
  fix t assume t: "invariant t" "evolves s t"
  let ?r = "case f t of Inl e \<Rightarrow> (t, Answer (Inl e)) | Inr None \<Rightarrow> (t, missed)
     | Inr (Some (x, s')) \<Rightarrow> (s', Answer (Inr (answer x)))"
  show "invariant (fst ?r) \<and> evolves t (fst ?r) \<and> meets Q (snd ?r) (fst ?r)"
  proof (cases "f t")
    case (Inl e)
    with t assms(1) show ?thesis by simp
  next
    case (Inr r)
    show ?thesis
    proof (cases r)
      case None
      with Inr t assms(2) [of t] show ?thesis by simp
    next
      case (Some xs)
      obtain x u where "xs = (x, u)" by (cases xs)
      with Inr Some t assms(3) [of t x u] show ?thesis by simp
    qed
  qed
qed

lemma meets_chain:
  assumes "meets Q p s" and "\<And>a t. Q a t \<Longrightarrow> meets R (k a) t"
  shows "meets R (chain k p) s"
  using assms(1)
proof (induction p arbitrary: s)
  case (Answer a)
  with assms(2) show ?case by simp
next
  case (Statement f)
  then show ?case by (simp add: case_prod_beta)
qed

lemma meets_chain_later:
  assumes "meets Q p s" and "invariant s"
    and "\<And>a t. invariant t \<Longrightarrow> evolves s t \<Longrightarrow> Q a t \<Longrightarrow> meets R (k a) t"
  shows "meets R (chain k p) s"
  using assms
proof (induction p arbitrary: s)
  case (Answer a)
  then show ?case by simp
next
  case (Statement f)
  show ?case
    unfolding chain.simps
  proof (rule meets_Statement)
    fix t assume t: "invariant t" "evolves s t"
    have step: "invariant (fst (f t)) \<and> evolves t (fst (f t)) \<and> meets Q (snd (f t)) (fst (f t))"
      by (rule meets_StatementD [OF Statement.prems(1) t]) simp
    have "meets R (chain k (snd (f t))) (fst (f t))"
    proof (rule Statement.IH)
      fix a u assume "invariant u" "evolves (fst (f t)) u" "Q a u"
      with step t show "meets R (k a) u" by (blast intro: Statement.prems(3) evolves_trans)
    qed (use step in simp_all)
    with step show "invariant (fst ((map_prod id (chain k) \<circ> f) t)) \<and> evolves t (fst ((map_prod id (chain k) \<circ> f) t))
        \<and> meets R (snd ((map_prod id (chain k) \<circ> f) t)) (fst ((map_prod id (chain k) \<circ> f) t))"
      by simp
  qed
qed

lemma meets_answering [simp]:
  "meets Q (answering f p) s \<longleftrightarrow> meets (\<lambda>r. Q (map_sum (\<lambda>e. e) f r)) p s"
proof (induction p arbitrary: s)
  case (Statement g)
  then show ?case by (simp add: case_prod_beta)
qed simp

lemma meets_weaken:
  assumes "meets Q p s" and "invariant s" and "\<And>a t. invariant t \<Longrightarrow> evolves s t \<Longrightarrow> Q a t \<Longrightarrow> R a t"
  shows "meets R p s"
proof -
  have "meets R (chain Answer p) s"
    by (rule meets_chain_later [OF assms(1,2)]) (simp add: assms(3))
  then show ?thesis by simp
qed

lemma meets_solo:
  assumes "meets Q p s" and "invariant s" and "solo p s = (a, t)"
  shows "invariant t \<and> evolves s t \<and> Q a t"
  using assms
proof (induction p arbitrary: s)
  case (Statement f)
  obtain s' p' where f: "f s = (s', p')" by (cases "f s")
  have now: "invariant s' \<and> evolves s s' \<and> meets Q p' s'"
    using meets_StatementD [OF Statement.prems(1,2) _ f] Statement.prems(2) by simp
  have "invariant t \<and> evolves s' t \<and> Q a t"
    using Statement.IH [of s s'] now Statement.prems(3) by (simp add: f)
  with now show ?case by (blast intro: evolves_trans)
qed auto

lemma advance_meets:
  assumes "\<And>i. stable (Q i)" and "invariant (fst c)" and "\<And>i. meets (Q i) (snd c i) (fst c)"
  shows "invariant (fst (advance n c)) \<and> evolves (fst c) (fst (advance n c))
    \<and> (\<forall>i. meets (Q i) (snd (advance n c) i) (fst (advance n c)))"
proof (cases "snd c n")
  case (Answer a)
  with assms show ?thesis by simp
next
  case (Statement f)
  obtain s' p where f: "f (fst c) = (s', p)" by (cases "f (fst c)")
  have s': "invariant s' \<and> evolves (fst c) s' \<and> meets (Q n) p s'"
    using meets_StatementD [of "Q n" f "fst c" "fst c" s' p] assms(2,3) Statement f
    by (metis evolves_refl)
  have "meets (Q i) (snd c i) s'" for i
    by (rule meets_evolves [OF assms(1,2) _ _ assms(3)]) (use s' in auto)
  with s' show ?thesis by (simp add: advance_Statement [OF Statement f])
qed

lemma schedule_meets:
  assumes "\<And>i. stable (Q i)" and "invariant (fst c)" and "\<And>i. meets (Q i) (snd c i) (fst c)"
  shows "invariant (fst (run_schedule sched c)) \<and> evolves (fst c) (fst (run_schedule sched c))
    \<and> (\<forall>i. meets (Q i) (snd (run_schedule sched c) i) (fst (run_schedule sched c)))"
  using assms(2,3)
proof (induction sched arbitrary: c)
  case (Cons n ns)
  have one: "invariant (fst (advance n c)) \<and> evolves (fst c) (fst (advance n c))
      \<and> (\<forall>i. meets (Q i) (snd (advance n c) i) (fst (advance n c)))"
    by (rule advance_meets [where Q = Q]) (use assms(1) Cons.prems in auto)
  with Cons.IH [of "advance n c"] show ?case by (auto intro: evolves_trans)
qed simp

lemma answers_meet:
  assumes "\<And>i. stable (Q i)" and "invariant s" and "\<And>i. meets (Q i) (ps i) s"
    and "answer_of (run_schedule sched (s, ps)) i = Some a"
  shows "Q i a (fst (run_schedule sched (s, ps)))"
  using schedule_meets [where Q = Q and c = "(s, ps)" and sched = sched] assms
  by (metis answer_of_Some fst_conv meets.simps(1) snd_conv)

end

subsection \<open>Answers that only one call can get\<close>

text \<open>
  A key is open until a statement closes it, and closed for good.  A call may answer that it won
  the key only in the statement that closed it.
\<close>

locale exclusive_claims = guarded_store invariant evolves
  for invariant :: "'s \<Rightarrow> bool" and evolves :: "'s \<Rightarrow> 's \<Rightarrow> bool" +
  fixes open_for :: "'s \<Rightarrow> 'k \<Rightarrow> bool"
  assumes closed_stays: "invariant s \<Longrightarrow> evolves s t \<Longrightarrow> open_for t k \<Longrightarrow> open_for s k"
begin

primrec contends :: "('a \<Rightarrow> 'k option) \<Rightarrow> ('s, 'a) program \<Rightarrow> bool" where
  "contends wins (Answer a) = True"
| "contends wins (Statement f) =
     (\<forall>s. invariant s \<longrightarrow> snd ((map_prod id (contends wins) \<circ> f) s)
        \<and> (\<forall>a k. snd (f s) = Answer a \<longrightarrow> wins a = Some k \<longrightarrow>
             open_for s k \<and> \<not> open_for (fst (f s)) k))"

definition loses :: "('a \<Rightarrow> 'k option) \<Rightarrow> ('s, 'a) program \<Rightarrow> bool" where
  "loses wins p \<longleftrightarrow> (\<forall>a. p = Answer a \<longrightarrow> wins a = None)"

lemma loses_simps [simp]:
  "loses wins (Answer a) \<longleftrightarrow> wins a = None"
  "loses wins (Statement f)"
  by (simp_all add: loses_def)

lemma loses_Statements [simp]: "loses wins (query f k)" "loses wins (write_if g answer missed)"
  by (simp_all add: query_def write_if_def)

lemma contends_no_win:
  assumes "\<And>s. invariant s \<Longrightarrow> contends wins (snd (f s)) \<and> loses wins (snd (f s))"
  shows "contends wins (Statement f)"
  using assms by (auto simp: loses_def)

lemma contends_query:
  assumes "\<And>e. wins (Inl e) = None"
    and "\<And>s x. invariant s \<Longrightarrow> f s = Inr x \<Longrightarrow> contends wins (k x) \<and> loses wins (k x)"
  shows "contends wins (query f k)"
  unfolding query_def by (rule contends_no_win) (auto simp: assms split: sum.splits)

lemma contends_write_if:
  assumes "\<And>e. wins (Inl e) = None"
    and "contends wins missed" and "loses wins missed"
    and "\<And>s x s' k. invariant s \<Longrightarrow> f s = Inr (Some (x, s')) \<Longrightarrow> wins (Inr (answer x)) = Some k \<Longrightarrow>
           open_for s k \<and> \<not> open_for s' k"
  shows "contends wins (write_if f answer missed)"
  using assms(2-4) by (auto simp: write_if_def assms(1) loses_def split: sum.splits option.splits prod.splits)

lemma contends_chain:
  assumes "\<And>a. contends wins (k a) \<and> loses wins (k a)"
  shows "contends wins (chain k p)"
proof (induction p)
  case (Statement f)
  have "loses wins (chain k q)" for q using assms by (cases q) auto
  with Statement show ?case by (simp add: loses_def)
qed (simp add: assms)

lemma loses_answering [simp]: "loses wins (answering f p) \<longleftrightarrow> loses (\<lambda>r. wins (map_sum (\<lambda>e. e) f r)) p"
  by (cases p) simp_all

lemma contends_answering [simp]:
  "contends wins (answering f p) \<longleftrightarrow> contends (\<lambda>r. wins (map_sum (\<lambda>e. e) f r)) p"
proof (induction p)
  case (Statement g)
  have eq: "(\<forall>a k. answering f q = Answer a \<longrightarrow> wins a = Some k \<longrightarrow> X k)
      \<longleftrightarrow> (\<forall>a k. q = Answer a \<longrightarrow> wins (map_sum (\<lambda>e. e) f a) = Some k \<longrightarrow> X k)"
    for q :: "('s, _) program" and X by (cases q) simp_all
  show ?case
    by (simp only: contends.simps answering_simps o_apply snd_map_prod fst_map_prod id_apply Statement eq)
qed simp

lemma loses_nothing: "loses (\<lambda>_. None) p"
  by (simp add: loses_def)

lemma contends_nothing: "contends (\<lambda>_. None) p"
  by (induction p) simp_all

definition settled_claims :: "('a \<Rightarrow> 'k option) \<Rightarrow> 's \<times> ('s, 'a) calls \<Rightarrow> bool" where
  "settled_claims wins c \<longleftrightarrow>
     (\<forall>i a k. answer_of c i = Some a \<longrightarrow> wins a = Some k \<longrightarrow>
        \<not> open_for (fst c) k \<and> (\<forall>j b. j \<noteq> i \<longrightarrow> answer_of c j = Some b \<longrightarrow> wins b \<noteq> Some k))"

lemma advance_claims:
  assumes inv: "invariant (fst c)" and meets: "\<And>i. meets (\<lambda>_ _. True) (snd c i) (fst c)"
    and contends: "\<And>i. contends wins (snd c i)" and settled: "settled_claims wins c"
  shows "(\<forall>i. contends wins (snd (advance n c) i)) \<and> settled_claims wins (advance n c)"
proof (cases "snd c n")
  case (Answer a)
  with contends settled show ?thesis by simp
next
  case (Statement f)
  obtain s' p where f: "f (fst c) = (s', p)" by (cases "f (fst c)")
  have s': "evolves (fst c) s'"
    using meets_StatementD [of "\<lambda>_ _. True" f "fst c" "fst c" s' p] meets [of n] inv Statement f
    by simp
  have p: "contends wins p" "\<And>a k. p = Answer a \<Longrightarrow> wins a = Some k \<Longrightarrow> open_for (fst c) k \<and> \<not> open_for s' k"
    using contends [of n] inv f by (auto simp: Statement)
  have closed: "\<not> open_for s' k" if "\<not> open_for (fst c) k" for k
    using closed_stays [OF inv s'] that by blast
  have c': "advance n c = (s', (snd c)(n := p))" by (rule advance_Statement [OF Statement f])
  have "settled_claims wins (advance n c)"
    unfolding settled_claims_def
  proof (intro allI impI)
    fix i a k
    assume i: "answer_of (advance n c) i = Some a" and a: "wins a = Some k"
    show "\<not> open_for (fst (advance n c)) k \<and>
        (\<forall>j b. j \<noteq> i \<longrightarrow> answer_of (advance n c) j = Some b \<longrightarrow> wins b \<noteq> Some k)"
    proof (cases "i = n")
      case True
      with i a p(2) have win: "open_for (fst c) k" "\<not> open_for s' k" by (auto simp: c')
      with settled show ?thesis by (auto simp: c' True settled_claims_def)
    next
      case False
      with i a settled have old: "\<not> open_for (fst c) k"
        "\<forall>j b. j \<noteq> i \<longrightarrow> snd c j = Answer b \<longrightarrow> wins b \<noteq> Some k"
        by (auto simp: c' settled_claims_def)
      with p(2) closed False show ?thesis by (auto simp: c')
    qed
  qed
  with contends p(1) show ?thesis by (simp add: c')
qed

text \<open>The converse: a statement that closes a key answers that the call won it.\<close>

primrec accounts :: "('a \<Rightarrow> 'k option) \<Rightarrow> ('s, 'a) program \<Rightarrow> bool" where
  "accounts wins (Answer a) = True"
| "accounts wins (Statement f) =
     (\<forall>s. invariant s \<longrightarrow> snd ((map_prod id (accounts wins) \<circ> f) s)
        \<and> (\<forall>k. open_for s k \<longrightarrow> \<not> open_for (fst (f s)) k \<longrightarrow>
             (\<exists>a. snd (f s) = Answer a \<and> wins a = Some k)))"

lemma accounts_Statement:
  assumes "\<And>s. invariant s \<Longrightarrow> accounts wins (snd (f s))"
    and "\<And>s k. invariant s \<Longrightarrow> open_for s k \<Longrightarrow> \<not> open_for (fst (f s)) k \<Longrightarrow>
           \<exists>a. snd (f s) = Answer a \<and> wins a = Some k"
  shows "accounts wins (Statement f)"
  using assms by simp

lemma accounts_query:
  assumes "\<And>s x. invariant s \<Longrightarrow> f s = Inr x \<Longrightarrow> accounts wins (k x)"
  shows "accounts wins (query f k)"
  unfolding query_def by (rule accounts_Statement) (auto simp: assms split: sum.splits)

lemma accounts_write_if:
  assumes "accounts wins missed"
    and "\<And>s x s' k. invariant s \<Longrightarrow> f s = Inr (Some (x, s')) \<Longrightarrow> open_for s k \<Longrightarrow> \<not> open_for s' k \<Longrightarrow>
           wins (Inr (answer x)) = Some k"
  shows "accounts wins (write_if f answer missed)"
  unfolding write_if_def
  by (rule accounts_Statement) (auto simp: assms split: sum.splits option.splits prod.splits)

lemma accounts_answering [simp]:
  "accounts wins (answering f p) \<longleftrightarrow> accounts (\<lambda>r. wins (map_sum (\<lambda>e. e) f r)) p"
proof (induction p)
  case (Statement g)
  have eq: "(\<exists>a. answering f q = Answer a \<and> wins a = Some k)
      \<longleftrightarrow> (\<exists>a. q = Answer a \<and> wins (map_sum (\<lambda>e. e) f a) = Some k)"
    for q :: "('s, _) program" and k by (cases q) auto
  show ?case
    by (simp only: accounts.simps answering_simps o_apply snd_map_prod fst_map_prod id_apply Statement eq)
qed simp

text \<open>Programs that close no key at all.\<close>

primrec closes_none :: "('s, 'a) program \<Rightarrow> bool" where
  "closes_none (Answer a) = True"
| "closes_none (Statement f) =
     (\<forall>s. invariant s \<longrightarrow> snd ((map_prod id closes_none \<circ> f) s)
        \<and> (\<forall>k. open_for s k \<longrightarrow> open_for (fst (f s)) k))"

lemma closes_none_query:
  assumes "\<And>s x. invariant s \<Longrightarrow> f s = Inr x \<Longrightarrow> closes_none (k x)"
  shows "closes_none (query f k)"
  using assms by (simp add: query_def split: sum.splits)

lemma closes_none_write_if:
  assumes "closes_none missed"
    and "\<And>s x s' k. invariant s \<Longrightarrow> f s = Inr (Some (x, s')) \<Longrightarrow> open_for s k \<Longrightarrow> open_for s' k"
  shows "closes_none (write_if f answer missed)"
  using assms by (auto simp: write_if_def split: sum.splits option.splits prod.splits)

lemma closes_none_chain:
  "closes_none p \<Longrightarrow> (\<And>a. closes_none (k a)) \<Longrightarrow> closes_none (chain k p)"
  by (induction p) simp_all

lemma closes_none_answering [simp]: "closes_none (answering f p) \<longleftrightarrow> closes_none p"
  by (induction p) simp_all

lemma closes_none_accounts: "closes_none p \<Longrightarrow> accounts wins p"
  by (induction p) simp_all

theorem closed_was_claimed:
  assumes "invariant s" and "\<And>i. meets (\<lambda>_ _. True) (ps i) s" and "\<And>i. accounts wins (ps i)"
    and "open_for s k" and "\<not> open_for (fst (run_schedule sched (s, ps))) k"
  shows "\<exists>i a. answer_of (run_schedule sched (s, ps)) i = Some a \<and> wins a = Some k"
proof -
  have "invariant (fst c) \<Longrightarrow> (\<And>i. meets (\<lambda>_ _. True) (snd c i) (fst c)) \<Longrightarrow> (\<And>i. accounts wins (snd c i)) \<Longrightarrow>
      open_for (fst c) k \<or> (\<exists>i a. answer_of c i = Some a \<and> wins a = Some k) \<Longrightarrow>
      \<not> open_for (fst (run_schedule sched c)) k \<Longrightarrow>
      \<exists>i a. answer_of (run_schedule sched c) i = Some a \<and> wins a = Some k" for c
  proof (induction sched arbitrary: c)
    case (Cons n ns)
    have step: "invariant (fst (advance n c)) \<and> evolves (fst c) (fst (advance n c))
        \<and> (\<forall>i. meets (\<lambda>_ _. True) (snd (advance n c) i) (fst (advance n c)))"
      by (rule advance_meets [where Q = "\<lambda>_ _ _. True"]) (use Cons.prems in \<open>auto simp: stable_def\<close>)
    have "(\<forall>i. accounts wins (snd (advance n c) i))
        \<and> (open_for (fst (advance n c)) k \<or> (\<exists>i a. answer_of (advance n c) i = Some a \<and> wins a = Some k))"
    proof (cases "snd c n")
      case (Answer a)
      with Cons.prems show ?thesis by simp
    next
      case (Statement f)
      obtain s' p where f: "f (fst c) = (s', p)" by (cases "f (fst c)")
      have p: "accounts wins p" "open_for (fst c) k \<Longrightarrow> \<not> open_for s' k \<Longrightarrow> \<exists>a. p = Answer a \<and> wins a = Some k"
        using Cons.prems(3) [of n] Cons.prems(1) f by (auto simp: Statement)
      have c': "advance n c = (s', (snd c)(n := p))" by (rule advance_Statement [OF Statement f])
      have "answer_of (advance n c) i = Some a" if "answer_of c i = Some a" for i a
        using that Statement by (auto simp: c')
      with p Cons.prems(3,4) show ?thesis by (fastforce simp: c')
    qed
    with step Cons.IH [of "advance n c"] Cons.prems(5) show ?case by simp
  qed auto
  from this [of "(s, ps)"] assms show ?thesis by simp
qed

theorem one_claim_each:
  assumes "invariant s" and "\<And>i. meets (\<lambda>_ _. True) (ps i) s" and "\<And>i. contends wins (ps i)"
    and "\<And>i. loses wins (ps i)"
  shows "settled_claims wins (run_schedule sched (s, ps))"
proof -
  have "invariant (fst c) \<Longrightarrow> (\<And>i. meets (\<lambda>_ _. True) (snd c i) (fst c)) \<Longrightarrow> (\<And>i. contends wins (snd c i)) \<Longrightarrow>
      settled_claims wins c \<Longrightarrow> settled_claims wins (run_schedule sched c)" for c
  proof (induction sched arbitrary: c)
    case (Cons n ns)
    have "invariant (fst (advance n c)) \<and> evolves (fst c) (fst (advance n c))
        \<and> (\<forall>i. meets (\<lambda>_ _. True) (snd (advance n c) i) (fst (advance n c)))"
      by (rule advance_meets [where Q = "\<lambda>_ _ _. True"]) (use Cons.prems in \<open>auto simp: stable_def\<close>)
    moreover have "(\<forall>i. contends wins (snd (advance n c) i)) \<and> settled_claims wins (advance n c)"
      by (rule advance_claims) (use Cons.prems in auto)
    ultimately show ?case using Cons.IH [of "advance n c"] by simp
  qed simp
  moreover have "settled_claims wins (s, ps)"
    using assms(4) by (simp add: settled_claims_def loses_def)
  ultimately show ?thesis using assms(1-3) by simp
qed

end

end
