(* ===== verification/Invocation_Journal.thy ===== *)
theory Invocation_Journal
  imports Invocation_Rows Transactions
begin

section \<open>The invocation journal\<close>

text \<open>
  The operations of \<open>mcp-runtime.repository.ts\<close>.  Every call is a transaction; what it reads and
  writes in one statement is one statement of its program.  The update of an invocation, the update
  of its attempt and the commit that follow each other are one statement: the row lock taken by the
  first keeps other writers out until the end, and readers see the rows as they were before.
  Likewise the two insertions of a preparation.

  The current time and the identifiers the database generates are arguments.
\<close>

subsection \<open>Durable authority\<close>

record stored_authority =
  sa_grant :: capability_grant
  sa_snapshot :: snapshot
  sa_manifest :: manifest

definition is_sha256 :: "string \<Rightarrow> bool" where
  "is_sha256 h \<longleftrightarrow> length h = 64 \<and> list_all (\<lambda>c. is_digit c \<or> c \<in> set ''abcdef'') h"

definition durable_kind :: "subject_kind \<Rightarrow> bool" where
  "durable_kind k \<longleftrightarrow> k = SubjectRun \<or> k = SubjectOperator"

definition parse_durable_authority :: "stored_authority \<Rightarrow> mcp_error + stored_authority" where
  "parse_durable_authority a =
     (if \<not> grant_ok (sa_grant a) \<or> \<not> entries_ok (mf_entries (sa_manifest a)) then Inl SchemaError
      else if \<not> durable_kind (subject_kind_of (cg_subject (sa_grant a)))
         \<or> \<not> durable_kind (scope_kind (sn_scope (sa_snapshot a)))
      then Inl (Conflict ''MCP durable authority must be run or Operator scoped'')
      else bind_result (assert_grant_applies (sn_scope (sa_snapshot a)) (sa_grant a)) (\<lambda>_.
        if mf_grant (sa_manifest a) \<noteq> cg_id (sa_grant a)
           \<or> mf_snapshot (sa_manifest a) \<noteq> sn_id (sa_snapshot a)
        then Inl (Conflict ''MCP invocation manifest does not match durable authority'')
        else Inr a))"

definition parse_stored_authority :: "grant_row \<times> snapshot_row \<Rightarrow> mcp_error + stored_authority" where
  "parse_stored_authority = (\<lambda>(g, s).
     bind_result (parse_durable_authority
         \<lparr>sa_grant = gr_grant g, sa_snapshot = sr_snapshot s, sa_manifest = sr_manifest s\<rparr>) (\<lambda>a.
       if gr_id g \<noteq> cg_id (sa_grant a) \<or> gr_organization g \<noteq> cg_organization (sa_grant a)
          \<or> gr_kind g \<noteq> subject_kind_of (cg_subject (sa_grant a))
          \<or> gr_subject g \<noteq> capability_subject_id (cg_subject (sa_grant a))
          \<or> gr_created g \<noteq> instant (cg_created (sa_grant a))
          \<or> sr_id s \<noteq> sn_id (sa_snapshot a) \<or> sr_grant s \<noteq> cg_id (sa_grant a)
          \<or> sr_config s \<noteq> sn_config (sa_snapshot a)
          \<or> sr_created s \<noteq> instant (sn_created (sa_snapshot a))
       then Inl (Conflict ''Persisted MCP authority columns do not match immutable JSON'')
       else Inr a))"

definition find_authority ::
  "(grant_row \<Rightarrow> snapshot_row \<Rightarrow> bool) \<Rightarrow> journal \<Rightarrow> mcp_error + stored_authority option" where
  "find_authority wanted db =
     (case find (\<lambda>(g, s). sr_grant s = gr_id g \<and> wanted g s)
             (List.product (jn_grants db) (jn_snapshots db)) of
        None \<Rightarrow> Inr None | Some rows \<Rightarrow> map_sum id Some (parse_stored_authority rows))"

definition read_authority_by_key :: "string \<Rightarrow> journal \<Rightarrow> mcp_error + stored_authority option" where
  "read_authority_by_key key = find_authority (\<lambda>g _. gr_key g = key)"

text \<open>
  What two authorities are compared by: everything but the identifiers that are new each time and the
  times of creation.  The texts that the code compares are equal just if these values are.
\<close>

fun replace_scope_grant :: "string \<Rightarrow> scope \<Rightarrow> scope" where
  "replace_scope_grant g (RunScope org run _ node) = RunScope org run g node"
| "replace_scope_grant g (StudioScope org operation _ expires) = StudioScope org operation g expires"
| "replace_scope_grant g (DiscoveryScope org operation _ expires) = DiscoveryScope org operation g expires"
| "replace_scope_grant g (OperatorScope org session turn _ expires) = OperatorScope org session turn g expires"

definition semantic_authority_projection :: "stored_authority \<Rightarrow> stored_authority" where
  "semantic_authority_projection a =
     (let g = ''<capability-grant-id>''; s = ''<capability-snapshot-id>'';
          snap = sa_snapshot a
      in \<lparr>sa_grant = (sa_grant a)\<lparr>cg_id := g, cg_created := to_iso 0\<rparr>,
          sa_snapshot = snap\<lparr>sn_id := s, sn_created := to_iso 0,
            sn_scope := replace_scope_grant g (sn_scope snap),
            sn_tools := map (\<lambda>t. t\<lparr>td_schema := stable_json (td_schema t)\<rparr>) (sn_tools snap),
            sn_bindings := map_option (sort_key fst) (sn_bindings snap)\<rparr>,
          sa_manifest = (sa_manifest a)\<lparr>mf_grant := g, mf_snapshot := s\<rparr>\<rparr>)"

definition insert_authority ::
  "string \<Rightarrow> stored_authority \<Rightarrow> journal \<Rightarrow> mcp_error + (stored_authority \<times> journal) option" where
  "insert_authority key a db =
     (let grant = sa_grant a; snap = sa_snapshot a;
          g = \<lparr>gr_id = cg_id grant, gr_key = key, gr_organization = cg_organization grant,
               gr_kind = subject_kind_of (cg_subject grant),
               gr_subject = capability_subject_id (cg_subject grant), gr_grant = grant,
               gr_created = instant (cg_created grant)\<rparr>;
          s = \<lparr>sr_id = sn_id snap, sr_grant = cg_id grant, sr_config = sn_config snap,
               sr_snapshot = snap, sr_manifest = sa_manifest a, sr_created = instant (sn_created snap)\<rparr>
      in if (\<exists>org \<in> set_option (gr_organization g). 191 < length org) then Inl DatabaseError
         else if (\<exists>g' \<in> set (jn_grants db). gr_key g' = key) then Inr None
         else if (\<exists>g' \<in> set (jn_grants db). gr_id g' = gr_id g)
            \<or> (\<exists>s' \<in> set (jn_snapshots db). sr_id s' = sr_id s \<or> sr_grant s' = sr_grant s)
         then Inl DatabaseError
         else bind_result (parse_stored_authority (g, s)) (\<lambda>stored.
           Inr (Some (stored, db\<lparr>jn_grants := jn_grants db @ [g], jn_snapshots := jn_snapshots db @ [s]\<rparr>))))"

definition create_or_read_authority ::
  "string \<Rightarrow> stored_authority \<Rightarrow> (journal, mcp_error + stored_authority) program" where
  "create_or_read_authority key a =
     (if \<not> is_sha256 key
      then Answer (Inl (PlainError ''MCP authority key must be a lowercase SHA-256 digest''))
      else case parse_durable_authority a of
        Inl e \<Rightarrow> Answer (Inl e)
      | Inr requested \<Rightarrow>
          write_if (insert_authority key requested) id
            (query (read_authority_by_key key) (\<lambda>existing.
               Answer (case existing of
                   None \<Rightarrow> Inl (Conflict ''MCP authority key was claimed without readable authority'')
                 | Some stored \<Rightarrow>
                     if semantic_authority_projection stored \<noteq> semantic_authority_projection requested
                     then Inl (Conflict ''MCP authority key was already used for different immutable authority'')
                     else Inr stored))))"

definition create_or_read_run_authority ::
  "string \<Rightarrow> stored_authority \<Rightarrow> (journal, mcp_error + stored_authority) program" where
  "create_or_read_run_authority key a =
     (if subject_kind_of (cg_subject (sa_grant a)) \<noteq> SubjectRun
         \<or> scope_kind (sn_scope (sa_snapshot a)) \<noteq> SubjectRun
      then Answer (Inl (Conflict ''Run authority must be run-scoped''))
      else create_or_read_authority key a)"

definition get_authority ::
  "string \<Rightarrow> string \<Rightarrow> scope \<Rightarrow> (journal, mcp_error + stored_authority option) program" where
  "get_authority grant_id snapshot_id s =
     query (find_authority (\<lambda>g sr. gr_id g = grant_id \<and> sr_id sr = snapshot_id \<and> gr_kind g = scope_kind s
         \<and> gr_subject g = execution_subject_id s \<and> gr_organization g = scope_organization s))
       (\<lambda>found. Answer (Inr found))"

definition get_operator_authority ::
  "string \<Rightarrow> string \<Rightarrow> string \<Rightarrow> string \<Rightarrow> (journal, mcp_error + stored_authority option) program" where
  "get_operator_authority snapshot_id org session turn =
     query (find_authority (\<lambda>g sr. sr_id sr = snapshot_id \<and> gr_kind g = SubjectOperator
         \<and> gr_subject g = turn \<and> gr_organization g = Some org))
       (\<lambda>found. Answer (Inr (case found of
            None \<Rightarrow> None
          | Some a \<Rightarrow>
              (case (sn_scope (sa_snapshot a), cg_subject (sa_grant a)) of
                 (OperatorScope org' session' turn' _ _, OperatorSubject session'' turn'' _) \<Rightarrow>
                   if org' = org \<and> session' = session \<and> turn' = turn
                      \<and> session'' = session \<and> turn'' = turn
                   then Some a else None
               | _ \<Rightarrow> None))))"

subsection \<open>Statements on an invocation and its attempt\<close>

definition update_rows :: "('r \<Rightarrow> bool) \<Rightarrow> ('r \<Rightarrow> 'r) \<Rightarrow> 'r list \<Rightarrow> 'r list" where
  "update_rows hit change rows = map (\<lambda>r. if hit r then change r else r) rows"

text \<open>
  The conditional update of an invocation, missed if no row fulfils the condition, and the update of
  its attempt, which has to find a row.
\<close>

definition move_rows ::
  "(invocation \<Rightarrow> bool) \<Rightarrow> (invocation \<Rightarrow> invocation) \<Rightarrow> (inv_attempt \<Rightarrow> bool) \<Rightarrow>
   (inv_attempt \<Rightarrow> inv_attempt) \<Rightarrow> string \<Rightarrow> journal \<Rightarrow> mcp_error + (unit \<times> journal) option" where
  "move_rows hit change hit_attempt change_attempt message db =
     (if \<not> (\<exists>i \<in> set (jn_invocations db). hit i) then Inr None
      else if \<not> (\<exists>a \<in> set (jn_attempts db). hit_attempt a) then Inl (Conflict message)
      else Inr (Some ((), db\<lparr>jn_invocations := update_rows hit change (jn_invocations db),
                             jn_attempts := update_rows hit_attempt change_attempt (jn_attempts db)\<rparr>)))"

definition operation_identity_matches :: "op_ref \<Rightarrow> invocation \<Rightarrow> bool" where
  "operation_identity_matches ref i \<longleftrightarrow>
     (iv_kind i = Some (of_kind ref) \<and> iv_target i = Some (of_target ref) \<and> iv_tool i = of_tool ref)
     \<or> (of_kind ref = KindTool \<and> of_tool ref \<noteq> None
        \<and> iv_kind i = None \<and> iv_target i = None \<and> iv_tool i = of_tool ref)"

definition operation_hit :: "op_ref \<Rightarrow> inv_status \<Rightarrow> invocation \<Rightarrow> bool" where
  "operation_hit ref from_status i \<longleftrightarrow>
     iv_id i = of_id ref \<and> iv_attempt i = of_number ref \<and> iv_grant i = of_grant ref
     \<and> iv_snapshot i = of_snapshot ref \<and> operation_identity_matches ref i \<and> iv_status i = from_status"

definition operation_attempt_hit :: "op_ref \<Rightarrow> fence option \<Rightarrow> inv_status \<Rightarrow> inv_attempt \<Rightarrow> bool" where
  "operation_attempt_hit ref f from_status a \<longleftrightarrow>
     at_id a = of_attempt ref \<and> at_invocation a = of_id ref \<and> at_number a = of_number ref
     \<and> at_prepared a = Some (instant (of_prepared ref)) \<and> at_source a = of_source ref
     \<and> at_destination a = of_destination ref \<and> at_retry a = of_retry ref
     \<and> at_runtime a = map_option fe_runtime f \<and> at_owner a = map_option fe_owner f
     \<and> at_epoch a = map_option fe_epoch f \<and> at_generation a = map_option fe_generation f
     \<and> at_status a = from_status"

definition tool_hit :: "tool_ref \<Rightarrow> inv_status \<Rightarrow> invocation \<Rightarrow> bool" where
  "tool_hit ref from_status i \<longleftrightarrow>
     iv_id i = tf_id ref \<and> iv_attempt i = tf_number ref \<and> iv_grant i = tf_grant ref
     \<and> iv_snapshot i = tf_snapshot ref \<and> iv_tool i = Some (tf_tool ref) \<and> iv_status i = from_status"

definition tool_attempt_hit :: "tool_ref \<Rightarrow> inv_status \<Rightarrow> inv_attempt \<Rightarrow> bool" where
  "tool_attempt_hit ref from_status a \<longleftrightarrow>
     at_id a = tf_attempt ref \<and> at_invocation a = tf_id ref \<and> at_number a = tf_number ref
     \<and> at_prepared a = Some (instant (tf_prepared ref)) \<and> at_source a = tf_source ref
     \<and> at_destination a = tf_destination ref \<and> at_retry a = tf_retry ref \<and> at_status a = from_status"

definition settle_row :: "inv_status \<Rightarrow> stored_result \<Rightarrow> int \<Rightarrow> invocation \<Rightarrow> invocation" where
  "settle_row status result t i =
     i\<lparr>iv_status := status, iv_result := Some result, iv_updated := t, iv_terminal := Some t\<rparr>"

definition settle_attempt_row :: "inv_status \<Rightarrow> int \<Rightarrow> inv_attempt \<Rightarrow> inv_attempt" where
  "settle_attempt_row status t a = a\<lparr>at_status := status, at_completed := Some t\<rparr>"

definition transition_operation ::
  "op_ref \<Rightarrow> fence option \<Rightarrow> op_result \<Rightarrow> inv_status \<Rightarrow> journal \<Rightarrow> mcp_error + (unit \<times> journal) option" where
  "transition_operation ref f result from_status =
     (let t = instant (or_completed result); status = op_result_status result
      in move_rows (operation_hit ref from_status) (settle_row status (GeneralResult result) t)
           (operation_attempt_hit ref f from_status) (settle_attempt_row status t)
           ''MCP operation attempt could not be settled'')"

definition transition_tool ::
  "tool_ref \<Rightarrow> tool_result \<Rightarrow> inv_status \<Rightarrow> journal \<Rightarrow> mcp_error + (unit \<times> journal) option" where
  "transition_tool ref result from_status =
     (let t = instant (tr_completed result); status = tr_status result
      in move_rows (tool_hit ref from_status) (settle_row status (ToolResult result) t)
           (tool_attempt_hit ref from_status) (settle_attempt_row status t)
           ''MCP invocation attempt could not be settled'')"

text \<open>The rows a preparation inserts.\<close>

record row_keys =
  rk_attempt_id :: string
  rk_now :: int

definition new_invocation ::
  "string \<Rightarrow> scope \<Rightarrow> string \<Rightarrow> op_kind \<Rightarrow> string \<Rightarrow> string \<Rightarrow> stored_request \<Rightarrow> int \<Rightarrow> invocation" where
  "new_invocation x s snapshot_id kind target request_hash request t =
     \<lparr>iv_id = x, iv_subject_kind = scope_kind s, iv_subject = execution_subject_id s,
      iv_run = scope_run s, iv_organization = scope_organization s, iv_grant = scope_grant s,
      iv_snapshot = snapshot_id, iv_kind = Some kind, iv_target = Some target,
      iv_tool = tool_projection kind target, iv_hash = request_hash, iv_request = request,
      iv_status = StPrepared, iv_attempt = 1, iv_result = None, iv_created = t, iv_updated = t,
      iv_terminal = None\<rparr>"

definition new_attempt :: "string \<Rightarrow> string \<Rightarrow> string \<Rightarrow> destination \<Rightarrow> retry_policy \<Rightarrow> int \<Rightarrow> inv_attempt" where
  "new_attempt attempt_id x source dest retry t =
     \<lparr>at_id = attempt_id, at_invocation = x, at_number = 1, at_source = source, at_destination = dest,
      at_retry = retry, at_runtime = None, at_owner = None, at_epoch = None, at_generation = None,
      at_status = StPrepared, at_prepared = Some t, at_dispatched = None, at_completed = None\<rparr>"

text \<open>
  The insertions: values too long for their columns are refused first, a known identifier of the
  invocation makes the insertion do nothing, and the rows referred to have to be there.
\<close>

definition insert_rows ::
  "invocation \<Rightarrow> inv_attempt \<Rightarrow> (invocation \<times> inv_attempt \<Rightarrow> mcp_error + 'b) \<Rightarrow> journal \<Rightarrow>
   mcp_error + ('b \<times> journal) option" where
  "insert_rows i a answer db =
     (if (\<exists>org \<in> set_option (iv_organization i). 191 < length org)
         \<or> (\<exists>tool \<in> set_option (iv_tool i). MAX_TOOL_NAME < length tool)
      then Inl DatabaseError
      else if (\<exists>i' \<in> set (jn_invocations db). iv_id i' = iv_id i) then Inr None
      else if iv_grant i \<notin> gr_id ` set (jn_grants db) \<or> iv_snapshot i \<notin> sr_id ` set (jn_snapshots db)
      then Inl DatabaseError
      else if (\<exists>a' \<in> set (jn_attempts db). at_id a' = at_id a
                 \<or> (at_invocation a' = at_invocation a \<and> at_number a' = at_number a))
      then Inl DatabaseError
      else bind_result (answer (i, a)) (\<lambda>x.
        Inr (Some (x, db\<lparr>jn_invocations := jn_invocations db @ [i], jn_attempts := jn_attempts db @ [a]\<rparr>))))"

subsection \<open>Operations\<close>

record preparation =
  pp_request :: op_request
  pp_operation :: operation
  pp_hash :: string
  pp_entry :: op_entry
  pp_binding :: "runtime_binding option"
  pp_manifest :: manifest

datatype ('p, 'r) prepare_outcome = PreparedOutcome 'p manifest | TerminalOutcome 'r

datatype 'r claim_outcome = Claimed | ClaimTerminal 'r | ClaimAmbiguous 'r

definition parse_operation_preparation :: "preparation \<Rightarrow> mcp_error + unit" where
  "parse_operation_preparation p =
     (if \<not> is_sha256 (pp_hash p)
      then Inl (PlainError ''MCP operation request hash must be a lowercase SHA-256 digest'')
      else if \<not> op_request_ok (pp_request p) \<or> \<not> op_entry_ok (pp_entry p)
         \<or> \<not> entries_ok (mf_entries (pp_manifest p))
      then Inl SchemaError
      else if \<not> durable_kind (scope_kind (rq_scope (pp_request p)))
      then Inl (Conflict ''MCP durable operations require run or Operator authority'')
      else bind_result (resolve_operation_entry (pp_manifest p) (pp_request p)) (\<lambda>authorized.
        if authorized \<noteq> pp_entry p \<or> kind_of (pp_operation p) \<noteq> kind_of (rq_operation (pp_request p))
        then Inl (Conflict ''MCP operation does not match its invocation manifest'')
        else if oe_destination (pp_entry p) = McpActivity \<and> pp_binding p = None
        then Inl (Conflict ''Outbound MCP operation has no immutable runtime binding'')
        else if oe_destination (pp_entry p) = ComponentActivity \<and> pp_binding p \<noteq> None
        then Inl (Conflict ''Component operation cannot claim an MCP runtime binding'')
        else Inr ()))"

definition preparation_outcome ::
  "preparation \<Rightarrow> parsed_operation \<Rightarrow> mcp_error + (plan, op_result) prepare_outcome" where
  "preparation_outcome p rows =
     bind_result (operation_plan rows (pp_entry p) (pp_operation p) (pp_binding p)) (\<lambda>plan.
       Inr (PreparedOutcome plan (pp_manifest p)))"

text \<open>The answer if the identifier was there already.\<close>

definition replay_operation_preparation ::
  "preparation \<Rightarrow> parsed_operation option \<Rightarrow> mcp_error + (plan, op_result) prepare_outcome" where
  "replay_operation_preparation p found =
     (case found of
        None \<Rightarrow> Inl (Conflict ''MCP operation invocation ID was claimed without a readable invocation'')
      | Some existing \<Rightarrow>
          bind_result (assert_operation_replay existing (pp_request p) (pp_hash p)) (\<lambda>_.
          let status = iv_status (po_row existing)
          in if terminal_status status
             then bind_result (require_operation_result existing) (\<lambda>r. Inr (TerminalOutcome r))
             else if status \<noteq> StPrepared \<and> status \<noteq> StDispatched
             then Inl (Conflict ''MCP operation is not reusable from its current state'')
             else preparation_outcome p existing))"

definition prepare_operation ::
  "preparation \<Rightarrow> row_keys \<Rightarrow> (journal, mcp_error + (plan, op_result) prepare_outcome) program" where
  "prepare_operation p keys =
     (case parse_operation_preparation p of
        Inl e \<Rightarrow> Answer (Inl e)
      | Inr _ \<Rightarrow>
          let request = pp_request p; entry = pp_entry p
          in write_if
               (insert_rows
                  (new_invocation (rq_id request) (rq_scope request) (rq_snapshot request) (oe_kind entry)
                     (oe_target entry) (pp_hash p) (GeneralRequest request) (rk_now keys))
                  (new_attempt (rk_attempt_id keys) (rq_id request) (oe_source entry)
                     (oe_destination entry) (oe_retry entry) (rk_now keys))
                  (\<lambda>rows. bind_result (parse_stored_operation rows) (preparation_outcome p)))
               id
               (query (read_operation (rq_id request)) (\<lambda>found. Answer (replay_operation_preparation p found))))"

definition claim_operation_rows ::
  "op_ref \<Rightarrow> fence option \<Rightarrow> int \<Rightarrow> journal \<Rightarrow> mcp_error + (unit \<times> journal) option" where
  "claim_operation_rows ref f t =
     move_rows (operation_hit ref StPrepared) (\<lambda>i. i\<lparr>iv_status := StDispatched, iv_updated := t\<rparr>)
       (operation_attempt_hit ref None StPrepared)
       (\<lambda>a. a\<lparr>at_status := StDispatched, at_runtime := map_option fe_runtime f,
                at_owner := map_option fe_owner f, at_epoch := map_option fe_epoch f,
                at_generation := map_option fe_generation f, at_dispatched := Some t\<rparr>)
       ''Prepared MCP operation attempt could not be claimed''"

definition claim_replay :: "op_result \<Rightarrow> op_result claim_outcome" where
  "claim_replay r = (case or_outcome r of OpAmbiguous _ \<Rightarrow> ClaimAmbiguous r | _ \<Rightarrow> ClaimTerminal r)"

definition require_current_operation :: "op_ref \<Rightarrow> journal \<Rightarrow> mcp_error + parsed_operation" where
  "require_current_operation ref db =
     bind_result (read_operation (of_id ref) db) (\<lambda>found.
       case found of
         None \<Rightarrow> Inl (NotFound ''MCP operation attempt was not found'')
       | Some existing \<Rightarrow> bind_result (assert_operation_reference existing ref) (\<lambda>_. Inr existing))"

text \<open>A claim that found the invocation not prepared, given the rows it then read.\<close>

definition replay_operation_claim ::
  "op_ref \<Rightarrow> int \<Rightarrow> parsed_operation \<Rightarrow> (journal, mcp_error + op_result claim_outcome) program" where
  "replay_operation_claim ref completed_at existing =
     (let status = iv_status (po_row existing)
      in if terminal_status status
         then Answer (bind_result (require_operation_result existing) (\<lambda>r. Inr (claim_replay r)))
         else if status \<noteq> StDispatched
         then Answer (Inl (Conflict ''MCP operation attempt cannot be claimed from its current state''))
         else case captured_fence (po_attempt existing) of
             Inl e \<Rightarrow> Answer (Inl e)
           | Inr captured \<Rightarrow>
               let result = \<lparr>or_id = of_id ref,
                     or_outcome = OpAmbiguous ''MCP operation attempt was already dispatched'',
                     or_completed = to_iso completed_at\<rparr>
               in write_if (transition_operation ref captured result StDispatched)
                    (\<lambda>_. ClaimAmbiguous result)
                    (query (require_current_operation ref) (\<lambda>concurrent.
                       Answer (bind_result (require_operation_result concurrent)
                         (\<lambda>r. Inr (claim_replay r))))))"

definition claim_operation_attempt ::
  "dispatch_claim \<Rightarrow> int \<Rightarrow> int \<Rightarrow> (journal, mcp_error + op_result claim_outcome) program" where
  "claim_operation_attempt claim dispatched_at completed_at =
     (if \<not> claim_ok claim then Answer (Inl SchemaError)
      else let ref = pl_ref (dc_plan claim); f = map_option rr_fence (dc_runtime claim)
      in write_if (claim_operation_rows ref f dispatched_at) (\<lambda>_. Claimed)
           (query (require_current_operation ref) (replay_operation_claim ref completed_at)))"

record dispatch_view =
  dv_request :: op_request
  dv_ref :: op_ref
  dv_status :: inv_status
  dv_result :: "op_result option"
  dv_fence :: "fence option"

definition get_operation_for_dispatch :: "op_ref \<Rightarrow> (journal, mcp_error + dispatch_view) program" where
  "get_operation_for_dispatch ref =
     (if \<not> op_ref_ok ref then Answer (Inl SchemaError)
      else query (read_operation (of_id ref)) (\<lambda>found. Answer (case found of
          None \<Rightarrow> Inl (Conflict ''MCP operation attempt was not found'')
        | Some existing \<Rightarrow>
            bind_result (assert_operation_reference existing ref) (\<lambda>_.
            bind_result (prepared_operation_ref existing) (\<lambda>stored.
            bind_result (captured_fence (po_attempt existing)) (\<lambda>f.
              Inr \<lparr>dv_request = po_request existing, dv_ref = stored,
                   dv_status = iv_status (po_row existing), dv_result = po_result existing,
                   dv_fence = f\<rparr>))))))"

definition assert_settlement_fence :: "parsed_operation \<Rightarrow> fence option \<Rightarrow> mcp_error + unit" where
  "assert_settlement_fence p f =
     bind_result (captured_fence (po_attempt p)) (\<lambda>captured.
       if captured \<noteq> f then Inl (Conflict ''MCP operation settlement used a stale runtime fence'') else Inr ())"

definition replayed_result :: "op_result \<Rightarrow> parsed_operation \<Rightarrow> mcp_error + op_result" where
  "replayed_result result p =
     bind_result (require_operation_result p) (\<lambda>stored.
       if same_op_result stored result then Inr stored
       else Inl (Conflict ''MCP operation terminal replay conflicts with stored result''))"

text \<open>The rows as they are, if they were dispatched under the fence.\<close>

definition require_fenced_operation :: "op_ref \<Rightarrow> fence option \<Rightarrow> journal \<Rightarrow> mcp_error + parsed_operation" where
  "require_fenced_operation ref f db =
     bind_result (require_current_operation ref db) (\<lambda>existing.
     bind_result (assert_settlement_fence existing f) (\<lambda>_. Inr existing))"

definition settle_read_operation ::
  "op_ref \<Rightarrow> fence option \<Rightarrow> op_result \<Rightarrow> parsed_operation \<Rightarrow> (journal, mcp_error + op_result) program" where
  "settle_read_operation ref f result existing =
     (if iv_status (po_row existing) = StDispatched
      then write_if (transition_operation ref f result StDispatched) (\<lambda>_. result)
             (query (require_fenced_operation ref f) (\<lambda>concurrent. Answer (replayed_result result concurrent)))
      else if \<not> terminal_status (iv_status (po_row existing))
      then Answer (Inl (Conflict ''MCP operation attempt can only settle from dispatched state''))
      else Answer (replayed_result result existing))"

definition settle_operation_attempt ::
  "op_ref \<Rightarrow> fence option \<Rightarrow> op_result \<Rightarrow> (journal, mcp_error + op_result) program" where
  "settle_operation_attempt ref f result =
     (if \<not> op_ref_ok ref \<or> (\<exists>g \<in> set_option f. \<not> fence_ok g) \<or> \<not> op_result_ok result
      then Answer (Inl SchemaError)
      else if or_id result \<noteq> of_id ref
      then Answer (Inl (Conflict ''MCP operation result belongs to a different invocation''))
      else query (require_fenced_operation ref f) (settle_read_operation ref f result))"

datatype cause = CauseFailure | CauseDeadline | CauseCancelled

definition operation_reconciliation_result ::
  "string \<Rightarrow> inv_status \<Rightarrow> cause \<Rightarrow> string \<Rightarrow> iso \<Rightarrow> mcp_error + op_result" where
  "operation_reconciliation_result x state cause message completed_at =
     (let result = (\<lambda>kind. \<lparr>or_id = x, or_outcome = kind, or_completed = completed_at\<rparr>)
      in if state = StDispatched then Inr (result (OpAmbiguous message))
         else if state \<noteq> StPrepared
         then Inl (Conflict ''MCP operation is not reconcilable from its current state'')
         else if cause = CauseCancelled then Inr (result (OpCancelled message))
         else Inr (result (OpRemoteFailure message (cause = CauseFailure))))"

text \<open>The loop, with the number of rounds left.\<close>

fun reconcile_operation_rounds ::
  "nat \<Rightarrow> op_ref \<Rightarrow> cause \<Rightarrow> string \<Rightarrow> iso \<Rightarrow> parsed_operation \<Rightarrow> (journal, mcp_error + op_result) program" where
  "reconcile_operation_rounds 0 ref cause message completed_at existing =
     Answer (bind_result (assert_operation_reference existing ref) (\<lambda>_.
       if \<not> terminal_status (iv_status (po_row existing))
       then Inl (Conflict ''MCP operation reconciliation lost its state transition'')
       else require_operation_result existing))"
| "reconcile_operation_rounds (Suc n) ref cause message completed_at existing =
     (let status = iv_status (po_row existing)
      in case assert_operation_reference existing ref of
        Inl e \<Rightarrow> Answer (Inl e)
      | Inr _ \<Rightarrow>
          if terminal_status status then Answer (require_operation_result existing)
          else if status \<noteq> StPrepared \<and> status \<noteq> StDispatched
          then Answer (Inl (Conflict ''MCP operation cannot be reconciled from its current state''))
          else case bind_result (operation_reconciliation_result (of_id ref) status cause message completed_at)
                 (\<lambda>r. bind_result (captured_fence (po_attempt existing)) (\<lambda>f. Inr (r, f))) of
              Inl e \<Rightarrow> Answer (Inl e)
            | Inr (result, f) \<Rightarrow>
                write_if (transition_operation ref f result status) (\<lambda>_. result)
                  (query (\<lambda>db. bind_result (read_operation (of_id ref) db) (\<lambda>found. case found of
                       None \<Rightarrow> Inl (Conflict ''MCP operation disappeared during reconciliation'')
                     | Some concurrent \<Rightarrow> Inr concurrent))
                    (reconcile_operation_rounds n ref cause message completed_at)))"

definition RECONCILIATION_ROUNDS :: nat where
  "RECONCILIATION_ROUNDS = 2"

definition reconcile_operation_dispatch ::
  "op_ref \<Rightarrow> cause \<Rightarrow> string \<Rightarrow> iso \<Rightarrow> (journal, mcp_error + op_result) program" where
  "reconcile_operation_dispatch ref cause message completed_at =
     (if \<not> op_ref_ok ref \<or> \<not> message_ok message then Answer (Inl SchemaError)
      else query (\<lambda>db. bind_result (read_operation (of_id ref) db) (\<lambda>found. case found of
               None \<Rightarrow> Inl (Conflict ''MCP operation reconciliation reference was not found'')
             | Some existing \<Rightarrow> Inr existing))
           (reconcile_operation_rounds RECONCILIATION_ROUNDS ref cause message completed_at))"

subsection \<open>Tool invocations\<close>

text \<open>The older form, for runs only.  It knows nothing of fences.\<close>

record tool_preparation =
  tp_request :: tool_request
  tp_hash :: string
  tp_entry :: manifest_entry
  tp_manifest :: manifest

text \<open>An entry of either form as a tool entry; the kind of an entry of an operation is not looked at.\<close>

definition legacy_entry :: "manifest_entry \<Rightarrow> tool_entry" where
  "legacy_entry c = (case c of ToolEntry e \<Rightarrow> e | OpEntry e \<Rightarrow> tool_entry_of e)"

definition parse_invocation_preparation :: "tool_preparation \<Rightarrow> mcp_error + tool_entry" where
  "parse_invocation_preparation p =
     (let r = tp_request p; m = tp_manifest p; e = legacy_entry (tp_entry p)
      in if \<not> is_sha256 (tp_hash p)
         then Inl (PlainError ''MCP invocation request hash must be a lowercase SHA-256 digest'')
         else if \<not> tool_request_ok r \<or> \<not> entries_ok (mf_entries m)
            \<or> \<not> (case tp_entry p of ToolEntry t \<Rightarrow> tool_entry_ok t | OpEntry oe \<Rightarrow> op_entry_ok oe)
         then Inl SchemaError
         else if scope_kind (tq_scope r) \<noteq> SubjectRun
         then Inl (Conflict ''MCP durable invocations must be run-scoped'')
         else if mf_grant m \<noteq> scope_grant (tq_scope r) \<or> mf_snapshot m \<noteq> tq_snapshot r
            \<or> te_tool e \<noteq> tq_tool r \<or> tp_entry p \<notin> set (entry_list (mf_entries m))
         then Inl (Conflict ''MCP invocation does not match its invocation manifest'')
         else Inr e)"

definition tool_preparation_outcome ::
  "manifest \<Rightarrow> parsed_invocation \<Rightarrow> mcp_error + (tool_ref, tool_result) prepare_outcome" where
  "tool_preparation_outcome m rows =
     bind_result (prepared_tool_ref rows) (\<lambda>ref. Inr (PreparedOutcome ref m))"

definition replay_tool_preparation ::
  "tool_preparation \<Rightarrow> parsed_invocation option \<Rightarrow> mcp_error + (tool_ref, tool_result) prepare_outcome" where
  "replay_tool_preparation p found =
     (case found of
        None \<Rightarrow> Inl (Conflict ''MCP invocation ID was claimed without a readable invocation'')
      | Some existing \<Rightarrow>
          bind_result (assert_invocation_replay existing (tp_request p) (tp_hash p)) (\<lambda>_.
          let status = iv_status (pi_row existing)
          in if terminal_status status
             then bind_result (require_tool_result existing) (\<lambda>r. Inr (TerminalOutcome r))
             else if status \<noteq> StPrepared \<and> status \<noteq> StDispatched
             then Inl (Conflict ''MCP invocation is not reusable from its current state'')
             else tool_preparation_outcome (tp_manifest p) existing))"

definition prepare_invocation ::
  "tool_preparation \<Rightarrow> row_keys \<Rightarrow> (journal, mcp_error + (tool_ref, tool_result) prepare_outcome) program" where
  "prepare_invocation p keys =
     (case parse_invocation_preparation p of
        Inl e \<Rightarrow> Answer (Inl e)
      | Inr entry \<Rightarrow>
          let request = tp_request p; m = tp_manifest p
          in write_if
               (insert_rows
                  (new_invocation (tq_id request) (tq_scope request) (tq_snapshot request) KindTool
                     (tq_tool request) (tp_hash p) (ToolRequest request) (rk_now keys))
                  (new_attempt (rk_attempt_id keys) (tq_id request) (te_source entry)
                     (te_destination entry) (te_retry entry) (rk_now keys))
                  (\<lambda>rows. bind_result (parse_stored_invocation rows) (tool_preparation_outcome m)))
               id
               (query (read_invocation (tq_id request)) (\<lambda>found. Answer (replay_tool_preparation p found))))"

definition claim_tool_rows :: "tool_ref \<Rightarrow> int \<Rightarrow> journal \<Rightarrow> mcp_error + (unit \<times> journal) option" where
  "claim_tool_rows ref t =
     move_rows (tool_hit ref StPrepared) (\<lambda>i. i\<lparr>iv_status := StDispatched, iv_updated := t\<rparr>)
       (tool_attempt_hit ref StPrepared) (\<lambda>a. a\<lparr>at_status := StDispatched, at_dispatched := Some t\<rparr>)
       ''Prepared MCP invocation attempt could not be claimed''"

definition require_current_invocation :: "tool_ref \<Rightarrow> journal \<Rightarrow> mcp_error + parsed_invocation" where
  "require_current_invocation ref db =
     bind_result (read_invocation (tf_id ref) db) (\<lambda>found.
       case found of
         None \<Rightarrow> Inl (NotFound ''MCP invocation attempt was not found'')
       | Some existing \<Rightarrow> bind_result (assert_tool_reference existing ref) (\<lambda>_. Inr existing))"

definition tool_failure :: "string \<Rightarrow> inv_status \<Rightarrow> failure_class \<Rightarrow> string \<Rightarrow> bool \<Rightarrow> iso \<Rightarrow> tool_result" where
  "tool_failure x status cls message retryable completed_at =
     \<lparr>tr_id = x, tr_status = status, tr_output = None,
      tr_error = Some \<lparr>tx_class = cls, tx_message = message, tx_retryable = retryable\<rparr>,
      tr_completed = completed_at\<rparr>"

definition claim_replay_outcome :: "parsed_invocation \<Rightarrow> mcp_error + tool_result claim_outcome" where
  "claim_replay_outcome p =
     (if \<not> terminal_status (iv_status (pi_row p))
      then Inl (Conflict ''MCP invocation attempt cannot be claimed from its current state'')
      else bind_result (require_tool_result p) (\<lambda>r.
        Inr (if tr_status r = StAmbiguous then ClaimAmbiguous r else ClaimTerminal r)))"

definition replay_tool_claim ::
  "tool_ref \<Rightarrow> int \<Rightarrow> parsed_invocation \<Rightarrow> (journal, mcp_error + tool_result claim_outcome) program" where
  "replay_tool_claim ref completed_at existing =
     (if iv_status (pi_row existing) = StDispatched
      then let result = tool_failure (tf_id ref) StAmbiguous FcAmbiguous
                 ''Invocation attempt was already dispatched'' False (to_iso completed_at)
           in write_if (transition_tool ref result StDispatched) (\<lambda>_. ClaimAmbiguous result)
                (query (require_current_invocation ref) (\<lambda>concurrent.
                   Answer (claim_replay_outcome concurrent)))
      else Answer (claim_replay_outcome existing))"

definition claim_attempt ::
  "tool_ref \<Rightarrow> int \<Rightarrow> int \<Rightarrow> (journal, mcp_error + tool_result claim_outcome) program" where
  "claim_attempt ref dispatched_at completed_at =
     (if \<not> tool_ref_ok ref then Answer (Inl SchemaError)
      else write_if (claim_tool_rows ref dispatched_at) (\<lambda>_. Claimed)
        (query (require_current_invocation ref) (replay_tool_claim ref completed_at)))"

record tool_dispatch_view =
  tv_request :: tool_request
  tv_ref :: tool_ref
  tv_status :: inv_status
  tv_result :: "tool_result option"

definition get_invocation_for_dispatch :: "tool_ref \<Rightarrow> (journal, mcp_error + tool_dispatch_view) program" where
  "get_invocation_for_dispatch ref =
     (if \<not> tool_ref_ok ref then Answer (Inl SchemaError)
      else query (read_invocation (tf_id ref)) (\<lambda>found. Answer (case found of
          None \<Rightarrow> Inl (Conflict ''MCP invocation attempt was not found'')
        | Some existing \<Rightarrow>
            bind_result (assert_tool_reference existing ref) (\<lambda>_.
            bind_result (prepared_tool_ref existing) (\<lambda>stored.
              Inr \<lparr>tv_request = pi_request existing, tv_ref = stored,
                   tv_status = iv_status (pi_row existing), tv_result = pi_result existing\<rparr>)))))"

definition settle_tool_terminal :: "tool_ref \<Rightarrow> tool_result \<Rightarrow> (journal, mcp_error + tool_result) program" where
  "settle_tool_terminal ref result =
     write_if (transition_tool ref result StDispatched) (\<lambda>_. result)
       (query (require_current_invocation ref) (\<lambda>existing.
          Answer (if \<not> terminal_status (iv_status (pi_row existing))
            then Inl (Conflict ''MCP invocation attempt can only settle from dispatched state'')
            else bind_result (require_tool_result existing) (\<lambda>stored.
              if same_tool_result stored result then Inr stored
              else Inl (Conflict ''MCP invocation terminal replay conflicts with stored result'')))))"

definition settle_attempt :: "tool_ref \<Rightarrow> tool_result \<Rightarrow> (journal, mcp_error + tool_result) program" where
  "settle_attempt ref result =
     (if \<not> tool_ref_ok ref \<or> \<not> tool_result_ok result then Answer (Inl SchemaError)
      else if tr_id result \<noteq> tf_id ref
      then Answer (Inl (Conflict ''MCP invocation result belongs to a different invocation''))
      else if tr_status result \<noteq> StCompleted \<and> tr_status result \<noteq> StFailed
      then Answer (Inl (Conflict ''MCP invocation settlement must be completed or failed''))
      else settle_tool_terminal ref result)"

definition mark_attempt_ambiguous :: "tool_ref \<Rightarrow> string \<Rightarrow> iso \<Rightarrow> (journal, mcp_error + tool_result) program" where
  "mark_attempt_ambiguous ref message completed_at =
     (if \<not> tool_ref_ok ref \<or> \<not> message_ok message then Answer (Inl SchemaError)
      else settle_tool_terminal ref
             (tool_failure (tf_id ref) StAmbiguous FcAmbiguous message False completed_at))"

definition tool_reconciliation_result ::
  "string \<Rightarrow> inv_status \<Rightarrow> cause \<Rightarrow> string \<Rightarrow> iso \<Rightarrow> mcp_error + tool_result" where
  "tool_reconciliation_result x state cause message completed_at =
     (if state = StDispatched
      then if message_ok message then Inr (tool_failure x StAmbiguous FcAmbiguous message False completed_at)
           else Inl SchemaError
      else if state \<noteq> StPrepared
      then Inl (Conflict ''MCP invocation is not reconcilable from its current state'')
      else let status = (if cause = CauseCancelled then StCancelled else StFailed);
               cls = (if cause = CauseDeadline then FcDeadline
                      else if cause = CauseCancelled then FcCancelled else FcPreDispatch)
           in if message_ok message
              then Inr (tool_failure x status cls message (cause = CauseFailure) completed_at)
              else Inl SchemaError)"

fun reconcile_tool_rounds ::
  "nat \<Rightarrow> tool_ref \<Rightarrow> cause \<Rightarrow> string \<Rightarrow> iso \<Rightarrow> parsed_invocation \<Rightarrow> (journal, mcp_error + tool_result) program" where
  "reconcile_tool_rounds 0 ref cause message completed_at existing =
     Answer (bind_result (assert_tool_reference existing ref) (\<lambda>_.
       if \<not> terminal_status (iv_status (pi_row existing))
       then Inl (Conflict ''MCP invocation reconciliation lost its state transition'')
       else require_tool_result existing))"
| "reconcile_tool_rounds (Suc n) ref cause message completed_at existing =
     (let status = iv_status (pi_row existing)
      in case assert_tool_reference existing ref of
        Inl e \<Rightarrow> Answer (Inl e)
      | Inr _ \<Rightarrow>
          if terminal_status status then Answer (require_tool_result existing)
          else if status \<noteq> StPrepared \<and> status \<noteq> StDispatched
          then Answer (Inl (Conflict ''MCP invocation cannot be reconciled from its current state''))
          else case tool_reconciliation_result (tf_id ref) status cause message completed_at of
              Inl e \<Rightarrow> Answer (Inl e)
            | Inr result \<Rightarrow>
                write_if (transition_tool ref result status) (\<lambda>_. result)
                  (query (\<lambda>db. bind_result (read_invocation (tf_id ref) db) (\<lambda>found. case found of
                       None \<Rightarrow> Inl (Conflict ''MCP invocation disappeared during reconciliation'')
                     | Some concurrent \<Rightarrow> Inr concurrent))
                    (reconcile_tool_rounds n ref cause message completed_at)))"

definition reconcile_tool_dispatch ::
  "tool_ref \<Rightarrow> cause \<Rightarrow> string \<Rightarrow> iso \<Rightarrow> (journal, mcp_error + tool_result) program" where
  "reconcile_tool_dispatch ref cause message completed_at =
     (if \<not> tool_ref_ok ref then Answer (Inl SchemaError)
      else query (\<lambda>db. bind_result (read_invocation (tf_id ref) db) (\<lambda>found. case found of
               None \<Rightarrow> Inl (Conflict ''MCP invocation reconciliation reference was not found'')
             | Some existing \<Rightarrow> Inr existing))
           (reconcile_tool_rounds RECONCILIATION_ROUNDS ref cause message completed_at))"

subsection \<open>All invocations of a run\<close>

definition rows_of_run :: "string \<Rightarrow> journal \<Rightarrow> (invocation \<times> inv_attempt) list" where
  "rows_of_run run db =
     filter (\<lambda>(i, a). at_invocation a = iv_id i \<and> at_number a = iv_attempt i)
       (List.product
          (filter (\<lambda>i. iv_run i = Some run \<and> iv_status i \<in> {StPrepared, StDispatched}) (jn_invocations db))
          (jn_attempts db))"

definition reconcile_row ::
  "string \<Rightarrow> iso \<Rightarrow> invocation \<times> inv_attempt \<Rightarrow> (journal, mcp_error + unit) program" where
  "reconcile_row message completed_at rows =
     (case iv_request (fst rows) of
        GeneralRequest _ \<Rightarrow>
          (case bind_result (parse_stored_operation rows) prepared_operation_ref of
             Inl e \<Rightarrow> Answer (Inl e)
           | Inr ref \<Rightarrow>
               answering (\<lambda>_. ())
                 (reconcile_operation_dispatch ref CauseCancelled message completed_at))
      | ToolRequest _ \<Rightarrow>
          (case bind_result (parse_stored_invocation rows) prepared_tool_ref of
             Inl e \<Rightarrow> Answer (Inl e)
           | Inr ref \<Rightarrow>
               answering (\<lambda>_. ())
                 (reconcile_tool_dispatch ref CauseCancelled message completed_at)))"

text \<open>Every row is tried; the first error is thrown at the end.\<close>

primrec reconcile_rows ::
  "string \<Rightarrow> iso \<Rightarrow> (invocation \<times> inv_attempt) list \<Rightarrow> mcp_error option \<Rightarrow> (journal, mcp_error + unit) program" where
  "reconcile_rows message completed_at [] first_error =
     Answer (case first_error of None \<Rightarrow> Inr () | Some e \<Rightarrow> Inl e)"
| "reconcile_rows message completed_at (row # rows) first_error =
     chain (\<lambda>r. reconcile_rows message completed_at rows
              (case (first_error, r) of (None, Inl e) \<Rightarrow> Some e | _ \<Rightarrow> first_error))
       (reconcile_row message completed_at row)"

definition reconcile_run_invocations :: "string \<Rightarrow> string \<Rightarrow> iso \<Rightarrow> (journal, mcp_error + unit) program" where
  "reconcile_run_invocations run message completed_at =
     (if trim run = []
      then Answer (Inl (Conflict ''MCP invocation run ID is required for reconciliation''))
      else query (\<lambda>db. Inr (rows_of_run run db)) (\<lambda>rows. reconcile_rows message completed_at rows None))"

subsection \<open>Calls of all kinds\<close>

datatype call =
    CallAuthority string stored_authority
  | CallPrepareOperation preparation row_keys
  | CallClaimOperation dispatch_claim int int
  | CallReadOperation op_ref
  | CallSettleOperation op_ref "fence option" op_result
  | CallReconcileOperation op_ref cause string iso
  | CallPrepareTool tool_preparation row_keys
  | CallClaimTool tool_ref int int
  | CallReadTool tool_ref
  | CallSettleTool tool_ref tool_result
  | CallMarkAmbiguous tool_ref string iso
  | CallReconcileTool tool_ref cause string iso
  | CallReconcileRun string string iso

text \<open>An answer, with the invocation that the call named.\<close>

datatype answer =
    AuthorityIs stored_authority
  | PreparedOperation string "(plan, op_result) prepare_outcome"
  | ClaimedOperation string "op_result claim_outcome"
  | OperationView string dispatch_view
  | OperationResult string op_result
  | PreparedTool string "(tool_ref, tool_result) prepare_outcome"
  | ClaimedTool string "tool_result claim_outcome"
  | ToolView string tool_dispatch_view
  | ToolResultIs string tool_result
  | RunReconciled

fun program_of :: "call \<Rightarrow> (journal, mcp_error + answer) program" where
  "program_of (CallAuthority key a) = answering AuthorityIs (create_or_read_authority key a)"
| "program_of (CallPrepareOperation p keys) =
     answering (PreparedOperation (rq_id (pp_request p))) (prepare_operation p keys)"
| "program_of (CallClaimOperation c t t') =
     answering (ClaimedOperation (of_id (pl_ref (dc_plan c)))) (claim_operation_attempt c t t')"
| "program_of (CallReadOperation ref) = answering (OperationView (of_id ref)) (get_operation_for_dispatch ref)"
| "program_of (CallSettleOperation ref f r) =
     answering (OperationResult (of_id ref)) (settle_operation_attempt ref f r)"
| "program_of (CallReconcileOperation ref cause message t) =
     answering (OperationResult (of_id ref)) (reconcile_operation_dispatch ref cause message t)"
| "program_of (CallPrepareTool p keys) =
     answering (PreparedTool (tq_id (tp_request p))) (prepare_invocation p keys)"
| "program_of (CallClaimTool ref t t') = answering (ClaimedTool (tf_id ref)) (claim_attempt ref t t')"
| "program_of (CallReadTool ref) = answering (ToolView (tf_id ref)) (get_invocation_for_dispatch ref)"
| "program_of (CallSettleTool ref r) = answering (ToolResultIs (tf_id ref)) (settle_attempt ref r)"
| "program_of (CallMarkAmbiguous ref message t) =
     answering (ToolResultIs (tf_id ref)) (mark_attempt_ambiguous ref message t)"
| "program_of (CallReconcileTool ref cause message t) =
     answering (ToolResultIs (tf_id ref)) (reconcile_tool_dispatch ref cause message t)"
| "program_of (CallReconcileRun run message t) =
     answering (\<lambda>_. RunReconciled) (reconcile_run_invocations run message t)"

end
