(* ===== verification/Invocation_Invariant.thy ===== *)
theory Invocation_Invariant
  imports Invocation_Journal
begin

section \<open>The invariant of the invocation journal\<close>

text \<open>
  What rows the operations leave behind: every invocation has its current attempt, and the two can be
  read back.  Rows only evolve along prepared, dispatched, terminal, and a terminal row is final.
\<close>

subsection \<open>Sound rows\<close>

text \<open>The columns that never change.\<close>

definition sound_identity :: "invocation \<Rightarrow> inv_attempt \<Rightarrow> bool" where
  "sound_identity i a \<longleftrightarrow>
     (\<exists>kind target request.
        normalize_identity i = Inr (kind, target) \<and> parse_request (iv_request i) (at_source a) = Inr request
        \<and> rq_id request = iv_id i \<and> scope_matches i (rq_scope request) \<and> rq_snapshot request = iv_snapshot i
        \<and> kind_of (rq_operation request) = kind \<and> rq_target request = target
        \<and> iv_tool i = tool_projection kind target \<and> target \<noteq> [] \<and> length target \<le> MAX_TARGET
        \<and> (kind = KindTool \<longrightarrow> length target \<le> MAX_TOOL_NAME)
        \<and> (at_destination a = ComponentActivity \<longrightarrow> kind = KindTool))
     \<and> at_invocation a = iv_id i \<and> at_number a = iv_attempt i \<and> 0 < iv_attempt i \<and> at_source a \<noteq> []
     \<and> at_prepared a \<noteq> None
     \<and> (\<forall>r. iv_request i = ToolRequest r \<longrightarrow> scope_kind (tq_scope r) = SubjectRun)"

text \<open>Outcomes that only an operation that was dispatched can have.\<close>

fun after_dispatch :: "op_outcome \<Rightarrow> bool" where
  "after_dispatch (OpCompleted _) = True"
| "after_dispatch (OpAmbiguous _) = True"
| "after_dispatch (OpInputRequired _) = True"
| "after_dispatch (OpRemoteFailure _ _) = False"
| "after_dispatch (OpCancelled _) = False"

definition sound_state :: "invocation \<Rightarrow> inv_attempt \<Rightarrow> bool" where
  "sound_state i a \<longleftrightarrow>
     at_status a = iv_status i \<and> iv_status i \<noteq> StPlanned
     \<and> (\<exists>f. captured_fence a = Inr f
          \<and> (iv_status i = StPrepared \<or> at_destination a = ComponentActivity \<longrightarrow> f = None)
          \<and> (iv_status i = StDispatched \<and> at_destination a = McpActivity \<longrightarrow> f \<noteq> None))
     \<and> (iv_status i = StPrepared \<longrightarrow> at_dispatched a = None)
     \<and> (iv_status i = StDispatched \<longrightarrow> at_dispatched a \<noteq> None)
     \<and> (case iv_result i of
          None \<Rightarrow> \<not> terminal_status (iv_status i)
        | Some stored \<Rightarrow>
            (\<exists>r. parse_op_result stored = Inr r \<and> op_result_status r = iv_status i \<and> or_id r = iv_id i
               \<and> (after_dispatch (or_outcome r) \<longrightarrow> at_dispatched a \<noteq> None)))"

lemma sound_state_result:
  "sound_state i a \<Longrightarrow> iv_result i = Some stored \<Longrightarrow>
     \<exists>r. parse_op_result stored = Inr r \<and> op_result_status r = iv_status i \<and> or_id r = iv_id i
       \<and> (after_dispatch (or_outcome r) \<longrightarrow> at_dispatched a \<noteq> None)"
  by (simp add: sound_state_def)

definition sound_rows :: "invocation \<times> inv_attempt \<Rightarrow> bool" where
  "sound_rows = (\<lambda>(i, a). sound_identity i a \<and> sound_state i a)"

definition attempt_key :: "inv_attempt \<Rightarrow> string \<times> nat" where
  "attempt_key a = (at_invocation a, at_number a)"

definition keys_ok :: "journal \<Rightarrow> bool" where
  "keys_ok db \<longleftrightarrow>
     distinct (map iv_id (jn_invocations db)) \<and> distinct (map at_id (jn_attempts db))
     \<and> distinct (map attempt_key (jn_attempts db))
     \<and> distinct (map gr_key (jn_grants db)) \<and> distinct (map sr_grant (jn_snapshots db))"

definition journal_ok :: "journal \<Rightarrow> bool" where
  "journal_ok db \<longleftrightarrow>
     keys_ok db
     \<and> (\<forall>i \<in> set (jn_invocations db). \<exists>rows. read_rows (iv_id i) db = Some rows \<and> sound_rows rows)"

text \<open>How the rows of an invocation may change.\<close>

fun status_rank :: "inv_status \<Rightarrow> nat" where
  "status_rank StPlanned = 0"
| "status_rank StPrepared = 1"
| "status_rank StDispatched = 2"
| "status_rank _ = 3"

fun fixed_columns :: "invocation \<times> inv_attempt \<Rightarrow> invocation \<times> inv_attempt" where
  "fixed_columns (i, a) =
     (i\<lparr>iv_status := StPlanned, iv_result := None, iv_updated := 0, iv_terminal := None\<rparr>,
      a\<lparr>at_status := StPlanned, at_runtime := None, at_owner := None, at_epoch := None,
        at_generation := None, at_dispatched := None, at_completed := None\<rparr>)"

declare fixed_columns.simps [simp del]

definition follows :: "invocation \<times> inv_attempt \<Rightarrow> invocation \<times> inv_attempt \<Rightarrow> bool" where
  "follows r r' \<longleftrightarrow>
     fixed_columns r' = fixed_columns r
     \<and> status_rank (iv_status (fst r)) \<le> status_rank (iv_status (fst r'))
     \<and> (terminal_status (iv_status (fst r)) \<longrightarrow> r' = r)
     \<and> (2 \<le> status_rank (iv_status (fst r)) \<longrightarrow> captured_fence (snd r') = captured_fence (snd r))
     \<and> (at_dispatched (snd r) \<noteq> None \<longrightarrow> at_dispatched (snd r') \<noteq> None)"

definition evolves :: "journal \<Rightarrow> journal \<Rightarrow> bool" where
  "evolves db db' \<longleftrightarrow>
     (\<forall>x rows. read_rows x db = Some rows \<longrightarrow> (\<exists>rows'. read_rows x db' = Some rows' \<and> follows rows rows'))
     \<and> set (jn_grants db) \<subseteq> set (jn_grants db') \<and> set (jn_snapshots db) \<subseteq> set (jn_snapshots db')"

lemma fixed_columnsD:
  assumes "fixed_columns (i', a') = fixed_columns (i, a)"
  shows "iv_id i' = iv_id i" "iv_subject_kind i' = iv_subject_kind i" "iv_subject i' = iv_subject i"
    "iv_run i' = iv_run i" "iv_organization i' = iv_organization i" "iv_grant i' = iv_grant i"
    "iv_snapshot i' = iv_snapshot i" "iv_kind i' = iv_kind i" "iv_target i' = iv_target i"
    "iv_tool i' = iv_tool i" "iv_hash i' = iv_hash i" "iv_request i' = iv_request i"
    "iv_attempt i' = iv_attempt i" "at_id a' = at_id a" "at_invocation a' = at_invocation a"
    "at_number a' = at_number a" "at_source a' = at_source a" "at_destination a' = at_destination a"
    "at_retry a' = at_retry a" "at_prepared a' = at_prepared a"
  using assms by (cases i; cases i'; cases a; cases a'; simp add: fixed_columns.simps)+

lemma status_rank_terminal: "terminal_status s \<longleftrightarrow> status_rank s = 3"
  by (cases s) (simp_all add: terminal_status_def)

lemma follows_refl [simp]: "follows rows rows"
  by (simp add: follows_def)

lemma follows_trans: "follows r s \<Longrightarrow> follows s t \<Longrightarrow> follows r t"
  by (auto simp: follows_def)

lemma evolves_refl: "evolves db db"
  by (auto simp: evolves_def)

lemma evolves_trans: "evolves s t \<Longrightarrow> evolves t u \<Longrightarrow> evolves s u"
  unfolding evolves_def by (blast intro: follows_trans)

lemma evolvesD:
  assumes "evolves s t" and "read_rows x s = Some (i, a)"
  obtains i' a' where "read_rows x t = Some (i', a')" and "follows (i, a) (i', a')"
  using assms unfolding evolves_def by fastforce

subsection \<open>Reading sound rows\<close>

lemma read_rows_Some:
  assumes "read_rows x db = Some (i, a)"
  shows "i \<in> set (jn_invocations db)" "iv_id i = x" "a \<in> set (jn_attempts db)"
    "at_invocation a = x" "at_number a = iv_attempt i"
  using assms
  by (auto simp: read_rows_def current_attempt_def find_Some_iff split: option.splits)

lemma journal_ok_rows:
  assumes "journal_ok db" and "read_rows x db = Some rows" shows "sound_rows rows"
proof -
  obtain i a where rows: "rows = (i, a)" by (cases rows)
  with assms have "i \<in> set (jn_invocations db)" "iv_id i = x" by (auto dest: read_rows_Some)
  with assms show ?thesis by (auto simp: journal_ok_def)
qed

lemma read_rows_None:
  assumes "journal_ok db" shows "read_rows x db = None \<longleftrightarrow> x \<notin> iv_id ` set (jn_invocations db)"
proof
  assume "read_rows x db = None"
  with assms show "x \<notin> iv_id ` set (jn_invocations db)" by (force simp: journal_ok_def)
next
  assume "x \<notin> iv_id ` set (jn_invocations db)"
  then show "read_rows x db = None" by (force simp: read_rows_def find_Some_iff split: option.splits)
qed

lemma op_result_status_terminal: "terminal_status (op_result_status r)"
  by (cases "or_outcome r") (simp_all add: op_result_status_def terminal_status_def)

lemma captured_fence_None: "captured_fence a = Inr None \<longleftrightarrow>
    at_runtime a = None \<and> at_owner a = None \<and> at_epoch a = None \<and> at_generation a = None"
  by (auto simp: captured_fence_def Let_def split: option.splits)

lemma captured_fence_Some: "captured_fence a = Inr (Some f) \<longleftrightarrow>
    at_runtime a = Some (fe_runtime f) \<and> at_owner a = Some (fe_owner f) \<and> at_epoch a = Some (fe_epoch f)
    \<and> at_generation a = Some (fe_generation f) \<and> fence_ok f"
  by (cases f) (auto simp: captured_fence_def Let_def split: option.splits)

lemma captured_fence_columns: "captured_fence a = Inr f \<Longrightarrow>
    at_runtime a = map_option fe_runtime f \<and> at_owner a = map_option fe_owner f
    \<and> at_epoch a = map_option fe_epoch f \<and> at_generation a = map_option fe_generation f"
  by (cases f) (simp_all add: captured_fence_None captured_fence_Some)

text \<open>What a sound row is read as.\<close>

definition reads_as :: "parsed_operation \<Rightarrow> invocation \<Rightarrow> inv_attempt \<Rightarrow> bool" where
  "reads_as p i a \<longleftrightarrow>
     po_row p = i \<and> po_attempt p = a \<and> normalize_identity i = Inr (po_kind p, po_target p)
     \<and> (\<exists>ref. prepared_operation_ref p = Inr ref)
     \<and> (case iv_result i of
          None \<Rightarrow> po_result p = None | Some stored \<Rightarrow> (\<exists>r. parse_op_result stored = Inr r \<and> po_result p = Some r))
     \<and> (terminal_status (iv_status i) \<longleftrightarrow> po_result p \<noteq> None)"

lemma sound_rows_read:
  assumes "sound_rows (i, a)"
  shows "\<exists>p. parse_stored_operation (i, a) = Inr p \<and> reads_as p i a"
proof -
  obtain kind target request f where
    id: "normalize_identity i = Inr (kind, target)" "parse_request (iv_request i) (at_source a) = Inr request"
      "rq_id request = iv_id i" "scope_matches i (rq_scope request)" "rq_snapshot request = iv_snapshot i"
      "kind_of (rq_operation request) = kind" "rq_target request = target"
      "iv_tool i = tool_projection kind target" "target \<noteq> []" "length target \<le> MAX_TARGET"
      "kind = KindTool \<longrightarrow> length target \<le> MAX_TOOL_NAME"
      "at_destination a = ComponentActivity \<longrightarrow> kind = KindTool"
      "at_invocation a = iv_id i" "at_number a = iv_attempt i" "0 < iv_attempt i" "at_source a \<noteq> []"
      "at_prepared a \<noteq> None"
    and state: "at_status a = iv_status i" "captured_fence a = Inr f"
      "at_destination a = ComponentActivity \<longrightarrow> f = None"
      "iv_status i = StDispatched \<and> at_destination a = McpActivity \<longrightarrow> f \<noteq> None"
    using assms unfolding sound_rows_def sound_identity_def sound_state_def by fastforce
  have columns: "set [at_runtime a = None, at_owner a = None, at_epoch a = None, at_generation a = None] = {f = None}"
    using captured_fence_columns [OF state(2)] by (cases f) auto
  obtain result where result:
    "(case iv_result i of None \<Rightarrow> Inr None | Some r \<Rightarrow> map_sum id Some (parse_op_result r)) = Inr result"
    "terminal_status (iv_status i) \<longleftrightarrow> result \<noteq> None"
    "\<forall>r \<in> set_option result. op_result_status r = iv_status i \<and> or_id r = iv_id i"
    "case iv_result i of
       None \<Rightarrow> result = None | Some stored \<Rightarrow> (\<exists>r. parse_op_result stored = Inr r \<and> result = Some r)"
  proof (cases "iv_result i")
    case None
    with assms that [of None] show thesis by (auto simp: sound_rows_def sound_state_def)
  next
    case (Some stored)
    with assms obtain r where "parse_op_result stored = Inr r" "op_result_status r = iv_status i" "or_id r = iv_id i"
      by (auto simp: sound_rows_def sound_state_def)
    with Some op_result_status_terminal [of r] that [of "Some r"] show thesis by simp
  qed
  let ?p = "\<lparr>po_row = i, po_kind = kind, po_target = target, po_attempt = a, po_request = request, po_result = result\<rparr>"
  have "parse_stored_operation (i, a) = Inr ?p"
    unfolding parse_stored_operation_def case_prod_conv id(1) bind_result_simps id(2) result(1)
      Let_def columns using id state result by (cases f) auto
  moreover have "\<exists>ref. prepared_operation_ref ?p = Inr ref"
    using id by (auto simp: prepared_operation_ref_def Let_def op_ref_ok_def tool_projection_def)
  ultimately show ?thesis
    unfolding reads_as_def using id(1) result(2,4) by (cases "iv_result i") auto
qed

lemma read_operation_Some:
  assumes "journal_ok db" and "read_rows x db = Some (i, a)"
  obtains p where "read_operation x db = Inr (Some p)" and "reads_as p i a"
proof -
  obtain p where "parse_stored_operation (i, a) = Inr p" "reads_as p i a"
    using sound_rows_read [OF journal_ok_rows [OF assms]] by blast
  with assms(2) that show thesis by (simp add: read_operation_def)
qed

lemma read_operation_cases:
  assumes "journal_ok db"
  obtains (absent) "read_operation x db = Inr None" "read_rows x db = None"
    | (there) p i a where "read_operation x db = Inr (Some p)" "read_rows x db = Some (i, a)" "reads_as p i a"
proof (cases "read_rows x db")
  case None
  then show thesis by (intro absent) (simp_all add: read_operation_def)
next
  case (Some rows)
  obtain i a where "rows = (i, a)" by (cases rows)
  with Some assms there show thesis by (metis read_operation_Some)
qed

subsection \<open>What statements do to the rows\<close>

lemma find_distinct:
  "distinct (map key rs) \<Longrightarrow> r \<in> set rs \<Longrightarrow> key r = k \<Longrightarrow> find (\<lambda>r. key r = k) rs = Some r"
  by (induction rs) auto

lemma find_append: "find P (xs @ ys) = (case find P xs of None \<Rightarrow> find P ys | Some x \<Rightarrow> Some x)"
  by (induction xs) simp_all

lemma find_update_rows:
  "(\<And>r. key (change r) = key r) \<Longrightarrow>
     find (\<lambda>r. key r = k) (update_rows hit change rs)
     = map_option (\<lambda>r. if hit r then change r else r) (find (\<lambda>r. key r = k) rs)"
  by (induction rs) (auto simp: update_rows_def)

lemma map_update_rows: "(\<And>r. key (change r) = key r) \<Longrightarrow> map key (update_rows hit change rs) = map key rs"
  by (simp add: update_rows_def)

lemma current_attempt_alt:
  "current_attempt db i = find (\<lambda>a. attempt_key a = (iv_id i, iv_attempt i)) (jn_attempts db)"
  by (simp add: current_attempt_def attempt_key_def)

lemma read_rows_intro:
  assumes "keys_ok db" and "i \<in> set (jn_invocations db)" and "a \<in> set (jn_attempts db)"
    and "at_invocation a = iv_id i" and "at_number a = iv_attempt i"
  shows "read_rows (iv_id i) db = Some (i, a)"
proof -
  have "find (\<lambda>j. iv_id j = iv_id i) (jn_invocations db) = Some i"
    using assms by (intro find_distinct) (simp_all add: keys_ok_def)
  moreover have "current_attempt db i = Some a"
    unfolding current_attempt_alt using assms
    by (intro find_distinct) (simp_all add: keys_ok_def, simp add: attempt_key_def)
  ultimately show ?thesis by (simp add: read_rows_def)
qed

text \<open>One invocation has new rows, and nothing else has changed.\<close>

definition replaces :: "string \<Rightarrow> invocation \<times> inv_attempt \<Rightarrow> journal \<Rightarrow> journal \<Rightarrow> bool" where
  "replaces x rows db db' \<longleftrightarrow>
     keys_ok db' \<and> read_rows x db' = Some rows \<and> (\<forall>y. y \<noteq> x \<longrightarrow> read_rows y db' = read_rows y db)
     \<and> iv_id ` set (jn_invocations db') = insert x (iv_id ` set (jn_invocations db))
     \<and> jn_grants db' = jn_grants db \<and> jn_snapshots db' = jn_snapshots db"

lemma move_rows_effect:
  assumes ok: "keys_ok db" and move: "move_rows hit change hit_attempt change_attempt message db = Inr (Some (u, db'))"
    and hit: "\<And>i. hit i \<Longrightarrow> iv_id i = x \<and> iv_attempt i = n"
    and hit_attempt: "\<And>a. hit_attempt a \<Longrightarrow> at_invocation a = x \<and> at_number a = n"
    and change: "\<And>i. iv_id (change i) = iv_id i" "\<And>i. iv_attempt (change i) = iv_attempt i"
    and change_attempt: "\<And>a. at_id (change_attempt a) = at_id a" "\<And>a. attempt_key (change_attempt a) = attempt_key a"
  obtains i a where "hit i" and "hit_attempt a" and "read_rows x db = Some (i, a)"
    and "replaces x (change i, change_attempt a) db db'"
proof -
  obtain i a where i: "i \<in> set (jn_invocations db)" "hit i" and a: "a \<in> set (jn_attempts db)" "hit_attempt a"
    using move by (auto simp: move_rows_def split: if_splits)
  have db': "db' = db\<lparr>jn_invocations := update_rows hit change (jn_invocations db),
                    jn_attempts := update_rows hit_attempt change_attempt (jn_attempts db)\<rparr>"
    using move by (simp add: move_rows_def split: if_splits)
  have old: "read_rows x db = Some (i, a)"
    using read_rows_intro [OF ok i(1) a(1)] hit [OF i(2)] hit_attempt [OF a(2)] by simp
  have invs: "find (\<lambda>i. iv_id i = y) (jn_invocations db')
      = map_option (\<lambda>i. if hit i then change i else i) (find (\<lambda>i. iv_id i = y) (jn_invocations db))" for y
    using find_update_rows [of iv_id change y hit "jn_invocations db"] change(1) by (simp add: db')
  have atts: "current_attempt db' j
      = map_option (\<lambda>a. if hit_attempt a then change_attempt a else a) (current_attempt db j)" for j
    using find_update_rows [of attempt_key change_attempt _ hit_attempt "jn_attempts db"] change_attempt(2)
    by (simp add: current_attempt_alt db')
  have same_attempt: "current_attempt db (change i) = current_attempt db i"
    by (simp add: current_attempt_def change)
  have rows: "find (\<lambda>i. iv_id i = x) (jn_invocations db) = Some i" "current_attempt db i = Some a"
    using old by (auto simp: read_rows_def split: option.splits)
  then have now: "read_rows x db' = Some (change i, change_attempt a)"
    using i(2) a(2) by (simp add: read_rows_def invs atts same_attempt)
  have others: "read_rows y db' = read_rows y db" if "y \<noteq> x" for y
  proof (cases "find (\<lambda>i. iv_id i = y) (jn_invocations db)")
    case None
    then show ?thesis by (simp add: read_rows_def invs)
  next
    case (Some j)
    then have j: "iv_id j = y" by (simp add: find_Some_iff) blast
    with hit that have "\<not> hit j" by blast
    moreover have "\<not> hit_attempt b" if "current_attempt db j = Some b" for b
    proof -
      from that have "at_invocation b = y" using j by (auto simp: current_attempt_def find_Some_iff)
      with hit_attempt \<open>y \<noteq> x\<close> show ?thesis by blast
    qed
    ultimately show ?thesis using Some by (cases "current_attempt db j") (simp_all add: read_rows_def invs atts)
  qed
  have "keys_ok db'"
    using ok change change_attempt by (simp add: keys_ok_def db' map_update_rows)
  moreover have "iv_id ` set (jn_invocations db') = insert x (iv_id ` set (jn_invocations db))"
  proof -
    have "map iv_id (jn_invocations db') = map iv_id (jn_invocations db)"
      using change(1) by (simp add: db' map_update_rows)
    then have "iv_id ` set (jn_invocations db') = iv_id ` set (jn_invocations db)" by (metis set_map)
    with i(1) hit [OF i(2)] show ?thesis by auto
  qed
  ultimately have "replaces x (change i, change_attempt a) db db'"
    using now others by (simp add: replaces_def db')
  with that i(2) a(2) old show thesis by blast
qed

lemma insert_rows_effect:
  assumes ok: "keys_ok db" and new: "insert_rows i a answer db = Inr (Some (r, db'))"
    and key: "at_invocation a = iv_id i" "at_number a = iv_attempt i"
  shows "iv_id i \<notin> iv_id ` set (jn_invocations db)" "replaces (iv_id i) (i, a) db db'" "answer (i, a) = Inr r"
proof -
  have checks: "\<forall>i' \<in> set (jn_invocations db). iv_id i' \<noteq> iv_id i"
      "\<forall>a' \<in> set (jn_attempts db). at_id a' \<noteq> at_id a \<and> attempt_key a' \<noteq> attempt_key a"
      "answer (i, a) = Inr r"
      "db' = db\<lparr>jn_invocations := jn_invocations db @ [i], jn_attempts := jn_attempts db @ [a]\<rparr>"
    using new by (auto simp: insert_rows_def attempt_key_def result_simps split: if_splits)
  show "iv_id i \<notin> iv_id ` set (jn_invocations db)" using checks(1) by auto
  show "answer (i, a) = Inr r" by (rule checks(3))
  have "keys_ok db'" using ok checks(1,2) by (auto simp: keys_ok_def checks(4))
  moreover from this have "read_rows (iv_id i) db' = Some (i, a)"
    by (rule read_rows_intro) (simp_all add: checks(4) key)
  moreover have "read_rows y db' = read_rows y db" if "y \<noteq> iv_id i" for y
  proof -
    have "find (\<lambda>j. iv_id j = y) (jn_invocations db') = find (\<lambda>j. iv_id j = y) (jn_invocations db)"
      using that by (simp add: checks(4) find_append split: option.splits)
    moreover have "current_attempt db' j = current_attempt db j" if "iv_id j = y" for j
      using that \<open>y \<noteq> iv_id i\<close> key(1) by (simp add: checks(4) current_attempt_def find_append split: option.splits)
    moreover have "iv_id j = y" if "find (\<lambda>j. iv_id j = y) (jn_invocations db) = Some j" for j
      using that by (auto simp: find_Some_iff)
    ultimately show ?thesis
      unfolding read_rows_def by (metis (mono_tags, lifting) option.case_eq_if option.collapse)
  qed
  ultimately show "replaces (iv_id i) (i, a) db db'" by (auto simp: replaces_def checks(4))
qed

lemma replaces_step:
  assumes ok: "journal_ok db" and replaces: "replaces x rows db db'" and sound: "sound_rows rows"
    and follows: "\<And>old. read_rows x db = Some old \<Longrightarrow> follows old rows"
  shows "journal_ok db' \<and> evolves db db'"
proof
  have "\<exists>rows. read_rows y db' = Some rows \<and> sound_rows rows" if "y \<in> iv_id ` set (jn_invocations db')" for y
  proof (cases "y = x")
    case True
    with replaces sound show ?thesis by (simp add: replaces_def)
  next
    case False
    with that replaces have "y \<in> iv_id ` set (jn_invocations db)" by (auto simp: replaces_def)
    with ok have "\<exists>rows. read_rows y db = Some rows \<and> sound_rows rows" by (auto simp: journal_ok_def)
    with replaces False show ?thesis by (simp add: replaces_def)
  qed
  then have "\<forall>i \<in> set (jn_invocations db'). \<exists>rows. read_rows (iv_id i) db' = Some rows \<and> sound_rows rows"
    by blast
  with replaces show "journal_ok db'" by (simp add: journal_ok_def replaces_def)
  show "evolves db db'"
    unfolding evolves_def
  proof (intro conjI allI impI)
    fix y old assume "read_rows y db = Some old"
    with replaces follows show "\<exists>rows'. read_rows y db' = Some rows' \<and> follows old rows'"
      by (cases "y = x") (auto simp: replaces_def)
  qed (use replaces in \<open>simp_all add: replaces_def\<close>)
qed

subsection \<open>Claims, settlements and preparations keep the invariant\<close>

lemma sound_identity_fixed:
  assumes "sound_identity i a" and "fixed_columns (i', a') = fixed_columns (i, a)"
  shows "sound_identity i' a'"
proof -
  note columns = fixed_columnsD [OF assms(2)]
  have same: "normalize_identity i' = normalize_identity i" "scope_matches i' = scope_matches i"
    by (simp_all only: normalize_identity_def scope_matches_def fun_eq_iff columns simp_thms)
  show ?thesis using assms(1) unfolding sound_identity_def same columns .
qed

lemma sound_rows_known:
  assumes "sound_rows (i, a)"
  shows "at_status a = iv_status i" "iv_status i \<noteq> StPlanned" "at_invocation a = iv_id i"
    "at_number a = iv_attempt i" "\<exists>f. captured_fence a = Inr f"
    "iv_status i = StPrepared \<Longrightarrow> captured_fence a = Inr None"
    "at_destination a = ComponentActivity \<Longrightarrow> captured_fence a = Inr None"
    "iv_status i = StPrepared \<Longrightarrow> at_dispatched a = None"
    "iv_status i = StDispatched \<Longrightarrow> at_dispatched a \<noteq> None"
  using assms unfolding sound_rows_def sound_identity_def sound_state_def by auto

lemma settled_rows:
  assumes "sound_rows (i, a)" and "iv_status i = StPrepared \<or> iv_status i = StDispatched"
    and "parse_op_result stored = Inr r" and "or_id r = iv_id i"
    and "after_dispatch (or_outcome r) \<Longrightarrow> iv_status i = StDispatched"
    and rows_def: "rows = (settle_row (op_result_status r) stored t i, settle_attempt_row (op_result_status r) t a)"
  shows "sound_rows rows" and "follows (i, a) rows"
proof -
  have fixed: "fixed_columns rows = fixed_columns (i, a)"
    by (simp add: rows_def settle_row_def settle_attempt_row_def fixed_columns.simps)
  have ended: "terminal_status (op_result_status r)" by (rule op_result_status_terminal)
  then have not: "op_result_status r \<noteq> StPlanned" "op_result_status r \<noteq> StPrepared" "op_result_status r \<noteq> StDispatched"
    by (auto simp: terminal_status_def)
  have fence: "captured_fence (settle_attempt_row (op_result_status r) t a) = captured_fence a"
    by (simp add: captured_fence_def settle_attempt_row_def)
  have "sound_identity i a" using assms(1) by (simp add: sound_rows_def)
  then have "sound_identity (fst rows) (snd rows)"
    by (rule sound_identity_fixed) (simp only: prod.collapse fixed)
  moreover have "sound_state (fst rows) (snd rows)"
    using assms(1,3-5) not fence sound_rows_known(5,7,9) [OF assms(1)]
    by (auto simp: sound_state_def rows_def settle_row_def settle_attempt_row_def)
  ultimately show "sound_rows rows" by (simp add: sound_rows_def case_prod_beta)
  show "follows (i, a) rows"
    using fixed fence ended assms(2)
    by (auto simp: follows_def rows_def settle_row_def settle_attempt_row_def status_rank_terminal terminal_status_def)
qed

lemma dispatched_rows:
  assumes "sound_rows (i, a)" and "iv_status i = StPrepared"
    and "captured_fence a' = Inr f" and "f \<noteq> None \<longleftrightarrow> at_destination a = McpActivity"
    and "a' = a\<lparr>at_status := StDispatched, at_runtime := at_runtime a', at_owner := at_owner a',
               at_epoch := at_epoch a', at_generation := at_generation a', at_dispatched := Some t\<rparr>"
  defines "i' \<equiv> i\<lparr>iv_status := StDispatched, iv_updated := t\<rparr>"
  shows "sound_rows (i', a')" and "follows (i, a) (i', a')"
proof -
  have fixed: "fixed_columns (i', a') = fixed_columns (i, a)"
    by (subst assms(5)) (simp add: i'_def fixed_columns.simps)
  have a': "at_status a' = StDispatched" "at_dispatched a' = Some t" "at_destination a' = at_destination a"
    by (subst assms(5), simp)+
  have "iv_result i = None"
  proof (cases "iv_result i")
    case (Some stored)
    with assms(1,2) obtain r where "op_result_status r = StPrepared"
      by (auto simp: sound_rows_def sound_state_def)
    with op_result_status_terminal [of r] show ?thesis by (simp add: terminal_status_def)
  qed
  have "sound_identity i a" using assms(1) by (simp add: sound_rows_def)
  then have "sound_identity i' a'" by (rule sound_identity_fixed) (rule fixed)
  moreover have "sound_state i' a'"
    using assms(3,4) a' \<open>iv_result i = None\<close>
    by (cases "at_destination a") (auto simp: sound_state_def i'_def terminal_status_def)
  ultimately show "sound_rows (i', a')" by (simp add: sound_rows_def)
  show "follows (i, a) (i', a')"
    using fixed assms(2) a' by (auto simp: follows_def i'_def terminal_status_def)
qed

end
