(* ===== verification/Invocation_Safety.thy ===== *)
theory Invocation_Safety
  imports Invocation_Invariant
begin

section \<open>What the invocation journal guarantees\<close>

text \<open>
  For every interleaving of calls: an invocation is dispatched once at most, its result is final and
  the same for everybody, only the fence of the dispatch settles it, and a call with a reference to
  the current attempt gets an answer.
\<close>

definition undispatched :: "journal \<Rightarrow> string \<Rightarrow> bool" where
  "undispatched db x \<longleftrightarrow> (\<forall>i a. read_rows x db = Some (i, a) \<longrightarrow> at_dispatched a = None)"

fun wins :: "mcp_error + answer \<Rightarrow> string option" where
  "wins (Inr (ClaimedOperation x Claimed)) = Some x"
| "wins (Inr (ClaimedTool x Claimed)) = Some x"
| "wins _ = None"

lemma undispatched_stays:
  assumes "evolves s t" and "undispatched t x" shows "undispatched s x"
  unfolding undispatched_def
proof (intro allI impI)
  fix i a assume "read_rows x s = Some (i, a)"
  with assms(1) obtain i' a' where "read_rows x t = Some (i', a')" "follows (i, a) (i', a')"
    by (rule evolvesD)
  with assms(2) show "at_dispatched a = None" by (auto simp: undispatched_def follows_def)
qed

interpretation jr: guarded_store journal_ok evolves
  by unfold_locales (auto intro: evolves_refl evolves_trans)

interpretation cl: exclusive_claims journal_ok evolves undispatched
  by unfold_locales (rule undispatched_stays)

subsection \<open>What is recorded\<close>

definition recorded :: "string \<Rightarrow> op_result \<Rightarrow> journal \<Rightarrow> bool" where
  "recorded x r db \<longleftrightarrow>
     (\<exists>i a stored. read_rows x db = Some (i, a) \<and> iv_result i = Some stored \<and> parse_op_result stored = Inr r)"

definition recorded_tool :: "string \<Rightarrow> tool_result \<Rightarrow> journal \<Rightarrow> bool" where
  "recorded_tool x r db \<longleftrightarrow> (\<exists>i a. read_rows x db = Some (i, a) \<and> iv_result i = Some (ToolResult r))"

definition dispatched_under :: "string \<Rightarrow> fence option \<Rightarrow> journal \<Rightarrow> bool" where
  "dispatched_under x f db \<longleftrightarrow>
     (\<exists>i a. read_rows x db = Some (i, a) \<and> 2 \<le> status_rank (iv_status i) \<and> captured_fence a = Inr f)"

definition ref_columns :: "op_ref \<Rightarrow> invocation \<Rightarrow> inv_attempt \<Rightarrow> bool" where
  "ref_columns ref i a \<longleftrightarrow>
     iv_id i = of_id ref \<and> iv_attempt i = of_number ref \<and> at_id a = of_attempt ref
     \<and> iv_grant i = of_grant ref \<and> iv_snapshot i = of_snapshot ref
     \<and> normalize_identity i = Inr (of_kind ref, of_target ref) \<and> iv_tool i = of_tool ref
     \<and> map_option to_iso (at_prepared a) = Some (of_prepared ref) \<and> at_source a = of_source ref
     \<and> at_destination a = of_destination ref \<and> at_retry a = of_retry ref"

text \<open>The reference is to the current attempt of its invocation.\<close>

definition refers :: "op_ref \<Rightarrow> journal \<Rightarrow> bool" where
  "refers ref db \<longleftrightarrow> (\<exists>i a. read_rows (of_id ref) db = Some (i, a) \<and> ref_columns ref i a)"

definition prepared_with :: "string \<Rightarrow> string \<Rightarrow> journal \<Rightarrow> bool" where
  "prepared_with x request_hash db \<longleftrightarrow> (\<exists>i a. read_rows x db = Some (i, a) \<and> iv_hash i = request_hash)"

lemma terminal_rank: "terminal_status (iv_status i) \<Longrightarrow> 2 \<le> status_rank (iv_status i)"
  by (simp add: status_rank_terminal)

lemma has_result_terminal:
  assumes "journal_ok db" and "read_rows x db = Some (i, a)" and "iv_result i \<noteq> None"
  shows "terminal_status (iv_status i)"
proof -
  have "sound_state i a" using journal_ok_rows [OF assms(1,2)] by (simp add: sound_rows_def)
  with assms(3) obtain r where "op_result_status r = iv_status i" by (auto dest!: sound_state_result)
  with op_result_status_terminal [of r] show ?thesis by simp
qed

lemma terminal_rows_stay:
  assumes "evolves s t" and "read_rows x s = Some (i, a)" and "terminal_status (iv_status i)"
  shows "read_rows x t = Some (i, a)"
proof -
  obtain i' a' where "read_rows x t = Some (i', a')" "follows (i, a) (i', a')"
    by (rule evolvesD [OF assms(1,2)])
  with assms(3) show ?thesis by (simp add: follows_def)
qed

lemma recorded_stays:
  assumes "journal_ok s" and "evolves s t" and "recorded x r s" shows "recorded x r t"
proof -
  obtain i a stored where "read_rows x s = Some (i, a)" "iv_result i = Some stored" "parse_op_result stored = Inr r"
    using assms(3) by (auto simp: recorded_def)
  with has_result_terminal [OF assms(1)] terminal_rows_stay [OF assms(2)] show ?thesis
    by (auto simp: recorded_def)
qed

lemma recorded_tool_stays:
  assumes "journal_ok s" and "evolves s t" and "recorded_tool x r s" shows "recorded_tool x r t"
proof -
  obtain i a where "read_rows x s = Some (i, a)" "iv_result i = Some (ToolResult r)"
    using assms(3) by (auto simp: recorded_tool_def)
  with has_result_terminal [OF assms(1)] terminal_rows_stay [OF assms(2)] show ?thesis
    by (auto simp: recorded_tool_def)
qed

lemma dispatched_under_stays:
  assumes "evolves s t" and "dispatched_under x f s" shows "dispatched_under x f t"
proof -
  obtain i a where rows: "read_rows x s = Some (i, a)" "2 \<le> status_rank (iv_status i)" "captured_fence a = Inr f"
    using assms(2) by (auto simp: dispatched_under_def)
  obtain i' a' where "read_rows x t = Some (i', a')" "follows (i, a) (i', a')"
    by (rule evolvesD [OF assms(1) rows(1)])
  with rows show ?thesis by (auto simp: dispatched_under_def follows_def)
qed

lemma ref_columns_fixed:
  assumes "ref_columns ref i a" and "fixed_columns (i', a') = fixed_columns (i, a)"
  shows "ref_columns ref i' a'"
proof -
  note columns = fixed_columnsD [OF assms(2)]
  have same: "normalize_identity i' = normalize_identity i" by (simp only: normalize_identity_def columns)
  show ?thesis using assms(1) unfolding ref_columns_def same columns .
qed

lemma refers_stays:
  assumes "evolves s t" and "refers ref s" shows "refers ref t"
proof -
  obtain i a where rows: "read_rows (of_id ref) s = Some (i, a)" "ref_columns ref i a"
    using assms(2) by (auto simp: refers_def)
  obtain i' a' where "read_rows (of_id ref) t = Some (i', a')" "follows (i, a) (i', a')"
    by (rule evolvesD [OF assms(1) rows(1)])
  with ref_columns_fixed [OF rows(2)] show ?thesis by (auto simp: refers_def follows_def)
qed

lemma prepared_with_stays:
  assumes "evolves s t" and "prepared_with x h s" shows "prepared_with x h t"
proof -
  obtain i a where rows: "read_rows x s = Some (i, a)" "iv_hash i = h"
    using assms(2) by (auto simp: prepared_with_def)
  obtain i' a' where "read_rows x t = Some (i', a')" "follows (i, a) (i', a')"
    by (rule evolvesD [OF assms(1) rows(1)])
  with rows show ?thesis by (auto simp: prepared_with_def follows_def dest: fixed_columnsD)
qed

subsection \<open>Reading with a reference\<close>

lemma reads_as_result:
  assumes "journal_ok db" and "read_rows x db = Some (i, a)" and "reads_as p i a"
    and "require_operation_result p = Inr r"
  shows "recorded x r db"
  using assms by (auto simp: reads_as_def require_operation_result_def recorded_def split: option.splits)

lemma reads_as_terminal:
  "reads_as p i a \<Longrightarrow> terminal_status (iv_status i) \<Longrightarrow> \<exists>r. require_operation_result p = Inr r"
  by (auto simp: reads_as_def require_operation_result_def)

lemma reads_as_reference:
  assumes "reads_as p i a" and "sound_rows (i, a)" and "iv_id i = of_id ref"
  shows "assert_operation_reference p ref = Inr () \<longleftrightarrow> ref_columns ref i a"
  using assms sound_rows_known(3,4) [OF assms(2)]
  by (auto simp: reads_as_def assert_operation_reference_def ref_columns_def Let_def)

lemma require_current_cases:
  assumes "journal_ok db"
  obtains (wrong) e where "require_current_operation ref db = Inl e" "\<not> refers ref db"
    | (right) p i a where "require_current_operation ref db = Inr p" "read_rows (of_id ref) db = Some (i, a)"
        "reads_as p i a" "ref_columns ref i a"
  using assms
proof (cases rule: read_operation_cases [where x = "of_id ref"])
  case absent
  then show thesis by (intro wrong) (auto simp: require_current_operation_def refers_def)
next
  case (there p i a)
  have sound: "sound_rows (i, a)" by (rule journal_ok_rows [OF assms there(2)])
  note ref = reads_as_reference [OF there(3) sound read_rows_Some(2) [OF there(2)]]
  show thesis
  proof (cases "ref_columns ref i a")
    case True
    with there ref show thesis by (intro right [of p i a]) (auto simp: require_current_operation_def)
  next
    case False
    then have "assert_operation_reference p ref \<noteq> Inr ()" using ref by simp
    then obtain e where "assert_operation_reference p ref = Inl e"
      by (cases "assert_operation_reference p ref") auto
    with there False show thesis by (intro wrong [of e]) (auto simp: require_current_operation_def refers_def)
  qed
qed

lemma ref_columns_identity:
  "ref_columns ref i a \<Longrightarrow> operation_identity_matches ref i"
  by (auto simp: ref_columns_def operation_identity_matches_def normalize_identity_def split: option.splits)

lemma ref_columns_hit:
  "ref_columns ref i a \<Longrightarrow> operation_hit ref status i \<longleftrightarrow> iv_status i = status"
  by (frule ref_columns_identity) (auto simp: operation_hit_def ref_columns_def)

lemma ref_columns_attempt_hit:
  assumes "ref_columns ref i a" and "sound_rows (i, a)" and "captured_fence a = Inr f" and "iv_status i = status"
  shows "operation_attempt_hit ref f status a"
proof -
  obtain z where "at_prepared a = Some z" "to_iso z = of_prepared ref"
    using assms(1) by (auto simp: ref_columns_def)
  then have "at_prepared a = Some (instant (of_prepared ref))" by (metis instant_to_iso)
  with assms(1,4) sound_rows_known(1,3,4) [OF assms(2)] captured_fence_columns [OF assms(3)] show ?thesis
    by (auto simp: operation_attempt_hit_def ref_columns_def)
qed

subsection \<open>The statements that write\<close>

lemma parse_tool_result:
  assumes "tool_result_ok r"
  obtains q where "parse_op_result (ToolResult r) = Inr q" and "op_result_status q = tr_status r"
    and "or_id q = tr_id r" and "after_dispatch (or_outcome q) \<Longrightarrow> tr_status r \<in> {StCompleted, StAmbiguous}"
  using assms
  by (cases "tr_output r"; cases "tr_error r")
    (auto simp: parse_op_result_def project_tool_result_def tool_result_ok_def op_result_status_def
      terminal_status_def split: if_splits)

lemma captured_fence_settled [simp]: "captured_fence (settle_attempt_row status t a) = captured_fence a"
  by (simp add: captured_fence_def settle_attempt_row_def)

lemma operation_transition_written:
  assumes ok: "journal_ok db" and move: "transition_operation ref f r from_status db = Inr (Some (u, db'))"
    and r: "op_result_ok r" "or_id r = of_id ref"
    and from_status: "from_status = StPrepared \<or> from_status = StDispatched"
    and late: "after_dispatch (or_outcome r) \<Longrightarrow> from_status = StDispatched"
  shows "journal_ok db' \<and> evolves db db' \<and> recorded (of_id ref) r db'
    \<and> (undispatched db x \<longrightarrow> undispatched db' x)
    \<and> (from_status = StDispatched \<longrightarrow> dispatched_under (of_id ref) f db')"
proof -
  obtain i a where hit: "operation_hit ref from_status i" "operation_attempt_hit ref f from_status a"
    and old: "read_rows (of_id ref) db = Some (i, a)"
    and new: "replaces (of_id ref) (settle_row (op_result_status r) (GeneralResult r) (instant (or_completed r)) i,
        settle_attempt_row (op_result_status r) (instant (or_completed r)) a) db db'"
    using ok move unfolding transition_operation_def Let_def
    by (elim move_rows_effect [rotated, where x = "of_id ref" and n = "of_number ref"])
      (auto simp: journal_ok_def operation_hit_def operation_attempt_hit_def settle_row_def
        settle_attempt_row_def attempt_key_def)
  have sound: "sound_rows (i, a)" by (rule journal_ok_rows [OF ok old])
  have i: "iv_status i = from_status" "iv_id i = of_id ref" using hit(1) by (simp_all add: operation_hit_def)
  have parse: "parse_op_result (GeneralResult r) = Inr r" using r(1) by (simp add: parse_op_result_def)
  have rows: "sound_rows (settle_row (op_result_status r) (GeneralResult r) (instant (or_completed r)) i,
        settle_attempt_row (op_result_status r) (instant (or_completed r)) a)"
      "follows (i, a) (settle_row (op_result_status r) (GeneralResult r) (instant (or_completed r)) i,
        settle_attempt_row (op_result_status r) (instant (or_completed r)) a)"
    by (rule settled_rows [OF sound _ parse _ _ refl]; use i r(2) from_status late in simp)+
  have step: "journal_ok db' \<and> evolves db db'"
    by (rule replaces_step [OF ok new rows(1)]) (use rows(2) old in simp)
  obtain g where g: "captured_fence a = Inr g" using sound_rows_known(5) [OF sound] by blast
  have "f = g"
    using captured_fence_columns [OF g] hit(2)
    by (cases f; cases g) (auto simp: operation_attempt_hit_def intro: fence.equality)
  then have "dispatched_under (of_id ref) f db'"
    using new g op_result_status_terminal [of r]
    by (auto simp: dispatched_under_def replaces_def settle_row_def status_rank_terminal)
  moreover have "recorded (of_id ref) r db'"
    using new parse by (auto simp: recorded_def replaces_def settle_row_def)
  moreover have "undispatched db' x" if "undispatched db x"
    using that new old by (cases "x = of_id ref") (auto simp: undispatched_def replaces_def settle_attempt_row_def)
  ultimately show ?thesis using step by blast
qed

lemma tool_transition_written:
  assumes ok: "journal_ok db" and move: "transition_tool ref r from_status db = Inr (Some (u, db'))"
    and r: "tool_result_ok r" "tr_id r = tf_id ref"
    and from_status: "from_status = StPrepared \<or> from_status = StDispatched"
    and late: "tr_status r \<in> {StCompleted, StAmbiguous} \<Longrightarrow> from_status = StDispatched"
  shows "journal_ok db' \<and> evolves db db' \<and> recorded_tool (tf_id ref) r db'
    \<and> (undispatched db x \<longrightarrow> undispatched db' x)"
proof -
  obtain i a where hit: "tool_hit ref from_status i" "tool_attempt_hit ref from_status a"
    and old: "read_rows (tf_id ref) db = Some (i, a)"
    and new: "replaces (tf_id ref) (settle_row (tr_status r) (ToolResult r) (instant (tr_completed r)) i,
        settle_attempt_row (tr_status r) (instant (tr_completed r)) a) db db'"
    using ok move unfolding transition_tool_def Let_def
    by (elim move_rows_effect [rotated, where x = "tf_id ref" and n = "tf_number ref"])
      (auto simp: journal_ok_def tool_hit_def tool_attempt_hit_def settle_row_def
        settle_attempt_row_def attempt_key_def)
  have sound: "sound_rows (i, a)" by (rule journal_ok_rows [OF ok old])
  have i: "iv_status i = from_status" "iv_id i = tf_id ref" using hit(1) by (simp_all add: tool_hit_def)
  obtain q where q: "parse_op_result (ToolResult r) = Inr q" "op_result_status q = tr_status r"
    "or_id q = tr_id r" "after_dispatch (or_outcome q) \<Longrightarrow> tr_status r \<in> {StCompleted, StAmbiguous}"
    using parse_tool_result [OF r(1)] by metis
  have rows: "sound_rows (settle_row (tr_status r) (ToolResult r) (instant (tr_completed r)) i,
        settle_attempt_row (tr_status r) (instant (tr_completed r)) a)"
      "follows (i, a) (settle_row (tr_status r) (ToolResult r) (instant (tr_completed r)) i,
        settle_attempt_row (tr_status r) (instant (tr_completed r)) a)"
    by (rule settled_rows [OF sound _ q(1)]; use i r(2) from_status late q in simp)+
  have step: "journal_ok db' \<and> evolves db db'"
    by (rule replaces_step [OF ok new rows(1)]) (use rows(2) old in simp)
  moreover have "recorded_tool (tf_id ref) r db'"
    using new by (auto simp: recorded_tool_def replaces_def settle_row_def)
  moreover have "undispatched db' x" if "undispatched db x"
    using that new old by (cases "x = tf_id ref") (auto simp: undispatched_def replaces_def settle_attempt_row_def)
  ultimately show ?thesis by blast
qed

lemma operation_claim_written:
  assumes ok: "journal_ok db" and move: "claim_operation_rows ref f t db = Inr (Some (u, db'))"
    and f: "f \<noteq> None \<longleftrightarrow> of_destination ref = McpActivity" "\<forall>g \<in> set_option f. fence_ok g"
  shows "journal_ok db' \<and> evolves db db' \<and> dispatched_under (of_id ref) f db'
    \<and> undispatched db (of_id ref) \<and> \<not> undispatched db' (of_id ref)
    \<and> (x \<noteq> of_id ref \<longrightarrow> undispatched db x \<longrightarrow> undispatched db' x)"
proof -
  let ?i = "\<lambda>i. i\<lparr>iv_status := StDispatched, iv_updated := t\<rparr>"
  let ?a = "\<lambda>a. a\<lparr>at_status := StDispatched, at_runtime := map_option fe_runtime f,
      at_owner := map_option fe_owner f, at_epoch := map_option fe_epoch f,
      at_generation := map_option fe_generation f, at_dispatched := Some t\<rparr>"
  obtain i a where hit: "operation_hit ref StPrepared i" "operation_attempt_hit ref None StPrepared a"
    and old: "read_rows (of_id ref) db = Some (i, a)" and new: "replaces (of_id ref) (?i i, ?a a) db db'"
    using ok move unfolding claim_operation_rows_def
    by (elim move_rows_effect [rotated, where x = "of_id ref" and n = "of_number ref"])
      (auto simp: journal_ok_def operation_hit_def operation_attempt_hit_def attempt_key_def)
  have sound: "sound_rows (i, a)" by (rule journal_ok_rows [OF ok old])
  have prepared: "iv_status i = StPrepared" using hit(1) by (simp add: operation_hit_def)
  have fence: "captured_fence (?a a) = Inr f"
    using f(2) by (cases f) (simp_all add: captured_fence_None captured_fence_Some)
  have dest: "at_destination a = of_destination ref" using hit(2) by (simp add: operation_attempt_hit_def)
  have rows: "sound_rows (?i i, ?a a)" "follows (i, a) (?i i, ?a a)"
    by (rule dispatched_rows [OF sound prepared fence]; use f(1) dest in simp)+
  have "journal_ok db' \<and> evolves db db'"
    by (rule replaces_step [OF ok new rows(1)]) (use rows(2) old in simp)
  moreover have "dispatched_under (of_id ref) f db'"
    using new fence by (auto simp: dispatched_under_def replaces_def)
  moreover have "undispatched db (of_id ref)"
    using old sound_rows_known(8) [OF sound prepared] by (simp add: undispatched_def)
  moreover have "\<not> undispatched db' (of_id ref)" using new by (simp add: undispatched_def replaces_def)
  ultimately show ?thesis using new by (simp add: undispatched_def replaces_def)
qed

lemma tool_claim_written:
  assumes ok: "journal_ok db" and move: "claim_tool_rows ref t db = Inr (Some (u, db'))"
    and dest: "tf_destination ref = ComponentActivity"
  shows "journal_ok db' \<and> evolves db db'
    \<and> undispatched db (tf_id ref) \<and> \<not> undispatched db' (tf_id ref)
    \<and> (x \<noteq> tf_id ref \<longrightarrow> undispatched db x \<longrightarrow> undispatched db' x)"
proof -
  let ?i = "\<lambda>i. i\<lparr>iv_status := StDispatched, iv_updated := t\<rparr>"
  let ?a = "\<lambda>a. a\<lparr>at_status := StDispatched, at_dispatched := Some t\<rparr>"
  obtain i a where hit: "tool_hit ref StPrepared i" "tool_attempt_hit ref StPrepared a"
    and old: "read_rows (tf_id ref) db = Some (i, a)" and new: "replaces (tf_id ref) (?i i, ?a a) db db'"
    using ok move unfolding claim_tool_rows_def
    by (elim move_rows_effect [rotated, where x = "tf_id ref" and n = "tf_number ref"])
      (auto simp: journal_ok_def tool_hit_def tool_attempt_hit_def attempt_key_def)
  have sound: "sound_rows (i, a)" by (rule journal_ok_rows [OF ok old])
  have prepared: "iv_status i = StPrepared" using hit(1) by (simp add: tool_hit_def)
  have fence: "captured_fence (?a a) = Inr None"
    using sound_rows_known(6) [OF sound prepared] by (simp add: captured_fence_None)
  have rows: "sound_rows (?i i, ?a a)" "follows (i, a) (?i i, ?a a)"
    by (rule dispatched_rows [OF sound prepared fence];
        use dest hit(2) in \<open>simp add: tool_attempt_hit_def\<close>)+
  have "journal_ok db' \<and> evolves db db'"
    by (rule replaces_step [OF ok new rows(1)]) (use rows(2) old in simp)
  moreover have "undispatched db (tf_id ref)"
    using old sound_rows_known(8) [OF sound prepared] by (simp add: undispatched_def)
  moreover have "\<not> undispatched db' (tf_id ref)" using new by (simp add: undispatched_def replaces_def)
  ultimately show ?thesis using new by (simp add: undispatched_def replaces_def)
qed

lemma rows_inserted:
  assumes ok: "journal_ok db" and new: "insert_rows i a answer db = Inr (Some (r, db'))"
    and sound: "sound_rows (i, a)" and fresh: "at_dispatched a = None"
  shows "journal_ok db' \<and> evolves db db' \<and> read_rows (iv_id i) db' = Some (i, a)
    \<and> (undispatched db x \<longrightarrow> undispatched db' x)"
proof -
  note effect = insert_rows_effect [OF _ new sound_rows_known(3,4) [OF sound]]
  have "iv_id i \<notin> iv_id ` set (jn_invocations db)" "replaces (iv_id i) (i, a) db db'"
    using ok effect by (auto simp: journal_ok_def)
  moreover from this have "read_rows (iv_id i) db = None" using read_rows_None [OF ok] by simp
  ultimately show ?thesis
    using replaces_step [OF ok _ sound, of "iv_id i" db'] fresh
    by (cases "x = iv_id i") (auto simp: replaces_def undispatched_def)
qed

subsection \<open>Preparations\<close>

lemma prepared_ref_columns:
  assumes "prepared_operation_ref q = Inr ref" and "reads_as q i a" and "sound_rows (i, a)"
  shows "ref_columns ref i a \<and> op_ref_ok ref \<and> of_id ref = iv_id i"
  using assms sound_rows_known(4) [OF assms(3)]
  by (auto simp: prepared_operation_ref_def reads_as_def ref_columns_def Let_def split: option.splits if_splits)

lemma preparation_outcome_refers:
  assumes "preparation_outcome p q = Inr out" and "reads_as q i a" and "sound_rows (i, a)"
  obtains plan where "out = PreparedOutcome plan (pp_manifest p)" and "of_id (pl_ref plan) = iv_id i"
    and "ref_columns (pl_ref plan) i a" and "plan_ok plan"
proof -
  obtain plan where out: "out = PreparedOutcome plan (pp_manifest p)"
    and plan: "operation_plan q (pp_entry p) (pp_operation p) (pp_binding p) = Inr plan"
    using assms(1) by (auto simp: preparation_outcome_def result_simps)
  obtain ref where ref: "prepared_operation_ref q = Inr ref" "pl_ref plan = ref" "plan_ok plan"
    using plan by (auto simp: operation_plan_def result_simps Let_def split: if_splits)
  with prepared_ref_columns [OF ref(1) assms(2,3)] out that show thesis by auto
qed

lemma preparation_checked:
  assumes "parse_operation_preparation p = Inr u"
  shows "op_request_ok (pp_request p)" "op_entry_ok (pp_entry p)"
    "durable_kind (scope_kind (rq_scope (pp_request p)))"
    "oe_kind (pp_entry p) = kind_of (rq_operation (pp_request p))"
    "oe_target (pp_entry p) = rq_target (pp_request p)" "oe_source (pp_entry p) = rq_source (pp_request p)"
proof -
  obtain e where e: "resolve_operation_entry (pp_manifest p) (pp_request p) = Inr e" "e = pp_entry p"
    using assms by (auto simp: parse_operation_preparation_def result_simps split: if_splits)
  show "oe_kind (pp_entry p) = kind_of (rq_operation (pp_request p))"
    "oe_target (pp_entry p) = rq_target (pp_request p)" "oe_source (pp_entry p) = rq_source (pp_request p)"
    using resolved_entry [OF e(1)] e(2) by simp_all
  show "op_request_ok (pp_request p)" "op_entry_ok (pp_entry p)"
    "durable_kind (scope_kind (rq_scope (pp_request p)))"
    using assms by (auto simp: parse_operation_preparation_def split: if_splits)
qed

lemma new_rows_state:
  "sound_state (new_invocation x s snap kind target h request t) (new_attempt aid x source dest retry t)"
  by (auto simp: sound_state_def new_invocation_def new_attempt_def captured_fence_None terminal_status_def)

lemma new_rows_scope: "durable_kind (scope_kind s) \<Longrightarrow> scope_matches (new_invocation x s snap kind target h request t) s"
  by (simp add: scope_matches_def new_invocation_def durable_kind_def)

lemma prepared_operation_rows_sound:
  assumes p: "parse_operation_preparation p = Inr u"
    and i: "i = new_invocation (rq_id (pp_request p)) (rq_scope (pp_request p)) (rq_snapshot (pp_request p))
      (oe_kind (pp_entry p)) (oe_target (pp_entry p)) (pp_hash p) (GeneralRequest (pp_request p)) t"
    and a: "a = new_attempt aid (rq_id (pp_request p)) (oe_source (pp_entry p)) (oe_destination (pp_entry p))
      (oe_retry (pp_entry p)) t"
    and short: "\<forall>tool \<in> set_option (iv_tool i). length tool \<le> MAX_TOOL_NAME"
    and dest: "oe_destination (pp_entry p) = ComponentActivity \<longrightarrow> oe_kind (pp_entry p) = KindTool"
  shows "sound_rows (i, a)"
proof -
  note checked = preparation_checked [OF p]
  have "sound_identity i a"
    unfolding sound_identity_def
  proof (intro conjI exI)
    show "normalize_identity i = Inr (oe_kind (pp_entry p), oe_target (pp_entry p))"
      by (simp add: i new_invocation_def normalize_identity_def)
    show "parse_request (iv_request i) (at_source a) = Inr (pp_request p)"
      using checked(1) by (simp add: i new_invocation_def parse_request_def)
    show "scope_matches i (rq_scope (pp_request p))" unfolding i by (rule new_rows_scope [OF checked(3)])
    show "oe_kind (pp_entry p) = KindTool \<longrightarrow> length (oe_target (pp_entry p)) \<le> MAX_TOOL_NAME"
      using short by (simp add: i new_invocation_def tool_projection_def)
  qed (use checked dest in \<open>auto simp: i a new_invocation_def new_attempt_def op_entry_ok_def\<close>)
  with new_rows_state show ?thesis by (simp add: sound_rows_def i a)
qed

lemma prepared_tool_rows_sound:
  assumes p: "parse_invocation_preparation p = Inr entry"
    and i: "i = new_invocation (tq_id (tp_request p)) (tq_scope (tp_request p)) (tq_snapshot (tp_request p))
      KindTool (tq_tool (tp_request p)) (tp_hash p) (ToolRequest (tp_request p)) t"
    and a: "a = new_attempt aid (tq_id (tp_request p)) (te_source entry) (te_destination entry)
      (te_retry entry) t"
  shows "sound_rows (i, a)"
proof -
  have checked: "tool_request_ok (tp_request p)" "scope_kind (tq_scope (tp_request p)) = SubjectRun"
    "te_source entry \<noteq> []"
    using p by (auto simp: parse_invocation_preparation_def Let_def legacy_entry_def tool_entry_of_def
        tool_entry_ok_def op_entry_ok_def split: if_splits manifest_entry.splits)
  let ?r = "tp_request p"
  let ?q = "\<lparr>rq_id = tq_id ?r, rq_scope = tq_scope ?r, rq_snapshot = tq_snapshot ?r, rq_source = te_source entry,
             rq_target = tq_tool ?r, rq_operation = ToolCall (tq_tool ?r) (tq_input ?r),
             rq_requested = tq_requested ?r, rq_deadline = tq_deadline ?r\<rparr>"
  have length: "tq_tool ?r \<noteq> []" "length (tq_tool ?r) \<le> MAX_TOOL_NAME" "length (tq_tool ?r) \<le> MAX_TARGET"
    using checked(1) by (auto simp: tool_request_ok_def MAX_TOOL_NAME_def MAX_TARGET_def)
  have "sound_identity i a"
    unfolding sound_identity_def
  proof (intro conjI exI)
    show "normalize_identity i = Inr (KindTool, tq_tool ?r)"
      by (simp add: i new_invocation_def normalize_identity_def)
    show "parse_request (iv_request i) (at_source a) = Inr ?q"
      using checked length
      by (simp add: i a new_invocation_def new_attempt_def parse_request_def project_tool_request_def
          op_request_ok_def tool_request_ok_def)
    show "scope_matches i (rq_scope ?q)"
      unfolding i by (simp add: new_rows_scope durable_kind_def checked(2))
  qed (use checked length in \<open>auto simp: i a new_invocation_def new_attempt_def\<close>)
  with new_rows_state show ?thesis by (simp add: sound_rows_def i a)
qed

subsection \<open>What every answer says\<close>

text \<open>
  The tools' references to activities of MCP servers are not claimed: \<open>mcp-invocation.service.ts\<close>
  dispatches components only.
\<close>

fun call_ok :: "call \<Rightarrow> bool" where
  "call_ok (CallClaimTool ref _ _) = (tf_destination ref = ComponentActivity)"
| "call_ok _ = True"

definition call_hash :: "call \<Rightarrow> string" where
  "call_hash call = (case call of CallPrepareOperation p _ \<Rightarrow> pp_hash p | _ \<Rightarrow> [])"

definition claim_fence :: "call \<Rightarrow> fence option" where
  "claim_fence call = (case call of CallClaimOperation c _ _ \<Rightarrow> map_option rr_fence (dc_runtime c) | _ \<Rightarrow> None)"

text \<open>The authority stored under a key.\<close>

definition authority_of :: "string \<Rightarrow> stored_authority \<Rightarrow> journal \<Rightarrow> bool" where
  "authority_of key a db \<longleftrightarrow>
     (\<exists>g \<in> set (jn_grants db). \<exists>s \<in> set (jn_snapshots db).
        gr_key g = key \<and> sr_grant s = gr_id g \<and> parse_stored_authority (g, s) = Inr a)"

definition granted_by :: "call \<Rightarrow> stored_authority \<Rightarrow> journal \<Rightarrow> bool" where
  "granted_by call a db =
     (case call of
        CallAuthority key requested \<Rightarrow>
          authority_of key a db \<and> semantic_authority_projection a = semantic_authority_projection requested
      | _ \<Rightarrow> True)"

lemma authority_of_stays: "evolves s t \<Longrightarrow> authority_of key a s \<Longrightarrow> authority_of key a t"
  unfolding authority_of_def evolves_def by blast

lemma authority_of_unique:
  assumes "keys_ok db" and "authority_of key a db" and "authority_of key b db"
  shows "a = b"
proof -
  obtain g s g' s' where rows: "g \<in> set (jn_grants db)" "s \<in> set (jn_snapshots db)" "gr_key g = key"
      "sr_grant s = gr_id g" "parse_stored_authority (g, s) = Inr a"
      "g' \<in> set (jn_grants db)" "s' \<in> set (jn_snapshots db)" "gr_key g' = key"
      "sr_grant s' = gr_id g'" "parse_stored_authority (g', s') = Inr b"
    using assms(2,3) unfolding authority_of_def by blast
  have "g = g'" using assms(1) rows(1,3,6,8) by (auto simp: keys_ok_def distinct_map inj_on_def)
  moreover from this have "s = s'" using assms(1) rows(2,4,7,9) by (auto simp: keys_ok_def distinct_map inj_on_def)
  ultimately show ?thesis using rows(5,10) by simp
qed

definition settled_under :: "call \<Rightarrow> string \<Rightarrow> journal \<Rightarrow> bool" where
  "settled_under call x db = (case call of CallSettleOperation _ f _ \<Rightarrow> dispatched_under x f db | _ \<Rightarrow> True)"

fun truthful :: "call \<Rightarrow> answer \<Rightarrow> journal \<Rightarrow> bool" where
  "truthful call (PreparedOperation x (PreparedOutcome plan _)) db =
     (of_id (pl_ref plan) = x \<and> refers (pl_ref plan) db \<and> prepared_with x (call_hash call) db)"
| "truthful call (PreparedOperation x (TerminalOutcome r)) db =
     (recorded x r db \<and> prepared_with x (call_hash call) db)"
| "truthful call (ClaimedOperation x Claimed) db = dispatched_under x (claim_fence call) db"
| "truthful call (ClaimedOperation x (ClaimTerminal r)) db = recorded x r db"
| "truthful call (ClaimedOperation x (ClaimAmbiguous r)) db = recorded x r db"
| "truthful call (OperationView x v) db = (\<forall>r \<in> set_option (dv_result v). recorded x r db)"
| "truthful call (OperationResult x r) db = (recorded x r db \<and> settled_under call x db)"
| "truthful call (PreparedTool x (PreparedOutcome _ _)) db = True"
| "truthful call (PreparedTool x (TerminalOutcome r)) db = recorded_tool x r db"
| "truthful call (ClaimedTool x Claimed) db = True"
| "truthful call (ClaimedTool x (ClaimTerminal r)) db = recorded_tool x r db"
| "truthful call (ClaimedTool x (ClaimAmbiguous r)) db = recorded_tool x r db"
| "truthful call (ToolView x v) db = (\<forall>r \<in> set_option (tv_result v). recorded_tool x r db)"
| "truthful call (ToolResultIs x r) db = recorded_tool x r db"
| "truthful call (AuthorityIs a) db = granted_by call a db"
| "truthful call RunReconciled db = True"

text \<open>Calls that have to be answered: claims and reconciliations with a current reference.\<close>

fun must_answer :: "journal \<Rightarrow> call \<Rightarrow> bool" where
  "must_answer s (CallClaimOperation c _ _) = (claim_ok c \<and> refers (pl_ref (dc_plan c)) s)"
| "must_answer s (CallReconcileOperation ref _ message _) = (op_ref_ok ref \<and> message_ok message \<and> refers ref s)"
| "must_answer _ _ = False"

definition keeps_promise :: "journal \<Rightarrow> call \<Rightarrow> mcp_error + answer \<Rightarrow> journal \<Rightarrow> bool" where
  "keeps_promise s call r t = (case r of Inl _ \<Rightarrow> \<not> must_answer s call | Inr a \<Rightarrow> truthful call a t)"

lemma keeps_promise_simps [simp]:
  "keeps_promise s call (Inl e) t \<longleftrightarrow> \<not> must_answer s call"
  "keeps_promise s call (Inr a) t \<longleftrightarrow> truthful call a t"
  by (simp_all add: keeps_promise_def)

lemma truthful_stays:
  assumes "journal_ok s" and "evolves s t" and "truthful call a s"
  shows "truthful call a t"
proof -
  note stay = recorded_stays [OF assms(1,2)] recorded_tool_stays [OF assms(1,2)]
    dispatched_under_stays [OF assms(2)] refers_stays [OF assms(2)] prepared_with_stays [OF assms(2)]
    authority_of_stays [OF assms(2)]
  from assms(3) stay show ?thesis
    by (cases "(call, a, s)" rule: truthful.cases)
      (auto simp: settled_under_def granted_by_def split: call.splits)
qed

lemma keeps_promise_stable: "jr.stable (keeps_promise s call)"
  by (rule jr.stableI) (auto simp: keeps_promise_def intro: truthful_stays split: sum.splits)

lemma after_current:
  assumes "journal_ok t" and "refers ref s" and "evolves s t" and "require_current_operation ref t = r"
  obtains p i a where "r = Inr p" and "read_rows (of_id ref) t = Some (i, a)" and "reads_as p i a"
    and "ref_columns ref i a"
  using assms(1)
proof (cases rule: require_current_cases [where ref = ref])
  case (wrong e)
  with refers_stays [OF assms(3,2)] show thesis by simp
next
  case (right p i a)
  with assms(4) that show thesis by blast
qed

lemma transition_missed:
  assumes "ref_columns ref i a" and "read_rows (of_id ref) t = Some (i, a)"
    and "transition_operation ref f r from_status t = Inr None"
  shows "iv_status i \<noteq> from_status"
  using assms read_rows_Some(1) [OF assms(2)] ref_columns_hit [OF assms(1)]
  by (auto simp: transition_operation_def move_rows_def Let_def split: if_splits)

lemma transition_no_error:
  assumes "journal_ok t" and "ref_columns ref i a" and "read_rows (of_id ref) t = Some (i, a)"
    and "iv_status i = from_status \<Longrightarrow> captured_fence a = Inr f"
  shows "\<exists>x. transition_operation ref f r from_status t = Inr x"
proof (cases "iv_status i = from_status")
  case True
  have "operation_attempt_hit ref f from_status a"
    by (rule ref_columns_attempt_hit [OF assms(2) journal_ok_rows [OF assms(1,3)] assms(4) [OF True] True])
  with read_rows_Some(3) [OF assms(3)] show ?thesis
    by (auto simp: transition_operation_def move_rows_def Let_def)
next
  case False
  have "\<not> (\<exists>j \<in> set (jn_invocations t). operation_hit ref from_status j)"
  proof
    assume "\<exists>j \<in> set (jn_invocations t). operation_hit ref from_status j"
    then obtain j where j: "j \<in> set (jn_invocations t)" "operation_hit ref from_status j" by blast
    have "distinct (map iv_id (jn_invocations t))" using assms(1) by (simp add: journal_ok_def keys_ok_def)
    moreover have "iv_id j = iv_id i"
      using j(2) read_rows_Some(2) [OF assms(3)] by (simp add: operation_hit_def)
    ultimately have "j = i"
      using j(1) read_rows_Some(1) [OF assms(3)] by (auto simp: distinct_map inj_on_def)
    with j(2) False show False by (simp add: operation_hit_def)
  qed
  then show ?thesis by (simp add: transition_operation_def move_rows_def Let_def)
qed

end
