(* ===== verification/Invocation_Calls.thy ===== *)
theory Invocation_Calls
  imports Invocation_Safety
begin

section \<open>The calls of the invocation journal keep their promises\<close>

lemma current_later:
  assumes "journal_ok u" and "evolves t u" and "read_rows (of_id ref) t = Some (i, a)" and "ref_columns ref i a"
  obtains p i' a' where "require_current_operation ref u = Inr p" and "read_rows (of_id ref) u = Some (i', a')"
    and "reads_as p i' a'" and "ref_columns ref i' a'" and "follows (i, a) (i', a')"
proof -
  have "refers ref t" using assms(3,4) by (auto simp: refers_def)
  then obtain p i' a' where p: "require_current_operation ref u = Inr p" "read_rows (of_id ref) u = Some (i', a')"
      "reads_as p i' a'" "ref_columns ref i' a'"
    by (rule after_current [OF assms(1) _ assms(2) refl])
  obtain i'' a'' where "read_rows (of_id ref) u = Some (i'', a'')" "follows (i, a) (i'', a'')"
    by (rule evolvesD [OF assms(2,3)])
  with p that show thesis by simp
qed

lemma follows_fence:
  assumes "follows (i, a) (i', a')" and "sound_rows (i, a)" and "sound_rows (i', a')"
    and "captured_fence a = Inr f" and "iv_status i' = iv_status i \<or> iv_status i \<noteq> StPrepared"
  shows "captured_fence a' = Inr f"
proof (cases "iv_status i = StPrepared")
  case True
  with assms(4,5) sound_rows_known(6) [OF assms(2)] sound_rows_known(6) [OF assms(3)] show ?thesis by simp
next
  case False
  then have "2 \<le> status_rank (iv_status i)"
    using sound_rows_known(2) [OF assms(2)] by (cases "iv_status i") simp_all
  with assms(1,4) show ?thesis by (simp add: follows_def)
qed

text \<open>Ending an invocation whose rows have just been read.\<close>

lemma meets_transition:
  assumes ok: "journal_ok t" and row: "read_rows (of_id ref) t = Some (i, a)" "ref_columns ref i a"
    and f: "captured_fence a = Inr f" and status: "iv_status i = StPrepared \<or> iv_status i = StDispatched"
    and r: "op_result_ok r" "or_id r = of_id ref" "after_dispatch (or_outcome r) \<Longrightarrow> iv_status i = StDispatched"
    and missed: "\<And>u i' a'. journal_ok u \<Longrightarrow> evolves t u \<Longrightarrow> read_rows (of_id ref) u = Some (i', a') \<Longrightarrow>
        ref_columns ref i' a' \<Longrightarrow> follows (i, a) (i', a') \<Longrightarrow> iv_status i' \<noteq> iv_status i \<Longrightarrow> jr.meets Q rest u"
    and written: "\<And>u. journal_ok u \<Longrightarrow> evolves t u \<Longrightarrow> recorded (of_id ref) r u \<Longrightarrow>
        (iv_status i = StDispatched \<Longrightarrow> dispatched_under (of_id ref) f u) \<Longrightarrow> Q (Inr (answer ())) u"
  shows "jr.meets Q (write_if (transition_operation ref f r (iv_status i)) answer rest) t"
proof (rule jr.meets_write_if)
  fix e u assume u: "journal_ok u" "evolves t u" and err: "transition_operation ref f r (iv_status i) u = Inl e"
  obtain p i' a' where later: "read_rows (of_id ref) u = Some (i', a')" "ref_columns ref i' a'" "follows (i, a) (i', a')"
    by (rule current_later [OF u row])
  have "captured_fence a' = Inr f" if "iv_status i' = iv_status i"
    by (rule follows_fence [OF later(3) journal_ok_rows [OF ok row(1)] journal_ok_rows [OF u(1) later(1)] f])
      (simp add: that)
  from transition_no_error [OF u(1) later(2,1) this]
  obtain x where "transition_operation ref f r (iv_status i) u = Inr x" by blast
  with err show "Q (Inl e) u" by simp
next
  fix u assume u: "journal_ok u" "evolves t u" and miss: "transition_operation ref f r (iv_status i) u = Inr None"
  obtain p i' a' where later: "read_rows (of_id ref) u = Some (i', a')" "ref_columns ref i' a'" "follows (i, a) (i', a')"
    by (rule current_later [OF u row])
  show "jr.meets Q rest u"
    by (rule missed [OF u later transition_missed [OF later(2,1) miss]])
next
  fix x u v assume u: "journal_ok u" "evolves t u" and hit: "transition_operation ref f r (iv_status i) u = Inr (Some (x, v))"
  have v: "journal_ok v \<and> evolves u v \<and> recorded (of_id ref) r v
      \<and> (undispatched u y \<longrightarrow> undispatched v y) \<and> (iv_status i = StDispatched \<longrightarrow> dispatched_under (of_id ref) f v)" for y
    by (rule operation_transition_written [OF u(1) hit r(1,2) status r(3)])
  then have "Q (Inr (answer ())) v" using u(2) by (intro written) (auto intro: evolves_trans)
  with v show "journal_ok v \<and> evolves u v \<and> Q (Inr (answer x)) v" by simp
qed

lemma claim_no_error:
  assumes "journal_ok t" and "refers ref t"
  shows "\<exists>x. claim_operation_rows ref f d t = Inr x"
proof -
  obtain i a where rows: "read_rows (of_id ref) t = Some (i, a)" "ref_columns ref i a"
    using assms(2) by (auto simp: refers_def)
  have sound: "sound_rows (i, a)" by (rule journal_ok_rows [OF assms(1) rows(1)])
  have "captured_fence a = Inr None" if "iv_status i = StPrepared" by (rule sound_rows_known(6) [OF sound that])
  from transition_no_error [OF assms(1) rows(2,1) this, of StPrepared]
  obtain x where "transition_operation ref None undefined StPrepared t = Inr x" by blast
  then show ?thesis by (auto simp: transition_operation_def claim_operation_rows_def move_rows_def Let_def split: if_splits)
qed

lemma claim_missed:
  assumes "journal_ok t" and "refers ref t" and "claim_operation_rows ref f d t = Inr None"
  obtains i a where "read_rows (of_id ref) t = Some (i, a)" and "iv_status i \<noteq> StPrepared"
proof -
  obtain i a where rows: "read_rows (of_id ref) t = Some (i, a)" "ref_columns ref i a"
    using assms(2) by (auto simp: refers_def)
  have "iv_status i \<noteq> StPrepared"
    using assms(3) read_rows_Some(1) [OF rows(1)] ref_columns_hit [OF rows(2)]
    by (auto simp: claim_operation_rows_def move_rows_def split: if_splits)
  with rows(1) that show thesis by blast
qed

lemma replayed_claim:
  assumes "journal_ok t" and "read_rows x t = Some (i, a)" and "reads_as p i a" and "terminal_status (iv_status i)"
  shows "\<exists>r. require_operation_result p = Inr r \<and> truthful call (ClaimedOperation x (claim_replay r)) t"
proof -
  obtain r where r: "require_operation_result p = Inr r" using reads_as_terminal [OF assms(3,4)] by blast
  have "recorded x r t" by (rule reads_as_result [OF assms(1-3) r])
  with r show ?thesis by (auto simp: claim_replay_def split: op_outcome.splits)
qed

lemma meets_replayed_claim:
  assumes ok: "journal_ok t" and row: "read_rows (of_id ref) t = Some (i, a)" "ref_columns ref i a"
    and p: "reads_as p i a" and past: "iv_status i = StPrepared \<Longrightarrow> \<not> must_answer s call"
  shows "jr.meets (\<lambda>r. keeps_promise s call (map_sum (\<lambda>e. e) (ClaimedOperation (of_id ref)) r))
    (replay_operation_claim ref d p) t"
proof -
  have sound: "sound_rows (i, a)" by (rule journal_ok_rows [OF ok row(1)])
  have po: "po_row p = i" "po_attempt p = a" using p by (simp_all add: reads_as_def)
  consider "terminal_status (iv_status i)" | "iv_status i = StPrepared" | "iv_status i = StDispatched"
    using sound_rows_known(2) [OF sound] by (cases "iv_status i") (auto simp: terminal_status_def)
  then show ?thesis
  proof cases
    case 1
    with replayed_claim [OF ok row(1) p 1, where call = call] show ?thesis
      by (auto simp: replay_operation_claim_def po)
  next
    case 2
    with past show ?thesis by (auto simp: replay_operation_claim_def po terminal_status_def)
  next
    case dispatched: 3
    obtain f where f: "captured_fence a = Inr f" using sound_rows_known(5) [OF sound] by blast
    let ?r = "\<lparr>or_id = of_id ref, or_outcome = OpAmbiguous ''MCP operation attempt was already dispatched'',
                or_completed = to_iso d\<rparr>"
    let ?Q = "\<lambda>r. keeps_promise s call (map_sum (\<lambda>e. e) (ClaimedOperation (of_id ref)) r)"
    have "jr.meets ?Q (write_if (transition_operation ref f ?r (iv_status i)) (\<lambda>_. ClaimAmbiguous ?r)
        (query (require_current_operation ref) (\<lambda>concurrent.
           Answer (bind_result (require_operation_result concurrent) (\<lambda>r. Inr (claim_replay r)))))) t"
    proof (rule meets_transition [OF ok row f])
      fix u i' a' assume u: "journal_ok u" "evolves t u" "read_rows (of_id ref) u = Some (i', a')"
        "ref_columns ref i' a'" "follows (i, a) (i', a')" "iv_status i' \<noteq> iv_status i"
      have ended: "terminal_status (iv_status i')"
        using u(5,6) dispatched by (cases "iv_status i'") (auto simp: follows_def terminal_status_def)
      show "jr.meets ?Q (query (require_current_operation ref) (\<lambda>concurrent.
           Answer (bind_result (require_operation_result concurrent) (\<lambda>r. Inr (claim_replay r))))) u"
      proof (rule jr.meets_query)
        fix e v assume v: "journal_ok v" "evolves u v" "require_current_operation ref v = Inl e"
        obtain q where "require_current_operation ref v = Inr q" by (rule current_later [OF v(1,2) u(3,4)])
        with v(3) show "?Q (Inl e) v" by simp
      next
        fix q v assume v: "journal_ok v" "evolves u v" "require_current_operation ref v = Inr q"
        have row': "read_rows (of_id ref) v = Some (i', a')" by (rule terminal_rows_stay [OF v(2) u(3) ended])
        obtain i'' a'' where "reads_as q i'' a''" "read_rows (of_id ref) v = Some (i'', a'')"
          using current_later [OF v(1,2) u(3,4)] v(3) by (metis Inr_inject)
        with row' replayed_claim [OF v(1) row' _ ended]
        show "jr.meets ?Q (Answer (bind_result (require_operation_result q) (\<lambda>r. Inr (claim_replay r)))) v"
          by fastforce
      qed
    qed (use dispatched in \<open>simp_all add: op_result_ok_def message_ok_def MAX_MESSAGE_def\<close>)
    then show ?thesis
      by (simp add: replay_operation_claim_def po dispatched terminal_status_def f Let_def)
  qed
qed

lemma meets_claim_operation:
  assumes ok: "journal_ok s"
  shows "jr.meets (keeps_promise s (CallClaimOperation c d d')) (program_of (CallClaimOperation c d d')) s"
proof (cases "claim_ok c")
  case False
  then show ?thesis by (simp add: claim_operation_attempt_def)
next
  case claim: True
  let ?call = "CallClaimOperation c d d'"
  let ?ref = "pl_ref (dc_plan c)" and ?f = "map_option rr_fence (dc_runtime c)"
  let ?Q = "\<lambda>r. keeps_promise s ?call (map_sum (\<lambda>e. e) (ClaimedOperation (of_id ?ref)) r)"
  have f: "?f \<noteq> None \<longleftrightarrow> of_destination ?ref = McpActivity" "\<forall>g \<in> set_option ?f. fence_ok g"
    using claim by (auto simp: claim_ok_def split: destination.splits option.splits prod.splits)
  have lost: "\<not> must_answer s ?call" if "\<not> refers ?ref t" "evolves s t" for t
    using that refers_stays by auto
  have "jr.meets ?Q (write_if (claim_operation_rows ?ref ?f d) (\<lambda>_. Claimed)
      (query (require_current_operation ?ref) (replay_operation_claim ?ref d'))) s"
  proof (rule jr.meets_write_if)
    fix e t assume t: "journal_ok t" "evolves s t" "claim_operation_rows ?ref ?f d t = Inl e"
    with claim_no_error [OF t(1), of ?ref ?f d] lost [of t] show "?Q (Inl e) t" by auto
  next
    fix x t u assume t: "journal_ok t" "evolves s t" "claim_operation_rows ?ref ?f d t = Inr (Some (x, u))"
    with operation_claim_written [OF t(1) t(3) f]
    show "journal_ok u \<and> evolves t u \<and> ?Q (Inr Claimed) u" by (simp add: claim_fence_def)
  next
    fix t assume t: "journal_ok t" "evolves s t" "claim_operation_rows ?ref ?f d t = Inr None"
    show "jr.meets ?Q (query (require_current_operation ?ref) (replay_operation_claim ?ref d')) t"
    proof (rule jr.meets_query)
      fix e u assume u: "journal_ok u" "evolves t u" "require_current_operation ?ref u = Inl e"
      have "\<not> refers ?ref u" using require_current_cases [OF u(1), of ?ref] u(3) by (metis Inl_Inr_False)
      with lost [OF _ evolves_trans [OF t(2) u(2)]] show "?Q (Inl e) u" by simp
    next
      fix p u assume u: "journal_ok u" "evolves t u" "require_current_operation ?ref u = Inr p"
      obtain i a where row: "read_rows (of_id ?ref) u = Some (i, a)" "ref_columns ?ref i a" "reads_as p i a"
        using require_current_cases [OF u(1), of ?ref] u(3) by (metis Inl_Inr_False Inr_inject)
      have "\<not> must_answer s ?call" if "iv_status i = StPrepared"
      proof (rule lost [OF notI t(2)])
        assume refers: "refers ?ref t"
        obtain j b where j: "read_rows (of_id ?ref) t = Some (j, b)" "iv_status j \<noteq> StPrepared"
          by (rule claim_missed [OF t(1) refers t(3)])
        obtain i' a' where "read_rows (of_id ?ref) u = Some (i', a')" "follows (j, b) (i', a')"
          by (rule evolvesD [OF u(2) j(1)])
        with row(1) that j(2) sound_rows_known(2) [OF journal_ok_rows [OF t(1) j(1)]] show False
          by (cases "iv_status j") (auto simp: follows_def)
      qed
      then show "jr.meets ?Q (replay_operation_claim ?ref d' p) u"
        by (rule meets_replayed_claim [OF u(1) row(1,2,3)])
    qed
  qed
  with claim show ?thesis by (simp add: claim_operation_attempt_def Let_def)
qed

subsection \<open>Settlements\<close>

lemma fenced_cases:
  assumes "journal_ok t" and "require_fenced_operation ref f t = Inr p"
  obtains i a where "read_rows (of_id ref) t = Some (i, a)" and "reads_as p i a" and "ref_columns ref i a"
    and "captured_fence a = Inr f"
proof -
  have p: "require_current_operation ref t = Inr p" "captured_fence (po_attempt p) = Inr f"
    using assms(2) by (auto simp: require_fenced_operation_def assert_settlement_fence_def result_simps split: if_splits)
  with require_current_cases [OF assms(1), of ref] obtain i a where
    "read_rows (of_id ref) t = Some (i, a)" "reads_as p i a" "ref_columns ref i a"
    by (metis Inl_Inr_False Inr_inject)
  with p(2) that show thesis by (simp add: reads_as_def)
qed

lemma replayed_settlement:
  assumes "journal_ok t" and "read_rows x t = Some (i, a)" and "reads_as p i a" and "terminal_status (iv_status i)"
    and "captured_fence a = Inr f"
  shows "keeps_promise s (CallSettleOperation ref f r)
    (map_sum (\<lambda>e. e) (OperationResult x) (replayed_result r p)) t"
proof -
  obtain r' where r': "require_operation_result p = Inr r'" using reads_as_terminal [OF assms(3,4)] by blast
  have "recorded x r' t" by (rule reads_as_result [OF assms(1-3) r'])
  moreover have "dispatched_under x f t"
    using assms(2,5) terminal_rank [OF assms(4)] by (auto simp: dispatched_under_def)
  ultimately show ?thesis by (simp add: replayed_result_def r' settled_under_def)
qed

lemma meets_settle_operation:
  assumes ok: "journal_ok s"
  shows "jr.meets (keeps_promise s (CallSettleOperation ref f r)) (program_of (CallSettleOperation ref f r)) s"
proof -
  let ?call = "CallSettleOperation ref f r"
  let ?Q = "\<lambda>q. keeps_promise s ?call (map_sum (\<lambda>e. e) (OperationResult (of_id ref)) q)"
  have "jr.meets ?Q (query (require_fenced_operation ref f) (settle_read_operation ref f r)) s"
    if r: "op_result_ok r" "or_id r = of_id ref"
  proof (rule jr.meets_query)
    fix p t assume t: "journal_ok t" "evolves s t" "require_fenced_operation ref f t = Inr p"
    obtain i a where row: "read_rows (of_id ref) t = Some (i, a)" "ref_columns ref i a"
      and p: "reads_as p i a" and fence: "captured_fence a = Inr f"
      by (rule fenced_cases [OF t(1,3)])
    have po: "po_row p = i" using p by (simp add: reads_as_def)
    show "jr.meets ?Q (settle_read_operation ref f r p) t"
    proof (cases "iv_status i = StDispatched")
      case True
      have "jr.meets ?Q (write_if (transition_operation ref f r (iv_status i)) (\<lambda>_. r)
          (query (require_fenced_operation ref f) (\<lambda>concurrent. Answer (replayed_result r concurrent)))) t"
      proof (rule meets_transition [OF t(1) row fence _ r])
        fix u i' a' assume u: "journal_ok u" "evolves t u" "read_rows (of_id ref) u = Some (i', a')"
          "ref_columns ref i' a'" "follows (i, a) (i', a')" "iv_status i' \<noteq> iv_status i"
        have ended: "terminal_status (iv_status i')"
          using u(5,6) True by (cases "iv_status i'") (auto simp: follows_def terminal_status_def)
        show "jr.meets ?Q (query (require_fenced_operation ref f) (\<lambda>concurrent. Answer (replayed_result r concurrent))) u"
        proof (rule jr.meets_query)
          fix q v assume v: "journal_ok v" "evolves u v" "require_fenced_operation ref f v = Inr q"
          have "read_rows (of_id ref) v = Some (i', a')" by (rule terminal_rows_stay [OF v(2) u(3) ended])
          with fenced_cases [OF v(1,3)] replayed_settlement [OF v(1) _ _ ended, where ref = ref and r = r and s = s]
          show "jr.meets ?Q (Answer (replayed_result r q)) v" by (metis jr.meets_Answer option.inject prod.inject)
        qed simp
      qed (use True in \<open>simp_all add: settled_under_def\<close>)
      with True show ?thesis by (simp add: settle_read_operation_def po)
    next
      case False
      then show ?thesis
        using replayed_settlement [OF t(1) row(1) p _ fence, where ref = ref and r = r and s = s]
        by (simp add: settle_read_operation_def po)
    qed
  qed simp
  then show ?thesis by (simp add: settle_operation_attempt_def)
qed

subsection \<open>Reconciliations\<close>

lemma reads_as_no_reference:
  assumes "journal_ok t" and "read_rows (of_id ref) t = Some (i, a)" and "reads_as p i a"
    and "assert_operation_reference p ref = Inl e"
  shows "\<not> refers ref t"
  using reads_as_reference [OF assms(3) journal_ok_rows [OF assms(1,2)] read_rows_Some(2) [OF assms(2)]] assms(2,4)
  by (auto simp: refers_def)

lemma operation_reconciliation_result_ok:
  assumes "state = StPrepared \<or> state = StDispatched" and "message_ok message"
  shows "\<exists>r. operation_reconciliation_result x state cause message d = Inr r \<and> op_result_ok r \<and> or_id r = x
    \<and> (after_dispatch (or_outcome r) \<longrightarrow> state = StDispatched)"
  using assms by (cases cause) (auto simp: operation_reconciliation_result_def Let_def op_result_ok_def)

lemma meets_reconcile_rounds:
  assumes "journal_ok t" and "evolves s t" and "read_rows (of_id ref) t = Some (i, a)" and "reads_as p i a"
    and "3 \<le> n + status_rank (iv_status i)" and message: "message_ok message"
  shows "jr.meets (\<lambda>r. keeps_promise s (CallReconcileOperation ref cause message d)
      (map_sum (\<lambda>e. e) (OperationResult (of_id ref)) r))
    (reconcile_operation_rounds n ref cause message d p) t"
  using assms(1-5)
proof (induction n arbitrary: t i a p)
  let ?call = "CallReconcileOperation ref cause message d"
  case 0
  then have ended: "terminal_status (iv_status i)" by (cases "iv_status i") (simp_all add: terminal_status_def)
  obtain r where r: "require_operation_result p = Inr r" using reads_as_terminal [OF 0(4) ended] by blast
  have po: "po_row p = i" using 0(4) by (simp add: reads_as_def)
  show ?case
  proof (cases "assert_operation_reference p ref")
    case (Inl e)
    have "\<not> refers ref s" using reads_as_no_reference [OF 0(1,3,4) Inl] refers_stays [OF 0(2)] by blast
    with Inl show ?thesis by simp
  next
    case (Inr u)
    with r ended reads_as_result [OF 0(1,3,4) r] show ?thesis by (simp add: po settled_under_def)
  qed
next
  let ?call = "CallReconcileOperation ref cause message d"
  let ?Q = "\<lambda>r. keeps_promise s ?call (map_sum (\<lambda>e. e) (OperationResult (of_id ref)) r)"
  case (Suc n)
  have sound: "sound_rows (i, a)" by (rule journal_ok_rows [OF Suc.prems(1,3)])
  have po: "po_row p = i" "po_attempt p = a" using Suc.prems(4) by (simp_all add: reads_as_def)
  show ?case
  proof (cases "assert_operation_reference p ref")
    case (Inl e)
    have "\<not> refers ref s" using reads_as_no_reference [OF Suc.prems(1,3,4) Inl] refers_stays [OF Suc.prems(2)] by blast
    with Inl show ?thesis by simp
  next
    case reference: (Inr u)
    have columns: "ref_columns ref i a"
      using reads_as_reference [OF Suc.prems(4) sound read_rows_Some(2) [OF Suc.prems(3)]] reference by simp
    show ?thesis
    proof (cases "terminal_status (iv_status i)")
      case True
      obtain r where r: "require_operation_result p = Inr r" using reads_as_terminal [OF Suc.prems(4) True] by blast
      with reads_as_result [OF Suc.prems(1,3,4) r] reference True show ?thesis
        by (simp add: po settled_under_def)
    next
      case False
      then have status: "iv_status i = StPrepared \<or> iv_status i = StDispatched"
        using sound_rows_known(2) [OF sound] by (cases "iv_status i") (auto simp: terminal_status_def)
      obtain f where f: "captured_fence a = Inr f" using sound_rows_known(5) [OF sound] by blast
      obtain r where r: "operation_reconciliation_result (of_id ref) (iv_status i) cause message d = Inr r"
        "op_result_ok r" "or_id r = of_id ref" "after_dispatch (or_outcome r) \<Longrightarrow> iv_status i = StDispatched"
        using operation_reconciliation_result_ok [OF status message] by blast
      let ?again = "query (\<lambda>db. bind_result (read_operation (of_id ref) db) (\<lambda>found. case found of
                       None \<Rightarrow> Inl (Conflict ''MCP operation disappeared during reconciliation'')
                     | Some concurrent \<Rightarrow> Inr concurrent))
                    (reconcile_operation_rounds n ref cause message d)"
      have "jr.meets ?Q (write_if (transition_operation ref f r (iv_status i)) (\<lambda>_. r) ?again) t"
      proof (rule meets_transition [OF Suc.prems(1,3) columns f status r(2-4)])
        fix u i' a' assume u: "journal_ok u" "evolves t u" "read_rows (of_id ref) u = Some (i', a')"
          "ref_columns ref i' a'" "follows (i, a) (i', a')" "iv_status i' \<noteq> iv_status i"
        have later: "status_rank (iv_status i) < status_rank (iv_status i')"
          using u(5,6) status by (cases "iv_status i'") (auto simp: follows_def)
        show "jr.meets ?Q ?again u"
        proof (rule jr.meets_query)
          fix e v assume v: "journal_ok v" "evolves u v" "bind_result (read_operation (of_id ref) v) (\<lambda>found.
              case found of None \<Rightarrow> Inl (Conflict ''MCP operation disappeared during reconciliation'')
              | Some concurrent \<Rightarrow> Inr concurrent) = Inl e"
          obtain i'' a'' where "read_rows (of_id ref) v = Some (i'', a'')" by (rule evolvesD [OF v(2) u(3)])
          then obtain q where "read_operation (of_id ref) v = Inr (Some q)" by (rule read_operation_Some [OF v(1)])
          with v(3) show "?Q (Inl e) v" by simp
        next
          fix q v assume v: "journal_ok v" "evolves u v" "bind_result (read_operation (of_id ref) v) (\<lambda>found.
              case found of None \<Rightarrow> Inl (Conflict ''MCP operation disappeared during reconciliation'')
              | Some concurrent \<Rightarrow> Inr concurrent) = Inr q"
          obtain i'' a'' where row: "read_rows (of_id ref) v = Some (i'', a'')" and moved: "follows (i', a') (i'', a'')"
            by (rule evolvesD [OF v(2) u(3)])
          obtain q' where "read_operation (of_id ref) v = Inr (Some q')" "reads_as q' i'' a''"
            by (rule read_operation_Some [OF v(1) row])
          with v(3) have q: "reads_as q i'' a''" by simp
          have "3 \<le> n + status_rank (iv_status i'')"
            using later moved Suc.prems(5) by (simp add: follows_def)
          with q row show "jr.meets ?Q (reconcile_operation_rounds n ref cause message d q) v"
            by (intro Suc.IH [OF v(1) evolves_trans [OF Suc.prems(2) evolves_trans [OF u(2) v(2)]]])
        qed
      qed (simp_all add: settled_under_def)
      with reference False status r(1) f show ?thesis
        by (auto simp: po Let_def terminal_status_def)
    qed
  qed
qed

lemma meets_reconcile_operation:
  assumes ok: "journal_ok s"
  shows "jr.meets (keeps_promise s (CallReconcileOperation ref cause message d))
    (program_of (CallReconcileOperation ref cause message d)) s"
proof -
  let ?call = "CallReconcileOperation ref cause message d"
  let ?Q = "\<lambda>r. keeps_promise s ?call (map_sum (\<lambda>e. e) (OperationResult (of_id ref)) r)"
  let ?read = "\<lambda>db. bind_result (read_operation (of_id ref) db) (\<lambda>found. case found of
               None \<Rightarrow> Inl (Conflict ''MCP operation reconciliation reference was not found'')
             | Some existing \<Rightarrow> Inr existing)"
  have "jr.meets ?Q (query ?read (reconcile_operation_rounds RECONCILIATION_ROUNDS ref cause message d)) s"
    if message: "message_ok message"
  proof (rule jr.meets_query)
    fix e t assume t: "journal_ok t" "evolves s t" "?read t = Inl e"
    have "\<not> refers ref t"
    proof
      assume "refers ref t"
      then obtain i a where "read_rows (of_id ref) t = Some (i, a)" by (auto simp: refers_def)
      then obtain p where "read_operation (of_id ref) t = Inr (Some p)" by (rule read_operation_Some [OF t(1)])
      with t(3) show False by simp
    qed
    with refers_stays [OF t(2)] show "?Q (Inl e) t" by auto
  next
    fix p t assume t: "journal_ok t" "evolves s t" "?read t = Inr p"
    from t(1) show "jr.meets ?Q (reconcile_operation_rounds RECONCILIATION_ROUNDS ref cause message d p) t"
    proof (cases rule: read_operation_cases [where x = "of_id ref"])
      case (there q i a)
      with t(3) have "reads_as p i a" by simp
      moreover have "3 \<le> RECONCILIATION_ROUNDS + status_rank (iv_status i)"
        using sound_rows_known(2) [OF journal_ok_rows [OF t(1) there(2)]]
        by (cases "iv_status i") (simp_all add: RECONCILIATION_ROUNDS_def)
      ultimately show ?thesis by (intro meets_reconcile_rounds [OF t(1,2) there(2)] message)
    qed (use t(3) in simp)
  qed
  then show ?thesis by (auto simp: reconcile_operation_dispatch_def)
qed

subsection \<open>Preparations and views\<close>

lemma reading_preserves: "jr.meets Q (query f (\<lambda>x. Answer (g x))) s"
  if "\<And>e t. journal_ok t \<Longrightarrow> evolves s t \<Longrightarrow> f t = Inl e \<Longrightarrow> Q (Inl e) t"
    and "\<And>x t. journal_ok t \<Longrightarrow> evolves s t \<Longrightarrow> f t = Inr x \<Longrightarrow> Q (g x) t"
  by (rule jr.meets_query) (use that in auto)

lemma meets_prepare_operation:
  assumes ok: "journal_ok s"
  shows "jr.meets (keeps_promise s (CallPrepareOperation p keys)) (program_of (CallPrepareOperation p keys)) s"
proof (cases "parse_operation_preparation p")
  case (Inl e)
  then show ?thesis by (simp add: prepare_operation_def)
next
  case (Inr u)
  let ?call = "CallPrepareOperation p keys" and ?x = "rq_id (pp_request p)"
  let ?Q = "\<lambda>r. keeps_promise s ?call (map_sum (\<lambda>e. e) (PreparedOperation ?x) r)"
  let ?i = "new_invocation ?x (rq_scope (pp_request p)) (rq_snapshot (pp_request p)) (oe_kind (pp_entry p))
      (oe_target (pp_entry p)) (pp_hash p) (GeneralRequest (pp_request p)) (rk_now keys)"
  let ?a = "new_attempt (rk_attempt_id keys) ?x (oe_source (pp_entry p)) (oe_destination (pp_entry p))
      (oe_retry (pp_entry p)) (rk_now keys)"
  let ?replay = "replay_operation_preparation p"
  have "jr.meets ?Q (write_if (insert_rows ?i ?a (\<lambda>rows. bind_result (parse_stored_operation rows) (preparation_outcome p)))
      id (query (read_operation ?x) (\<lambda>found. Answer (?replay found)))) s"
  proof (rule jr.meets_write_if)
    fix t assume t: "journal_ok t" "evolves s t"
    show "jr.meets ?Q (query (read_operation ?x) (\<lambda>found. Answer (?replay found))) t"
    proof (rule reading_preserves)
      fix found v assume v: "journal_ok v" "evolves t v" "read_operation ?x v = Inr found"
      show "?Q (?replay found) v"
        using v(1)
      proof (cases rule: read_operation_cases [where x = ?x])
        case (there q i a)
        have found: "found = Some q" using v(3) there by simp
        have sound: "sound_rows (i, a)" by (rule journal_ok_rows [OF v(1) there(2)])
        show ?thesis
        proof (cases "?replay found")
          case (Inr out)
          have hash: "prepared_with ?x (pp_hash p) v"
            using Inr there(2,3) found
            by (auto simp: replay_operation_preparation_def prepared_with_def assert_operation_replay_def reads_as_def result_simps split: if_splits)
          consider r where "require_operation_result q = Inr r" "out = TerminalOutcome r"
            | "preparation_outcome p q = Inr out"
            using Inr found by (auto simp: replay_operation_preparation_def Let_def result_simps split: if_splits)
          then show ?thesis
          proof cases
            case 1
            with Inr reads_as_result [OF v(1) there(2,3) 1(1)] hash show ?thesis by (simp add: call_hash_def)
          next
            case 2
            then obtain plan where "out = PreparedOutcome plan (pp_manifest p)" "of_id (pl_ref plan) = iv_id i"
              "ref_columns (pl_ref plan) i a" by (rule preparation_outcome_refers [OF _ there(3) sound])
            with Inr there(2) hash read_rows_Some(2) [OF there(2)] show ?thesis
              by (auto simp: call_hash_def refers_def)
          qed
        qed simp
      qed (use v(3) in \<open>simp add: replay_operation_preparation_def\<close>)
    qed simp
  next
    fix out t v assume t: "journal_ok t" "evolves s t" and new: "insert_rows ?i ?a
        (\<lambda>rows. bind_result (parse_stored_operation rows) (preparation_outcome p)) t = Inr (Some (out, v))"
    obtain q where q: "parse_stored_operation (?i, ?a) = Inr q" "preparation_outcome p q = Inr out"
      using new by (auto simp: insert_rows_def result_simps split: if_splits)
    obtain ref where "prepared_operation_ref q = Inr ref"
      using q(2) by (auto simp: preparation_outcome_def operation_plan_def result_simps)
    then have "at_destination (po_attempt q) = ComponentActivity \<longrightarrow> po_kind q = KindTool"
      by (auto simp: prepared_operation_ref_def op_ref_ok_def Let_def split: option.splits if_splits)
    moreover have "po_attempt q = ?a" "po_kind q = oe_kind (pp_entry p)"
      using q(1) by (auto simp: parse_stored_operation_def Let_def normalize_identity_def new_invocation_def
          result_simps split: if_splits)
    ultimately have dest: "oe_destination (pp_entry p) = ComponentActivity \<longrightarrow> oe_kind (pp_entry p) = KindTool"
      by (simp add: new_attempt_def)
    have short: "\<forall>tool \<in> set_option (iv_tool ?i). length tool \<le> MAX_TOOL_NAME"
      using new by (auto simp: insert_rows_def not_less split: if_splits)
    have sound: "sound_rows (?i, ?a)"
      by (rule prepared_operation_rows_sound [OF Inr refl refl short dest])
    have id: "iv_id ?i = ?x" "iv_hash ?i = pp_hash p" by (simp_all add: new_invocation_def)
    have v: "journal_ok v" "evolves t v" "read_rows ?x v = Some (?i, ?a)"
      using rows_inserted [OF t(1) new sound] id by (simp_all add: new_attempt_def)
    obtain q' where "parse_stored_operation (?i, ?a) = Inr q'" "reads_as q' ?i ?a"
      using sound_rows_read [OF sound] by blast
    with q(1) have reads: "reads_as q ?i ?a" by simp
    obtain plan where "out = PreparedOutcome plan (pp_manifest p)" "of_id (pl_ref plan) = iv_id ?i"
      "ref_columns (pl_ref plan) ?i ?a" by (rule preparation_outcome_refers [OF q(2) reads sound])
    with v id show "journal_ok v \<and> evolves t v \<and> ?Q (Inr (id out)) v"
      by (auto simp: call_hash_def refers_def prepared_with_def)
  qed simp
  with Inr show ?thesis by (simp add: prepare_operation_def Let_def)
qed

lemma meets_read_operation:
  assumes ok: "journal_ok s"
  shows "jr.meets (keeps_promise s (CallReadOperation ref)) (program_of (CallReadOperation ref)) s"
proof -
  have "recorded (of_id ref) r t"
    if "journal_ok t" "read_operation (of_id ref) t = Inr (Some p)" "po_result p = Some r" for t p r
    using that(1)
  proof (cases rule: read_operation_cases [where x = "of_id ref"])
    case (there q i a)
    with that reads_as_result [OF that(1) there(2,3)] show ?thesis by (simp add: require_operation_result_def)
  qed (use that in simp)
  then have "keeps_promise s (CallReadOperation ref) (map_sum (\<lambda>e. e) (OperationView (of_id ref)) (case found of
          None \<Rightarrow> Inl (Conflict ''MCP operation attempt was not found'')
        | Some existing \<Rightarrow>
            bind_result (assert_operation_reference existing ref) (\<lambda>_.
            bind_result (prepared_operation_ref existing) (\<lambda>stored.
            bind_result (captured_fence (po_attempt existing)) (\<lambda>f.
              Inr \<lparr>dv_request = po_request existing, dv_ref = stored,
                   dv_status = iv_status (po_row existing), dv_result = po_result existing,
                   dv_fence = f\<rparr>))))) t"
    if "journal_ok t" "read_operation (of_id ref) t = Inr found" for t found
    using that by (auto simp: bind_result_def split: option.splits sum.splits)
  then show ?thesis
    unfolding program_of.simps jr.meets_answering get_operation_for_dispatch_def
    by (auto intro!: reading_preserves)
qed

subsection \<open>Tool invocations\<close>

lemma map_sum_is_Inr: "map_sum f g r = Inr y \<longleftrightarrow> (\<exists>x. r = Inr x \<and> y = g x)"
  by (cases r) auto

lemma read_invocation_Some:
  assumes "read_invocation x db = Inr (Some p)"
  obtains i a where "read_rows x db = Some (i, a)" and "pi_row p = i" and "pi_attempt p = a"
    and "iv_result i = map_option ToolResult (pi_result p)" and "terminal_status (iv_status i) \<longleftrightarrow> pi_result p \<noteq> None"
proof -
  obtain i a where rows: "read_rows x db = Some (i, a)" and p: "parse_stored_invocation (i, a) = Inr p"
    using assms by (auto simp: read_invocation_def map_sum_is_Inr split: option.splits prod.splits)
  have "pi_row p = i \<and> pi_attempt p = a \<and> iv_result i = map_option ToolResult (pi_result p)
      \<and> (terminal_status (iv_status i) \<longleftrightarrow> pi_result p \<noteq> None)"
    using p by (auto simp: parse_stored_invocation_def result_simps
        split: if_splits option.splits stored_result.splits)
  with rows that show thesis by blast
qed

lemma read_tool_result:
  assumes "read_invocation x db = Inr (Some p)" and "pi_result p = Some r"
  shows "recorded_tool x r db"
  using assms(1)
proof (rule read_invocation_Some)
  fix i a assume "read_rows x db = Some (i, a)" "iv_result i = map_option ToolResult (pi_result p)"
  with assms(2) show ?thesis by (simp add: recorded_tool_def)
qed

lemma require_current_invocation_read:
  "require_current_invocation ref db = Inr p \<Longrightarrow> read_invocation (tf_id ref) db = Inr (Some p)"
  by (auto simp: require_current_invocation_def result_simps split: option.splits)

lemma meets_tool_transition:
  assumes r: "tool_result_ok r" "tr_id r = tf_id ref"
    and status: "status = StPrepared \<or> status = StDispatched"
    and late: "tr_status r \<in> {StCompleted, StAmbiguous} \<Longrightarrow> status = StDispatched"
    and error: "\<And>e u. Q (Inl e) u" and rest: "\<And>u. evolves t u \<Longrightarrow> journal_ok u \<Longrightarrow> jr.meets Q rest u"
    and written: "\<And>u. recorded_tool (tf_id ref) r u \<Longrightarrow> Q (Inr (answer ())) u"
  shows "jr.meets Q (write_if (transition_tool ref r status) answer rest) t"
proof (rule jr.meets_write_if)
  fix x u v assume u: "journal_ok u" "evolves t u" "transition_tool ref r status u = Inr (Some (x, v))"
  with tool_transition_written [OF u(1,3) r status late] written
  show "journal_ok v \<and> evolves u v \<and> Q (Inr (answer x)) v" by simp
qed (use error rest in auto)

lemma tool_failure_ok:
  "message_ok message \<Longrightarrow> terminal_status status \<Longrightarrow> status \<noteq> StCompleted \<Longrightarrow>
     tool_result_ok (tool_failure x status cls message retryable d)"
  by (simp add: tool_result_ok_def tool_failure_def)

lemma tool_failure_simps [simp]:
  "tr_id (tool_failure x status cls message retryable d) = x"
  "tr_status (tool_failure x status cls message retryable d) = status"
  by (simp_all add: tool_failure_def)

lemma replayed_tool_claim:
  assumes "require_current_invocation ref t = Inr p"
  shows "keeps_promise s (CallClaimTool ref d d') (map_sum (\<lambda>e. e) (ClaimedTool (tf_id ref)) (claim_replay_outcome p)) t"
proof (cases "pi_result p")
  case None
  then show ?thesis by (simp add: claim_replay_outcome_def require_tool_result_def)
next
  case (Some r)
  with read_tool_result [OF require_current_invocation_read [OF assms]] show ?thesis
    by (simp add: claim_replay_outcome_def require_tool_result_def)
qed

lemma meets_claim_tool:
  assumes ok: "journal_ok s" and dest: "tf_destination ref = ComponentActivity"
  shows "jr.meets (keeps_promise s (CallClaimTool ref d d')) (program_of (CallClaimTool ref d d')) s"
proof -
  let ?Q = "\<lambda>r. keeps_promise s (CallClaimTool ref d d') (map_sum (\<lambda>e. e) (ClaimedTool (tf_id ref)) r)"
  have replay: "jr.meets ?Q (replay_tool_claim ref d' p) t"
    if t: "require_current_invocation ref t = Inr p" for t p
  proof (cases "iv_status (pi_row p) = StDispatched")
    case True
    let ?r = "tool_failure (tf_id ref) StAmbiguous FcAmbiguous
        ''Invocation attempt was already dispatched'' False (to_iso d')"
    have "jr.meets ?Q (write_if (transition_tool ref ?r StDispatched) (\<lambda>_. ClaimAmbiguous ?r)
        (query (require_current_invocation ref) (\<lambda>concurrent. Answer (claim_replay_outcome concurrent)))) t"
    proof (rule meets_tool_transition)
      show "tool_result_ok ?r"
        by (rule tool_failure_ok) (simp_all add: message_ok_def MAX_MESSAGE_def terminal_status_def)
      fix u
      show "jr.meets ?Q (query (require_current_invocation ref)
          (\<lambda>concurrent. Answer (claim_replay_outcome concurrent))) u"
        by (rule reading_preserves) (simp_all add: replayed_tool_claim)
    qed simp_all
    with True show ?thesis by (simp add: replay_tool_claim_def Let_def)
  next
    case False
    with replayed_tool_claim [OF t] show ?thesis by (simp add: replay_tool_claim_def)
  qed
  have "jr.meets ?Q (write_if (claim_tool_rows ref d) (\<lambda>_. Claimed)
      (query (require_current_invocation ref) (replay_tool_claim ref d'))) s"
  proof (rule jr.meets_write_if)
    fix x t u assume t: "journal_ok t" "evolves s t" "claim_tool_rows ref d t = Inr (Some (x, u))"
    with tool_claim_written [OF t(1,3) dest] show "journal_ok u \<and> evolves t u \<and> ?Q (Inr Claimed) u" by simp
  next
    fix t
    show "jr.meets ?Q (query (require_current_invocation ref) (replay_tool_claim ref d')) t"
      by (rule jr.meets_query) (simp_all add: replay)
  qed simp
  then show ?thesis by (simp add: claim_attempt_def)
qed

text \<open>Calls that answer a tool result.\<close>

definition tool_answer :: "string \<Rightarrow> mcp_error + tool_result \<Rightarrow> journal \<Rightarrow> bool" where
  "tool_answer x r db = (case r of Inl _ \<Rightarrow> True | Inr q \<Rightarrow> recorded_tool x q db)"

lemma tool_answer_simps [simp]: "tool_answer x (Inl e) db" "tool_answer x (Inr q) db = recorded_tool x q db"
  by (simp_all add: tool_answer_def)

lemma tool_answer_keeps:
  assumes "\<not> must_answer s call"
  shows "(\<lambda>r. keeps_promise s call (map_sum (\<lambda>e. e) (ToolResultIs x) r)) = tool_answer x"
  using assms by (auto simp: keeps_promise_def tool_answer_def fun_eq_iff split: sum.splits)

lemma required_tool_answer:
  "read_invocation x t = Inr (Some p) \<Longrightarrow> tool_answer x (require_tool_result p) t"
  using read_tool_result [of x t p] by (simp add: require_tool_result_def split: option.splits)

lemma meets_settle_tool_terminal:
  assumes "tool_result_ok r" and "tr_id r = tf_id ref"
  shows "jr.meets (tool_answer (tf_id ref)) (settle_tool_terminal ref r) s"
  unfolding settle_tool_terminal_def
proof (rule meets_tool_transition [OF assms])
  fix u
  show "jr.meets (tool_answer (tf_id ref)) (query (require_current_invocation ref) (\<lambda>existing.
      Answer (if \<not> terminal_status (iv_status (pi_row existing))
        then Inl (Conflict ''MCP invocation attempt can only settle from dispatched state'')
        else bind_result (require_tool_result existing) (\<lambda>stored.
          if same_tool_result stored r then Inr stored
          else Inl (Conflict ''MCP invocation terminal replay conflicts with stored result''))))) u"
  proof (rule reading_preserves)
    fix p v assume "require_current_invocation ref v = Inr p"
    from required_tool_answer [OF require_current_invocation_read [OF this]]
    show "tool_answer (tf_id ref) (if \<not> terminal_status (iv_status (pi_row p))
        then Inl (Conflict ''MCP invocation attempt can only settle from dispatched state'')
        else bind_result (require_tool_result p) (\<lambda>stored.
          if same_tool_result stored r then Inr stored
          else Inl (Conflict ''MCP invocation terminal replay conflicts with stored result''))) v"
      by (cases "require_tool_result p") simp_all
  qed simp
qed simp_all

lemma meets_settle_tool:
  "jr.meets (keeps_promise s (CallSettleTool ref r)) (program_of (CallSettleTool ref r)) s"
  by (simp add: tool_answer_keeps settle_attempt_def meets_settle_tool_terminal)

lemma meets_mark_ambiguous:
  "jr.meets (keeps_promise s (CallMarkAmbiguous ref message d)) (program_of (CallMarkAmbiguous ref message d)) s"
  by (auto simp: tool_answer_keeps mark_attempt_ambiguous_def terminal_status_def
      intro!: meets_settle_tool_terminal tool_failure_ok)

lemma tool_reconciliation_result_ok:
  assumes "tool_reconciliation_result x state cause message d = Inr r"
  shows "tool_result_ok r \<and> tr_id r = x \<and> (state = StPrepared \<or> state = StDispatched)
    \<and> (tr_status r \<in> {StCompleted, StAmbiguous} \<longrightarrow> state = StDispatched)"
  using assms
  by (auto simp: tool_reconciliation_result_def Let_def terminal_status_def intro!: tool_failure_ok split: if_splits)

lemma meets_tool_rounds:
  "read_invocation (tf_id ref) t = Inr (Some p) \<Longrightarrow>
     jr.meets (tool_answer (tf_id ref)) (reconcile_tool_rounds n ref cause message d p) t"
proof (induction n arbitrary: t p)
  case 0
  from required_tool_answer [OF 0] show ?case
    by (cases "assert_tool_reference p ref") simp_all
next
  case (Suc n)
  let ?again = "query (\<lambda>db. bind_result (read_invocation (tf_id ref) db) (\<lambda>found. case found of
                   None \<Rightarrow> Inl (Conflict ''MCP invocation disappeared during reconciliation'')
                 | Some concurrent \<Rightarrow> Inr concurrent))
                (reconcile_tool_rounds n ref cause message d)"
  have again: "jr.meets (tool_answer (tf_id ref)) ?again u" for u
    by (rule jr.meets_query) (auto simp: result_simps split: option.splits intro!: Suc.IH)
  have "jr.meets (tool_answer (tf_id ref)) (write_if (transition_tool ref r (iv_status (pi_row p))) (\<lambda>_. r) ?again) t"
    if r: "tool_reconciliation_result (tf_id ref) (iv_status (pi_row p)) cause message d = Inr r" for r
    by (rule meets_tool_transition) (use tool_reconciliation_result_ok [OF r] again in auto)
  with required_tool_answer [OF Suc.prems] show ?case
    by (auto simp: Let_def split: sum.splits)
qed

lemma meets_reconcile_tool_dispatch:
  "jr.meets (tool_answer (tf_id ref)) (reconcile_tool_dispatch ref cause message d) s"
  unfolding reconcile_tool_dispatch_def
  by (auto intro!: jr.meets_query meets_tool_rounds simp: result_simps split: option.splits)

lemma meets_reconcile_tool:
  "jr.meets (keeps_promise s (CallReconcileTool ref cause message d)) (program_of (CallReconcileTool ref cause message d)) s"
  by (simp add: tool_answer_keeps meets_reconcile_tool_dispatch)

lemma meets_read_tool:
  "jr.meets (keeps_promise s (CallReadTool ref)) (program_of (CallReadTool ref)) s"
proof -
  have "keeps_promise s (CallReadTool ref) (map_sum (\<lambda>e. e) (ToolView (tf_id ref)) (case found of
          None \<Rightarrow> Inl (Conflict ''MCP invocation attempt was not found'')
        | Some existing \<Rightarrow>
            bind_result (assert_tool_reference existing ref) (\<lambda>_.
            bind_result (prepared_tool_ref existing) (\<lambda>stored.
              Inr \<lparr>tv_request = pi_request existing, tv_ref = stored,
                   tv_status = iv_status (pi_row existing), tv_result = pi_result existing\<rparr>)))) t"
    if "read_invocation (tf_id ref) t = Inr found" for t found
    using that read_tool_result [of "tf_id ref" t] by (auto simp: bind_result_def split: option.splits sum.splits)
  then show ?thesis
    unfolding program_of.simps jr.meets_answering get_invocation_for_dispatch_def
    by (auto intro!: reading_preserves)
qed

lemma meets_prepare_tool:
  "jr.meets (keeps_promise s (CallPrepareTool p keys)) (program_of (CallPrepareTool p keys)) s"
proof (cases "parse_invocation_preparation p")
  case (Inl e)
  then show ?thesis by (simp add: prepare_invocation_def)
next
  case (Inr entry)
  let ?call = "CallPrepareTool p keys" and ?x = "tq_id (tp_request p)"
  let ?Q = "\<lambda>r. keeps_promise s ?call (map_sum (\<lambda>e. e) (PreparedTool ?x) r)"
  let ?i = "new_invocation ?x (tq_scope (tp_request p)) (tq_snapshot (tp_request p)) KindTool
      (tq_tool (tp_request p)) (tp_hash p) (ToolRequest (tp_request p)) (rk_now keys)"
  let ?a = "new_attempt (rk_attempt_id keys) ?x (te_source entry) (te_destination entry)
      (te_retry entry) (rk_now keys)"
  have "jr.meets ?Q (write_if (insert_rows ?i ?a
        (\<lambda>rows. bind_result (parse_stored_invocation rows) (tool_preparation_outcome (tp_manifest p))))
      id (query (read_invocation ?x) (\<lambda>found. Answer (replay_tool_preparation p found)))) s"
  proof (rule jr.meets_write_if)
    fix t
    show "jr.meets ?Q (query (read_invocation ?x) (\<lambda>found. Answer (replay_tool_preparation p found))) t"
    proof (rule reading_preserves)
      fix found v assume "read_invocation ?x v = Inr found"
      then show "?Q (replay_tool_preparation p found) v"
        using read_tool_result [of ?x v]
        by (auto simp: replay_tool_preparation_def require_tool_result_def tool_preparation_outcome_def
            bind_result_def Let_def split: option.splits sum.splits)
    qed simp
  next
    fix out t v assume t: "journal_ok t" "evolves s t" and new: "insert_rows ?i ?a
        (\<lambda>rows. bind_result (parse_stored_invocation rows) (tool_preparation_outcome (tp_manifest p))) t
        = Inr (Some (out, v))"
    have "journal_ok v" "evolves t v"
      using rows_inserted [OF t(1) new prepared_tool_rows_sound [OF Inr refl refl]] by (simp_all add: new_attempt_def)
    moreover have "\<exists>ref m. out = PreparedOutcome ref m"
      using insert_rows_effect(3) [OF _ new] t(1)
      by (auto simp: journal_ok_def tool_preparation_outcome_def result_simps new_invocation_def new_attempt_def)
    ultimately show "journal_ok v \<and> evolves t v \<and> ?Q (Inr (id out)) v" by auto
  qed simp
  with Inr show ?thesis by (simp add: prepare_invocation_def Let_def)
qed

end
