(* ===== verification/Invocation_Runs.thy ===== *)
theory Invocation_Runs
  imports Invocation_Calls
begin

section \<open>Reconciling a whole run, and storing authority\<close>

definition ended :: "string \<Rightarrow> journal \<Rightarrow> bool" where
  "ended x db \<longleftrightarrow> (\<exists>i a. read_rows x db = Some (i, a) \<and> terminal_status (iv_status i))"

lemma ended_stays: "evolves s t \<Longrightarrow> ended x s \<Longrightarrow> ended x t"
  unfolding ended_def by (blast dest: terminal_rows_stay)

lemma recorded_ended: "journal_ok db \<Longrightarrow> recorded x r db \<Longrightarrow> ended x db"
  by (auto simp: recorded_def ended_def dest: has_result_terminal)

lemma recorded_tool_ended: "journal_ok db \<Longrightarrow> recorded_tool x r db \<Longrightarrow> ended x db"
  by (auto simp: recorded_tool_def ended_def dest: has_result_terminal)

subsection \<open>Tool invocations with a current reference\<close>

definition tool_columns :: "tool_ref \<Rightarrow> invocation \<Rightarrow> inv_attempt \<Rightarrow> bool" where
  "tool_columns ref i a \<longleftrightarrow>
     iv_id i = tf_id ref \<and> iv_attempt i = tf_number ref \<and> at_id a = tf_attempt ref
     \<and> iv_grant i = tf_grant ref \<and> iv_snapshot i = tf_snapshot ref \<and> iv_tool i = Some (tf_tool ref)
     \<and> map_option to_iso (at_prepared a) = Some (tf_prepared ref) \<and> at_source a = tf_source ref
     \<and> at_destination a = tf_destination ref \<and> at_retry a = tf_retry ref"

definition is_tool :: "invocation \<Rightarrow> bool" where
  "is_tool i \<longleftrightarrow> (\<exists>r. iv_request i = ToolRequest r)"

lemma tool_columns_fixed:
  assumes "tool_columns ref i a" and "fixed_columns (i', a') = fixed_columns (i, a)"
  shows "tool_columns ref i' a'"
  using assms(1) unfolding tool_columns_def fixed_columnsD [OF assms(2)] .

lemma is_tool_fixed:
  assumes "is_tool i" and "fixed_columns (i', a') = fixed_columns (i, a)"
  shows "is_tool i'"
  using assms(1) unfolding is_tool_def fixed_columnsD [OF assms(2)] .

lemma open_tool_read:
  assumes "sound_rows (i, a)" and "is_tool i" and "\<not> terminal_status (iv_status i)"
  obtains p ref where "parse_stored_invocation (i, a) = Inr p" and "pi_row p = i" and "pi_attempt p = a"
    and "prepared_tool_ref p = Inr ref" and "tool_columns ref i a" and "tool_ref_ok ref"
proof -
  obtain r where r: "iv_request i = ToolRequest r" using assms(2) by (auto simp: is_tool_def)
  obtain kind target request where
    id: "normalize_identity i = Inr (kind, target)" "parse_request (iv_request i) (at_source a) = Inr request"
      "rq_id request = iv_id i" "scope_matches i (rq_scope request)" "rq_snapshot request = iv_snapshot i"
      "kind_of (rq_operation request) = kind" "rq_target request = target"
      "iv_tool i = tool_projection kind target" "target \<noteq> []" "length target \<le> MAX_TARGET"
      "kind = KindTool \<longrightarrow> length target \<le> MAX_TOOL_NAME"
    and more: "at_invocation a = iv_id i" "at_number a = iv_attempt i" "0 < iv_attempt i" "at_source a \<noteq> []"
      "at_prepared a \<noteq> None" "scope_kind (tq_scope r) = SubjectRun"
    using assms(1) r unfolding sound_rows_def sound_identity_def by fastforce
  have request: "tool_request_ok r" "request = \<lparr>rq_id = tq_id r, rq_scope = tq_scope r,
      rq_snapshot = tq_snapshot r, rq_source = at_source a, rq_target = tq_tool r,
      rq_operation = ToolCall (tq_tool r) (tq_input r), rq_requested = tq_requested r, rq_deadline = tq_deadline r\<rparr>"
    using id(2) by (auto simp: r parse_request_def project_tool_request_def Let_def split: if_splits)
  have tool: "iv_tool i = Some (tq_tool r)" "tq_tool r \<noteq> []" "length (tq_tool r) \<le> MAX_TOOL_NAME"
    using id request by (auto simp: tool_projection_def)
  have "iv_result i = None"
  proof (cases "iv_result i")
    case (Some stored)
    with assms(1) obtain q where "op_result_status q = iv_status i"
      by (auto simp: sound_rows_def dest!: sound_state_result)
    with assms(3) op_result_status_terminal [of q] show ?thesis by simp
  qed
  then have "parse_stored_invocation (i, a) = Inr \<lparr>pi_row = i, pi_attempt = a, pi_request = r, pi_result = None\<rparr>"
    using id request more tool assms(3) sound_rows_known(1) [OF assms(1)]
    by (simp add: parse_stored_invocation_def r scope_matches_def)
  moreover obtain t where t: "at_prepared a = Some t" using more by blast
  let ?ref = "\<lparr>tf_id = iv_id i, tf_attempt = at_id a, tf_number = at_number a, tf_snapshot = iv_snapshot i,
      tf_grant = iv_grant i, tf_tool = tq_tool r, tf_source = at_source a, tf_destination = at_destination a,
      tf_retry = at_retry a, tf_prepared = to_iso t\<rparr>"
  have "prepared_tool_ref \<lparr>pi_row = i, pi_attempt = a, pi_request = r, pi_result = None\<rparr> = Inr ?ref"
    "tool_ref_ok ?ref" "tool_columns ?ref i a"
    using t tool more by (simp_all add: prepared_tool_ref_def tool_ref_ok_def tool_columns_def)
  ultimately show thesis
    using that [of "\<lparr>pi_row = i, pi_attempt = a, pi_request = r, pi_result = None\<rparr>" ?ref] by simp
qed

lemma tool_reference_current:
  assumes "sound_rows (i, a)" and "pi_row p = i" and "pi_attempt p = a" and "tool_columns ref i a"
  shows "assert_tool_reference p ref = Inr ()"
  using assms sound_rows_known(3,4) [OF assms(1)]
  by (simp add: assert_tool_reference_def tool_columns_def Let_def)

lemma tool_transition_no_error:
  assumes "journal_ok t" and "tool_columns ref i a" and "read_rows (tf_id ref) t = Some (i, a)"
  shows "\<exists>x. transition_tool ref r from_status t = Inr x"
proof (cases "iv_status i = from_status")
  case True
  have sound: "sound_rows (i, a)" by (rule journal_ok_rows [OF assms(1,3)])
  obtain z where z: "at_prepared a = Some z" "to_iso z = tf_prepared ref"
    using assms(2) by (auto simp: tool_columns_def)
  then have "at_prepared a = Some (instant (tf_prepared ref))" by (metis instant_to_iso)
  with assms(2) sound_rows_known(1,3,4) [OF sound] True have "tool_attempt_hit ref from_status a"
    by (auto simp: tool_attempt_hit_def tool_columns_def)
  with read_rows_Some(3) [OF assms(3)] show ?thesis
    by (auto simp: transition_tool_def move_rows_def Let_def)
next
  case False
  have "\<not> tool_hit ref from_status j" if j: "j \<in> set (jn_invocations t)" for j
  proof
    assume hit: "tool_hit ref from_status j"
    have "distinct (map iv_id (jn_invocations t))" using assms(1) by (simp add: journal_ok_def keys_ok_def)
    moreover have "iv_id j = iv_id i"
      using hit read_rows_Some(2) [OF assms(3)] by (simp add: tool_hit_def)
    ultimately have "j = i"
      using j read_rows_Some(1) [OF assms(3)] by (auto simp: distinct_map inj_on_def)
    with hit False show False by (simp add: tool_hit_def)
  qed
  then show ?thesis by (simp add: transition_tool_def move_rows_def Let_def)
qed

lemma tool_transition_missed:
  assumes "tool_columns ref i a" and "read_rows (tf_id ref) t = Some (i, a)"
    and "transition_tool ref r from_status t = Inr None"
  shows "iv_status i \<noteq> from_status"
  using assms(1,3) read_rows_Some(1) [OF assms(2)]
  by (auto simp: transition_tool_def move_rows_def tool_hit_def tool_columns_def Let_def split: if_splits)

lemma tool_reconciliation_total:
  assumes "state = StPrepared \<or> state = StDispatched" and "message_ok message"
  shows "\<exists>r. tool_reconciliation_result x state cause message d = Inr r"
  using assms by (auto simp: tool_reconciliation_result_def Let_def)

text \<open>Whatever such a reconciliation answers, the invocation is over then.\<close>

lemma tool_rounds_end:
  assumes "journal_ok t" and "read_rows (tf_id ref) t = Some (i, a)" and "tool_columns ref i a" and "is_tool i"
    and "pi_row p = i" and "pi_attempt p = a" and "3 \<le> n + status_rank (iv_status i)" and message: "message_ok message"
  shows "jr.meets (\<lambda>_. ended (tf_id ref)) (reconcile_tool_rounds n ref cause message d p) t"
  using assms(1-7)
proof (induction n arbitrary: t i a p)
  case 0
  then have "terminal_status (iv_status i)" by (cases "iv_status i") (simp_all add: terminal_status_def)
  with 0 show ?case by (auto simp: ended_def)
next
  case (Suc n)
  have sound: "sound_rows (i, a)" by (rule journal_ok_rows [OF Suc.prems(1,2)])
  have reference: "assert_tool_reference p ref = Inr ()"
    by (rule tool_reference_current [OF sound Suc.prems(5,6,3)])
  show ?case
  proof (cases "terminal_status (iv_status i)")
    case True
    with Suc.prems(2,5) reference show ?thesis by (auto simp: ended_def Let_def)
  next
    case False
    then have status: "iv_status i = StPrepared \<or> iv_status i = StDispatched"
      using sound_rows_known(2) [OF sound] by (cases "iv_status i") (auto simp: terminal_status_def)
    obtain r where r: "tool_reconciliation_result (tf_id ref) (iv_status i) cause message d = Inr r"
      using tool_reconciliation_total [OF status message] by blast
    note r_ok = tool_reconciliation_result_ok [OF r]
    let ?again = "query (\<lambda>db. bind_result (read_invocation (tf_id ref) db) (\<lambda>found. case found of
                     None \<Rightarrow> Inl (Conflict ''MCP invocation disappeared during reconciliation'')
                   | Some concurrent \<Rightarrow> Inr concurrent))
                  (reconcile_tool_rounds n ref cause message d)"
    have "jr.meets (\<lambda>_. ended (tf_id ref)) (write_if (transition_tool ref r (iv_status i)) (\<lambda>_. r) ?again) t"
    proof (rule jr.meets_write_if)
      fix e u assume u: "journal_ok u" "evolves t u" "transition_tool ref r (iv_status i) u = Inl e"
      obtain i' a' where later: "read_rows (tf_id ref) u = Some (i', a')" "follows (i, a) (i', a')"
        by (rule evolvesD [OF u(2) Suc.prems(2)])
      then have "tool_columns ref i' a'" using tool_columns_fixed [OF Suc.prems(3)] by (simp add: follows_def)
      with tool_transition_no_error [OF u(1) _ later(1), of r "iv_status i"] u(3) show "ended (tf_id ref) u" by auto
    next
      fix x u v assume u: "journal_ok u" "evolves t u" "transition_tool ref r (iv_status i) u = Inr (Some (x, v))"
      have "journal_ok v \<and> evolves u v \<and> recorded_tool (tf_id ref) r v"
        using tool_transition_written [OF u(1,3)] r_ok status by blast
      then show "journal_ok v \<and> evolves u v \<and> ended (tf_id ref) v" by (blast intro: recorded_tool_ended)
    next
      fix u assume u: "journal_ok u" "evolves t u" "transition_tool ref r (iv_status i) u = Inr None"
      obtain i' a' where later: "read_rows (tf_id ref) u = Some (i', a')" "follows (i, a) (i', a')"
        by (rule evolvesD [OF u(2) Suc.prems(2)])
      have "iv_status i' \<noteq> iv_status i"
        using tool_transition_missed [OF tool_columns_fixed [OF Suc.prems(3)] later(1) u(3)] later(2)
        by (simp add: follows_def)
      then have rank: "status_rank (iv_status i) < status_rank (iv_status i')"
        using later(2) status by (cases "iv_status i'") (auto simp: follows_def)
      show "jr.meets (\<lambda>_. ended (tf_id ref)) ?again u"
      proof (rule jr.meets_query)
        fix e v assume v: "journal_ok v" "evolves u v" "bind_result (read_invocation (tf_id ref) v) (\<lambda>found.
            case found of None \<Rightarrow> Inl (Conflict ''MCP invocation disappeared during reconciliation'')
            | Some concurrent \<Rightarrow> Inr concurrent) = Inl e"
        obtain j b where row: "read_rows (tf_id ref) v = Some (j, b)" "follows (i, a) (j, b)"
          using evolvesD [OF evolves_trans [OF u(2) v(2)] Suc.prems(2)] by blast
        have "terminal_status (iv_status j)"
        proof (rule ccontr)
          assume "\<not> terminal_status (iv_status j)"
          moreover have "is_tool j"
            by (rule is_tool_fixed [OF Suc.prems(4), of j b a]) (use row(2) in \<open>simp add: follows_def\<close>)
          ultimately obtain q where "parse_stored_invocation (j, b) = Inr q"
            using open_tool_read [OF journal_ok_rows [OF v(1) row(1)]] by metis
          with row(1) v(3) show False by (simp add: read_invocation_def)
        qed
        with row(1) show "ended (tf_id ref) v" by (auto simp: ended_def)
      next
        fix q v assume v: "journal_ok v" "evolves u v" "bind_result (read_invocation (tf_id ref) v) (\<lambda>found.
            case found of None \<Rightarrow> Inl (Conflict ''MCP invocation disappeared during reconciliation'')
            | Some concurrent \<Rightarrow> Inr concurrent) = Inr q"
        then have "read_invocation (tf_id ref) v = Inr (Some q)" by (auto simp: result_simps split: option.splits)
        then obtain j b where row: "read_rows (tf_id ref) v = Some (j, b)" "pi_row q = j" "pi_attempt q = b"
          by (rule read_invocation_Some)
        obtain j' b' where row': "read_rows (tf_id ref) v = Some (j', b')" "follows (i', a') (j', b')"
          by (rule evolvesD [OF v(2) later(1)])
        have "fixed_columns (j, b) = fixed_columns (i, a)" "3 \<le> n + status_rank (iv_status j)"
          using row row' later(2) rank Suc.prems(7) by (auto simp: follows_def)
        then show "jr.meets (\<lambda>_. ended (tf_id ref)) (reconcile_tool_rounds n ref cause message d q) v"
          by (intro Suc.IH [OF v(1) row(1) _ _ row(2,3)] tool_columns_fixed [OF Suc.prems(3)]
              is_tool_fixed [OF Suc.prems(4)])
      qed
    qed
    with reference False status r show ?thesis
      by (auto simp: Suc.prems(5) Let_def terminal_status_def)
  qed
qed


text \<open>Reconciling an open invocation, of either form, ends it.\<close>

lemma operation_row_ends:
  assumes ok: "journal_ok t" and row: "read_rows (iv_id i) t = Some (j, b)" and same: "fixed_columns (j, b) = fixed_columns (i, a)"
    and sound: "sound_rows (i, a)" and general: "iv_request i = GeneralRequest r" and message: "message_ok message"
  shows "jr.meets (\<lambda>_. ended (iv_id i)) (reconcile_row message d (i, a)) t"
proof -
  obtain p ref where p: "parse_stored_operation (i, a) = Inr p" "reads_as p i a" "prepared_operation_ref p = Inr ref"
    using sound_rows_read [OF sound] by (auto simp: reads_as_def)
  have ref: "ref_columns ref i a" "op_ref_ok ref" "of_id ref = iv_id i"
    using prepared_ref_columns [OF p(3,2) sound] by simp_all
  let ?call = "CallReconcileOperation ref CauseCancelled message d"
  let ?Q = "\<lambda>r. keeps_promise t ?call (map_sum (\<lambda>e. e) (OperationResult (of_id ref)) r)"
  have "must_answer t ?call"
    using ref message row ref_columns_fixed [OF ref(1) same] by (auto simp: refers_def)
  moreover have "jr.meets ?Q (reconcile_operation_dispatch ref CauseCancelled message d) t"
    using meets_reconcile_operation [OF ok] by simp
  ultimately have "jr.meets (\<lambda>_. ended (iv_id i)) (reconcile_operation_dispatch ref CauseCancelled message d) t"
    by (elim jr.meets_weaken [OF _ ok])
      (auto simp: keeps_promise_def map_sum_is_Inr ref(3) intro: recorded_ended split: sum.splits)
  with p general show ?thesis by (simp add: reconcile_row_def)
qed

lemma tool_row_ends:
  assumes ok: "journal_ok t" and row: "read_rows (iv_id i) t = Some (j, b)" and same: "fixed_columns (j, b) = fixed_columns (i, a)"
    and sound: "sound_rows (i, a)" and tool: "is_tool i" and "\<not> terminal_status (iv_status i)"
    and message: "message_ok message"
  shows "jr.meets (\<lambda>_. ended (iv_id i)) (reconcile_row message d (i, a)) t"
proof -
  obtain p ref where p: "parse_stored_invocation (i, a) = Inr p" "prepared_tool_ref p = Inr ref"
    and ref: "tool_columns ref i a" "tool_ref_ok ref"
    by (rule open_tool_read [OF sound tool assms(6)])
  have x: "iv_id i = tf_id ref" using ref by (simp add: tool_columns_def)
  let ?read = "\<lambda>db. bind_result (read_invocation (tf_id ref) db) (\<lambda>found. case found of
               None \<Rightarrow> Inl (Conflict ''MCP invocation reconciliation reference was not found'')
             | Some existing \<Rightarrow> Inr existing)"
  have later: "\<exists>j' b'. read_rows (tf_id ref) u = Some (j', b') \<and> tool_columns ref j' b' \<and> is_tool j'"
    if u: "evolves t u" for u
  proof -
    obtain j' b' where "read_rows (iv_id i) u = Some (j', b')" "follows (j, b) (j', b')"
      by (rule evolvesD [OF u row])
    moreover from this same have same': "fixed_columns (j', b') = fixed_columns (i, a)" by (simp add: follows_def)
    moreover have "tool_columns ref j' b'" by (rule tool_columns_fixed [OF ref(1) same'])
    moreover have "is_tool j'" by (rule is_tool_fixed [OF tool same'])
    ultimately show ?thesis by (simp add: x)
  qed
  have "jr.meets (\<lambda>_. ended (tf_id ref)) (reconcile_tool_dispatch ref CauseCancelled message d) t"
    unfolding reconcile_tool_dispatch_def
  proof (simp only: ref(2) not_True_eq_False if_False, rule jr.meets_query)
    fix e u assume u: "journal_ok u" "evolves t u" "?read u = Inl e"
    obtain j' b' where now: "read_rows (tf_id ref) u = Some (j', b')" "tool_columns ref j' b'" "is_tool j'"
      using later [OF u(2)] by blast
    have "terminal_status (iv_status j')"
    proof (rule ccontr)
      assume "\<not> terminal_status (iv_status j')"
      then obtain q where "parse_stored_invocation (j', b') = Inr q"
        using open_tool_read [OF journal_ok_rows [OF u(1) now(1)] now(3)] by metis
      with now(1) u(3) show False by (simp add: read_invocation_def)
    qed
    with now(1) show "ended (tf_id ref) u" by (auto simp: ended_def)
  next
    fix q u assume u: "journal_ok u" "evolves t u" "?read u = Inr q"
    obtain j' b' where now: "read_rows (tf_id ref) u = Some (j', b')" "tool_columns ref j' b'" "is_tool j'"
      using later [OF u(2)] by blast
    have "read_invocation (tf_id ref) u = Inr (Some q)" using u(3) by (auto simp: result_simps split: option.splits)
    then have "pi_row q = j'" "pi_attempt q = b'" using now(1) by (auto elim: read_invocation_Some)
    moreover have "3 \<le> RECONCILIATION_ROUNDS + status_rank (iv_status j')"
      using sound_rows_known(2) [OF journal_ok_rows [OF u(1) now(1)]]
      by (cases "iv_status j'") (simp_all add: RECONCILIATION_ROUNDS_def)
    ultimately show "jr.meets (\<lambda>_. ended (tf_id ref))
        (reconcile_tool_rounds RECONCILIATION_ROUNDS ref CauseCancelled message d q) u"
      by (intro tool_rounds_end [OF u(1) now] message)
  qed
  with p tool show ?thesis by (auto simp: reconcile_row_def is_tool_def x)
qed


text \<open>All rows are tried, so all of them end, whether or not some answer an error.\<close>

definition open_row :: "journal \<Rightarrow> invocation \<times> inv_attempt \<Rightarrow> bool" where
  "open_row t row \<longleftrightarrow>
     sound_rows row \<and> \<not> terminal_status (iv_status (fst row))
     \<and> (\<exists>now. read_rows (iv_id (fst row)) t = Some now \<and> fixed_columns now = fixed_columns row)"

lemma open_row_stays:
  assumes "evolves s t" and "open_row s row" shows "open_row t row"
proof -
  obtain j b where "read_rows (iv_id (fst row)) s = Some (j, b)" "fixed_columns (j, b) = fixed_columns row"
    using assms(2) by (auto simp: open_row_def)
  moreover from assms(1) this(1) obtain j' b' where
    "read_rows (iv_id (fst row)) t = Some (j', b')" "follows (j, b) (j', b')" by (rule evolvesD)
  ultimately show ?thesis using assms(2) by (simp add: open_row_def follows_def)
qed

lemma row_ends:
  assumes "journal_ok t" and "open_row t row" and "message_ok message"
  shows "jr.meets (\<lambda>_. ended (iv_id (fst row))) (reconcile_row message d row) t"
proof -
  obtain i a where row: "row = (i, a)" by (cases row)
  obtain j b where now: "read_rows (iv_id i) t = Some (j, b)" "fixed_columns (j, b) = fixed_columns (i, a)"
    and sound: "sound_rows (i, a)" "\<not> terminal_status (iv_status i)"
    using assms(2) by (auto simp: open_row_def row)
  show ?thesis
  proof (cases "iv_request i")
    case (GeneralRequest r)
    with operation_row_ends [OF assms(1) now sound(1)] assms(3) show ?thesis by (simp add: row)
  next
    case (ToolRequest r)
    then have "is_tool i" by (simp add: is_tool_def)
    with tool_row_ends [OF assms(1) now sound(1)] sound(2) assms(3) show ?thesis by (simp add: row)
  qed
qed

lemma rows_end:
  assumes "journal_ok t" and "\<forall>row \<in> set rows. open_row t row" and "\<forall>x \<in> X. ended x t"
    and message: "message_ok message"
  shows "jr.meets (\<lambda>_ u. \<forall>x \<in> X \<union> (iv_id \<circ> fst) ` set rows. ended x u) (reconcile_rows message d rows e) t"
  using assms(1-3)
proof (induction rows arbitrary: t X e)
  case (Cons row rows)
  let ?x = "iv_id (fst row)"
  show ?case
    unfolding reconcile_rows.simps
  proof (rule jr.meets_chain_later [where Q = "\<lambda>_. ended ?x"])
    show "jr.meets (\<lambda>_. ended ?x) (reconcile_row message d row) t"
      by (rule row_ends) (use Cons.prems message in auto)
    fix r u assume u: "journal_ok u" "evolves t u" "ended ?x u"
    have "\<forall>row \<in> set rows. open_row u row" using Cons.prems(2) open_row_stays [OF u(2)] by simp
    moreover have "\<forall>x \<in> insert ?x X. ended x u" using Cons.prems(3) ended_stays [OF u(2)] u(3) by blast
    ultimately have "jr.meets (\<lambda>_ v. \<forall>x \<in> insert ?x X \<union> (iv_id \<circ> fst) ` set rows. ended x v)
        (reconcile_rows message d rows (case (e, r) of (None, Inl e) \<Rightarrow> Some e | _ \<Rightarrow> e)) u"
      by (rule Cons.IH [OF u(1)])
    then show "jr.meets (\<lambda>_ v. \<forall>x \<in> X \<union> (iv_id \<circ> fst) ` set (row # rows). ended x v)
        (reconcile_rows message d rows (case (e, r) of (None, Inl e) \<Rightarrow> Some e | _ \<Rightarrow> e)) u"
      by simp
  qed (rule Cons.prems(1))
qed simp

definition of_run :: "string \<Rightarrow> journal \<Rightarrow> string \<Rightarrow> bool" where
  "of_run run db x \<longleftrightarrow> (\<exists>i a. read_rows x db = Some (i, a) \<and> iv_run i = Some run)"

lemma of_run_stays: "evolves s t \<Longrightarrow> of_run run s x \<Longrightarrow> of_run run t x"
  unfolding of_run_def by (fastforce elim: evolvesD simp: follows_def dest: fixed_columnsD(4))

lemma run_rows_open:
  assumes "journal_ok t" and "row \<in> set (rows_of_run run t)" shows "open_row t row"
proof -
  obtain i a where row: "row = (i, a)" by (cases row)
  have "i \<in> set (jn_invocations t)" "a \<in> set (jn_attempts t)" "at_invocation a = iv_id i"
    "at_number a = iv_attempt i" "iv_status i \<in> {StPrepared, StDispatched}"
    using assms(2) by (auto simp: rows_of_run_def row)
  moreover from this have read: "read_rows (iv_id i) t = Some (i, a)"
    by (intro read_rows_intro) (use assms(1) in \<open>simp_all add: journal_ok_def\<close>)
  ultimately show ?thesis
    using journal_ok_rows [OF assms(1) read] by (auto simp: open_row_def row terminal_status_def)
qed

lemma run_rows_complete:
  assumes "journal_ok t" and "of_run run t x" and "\<not> ended x t"
  shows "x \<in> (iv_id \<circ> fst) ` set (rows_of_run run t)"
proof -
  obtain i a where row: "read_rows x t = Some (i, a)" "iv_run i = Some run"
    using assms(2) by (auto simp: of_run_def)
  then have "\<not> terminal_status (iv_status i)" using assms(3) by (auto simp: ended_def)
  with sound_rows_known(2) [OF journal_ok_rows [OF assms(1) row(1)]] have "iv_status i \<in> {StPrepared, StDispatched}"
    by (cases "iv_status i") (auto simp: terminal_status_def)
  with row read_rows_Some [OF row(1)] have "(i, a) \<in> set (rows_of_run run t)" by (simp add: rows_of_run_def)
  with read_rows_Some(2) [OF row(1)] show ?thesis by force
qed

lemma run_ends:
  assumes "journal_ok s" and "trim run \<noteq> []" and "message_ok message"
  shows "jr.meets (\<lambda>_ t. \<forall>x. of_run run s x \<longrightarrow> ended x t) (reconcile_run_invocations run message d) s"
proof -
  have "jr.meets (\<lambda>_ t. \<forall>x. of_run run s x \<longrightarrow> ended x t)
      (query (\<lambda>db. Inr (rows_of_run run db)) (\<lambda>rows. reconcile_rows message d rows None)) s"
  proof (rule jr.meets_query)
    fix rows t assume t: "journal_ok t" "evolves s t" "Inr (rows_of_run run t) = Inr rows"
    let ?X = "{x. of_run run s x \<and> ended x t}"
    have "jr.meets (\<lambda>_ u. \<forall>x \<in> ?X \<union> (iv_id \<circ> fst) ` set rows. ended x u) (reconcile_rows message d rows None) t"
      by (rule rows_end) (use t run_rows_open [OF t(1)] assms(3) in auto)
    moreover have "x \<in> ?X \<union> (iv_id \<circ> fst) ` set rows" if "of_run run s x" for x
      using run_rows_complete [OF t(1) of_run_stays [OF t(2) that]] that t(3) by auto
    ultimately show "jr.meets (\<lambda>_ u. \<forall>x. of_run run s x \<longrightarrow> ended x u) (reconcile_rows message d rows None) t"
      by (elim jr.meets_weaken [OF _ t(1)]) blast
  qed simp
  with assms(2) show ?thesis by (simp add: reconcile_run_invocations_def)
qed

lemma run_stable: "jr.stable (\<lambda>_ t. \<forall>x. of_run run s x \<longrightarrow> ended x t)"
  by (rule jr.stableI) (blast intro: ended_stays)

subsection \<open>Authority\<close>

lemma parse_durable_authority_same: "parse_durable_authority a = Inr b \<Longrightarrow> b = a"
  by (auto simp: parse_durable_authority_def result_simps split: if_splits)

lemma parse_stored_authority_same:
  "parse_stored_authority (g, s) = Inr a \<Longrightarrow> sa_grant a = gr_grant g \<and> sa_snapshot a = sr_snapshot s \<and> sa_manifest a = sr_manifest s"
  by (auto simp: parse_stored_authority_def result_simps split: if_splits dest!: parse_durable_authority_same)

lemma authority_inserted:
  assumes ok: "journal_ok db" and new: "insert_authority key a db = Inr (Some (stored, db'))"
  shows "journal_ok db' \<and> evolves db db' \<and> authority_of key stored db' \<and> stored = a
    \<and> (\<forall>x. read_rows x db' = read_rows x db)"
proof -
  let ?g = "\<lparr>gr_id = cg_id (sa_grant a), gr_key = key, gr_organization = cg_organization (sa_grant a),
      gr_kind = subject_kind_of (cg_subject (sa_grant a)),
      gr_subject = capability_subject_id (cg_subject (sa_grant a)), gr_grant = sa_grant a,
      gr_created = instant (cg_created (sa_grant a))\<rparr>"
  let ?s = "\<lparr>sr_id = sn_id (sa_snapshot a), sr_grant = cg_id (sa_grant a), sr_config = sn_config (sa_snapshot a),
      sr_snapshot = sa_snapshot a, sr_manifest = sa_manifest a, sr_created = instant (sn_created (sa_snapshot a))\<rparr>"
  have checks: "key \<notin> gr_key ` set (jn_grants db)" "cg_id (sa_grant a) \<notin> sr_grant ` set (jn_snapshots db)"
    "parse_stored_authority (?g, ?s) = Inr stored"
    "db' = db\<lparr>jn_grants := jn_grants db @ [?g], jn_snapshots := jn_snapshots db @ [?s]\<rparr>"
    using new by (auto simp: insert_authority_def Let_def result_simps split: if_splits)
  have attempts: "current_attempt db' = current_attempt db"
    by (rule ext) (simp add: checks(4) current_attempt_def)
  have rows: "read_rows x db' = read_rows x db" for x
    unfolding read_rows_def attempts by (simp add: checks(4))
  have "journal_ok db'"
    using ok checks(1,2) unfolding journal_ok_def rows by (simp add: keys_ok_def checks(4))
  moreover have "evolves db db'" unfolding evolves_def rows by (auto simp: checks(4))
  moreover have "authority_of key stored db'"
    unfolding authority_of_def using checks(3) by (auto simp: checks(4))
  moreover have "stored = a" using parse_stored_authority_same [OF checks(3)] by simp
  ultimately show ?thesis using rows by simp
qed

lemma found_member: "find P xs = Some x \<Longrightarrow> x \<in> set xs \<and> P x"
  by (induction xs) (auto split: if_splits)

lemma find_authority_Some:
  assumes "read_authority_by_key key db = Inr (Some a)" shows "authority_of key a db"
proof -
  obtain g s where found: "find (\<lambda>(g, s). sr_grant s = gr_id g \<and> gr_key g = key) (List.product (jn_grants db) (jn_snapshots db))
      = Some (g, s)" and parsed: "parse_stored_authority (g, s) = Inr a"
    using assms by (auto simp: read_authority_by_key_def find_authority_def map_sum_is_Inr split: option.splits)
  from found_member [OF found] parsed show ?thesis by (auto simp: authority_of_def)
qed

lemma meets_authority:
  "jr.meets (keeps_promise s (CallAuthority key a)) (program_of (CallAuthority key a)) s"
proof -
  let ?Q = "\<lambda>r. keeps_promise s (CallAuthority key a) (map_sum (\<lambda>e. e) AuthorityIs r)"
  have "jr.meets ?Q (create_or_read_authority key a) s"
  proof (cases "is_sha256 key \<and> parse_durable_authority a = Inr a")
    case False
    then have "(\<exists>e. parse_durable_authority a = Inl e) \<or> \<not> is_sha256 key"
      by (cases "parse_durable_authority a") (auto dest: parse_durable_authority_same)
    then show ?thesis by (auto simp: create_or_read_authority_def)
  next
    case True
    have "jr.meets ?Q (write_if (insert_authority key a) id (query (read_authority_by_key key) (\<lambda>existing.
               Answer (case existing of
                   None \<Rightarrow> Inl (Conflict ''MCP authority key was claimed without readable authority'')
                 | Some stored \<Rightarrow>
                     if semantic_authority_projection stored \<noteq> semantic_authority_projection a
                     then Inl (Conflict ''MCP authority key was already used for different immutable authority'')
                     else Inr stored)))) s"
    proof (rule jr.meets_write_if)
      fix stored t u assume "journal_ok t" "insert_authority key a t = Inr (Some (stored, u))"
      from authority_inserted [OF this] show "journal_ok u \<and> evolves t u \<and> ?Q (Inr (id stored)) u"
        by (auto simp: granted_by_def)
    qed (auto intro!: reading_preserves simp: granted_by_def find_authority_Some split: option.splits)
    with True show ?thesis by (simp add: create_or_read_authority_def)
  qed
  then show ?thesis by simp
qed

end
