(* ===== verification/Invocation_Schedules.thy ===== *)
theory Invocation_Schedules
  imports Invocation_Runs
begin

section \<open>Interleaved calls on the invocation journal\<close>

text \<open>
  What holds of any number of calls whose statements are interleaved in any order: one of them at
  most dispatches an invocation, all are told the same result, and none waits for another.
\<close>

subsection \<open>Every call keeps its promise\<close>

lemma meets_row: "journal_ok t \<Longrightarrow> jr.meets (\<lambda>_ _. True) (reconcile_row message d row) t"
proof -
  assume ok: "journal_ok t"
  have "jr.meets (\<lambda>_ _. True) (reconcile_operation_dispatch ref CauseCancelled message d) t" for ref
    using jr.meets_weaken [OF meets_reconcile_operation [OF ok] ok, where R = "\<lambda>_ _. True"] by simp
  moreover have "jr.meets (\<lambda>_ _. True) (reconcile_tool_dispatch ref CauseCancelled message d) t" for ref
    using jr.meets_weaken [OF meets_reconcile_tool_dispatch ok, where R = "\<lambda>_ _. True"] by simp
  ultimately show ?thesis
    by (simp add: reconcile_row_def split: stored_request.split sum.split)
qed

lemma meets_rows: "journal_ok t \<Longrightarrow> jr.meets (\<lambda>_ _. True) (reconcile_rows message d rows e) t"
proof (induction rows arbitrary: t e)
  case (Cons row rows)
  then show ?case
    unfolding reconcile_rows.simps by (intro jr.meets_chain_later [OF meets_row]) auto
qed simp

lemma meets_run:
  "journal_ok s \<Longrightarrow> jr.meets (keeps_promise s (CallReconcileRun run message d)) (program_of (CallReconcileRun run message d)) s"
proof -
  assume ok: "journal_ok s"
  have "jr.meets (\<lambda>_ _. True) (reconcile_run_invocations run message d) s"
    unfolding reconcile_run_invocations_def by (auto intro!: jr.meets_query meets_rows)
  then show "jr.meets (keeps_promise s (CallReconcileRun run message d)) (program_of (CallReconcileRun run message d)) s"
    unfolding program_of.simps jr.meets_answering
  proof (rule jr.meets_weaken [OF _ ok])
    fix r :: "mcp_error + unit" and t
    show "keeps_promise s (CallReconcileRun run message d) (map_sum (\<lambda>e. e) (\<lambda>_. RunReconciled) r) t"
      by (cases r) simp_all
  qed
qed

lemma meets_call:
  assumes "journal_ok s" and "call_ok call"
  shows "jr.meets (keeps_promise s call) (program_of call) s"
proof (cases call)
  case (CallClaimTool ref t t')
  with assms show ?thesis using meets_claim_tool by simp
qed (use assms(1) in \<open>simp_all only: meets_authority meets_prepare_operation meets_claim_operation meets_read_operation
    meets_settle_operation meets_reconcile_operation meets_prepare_tool meets_read_tool meets_settle_tool
    meets_mark_ambiguous meets_reconcile_tool meets_run\<close>)

subsection \<open>Only claims close an invocation\<close>

lemma wins_map_sum: "(\<And>a. wins (Inr (f a)) = None) \<Longrightarrow> wins (map_sum (\<lambda>e. e) f r) = None"
  by (cases r) simp_all

lemma operation_transition_keeps_open:
  assumes ok: "journal_ok db" and move: "transition_operation ref f r from_status db = Inr (Some (u, db'))"
    and "undispatched db x"
  shows "undispatched db' x"
proof -
  obtain i a where "read_rows (of_id ref) db = Some (i, a)"
    "replaces (of_id ref) (settle_row (op_result_status r) (GeneralResult r) (instant (or_completed r)) i,
        settle_attempt_row (op_result_status r) (instant (or_completed r)) a) db db'"
    using ok move unfolding transition_operation_def Let_def
    by (elim move_rows_effect [rotated, where x = "of_id ref" and n = "of_number ref"])
      (auto simp: journal_ok_def operation_hit_def operation_attempt_hit_def settle_row_def
        settle_attempt_row_def attempt_key_def)
  with assms(3) show ?thesis
    by (cases "x = of_id ref") (auto simp: undispatched_def replaces_def settle_attempt_row_def)
qed

lemma tool_transition_keeps_open:
  assumes ok: "journal_ok db" and move: "transition_tool ref r from_status db = Inr (Some (u, db'))"
    and "undispatched db x"
  shows "undispatched db' x"
proof -
  obtain i a where "read_rows (tf_id ref) db = Some (i, a)"
    "replaces (tf_id ref) (settle_row (tr_status r) (ToolResult r) (instant (tr_completed r)) i,
        settle_attempt_row (tr_status r) (instant (tr_completed r)) a) db db'"
    using ok move unfolding transition_tool_def Let_def
    by (elim move_rows_effect [rotated, where x = "tf_id ref" and n = "tf_number ref"])
      (auto simp: journal_ok_def tool_hit_def tool_attempt_hit_def settle_row_def
        settle_attempt_row_def attempt_key_def)
  with assms(3) show ?thesis
    by (cases "x = tf_id ref") (auto simp: undispatched_def replaces_def settle_attempt_row_def)
qed

lemma insert_rows_keeps_open:
  assumes "journal_ok db" and "insert_rows i a f db = Inr (Some (r, db'))"
    and "at_invocation a = iv_id i" and "at_number a = iv_attempt i" and "at_dispatched a = None" and "undispatched db x"
  shows "undispatched db' x"
  using insert_rows_effect(2) [OF _ assms(2-4)] assms(1,5,6)
  by (cases "x = iv_id i") (auto simp: journal_ok_def undispatched_def replaces_def)

lemma authority_keeps_open:
  "journal_ok db \<Longrightarrow> insert_authority key a db = Inr (Some (r, db')) \<Longrightarrow> undispatched db x \<Longrightarrow> undispatched db' x"
  by (simp add: undispatched_def authority_inserted)

lemma open_after_reconcile_rounds: "cl.closes_none (reconcile_operation_rounds n ref cause message d p)"
proof (induction n arbitrary: p)
  case (Suc n)
  show ?case
    by (auto simp: Let_def intro!: cl.closes_none_write_if cl.closes_none_query Suc.IH
        elim: operation_transition_keeps_open split: sum.splits)
qed simp

lemma open_after_tool_rounds: "cl.closes_none (reconcile_tool_rounds n ref cause message d p)"
proof (induction n arbitrary: p)
  case (Suc n)
  show ?case
    by (auto simp: Let_def intro!: cl.closes_none_write_if cl.closes_none_query Suc.IH
        elim: tool_transition_keeps_open split: sum.splits)
qed simp

lemma open_after_reconcile:
  "cl.closes_none (reconcile_operation_dispatch ref cause message d)"
  "cl.closes_none (reconcile_tool_dispatch tref cause message d)"
  unfolding reconcile_operation_dispatch_def reconcile_tool_dispatch_def
  by (auto intro!: cl.closes_none_query open_after_reconcile_rounds open_after_tool_rounds)

lemma open_after_rows: "cl.closes_none (reconcile_rows message d rows e)"
proof (induction rows arbitrary: e)
  case (Cons row rows)
  have "cl.closes_none (reconcile_row message d row)"
    by (simp add: reconcile_row_def open_after_reconcile split: stored_request.split sum.split)
  then show ?case by (simp add: cl.closes_none_chain Cons.IH)
qed simp

lemma open_after_run: "cl.closes_none (reconcile_run_invocations run message d)"
  unfolding reconcile_run_invocations_def by (auto intro!: cl.closes_none_query open_after_rows)

lemma open_after_settle:
  "cl.closes_none (settle_operation_attempt ref f r)"
  "cl.closes_none (settle_tool_terminal tref q)"
  unfolding settle_operation_attempt_def settle_read_operation_def settle_tool_terminal_def
  by (auto intro!: cl.closes_none_query cl.closes_none_write_if
      elim: operation_transition_keeps_open tool_transition_keeps_open)

lemma open_after_replayed_claims:
  "cl.closes_none (replay_operation_claim ref t p)" "cl.closes_none (replay_tool_claim tref t q)"
  unfolding replay_operation_claim_def replay_tool_claim_def Let_def
  by (auto intro!: cl.closes_none_query cl.closes_none_write_if
      elim: operation_transition_keeps_open tool_transition_keeps_open split: sum.splits)

lemma open_after_prepare:
  "cl.closes_none (create_or_read_authority key auth)"
  "cl.closes_none (prepare_operation p keys)" "cl.closes_none (prepare_invocation tp keys)"
  unfolding create_or_read_authority_def prepare_operation_def prepare_invocation_def Let_def
  by (auto intro!: cl.closes_none_query cl.closes_none_write_if split: sum.splits
      elim: authority_keeps_open insert_rows_keeps_open simp: new_invocation_def new_attempt_def)

definition is_claim :: "call \<Rightarrow> bool" where
  "is_claim call = (case call of CallClaimOperation _ _ _ \<Rightarrow> True | CallClaimTool _ _ _ \<Rightarrow> True | _ \<Rightarrow> False)"

lemma open_after_call: "\<not> is_claim call \<Longrightarrow> cl.closes_none (program_of call)"
  by (cases call)
    (auto simp: is_claim_def open_after_prepare open_after_reconcile open_after_run open_after_settle
      get_operation_for_dispatch_def get_invocation_for_dispatch_def settle_attempt_def
      mark_attempt_ambiguous_def intro!: cl.closes_none_query)


lemma program_wins_nothing:
  assumes "\<not> is_claim call"
  shows "cl.contends wins (program_of call)" and "cl.loses wins (program_of call)"
  using assms by (cases call; simp add: wins_map_sum cl.contends_nothing cl.loses_nothing is_claim_def)+

lemma claim_replay_wins [simp]: "wins (Inr (ClaimedOperation x (claim_replay r))) = None"
  by (simp add: claim_replay_def split: op_outcome.split)

lemma claim_replay_outcome_wins: "wins (map_sum (\<lambda>e. e) (ClaimedTool x) (claim_replay_outcome p)) = None"
  by (simp add: claim_replay_outcome_def bind_result_def split: sum.split)

lemma replayed_operation_claim_contends:
  defines "w \<equiv> \<lambda>x r. wins (map_sum (\<lambda>e. e) (ClaimedOperation x) r)"
  shows "cl.contends (w x) (replay_operation_claim ref t p) \<and> cl.loses (w x) (replay_operation_claim ref t p)"
proof -
  have outcome: "w x (bind_result r (\<lambda>r. Inr (claim_replay r))) = None" for r
    by (cases r) (simp_all add: w_def)
  have error: "w x (Inl e) = None" "w x (Inr (ClaimAmbiguous r)) = None" for e r by (simp_all add: w_def)
  have "cl.contends (w x) (write_if f (\<lambda>_. ClaimAmbiguous r)
      (query g (\<lambda>q. Answer (bind_result (h q) (\<lambda>r. Inr (claim_replay r))))))"
    for f :: "journal \<Rightarrow> mcp_error + (unit \<times> journal) option"
      and g :: "journal \<Rightarrow> mcp_error + parsed_operation" and h r
    by (intro cl.contends_write_if cl.contends_query conjI) (simp_all add: outcome error)
  then show ?thesis by (simp add: replay_operation_claim_def Let_def outcome error split: sum.split)
qed

lemma replayed_tool_claim_contends:
  defines "w \<equiv> \<lambda>x r. wins (map_sum (\<lambda>e. e) (ClaimedTool x) r)"
  shows "cl.contends (w x) (replay_tool_claim ref t p) \<and> cl.loses (w x) (replay_tool_claim ref t p)"
proof -
  have outcome: "w x (claim_replay_outcome q) = None" for q
    unfolding w_def by (rule claim_replay_outcome_wins)
  have error: "w x (Inl e) = None" "w x (Inr (ClaimAmbiguous r)) = None" for e r by (simp_all add: w_def)
  have "cl.contends (w x) (write_if f (\<lambda>_. ClaimAmbiguous r) (query g (\<lambda>q. Answer (claim_replay_outcome q))))"
    for f :: "journal \<Rightarrow> mcp_error + (unit \<times> journal) option"
      and g :: "journal \<Rightarrow> mcp_error + parsed_invocation" and r
    by (intro cl.contends_write_if cl.contends_query conjI) (simp_all add: outcome error)
  then show ?thesis by (simp add: replay_tool_claim_def Let_def outcome)
qed

text \<open>A claim dispatches the invocation in the statement that answers it.\<close>

lemma claim_contends:
  assumes "call_ok call" and "is_claim call"
  shows "cl.contends wins (program_of call) \<and> cl.loses wins (program_of call) \<and> cl.accounts wins (program_of call)"
proof (cases call)
  case (CallClaimOperation c t t')
  let ?ref = "pl_ref (dc_plan c)" and ?f = "map_option rr_fence (dc_runtime c)"
  let ?w = "\<lambda>r. wins (map_sum (\<lambda>e. e) (ClaimedOperation (of_id ?ref)) r)"
  let ?missed = "query (require_current_operation ?ref) (replay_operation_claim ?ref t')"
  have written: "undispatched s (of_id ?ref) \<and> \<not> undispatched u (of_id ?ref)
      \<and> (x \<noteq> of_id ?ref \<longrightarrow> undispatched s x \<longrightarrow> undispatched u x)"
    if "claim_ok c" "journal_ok s" "claim_operation_rows ?ref ?f t s = Inr (Some (y, u))" for s u x y
  proof -
    have f: "?f \<noteq> None \<longleftrightarrow> of_destination ?ref = McpActivity" "\<forall>g \<in> set_option ?f. fence_ok g"
      using that(1) by (auto simp: claim_ok_def split: destination.splits option.splits prod.splits)
    from operation_claim_written [OF that(2,3) f, of x] show ?thesis by simp
  qed
  have missed: "cl.contends ?w ?missed" "cl.loses ?w ?missed"
    using replayed_operation_claim_contends by (auto intro!: cl.contends_query)
  have "cl.contends ?w (claim_operation_attempt c t t')"
    using missed written by (auto simp: claim_operation_attempt_def Let_def intro!: cl.contends_write_if)
  moreover have "cl.accounts ?w (claim_operation_attempt c t t')"
    using written by (auto simp: claim_operation_attempt_def Let_def intro!: cl.accounts_write_if cl.accounts_query
        cl.closes_none_accounts [OF open_after_replayed_claims(1)]) metis
  moreover have "cl.loses ?w (claim_operation_attempt c t t')" by (simp add: claim_operation_attempt_def Let_def)
  ultimately show ?thesis by (simp add: CallClaimOperation)
next
  case (CallClaimTool ref t t')
  let ?w = "\<lambda>r. wins (map_sum (\<lambda>e. e) (ClaimedTool (tf_id ref)) r)"
  let ?missed = "query (require_current_invocation ref) (replay_tool_claim ref t')"
  have dest: "tf_destination ref = ComponentActivity" using assms(1) CallClaimTool by simp
  have missed: "cl.contends ?w ?missed" "cl.loses ?w ?missed"
    using replayed_tool_claim_contends by (auto intro!: cl.contends_query)
  have "cl.contends ?w (claim_attempt ref t t')"
    using missed tool_claim_written [OF _ _ dest]
    by (auto simp: claim_attempt_def intro!: cl.contends_write_if)
  moreover have "cl.accounts ?w (claim_attempt ref t t')"
    using tool_claim_written [OF _ _ dest]
    by (auto simp: claim_attempt_def intro!: cl.accounts_write_if cl.accounts_query
        cl.closes_none_accounts [OF open_after_replayed_claims(2)]) metis
  moreover have "cl.loses ?w (claim_attempt ref t t')" by (simp add: claim_attempt_def)
  ultimately show ?thesis by (simp add: CallClaimTool)
qed (use assms(2) in \<open>simp_all add: is_claim_def\<close>)


lemma call_claims:
  assumes "call_ok call"
  shows "cl.contends wins (program_of call)" and "cl.loses wins (program_of call)" and "cl.accounts wins (program_of call)"
proof -
  have "cl.accounts wins (program_of call)" if "\<not> is_claim call"
    by (rule cl.closes_none_accounts [OF open_after_call [OF that]])
  with claim_contends [OF assms] program_wins_nothing [of call]
  show "cl.contends wins (program_of call)" "cl.loses wins (program_of call)" "cl.accounts wins (program_of call)"
    by blast+
qed

subsection \<open>How many statements a call takes\<close>

lemma operation_rounds_within: "2 * n \<le> k \<Longrightarrow> answers_within (reconcile_operation_rounds n ref cause message d p) k"
proof (induction n arbitrary: p k)
  case (Suc n)
  then have k: "0 < k" "0 < k - 1" "2 * n \<le> k - 1 - 1" by simp_all
  show ?case
    by (auto simp: Let_def intro!: answers_within_write_if answers_within_query Suc.IH k split: sum.split)
qed simp

lemma tool_rounds_within: "2 * n \<le> k \<Longrightarrow> answers_within (reconcile_tool_rounds n ref cause message d p) k"
proof (induction n arbitrary: p k)
  case (Suc n)
  then have k: "0 < k" "0 < k - 1" "2 * n \<le> k - 1 - 1" by simp_all
  show ?case
    by (auto simp: Let_def intro!: answers_within_write_if answers_within_query Suc.IH k split: sum.split)
qed simp

lemma call_within:
  assumes "\<And>run message d. call \<noteq> CallReconcileRun run message d" and "5 \<le> k"
  shows "answers_within (program_of call) k"
proof (cases call)
  case (CallReconcileRun run message d)
  with assms(1) show ?thesis by blast
qed (use assms(2) in \<open>auto simp: create_or_read_authority_def prepare_operation_def claim_operation_attempt_def
    get_operation_for_dispatch_def settle_operation_attempt_def settle_read_operation_def
    reconcile_operation_dispatch_def prepare_invocation_def claim_attempt_def get_invocation_for_dispatch_def
    settle_attempt_def mark_attempt_ambiguous_def settle_tool_terminal_def reconcile_tool_dispatch_def
    replay_operation_claim_def replay_tool_claim_def RECONCILIATION_ROUNDS_def Let_def
    intro!: answers_within_write_if answers_within_query operation_rounds_within tool_rounds_within split: sum.split\<close>)

subsection \<open>Any schedule of any calls\<close>

definition run_calls :: "nat list \<Rightarrow> journal \<Rightarrow> (nat \<Rightarrow> call) \<Rightarrow> journal \<times> (journal, mcp_error + answer) calls" where
  "run_calls sched s calls = run_schedule sched (s, \<lambda>i. program_of (calls i))"

definition claimed_by :: "journal \<times> (journal, mcp_error + answer) calls \<Rightarrow> nat \<Rightarrow> string \<Rightarrow> bool" where
  "claimed_by c i x \<longleftrightarrow> (\<exists>r \<in> set_option (answer_of c i). wins r = Some x)"

lemma run_calls_keep:
  assumes "journal_ok s" and "\<forall>i. call_ok (calls i)"
  shows "journal_ok (fst (run_calls sched s calls))" and "evolves s (fst (run_calls sched s calls))"
    and "answer_of (run_calls sched s calls) i = Some r \<Longrightarrow> keeps_promise s (calls i) r (fst (run_calls sched s calls))"
proof -
  note meets = meets_call [OF assms(1)] and ok = assms(2) [rule_format]
  show "journal_ok (fst (run_calls sched s calls))" "evolves s (fst (run_calls sched s calls))"
    using jr.schedule_meets [where Q = "\<lambda>i. keeps_promise s (calls i)" and c = "(s, \<lambda>i. program_of (calls i))"]
      keeps_promise_stable assms(1) meets ok by (simp_all add: run_calls_def)
  show "keeps_promise s (calls i) r (fst (run_calls sched s calls))"
    if "answer_of (run_calls sched s calls) i = Some r"
    using jr.answers_meet [where Q = "\<lambda>i. keeps_promise s (calls i)" and ps = "\<lambda>i. program_of (calls i)"]
      keeps_promise_stable assms(1) meets ok that by (simp add: run_calls_def)
qed

lemma call_meets_True:
  assumes "journal_ok s" and "call_ok call" shows "jr.meets (\<lambda>_ _. True) (program_of call) s"
  by (rule jr.meets_weaken [OF meets_call [OF assms] assms(1)]) simp

lemma claims_settled:
  assumes "journal_ok s" and "\<forall>i. call_ok (calls i)"
  shows "cl.settled_claims wins (run_calls sched s calls)"
  unfolding run_calls_def
  by (rule cl.one_claim_each) (use assms call_meets_True call_claims in auto)

lemma recorded_unique: "recorded x r db \<Longrightarrow> recorded x q db \<Longrightarrow> r = q"
  by (auto simp: recorded_def)

lemma dispatched_under_unique: "dispatched_under x f db \<Longrightarrow> dispatched_under x g db \<Longrightarrow> f = g"
  by (auto simp: dispatched_under_def)

lemma refers_unique:
  assumes "refers p db" and "refers q db" and "of_id p = of_id q" shows "p = q"
proof -
  obtain i a where "ref_columns p i a" "ref_columns q i a"
    using assms by (auto simp: refers_def)
  then show ?thesis by (auto simp: ref_columns_def intro!: op_ref.equality)
qed

lemma recorded_tool_recorded:
  assumes "journal_ok db" and "recorded_tool x r db" shows "\<exists>q. project_tool_result r = Inr q \<and> recorded x q db"
proof -
  obtain i a where rows: "read_rows x db = Some (i, a)" "iv_result i = Some (ToolResult r)"
    using assms(2) by (auto simp: recorded_tool_def)
  from journal_ok_rows [OF assms(1) rows(1)] rows(2) obtain q where "parse_op_result (ToolResult r) = Inr q"
    by (auto simp: sound_rows_def dest!: sound_state_result)
  with rows show ?thesis by (auto simp: recorded_def parse_op_result_def)
qed

lemma result_after_dispatch:
  assumes "journal_ok db" and "recorded x r db" and "after_dispatch (or_outcome r)"
  shows "\<not> undispatched db x"
proof -
  obtain i a stored where rows: "read_rows x db = Some (i, a)" "iv_result i = Some stored" "parse_op_result stored = Inr r"
    using assms(2) by (auto simp: recorded_def)
  from journal_ok_rows [OF assms(1) rows(1)] rows(2,3) assms(3) have "at_dispatched a \<noteq> None"
    by (auto simp: sound_rows_def dest!: sound_state_result)
  with rows(1) show ?thesis by (auto simp: undispatched_def)
qed

text \<open>The result an answer tells, in the form of an operation's.\<close>

definition from_tool :: "string \<Rightarrow> tool_result \<Rightarrow> (string \<times> op_result) option" where
  "from_tool x r = (case project_tool_result r of Inl _ \<Rightarrow> None | Inr q \<Rightarrow> Some (x, q))"

fun told :: "mcp_error + answer \<Rightarrow> (string \<times> op_result) option" where
  "told (Inr (PreparedOperation x (TerminalOutcome r))) = Some (x, r)"
| "told (Inr (ClaimedOperation x (ClaimTerminal r))) = Some (x, r)"
| "told (Inr (ClaimedOperation x (ClaimAmbiguous r))) = Some (x, r)"
| "told (Inr (OperationView x v)) = map_option (Pair x) (dv_result v)"
| "told (Inr (OperationResult x r)) = Some (x, r)"
| "told (Inr (PreparedTool x (TerminalOutcome r))) = from_tool x r"
| "told (Inr (ClaimedTool x (ClaimTerminal r))) = from_tool x r"
| "told (Inr (ClaimedTool x (ClaimAmbiguous r))) = from_tool x r"
| "told (Inr (ToolView x v)) = Option.bind (tv_result v) (from_tool x)"
| "told (Inr (ToolResultIs x r)) = from_tool x r"
| "told _ = None"

lemma told_recorded:
  assumes "journal_ok db" and "keeps_promise s call r db" and "told r = Some (x, q)"
  shows "recorded x q db"
proof -
  have tool: "recorded x q db" if "from_tool y t = Some (x, q)" "recorded_tool y t db" for y t
    using that recorded_tool_recorded [OF assms(1) that(2)]
    by (auto simp: from_tool_def split: sum.splits)
  show ?thesis
    using assms(2,3) tool
    by (cases r rule: told.cases) (auto simp: Option.bind_eq_Some_conv)
qed

end
