(* ===== verification/Invocation_Trial.thy ===== *)
theory Invocation_Trial
  imports Invocation_Schedules
begin

section \<open>A run of the invocation journal\<close>

text \<open>
  One resource is read: authority is stored twice and the operation prepared twice, one dispatcher
  claims it and settles it, another comes too late, a reader looks at it and the run is cancelled.
  The journal after each write is given, so that the statements can be evaluated one by one.
\<close>

definition trial_grant :: capability_grant where
  "trial_grant = \<lparr>cg_id = ''g'', cg_organization = Some ''o'', cg_subject = RunSubject ''r'',
     cg_sources = [(''src'', AllTools)], cg_created = to_iso 1\<rparr>"

definition trial_binding :: runtime_binding where
  "trial_binding = \<lparr>rb_key = \<lparr>rk_source = ''src'', rk_transport = ''http'', rk_config = ''c'', rk_organization = Some ''o'',
       rk_principal = ''p'', rk_credential = None, rk_credential_generation = None\<rparr>,
     rb_era = ''e'', rb_version = ''1'', rb_fingerprint = ''f''\<rparr>"

definition trial_snapshot :: snapshot where
  "trial_snapshot = \<lparr>sn_id = ''s'', sn_scope = RunScope (Some ''o'') ''r'' ''g'' None, sn_config = ''c'',
     sn_tools = [\<lparr>td_name = ''t'', td_description = None, td_schema = JNull,
       td_source = McpSource ''src'' ''t'' ''f'', td_effects = UnknownEffects, td_retry = PreDispatchOnly\<rparr>],
     sn_resources = [(''src'', ''u'')], sn_templates = [], sn_prompts = [], sn_created = to_iso 1,
     sn_bindings = Some [(''src'', trial_binding)]\<rparr>"

definition trial_entry :: op_entry where
  "trial_entry = \<lparr>oe_kind = KindResource, oe_target = ''u'', oe_source = ''src'', oe_destination = McpActivity,
     oe_retry = ReviewedIdempotent\<rparr>"

definition trial_manifest :: manifest where
  "trial_manifest = \<lparr>mf_snapshot = ''s'', mf_grant = ''g'', mf_entries = EntriesV2
     [trial_entry, \<lparr>oe_kind = KindTool, oe_target = ''t'', oe_source = ''src'', oe_destination = McpActivity,
        oe_retry = PreDispatchOnly\<rparr>]\<rparr>"

definition trial_hash :: string where
  "trial_hash = replicate 64 CHR ''a''"

definition trial_authority :: stored_authority where
  "trial_authority = \<lparr>sa_grant = trial_grant, sa_snapshot = trial_snapshot, sa_manifest = trial_manifest\<rparr>"

definition trial_request :: op_request where
  "trial_request = \<lparr>rq_id = ''x'', rq_scope = RunScope (Some ''o'') ''r'' ''g'' None, rq_snapshot = ''s'',
     rq_source = ''src'', rq_target = ''u'', rq_operation = ResourceRead ''u'', rq_requested = to_iso 2,
     rq_deadline = to_iso 9\<rparr>"

definition trial_preparation :: preparation where
  "trial_preparation = \<lparr>pp_request = trial_request, pp_operation = ResourceRead ''u'', pp_hash = trial_hash,
     pp_entry = trial_entry, pp_binding = Some trial_binding, pp_manifest = trial_manifest\<rparr>"

definition trial_ref :: op_ref where
  "trial_ref = \<lparr>of_id = ''x'', of_attempt = ''a'', of_number = 1, of_snapshot = ''s'', of_grant = ''g'',
     of_kind = KindResource, of_target = ''u'', of_tool = None, of_source = ''src'', of_destination = McpActivity,
     of_retry = ReviewedIdempotent, of_prepared = to_iso 3\<rparr>"

definition trial_fence :: "string \<Rightarrow> fence" where
  "trial_fence owner = \<lparr>fe_runtime = ''rt'', fe_owner = owner, fe_epoch = ''ep'', fe_generation = 1\<rparr>"

definition trial_claim :: "string \<Rightarrow> dispatch_claim" where
  "trial_claim owner = \<lparr>dc_plan = \<lparr>pl_ref = trial_ref, pl_entry = trial_entry, pl_operation = ResourceRead ''u'',
       pl_requested = to_iso 2, pl_deadline = to_iso 9, pl_binding = Some trial_binding\<rparr>,
     dc_runtime = Some \<lparr>rr_fence = trial_fence owner, rr_expires = to_iso 9, rr_era = ''e'', rr_version = ''1'',
       rr_address = ''ad'', rr_fingerprint = ''f''\<rparr>\<rparr>"

definition trial_result :: op_result where
  "trial_result = \<lparr>or_id = ''x'', or_outcome = OpCompleted JNull, or_completed = to_iso 6\<rparr>"

definition trial_plan :: plan where
  "trial_plan = dc_plan (trial_claim ''w'')"

text \<open>
  Calls 0 and 1 store authority, 2 and 3 prepare, 4 and 5 claim, 6 settles, 7 reads, 8 reconciles and
  all others cancel the run.
\<close>

definition trial_calls :: "nat \<Rightarrow> call" where
  "trial_calls i =
     (if i \<le> 1 then CallAuthority trial_hash trial_authority
      else if i = 2 then CallPrepareOperation trial_preparation \<lparr>rk_attempt_id = ''a'', rk_now = 3\<rparr>
      else if i = 3 then CallPrepareOperation trial_preparation \<lparr>rk_attempt_id = ''b'', rk_now = 4\<rparr>
      else if i = 4 then CallClaimOperation (trial_claim ''w'') 5 5
      else if i = 5 then CallClaimOperation (trial_claim ''v'') 7 7
      else if i = 6 then CallSettleOperation trial_ref (Some (trial_fence ''w'')) trial_result
      else if i = 7 then CallReadOperation trial_ref
      else if i = 8 then CallReconcileOperation trial_ref CauseCancelled ''stop'' (to_iso 8)
      else CallReconcileRun ''r'' ''stop'' (to_iso 8))"

definition empty_journal :: journal where
  "empty_journal = \<lparr>jn_grants = [], jn_snapshots = [], jn_invocations = [], jn_attempts = []\<rparr>"

definition authorized_journal :: journal where
  "authorized_journal = empty_journal
     \<lparr>jn_grants := [\<lparr>gr_id = ''g'', gr_key = trial_hash, gr_organization = Some ''o'', gr_kind = SubjectRun,
         gr_subject = ''r'', gr_grant = trial_grant, gr_created = 1\<rparr>],
      jn_snapshots := [\<lparr>sr_id = ''s'', sr_grant = ''g'', sr_config = ''c'', sr_snapshot = trial_snapshot,
         sr_manifest = trial_manifest, sr_created = 1\<rparr>]\<rparr>"

definition trial_invocation :: "int \<Rightarrow> invocation" where
  "trial_invocation t =
     new_invocation ''x'' (RunScope (Some ''o'') ''r'' ''g'' None) ''s'' KindResource ''u'' trial_hash
       (GeneralRequest trial_request) t"

definition trial_attempt :: "string \<Rightarrow> int \<Rightarrow> inv_attempt" where
  "trial_attempt a t = new_attempt a ''x'' ''src'' McpActivity ReviewedIdempotent t"

definition prepared_journal :: journal where
  "prepared_journal = authorized_journal
     \<lparr>jn_invocations := [trial_invocation 3], jn_attempts := [trial_attempt ''a'' 3]\<rparr>"

definition dispatched_attempt :: inv_attempt where
  "dispatched_attempt = (trial_attempt ''a'' 3)
     \<lparr>at_status := StDispatched, at_runtime := Some ''rt'', at_owner := Some ''w'', at_epoch := Some ''ep'',
      at_generation := Some 1, at_dispatched := Some 5\<rparr>"

definition dispatched_journal :: journal where
  "dispatched_journal = prepared_journal
     \<lparr>jn_invocations := [(trial_invocation 3)\<lparr>iv_status := StDispatched, iv_updated := 5\<rparr>],
      jn_attempts := [dispatched_attempt]\<rparr>"

definition settled_journal :: journal where
  "settled_journal = dispatched_journal
     \<lparr>jn_invocations := [settle_row StCompleted (GeneralResult trial_result) 6
         ((trial_invocation 3)\<lparr>iv_status := StDispatched, iv_updated := 5\<rparr>)],
      jn_attempts := [settle_attempt_row StCompleted 6 dispatched_attempt]\<rparr>"

lemma undispatched_eval:
  "undispatched db x = (case read_rows x db of None \<Rightarrow> True | Some (i, a) \<Rightarrow> at_dispatched a = None)"
  by (auto simp: undispatched_def split: option.split)

lemma empty_journal_ok [simp]: "journal_ok empty_journal"
  by (simp add: journal_ok_def keys_ok_def empty_journal_def)

lemma trial_calls_ok [simp]: "\<forall>i. call_ok (trial_calls i)"
  by (simp add: trial_calls_def)

subsection \<open>Each statement\<close>

lemma trial_authority_statements:
  "is_sha256 trial_hash" "parse_durable_authority trial_authority = Inr trial_authority"
  "insert_authority trial_hash trial_authority empty_journal = Inr (Some (trial_authority, authorized_journal))"
  "insert_authority trial_hash trial_authority authorized_journal = Inr None"
  "read_authority_by_key trial_hash authorized_journal = Inr (Some trial_authority)"
  by code_simp+

lemma trial_preparation_statements:
  "parse_operation_preparation trial_preparation = Inr ()"
  "insert_rows (trial_invocation 3) (trial_attempt ''a'' 3)
     (\<lambda>rows. bind_result (parse_stored_operation rows) (preparation_outcome trial_preparation)) authorized_journal
   = Inr (Some (PreparedOutcome trial_plan trial_manifest, prepared_journal))"
  "insert_rows (trial_invocation 4) (trial_attempt ''b'' 4)
     (\<lambda>rows. bind_result (parse_stored_operation rows) (preparation_outcome trial_preparation)) prepared_journal
   = Inr None"
  "bind_result (read_operation ''x'' prepared_journal)
     (\<lambda>p. map_sum (\<lambda>e. e) (PreparedOperation ''x'') (replay_operation_preparation trial_preparation p))
   = Inr (PreparedOperation ''x'' (PreparedOutcome trial_plan trial_manifest))"
  by code_simp+

lemma trial_claim_statements:
  "claim_ok (trial_claim ''w'')" "claim_ok (trial_claim ''v'')"
  "claim_operation_rows trial_ref (Some (trial_fence ''w'')) 5 prepared_journal = Inr (Some ((), dispatched_journal))"
  "claim_operation_rows trial_ref (Some (trial_fence ''v'')) 7 settled_journal = Inr None"
  "map_sum (\<lambda>e. e) (\<lambda>p. (iv_status (po_row p), require_operation_result p)) (require_current_operation trial_ref settled_journal)
   = Inr (StCompleted, Inr trial_result)"
  by code_simp+

lemma trial_settlement_statements:
  "op_ref_ok trial_ref" "fence_ok (trial_fence ''w'')" "op_result_ok trial_result"
  "map_sum (\<lambda>e. e) (\<lambda>p. iv_status (po_row p)) (require_fenced_operation trial_ref (Some (trial_fence ''w'')) dispatched_journal)
   = Inr StDispatched"
  "transition_operation trial_ref (Some (trial_fence ''w'')) trial_result StDispatched dispatched_journal
   = Inr (Some ((), settled_journal))"
  "rows_of_run ''r'' settled_journal = []"
  by code_simp+


subsection \<open>The programs of the calls\<close>

abbreviation "trial_program i \<equiv> program_of (trial_calls i)"

lemma trial_columns:
  "of_id trial_ref = ''x''" "pl_ref (dc_plan (trial_claim owner)) = trial_ref"
  "map_option rr_fence (dc_runtime (trial_claim owner)) = Some (trial_fence owner)" "or_id trial_result = ''x''"
  "rq_id (pp_request trial_preparation) = ''x''"
  by (simp_all add: trial_ref_def trial_claim_def trial_result_def trial_preparation_def trial_request_def)

lemma trial_new_rows:
  "new_invocation ''x'' (rq_scope (pp_request trial_preparation))
     (rq_snapshot (pp_request trial_preparation)) (oe_kind (pp_entry trial_preparation))
     (oe_target (pp_entry trial_preparation)) (pp_hash trial_preparation)
     (GeneralRequest (pp_request trial_preparation)) t = trial_invocation t"
  "new_attempt a ''x'' (oe_source (pp_entry trial_preparation))
     (oe_destination (pp_entry trial_preparation)) (oe_retry (pp_entry trial_preparation)) t = trial_attempt a t"
  by (simp_all add: trial_preparation_def trial_request_def trial_entry_def trial_invocation_def trial_attempt_def)

lemma trial_run_named: "trim ''r'' \<noteq> []"
  by code_simp

lemmas trial_program_simps = trial_calls_def trial_columns trial_new_rows answering_query answering_write_if
  trial_authority_statements(1,2) trial_preparation_statements(1) trial_claim_statements(1,2)
  trial_settlement_statements(1-3) create_or_read_authority_def prepare_operation_def
  claim_operation_attempt_def settle_operation_attempt_def reconcile_run_invocations_def Let_def

lemma trial_authority_program:
  "i \<le> 1 \<Longrightarrow> trial_program i =
     write_if (insert_authority trial_hash trial_authority) AuthorityIs
       (query (read_authority_by_key trial_hash) (\<lambda>existing. Answer (map_sum (\<lambda>e. e) AuthorityIs (case existing of
           None \<Rightarrow> Inl (Conflict ''MCP authority key was claimed without readable authority'')
         | Some stored \<Rightarrow>
             if semantic_authority_projection stored \<noteq> semantic_authority_projection trial_authority
             then Inl (Conflict ''MCP authority key was already used for different immutable authority'')
             else Inr stored))))"
  by (simp add: trial_program_simps)

lemma trial_preparation_programs:
  "trial_program 2 =
     write_if (insert_rows (trial_invocation 3) (trial_attempt ''a'' 3)
         (\<lambda>rows. bind_result (parse_stored_operation rows) (preparation_outcome trial_preparation)))
       (PreparedOperation ''x'')
       (query (read_operation ''x'') (\<lambda>p. Answer (map_sum (\<lambda>e. e) (PreparedOperation ''x'') (replay_operation_preparation trial_preparation p))))"
  "trial_program 3 =
     write_if (insert_rows (trial_invocation 4) (trial_attempt ''b'' 4)
         (\<lambda>rows. bind_result (parse_stored_operation rows) (preparation_outcome trial_preparation)))
       (PreparedOperation ''x'')
       (query (read_operation ''x'') (\<lambda>p. Answer (map_sum (\<lambda>e. e) (PreparedOperation ''x'') (replay_operation_preparation trial_preparation p))))"
  by (simp_all add: trial_program_simps)

lemma trial_claim_programs:
  "trial_program 4 =
     write_if (claim_operation_rows trial_ref (Some (trial_fence ''w'')) 5) (\<lambda>_. ClaimedOperation ''x'' Claimed)
       (query (require_current_operation trial_ref) (\<lambda>p. answering (ClaimedOperation ''x'') (replay_operation_claim trial_ref 5 p)))"
  "trial_program 5 =
     write_if (claim_operation_rows trial_ref (Some (trial_fence ''v'')) 7) (\<lambda>_. ClaimedOperation ''x'' Claimed)
       (query (require_current_operation trial_ref) (\<lambda>p. answering (ClaimedOperation ''x'') (replay_operation_claim trial_ref 7 p)))"
  by (simp_all add: trial_program_simps)

lemma trial_settlement_program:
  "trial_program 6 =
     query (require_fenced_operation trial_ref (Some (trial_fence ''w'')))
       (\<lambda>p. answering (OperationResult ''x'') (settle_read_operation trial_ref (Some (trial_fence ''w'')) trial_result p))"
  by (simp add: trial_program_simps)

lemma trial_cancel_program:
  "trial_program 9 =
     query (\<lambda>db. Inr (rows_of_run ''r'' db))
       (\<lambda>rows. answering (\<lambda>_. RunReconciled) (reconcile_rows ''stop'' (to_iso 8) rows None))"
  by (simp add: trial_program_simps trial_run_named)

lemma trial_view_program:
  "trial_program 7 = query (read_operation ''x'') (\<lambda>found. Answer (map_sum (\<lambda>e. e) (OperationView ''x'') (case found of
        None \<Rightarrow> Inl (Conflict ''MCP operation attempt was not found'')
      | Some existing \<Rightarrow>
          bind_result (assert_operation_reference existing trial_ref) (\<lambda>_.
          bind_result (prepared_operation_ref existing) (\<lambda>stored.
          bind_result (captured_fence (po_attempt existing)) (\<lambda>f.
            Inr \<lparr>dv_request = po_request existing, dv_ref = stored,
                 dv_status = iv_status (po_row existing), dv_result = po_result existing,
                 dv_fence = f\<rparr>))))))"
  by (simp add: trial_program_simps get_operation_for_dispatch_def)

definition trial_view :: dispatch_view where
  "trial_view = \<lparr>dv_request = trial_request, dv_ref = trial_ref, dv_status = StCompleted,
     dv_result = Some trial_result, dv_fence = Some (trial_fence ''w'')\<rparr>"

lemma trial_viewed:
  "bind_result (read_operation ''x'' settled_journal) (\<lambda>found. map_sum (\<lambda>e. e) (OperationView ''x'') (case found of
        None \<Rightarrow> Inl (Conflict ''MCP operation attempt was not found'')
      | Some existing \<Rightarrow>
          bind_result (assert_operation_reference existing trial_ref) (\<lambda>_.
          bind_result (prepared_operation_ref existing) (\<lambda>stored.
          bind_result (captured_fence (po_attempt existing)) (\<lambda>f.
            Inr \<lparr>dv_request = po_request existing, dv_ref = stored,
                 dv_status = iv_status (po_row existing), dv_result = po_result existing,
                 dv_fence = f\<rparr>)))))
   = Inr (OperationView ''x'' trial_view)"
  by code_simp

subsection \<open>The run\<close>

definition preparing :: "nat list" where
  "preparing = [0, 1, 1, 2, 3, 3]"

definition settling :: "nat list" where
  "settling = [4, 6, 6, 5, 5, 7, 9]"

abbreviation "prepared_calls \<equiv>
  (\<lambda>i. trial_program i)
    (0 := Answer (Inr (AuthorityIs trial_authority)), 1 := Answer (Inr (AuthorityIs trial_authority)),
     2 := Answer (Inr (PreparedOperation ''x'' (PreparedOutcome trial_plan trial_manifest))),
     3 := Answer (Inr (PreparedOperation ''x'' (PreparedOutcome trial_plan trial_manifest))))"

abbreviation "settled_calls \<equiv>
  prepared_calls
    (4 := Answer (Inr (ClaimedOperation ''x'' Claimed)), 6 := Answer (Inr (OperationResult ''x'' trial_result)),
     5 := Answer (Inr (ClaimedOperation ''x'' (ClaimTerminal trial_result))),
     7 := Answer (Inr (OperationView ''x'' trial_view)), 9 := Answer (Inr RunReconciled))"

lemma authority_steps:
  assumes "i \<le> 1" and "ps i = trial_program i"
  shows "advance i (empty_journal, ps) = (authorized_journal, ps(i := Answer (Inr (AuthorityIs trial_authority))))"
    and "advance i (advance i (authorized_journal, ps))
      = (authorized_journal, ps(i := Answer (Inr (AuthorityIs trial_authority))))"
  by (rule advance_written [where ps = ps and i = i, OF trans [OF assms(2) trial_authority_program [OF assms(1)]] trial_authority_statements(3)])
    (rule advance_missed_reading [where ps = ps and i = i, OF trans [OF assms(2) trial_authority_program [OF assms(1)]] trial_authority_statements(4)],
     simp add: trial_authority_statements)

lemma preparation_steps:
  "ps 2 = trial_program 2 \<Longrightarrow> advance 2 (authorized_journal, ps)
     = (prepared_journal, ps(2 := Answer (Inr (PreparedOperation ''x'' (PreparedOutcome trial_plan trial_manifest)))))"
  "ps 3 = trial_program 3 \<Longrightarrow> advance 3 (advance 3 (prepared_journal, ps))
     = (prepared_journal, ps(3 := Answer (Inr (PreparedOperation ''x'' (PreparedOutcome trial_plan trial_manifest)))))"
  by (rule advance_written [where ps = ps and i = 2, OF trans [OF _ trial_preparation_programs(1)] trial_preparation_statements(2)])
    (simp, rule advance_missed_reading [where ps = ps and i = 3, OF trans [OF _ trial_preparation_programs(2)] trial_preparation_statements(3,4)])

lemma claim_steps:
  "ps 4 = trial_program 4 \<Longrightarrow>
     advance 4 (prepared_journal, ps) = (dispatched_journal, ps(4 := Answer (Inr (ClaimedOperation ''x'' Claimed))))"
  "ps 5 = trial_program 5 \<Longrightarrow> advance 5 (advance 5 (settled_journal, ps))
     = (settled_journal, ps(5 := Answer (Inr (ClaimedOperation ''x'' (ClaimTerminal trial_result)))))"
proof -
  show "advance 4 (prepared_journal, ps) = (dispatched_journal, ps(4 := Answer (Inr (ClaimedOperation ''x'' Claimed))))"
    if "ps 4 = trial_program 4"
    by (rule advance_written [where ps = ps and i = 4, OF trans [OF that trial_claim_programs(1)] trial_claim_statements(3)])
  obtain p where p: "require_current_operation trial_ref settled_journal = Inr p"
    "iv_status (po_row p) = StCompleted" "require_operation_result p = Inr trial_result"
    using trial_claim_statements(5) by (auto simp: map_sum_is_Inr)
  have replay: "replay_operation_claim trial_ref 7 p = Answer (Inr (ClaimTerminal trial_result))"
    using p by (simp add: replay_operation_claim_def terminal_status_def claim_replay_def trial_result_def)
  assume ps: "ps 5 = trial_program 5"
  note missed = advance_missed [where ps = ps and i = 5, OF trans [OF ps trial_claim_programs(2)] trial_claim_statements(4)]
  show "advance 5 (advance 5 (settled_journal, ps))
      = (settled_journal, ps(5 := Answer (Inr (ClaimedOperation ''x'' (ClaimTerminal trial_result)))))"
    unfolding missed using p(1) replay by (simp add: advance_query)
qed

lemma settlement_steps:
  assumes "ps 6 = trial_program 6"
  shows "advance 6 (advance 6 (dispatched_journal, ps))
    = (settled_journal, ps(6 := Answer (Inr (OperationResult ''x'' trial_result))))"
proof -
  obtain p where p: "require_fenced_operation trial_ref (Some (trial_fence ''w'')) dispatched_journal = Inr p"
    "iv_status (po_row p) = StDispatched"
    using trial_settlement_statements(4) by (auto simp: map_sum_is_Inr)
  note read = advance_query [where ps = ps and i = 6, OF trans [OF assms trial_settlement_program] p(1)]
  show ?thesis
    unfolding read using p(2) trial_settlement_statements(5)
    by (simp add: settle_read_operation_def answering_write_if advance_written)
qed

lemma last_steps:
  "ps 7 = trial_program 7 \<Longrightarrow>
     advance 7 (settled_journal, ps) = (settled_journal, ps(7 := Answer (Inr (OperationView ''x'' trial_view))))"
  "ps 9 = trial_program 9 \<Longrightarrow> advance 9 (settled_journal, ps) = (settled_journal, ps(9 := Answer (Inr RunReconciled)))"
proof -
  show "advance 7 (settled_journal, ps) = (settled_journal, ps(7 := Answer (Inr (OperationView ''x'' trial_view))))"
    if "ps 7 = trial_program 7"
    by (rule advance_reading [where ps = ps and i = 7, OF trans [OF that trial_view_program] trial_viewed])
  assume "ps 9 = trial_program 9"
  from advance_query [where ps = ps and i = 9, OF trans [OF this trial_cancel_program], of settled_journal "[]"]
  show "advance 9 (settled_journal, ps) = (settled_journal, ps(9 := Answer (Inr RunReconciled)))"
    by (simp add: trial_settlement_statements)
qed

lemma trial_prepares: "run_calls preparing empty_journal trial_calls = (prepared_journal, prepared_calls)"
  by (simp add: run_calls_def preparing_def authority_steps preparation_steps)

lemma trial_settles:
  "run_calls (preparing @ settling) empty_journal trial_calls = (settled_journal, settled_calls)"
proof -
  have "run_schedule settling (prepared_journal, prepared_calls) = (settled_journal, settled_calls)"
    by (simp add: settling_def claim_steps settlement_steps last_steps)
  with trial_prepares show ?thesis by (simp add: run_calls_def run_schedule_def)
qed

end
