(* ===== verification/Invocation_Guarantees.thy ===== *)
theory Invocation_Guarantees
  imports Invocation_Trial
begin

section \<open>What callers of the invocation journal may rely on\<close>

text \<open>
  The calls and the order of their statements are arbitrary throughout.  The witnesses are about the
  run of \<open>Invocation_Trial\<close>.
\<close>

lemma prepared_journal_ok: "journal_ok prepared_journal"
  using run_calls_keep(1) [OF empty_journal_ok trial_calls_ok, of preparing] by (simp add: trial_prepares)

lemma claimed_byI: "answer_of c i = Some a \<Longrightarrow> wins a = Some x \<Longrightarrow> claimed_by c i x"
  unfolding claimed_by_def by (metis option.set_intros)

lemma claimed_byE:
  assumes "claimed_by c i x" obtains a where "answer_of c i = Some a" and "wins a = Some x"
  using assms unfolding claimed_by_def by (metis elem_set)

lemma dispatched_was_claimed:
  assumes "journal_ok s" and "\<forall>i. call_ok (calls i)" and "undispatched s x"
    and "\<not> undispatched (fst (run_calls sched s calls)) x"
  shows "\<exists>i. claimed_by (run_calls sched s calls) i x"
proof -
  have "\<exists>i a. answer_of (run_calls sched s calls) i = Some a \<and> wins a = Some x"
    using cl.closed_was_claimed [of s "\<lambda>i. program_of (calls i)" wins x sched] assms
      call_meets_True call_claims(3)
    by (auto simp: run_calls_def)
  then show ?thesis by (blast intro: claimed_byI)
qed

subsection \<open>Dispatching\<close>

text \<open>
  C14. An invocation that was not dispatched before is dispatched in the end if and only if a claim was
  answered that its caller won, and then exactly one call was answered so.
\<close>

theorem one_call_dispatches:
  assumes "journal_ok s" and "\<forall>i. call_ok (calls i)" and "undispatched s x"
  shows "if undispatched (fst (run_calls sched s calls)) x
     then \<forall>i. \<not> claimed_by (run_calls sched s calls) i x
     else \<exists>!i. claimed_by (run_calls sched s calls) i x"
proof -
  let ?c = "run_calls sched s calls"
  note settled = claims_settled [OF assms(1,2), of sched, unfolded cl.settled_claims_def]
  have closed: "\<not> undispatched (fst ?c) x" and only: "j = i" if i: "claimed_by ?c i x" and j: "claimed_by ?c j x" for i j
  proof -
    obtain a b where a: "answer_of ?c i = Some a" "wins a = Some x" and b: "answer_of ?c j = Some b" "wins b = Some x"
      using i j by (blast elim: claimed_byE)
    show "\<not> undispatched (fst ?c) x" using settled a by blast
    show "j = i" using settled a b by blast
  qed
  from dispatched_was_claimed [OF assms, of sched] closed only show ?thesis by (metis (full_types))
qed

theorem one_call_dispatches_witness:
  "\<exists>!i. claimed_by (run_calls (preparing @ settling) empty_journal trial_calls) i ''x''"
proof -
  have "undispatched empty_journal ''x''" "\<not> undispatched settled_journal ''x''"
    unfolding undispatched_eval by code_simp+
  with one_call_dispatches [OF empty_journal_ok trial_calls_ok, of "''x''" "preparing @ settling"] show ?thesis
    by (simp add: trial_settles)
qed

text \<open>
  C15. Whoever is told a result of an invocation, by a claim, a settlement, a reconciliation, a
  preparation or a look at it, is told the same, in whatever form, and it is what is recorded.
\<close>

theorem results_agree:
  assumes "journal_ok s" and "\<forall>i. call_ok (calls i)"
    and "answer_of (run_calls sched s calls) i = Some a" and "told a = Some (x, q)"
    and "answer_of (run_calls sched s calls) j = Some b" and "told b = Some (x, r)"
  shows "q = r \<and> recorded x q (fst (run_calls sched s calls))"
proof -
  note ok = run_calls_keep(1) [OF assms(1,2)]
  have "recorded x q (fst (run_calls sched s calls))"
    by (rule told_recorded [OF ok run_calls_keep(3) [OF assms(1,2,3)] assms(4)])
  moreover have "recorded x r (fst (run_calls sched s calls))"
    by (rule told_recorded [OF ok run_calls_keep(3) [OF assms(1,2,5)] assms(6)])
  ultimately show ?thesis using recorded_unique by blast
qed

theorem results_agree_witness: "recorded ''x'' trial_result settled_journal"
  using results_agree [OF empty_journal_ok trial_calls_ok, of "preparing @ settling" 5 _ "''x''" trial_result 7 _ trial_result]
  by (simp add: trial_settles trial_view_def)

text \<open>
  C16. Only the fence under which an operation was dispatched settles it: a settlement is answered with
  a result only if its fence is the one of the claim that was won.
\<close>

theorem settled_under_the_claimed_fence:
  assumes "journal_ok s" and "\<forall>i. call_ok (calls i)"
    and "calls i = CallClaimOperation c t t'"
    and "answer_of (run_calls sched s calls) i = Some (Inr (ClaimedOperation x Claimed))"
    and "calls j = CallSettleOperation ref f r"
    and "answer_of (run_calls sched s calls) j = Some (Inr (OperationResult x q))"
  shows "f = map_option rr_fence (dc_runtime c)"
proof -
  have "dispatched_under x (map_option rr_fence (dc_runtime c)) (fst (run_calls sched s calls))"
    using run_calls_keep(3) [OF assms(1,2,4)] assms(3) by (simp add: claim_fence_def)
  moreover have "dispatched_under x f (fst (run_calls sched s calls))"
    using run_calls_keep(3) [OF assms(1,2,6)] assms(5) by (simp add: settled_under_def)
  ultimately show ?thesis using dispatched_under_unique by blast
qed

theorem settled_under_the_claimed_fence_witness:
  "\<exists>f r. trial_calls 6 = CallSettleOperation trial_ref f r
     \<and> answer_of (run_calls (preparing @ settling) empty_journal trial_calls) 6 = Some (Inr (OperationResult ''x'' r))
     \<and> f = map_option rr_fence (dc_runtime (trial_claim ''w''))"
proof (intro exI conjI)
  show call: "trial_calls 6 = CallSettleOperation trial_ref (Some (trial_fence ''w'')) trial_result"
    by (simp add: trial_calls_def)
  show answer: "answer_of (run_calls (preparing @ settling) empty_journal trial_calls) 6
      = Some (Inr (OperationResult ''x'' trial_result))" by (simp add: trial_settles)
  show "Some (trial_fence ''w'') = map_option rr_fence (dc_runtime (trial_claim ''w''))"
    by (rule settled_under_the_claimed_fence [OF empty_journal_ok trial_calls_ok _ _ call answer, of 4 _ 5 5])
      (simp_all add: trial_settles trial_calls_def [of 4])
qed

text \<open>
  C17. A result that presupposes that something was sent, a completion, an ambiguous outcome or a
  request for input, is only ever told of an invocation that one of the calls claimed.
\<close>

theorem effects_follow_a_claim:
  assumes "journal_ok s" and "\<forall>i. call_ok (calls i)" and "undispatched s x"
    and "answer_of (run_calls sched s calls) j = Some a" and "told a = Some (x, r)"
    and "after_dispatch (or_outcome r)"
  shows "\<exists>i. claimed_by (run_calls sched s calls) i x"
proof -
  have "recorded x r (fst (run_calls sched s calls))"
    by (rule told_recorded [OF run_calls_keep(1) [OF assms(1,2)] run_calls_keep(3) [OF assms(1,2,4)] assms(5)])
  then have "\<not> undispatched (fst (run_calls sched s calls)) x"
    by (rule result_after_dispatch [OF run_calls_keep(1) [OF assms(1,2)] _ assms(6)])
  then show ?thesis by (rule dispatched_was_claimed [OF assms(1-3)])
qed

theorem effects_follow_a_claim_witness:
  "\<exists>i. claimed_by (run_calls (preparing @ settling) empty_journal trial_calls) i ''x''"
proof -
  have "undispatched empty_journal ''x''" unfolding undispatched_eval by code_simp
  then show ?thesis
    by (rule effects_follow_a_claim [OF empty_journal_ok trial_calls_ok, of _ _ 6 "Inr (OperationResult ''x'' trial_result)" trial_result])
      (simp_all add: trial_settles, simp add: trial_result_def)
qed


subsection \<open>Answers\<close>





subsection \<open>What is stored\<close>



text \<open>
  C21. Preparing is idempotent: preparations of an invocation that are answered with a plan have the same
  request hash and are given references to the same attempt.
\<close>

theorem preparations_agree:
  assumes "journal_ok s" and "\<forall>i. call_ok (calls i)"
    and "calls i = CallPrepareOperation p keys"
    and "answer_of (run_calls sched s calls) i = Some (Inr (PreparedOperation x (PreparedOutcome plan m)))"
    and "calls j = CallPrepareOperation p' keys'"
    and "answer_of (run_calls sched s calls) j = Some (Inr (PreparedOperation x (PreparedOutcome plan' m')))"
  shows "pp_hash p = pp_hash p' \<and> pl_ref plan = pl_ref plan'"
proof -
  let ?t = "fst (run_calls sched s calls)"
  have first: "of_id (pl_ref plan) = x" "refers (pl_ref plan) ?t" "prepared_with x (pp_hash p) ?t"
    using run_calls_keep(3) [OF assms(1,2,4)] assms(3) by (simp_all add: call_hash_def)
  moreover have "of_id (pl_ref plan') = x" "refers (pl_ref plan') ?t" "prepared_with x (pp_hash p') ?t"
    using run_calls_keep(3) [OF assms(1,2,6)] assms(5) by (simp_all add: call_hash_def)
  ultimately show ?thesis using refers_unique by (auto simp: prepared_with_def)
qed

theorem preparations_agree_witness:
  "\<exists>plan plan' m m'.
     answer_of (run_calls preparing empty_journal trial_calls) 2
       = Some (Inr (PreparedOperation ''x'' (PreparedOutcome plan m)))
     \<and> answer_of (run_calls preparing empty_journal trial_calls) 3
       = Some (Inr (PreparedOperation ''x'' (PreparedOutcome plan' m')))
     \<and> pl_ref plan = pl_ref plan'"
proof -
  have answers: "answer_of (run_calls preparing empty_journal trial_calls) i
      = Some (Inr (PreparedOperation ''x'' (PreparedOutcome trial_plan trial_manifest)))" if "i = 2 \<or> i = 3" for i
    using that by (auto simp: trial_prepares)
  have "pl_ref trial_plan = pl_ref trial_plan"
    by (rule preparations_agree [OF empty_journal_ok trial_calls_ok _ answers _ answers, THEN conjunct2, of 2 _ _ 3])
      (simp_all add: trial_calls_def [of 2] trial_calls_def [of 3])
  with answers show ?thesis by blast
qed

text \<open>
  C22. The authority of a key is immutable: all who store authority under a key and are not refused get
  the same, which is what each of them asked for but for identifiers and times.
\<close>

theorem authorities_agree:
  assumes "journal_ok s" and "\<forall>i. call_ok (calls i)"
    and "calls i = CallAuthority key requested" and "answer_of (run_calls sched s calls) i = Some (Inr (AuthorityIs a))"
    and "calls j = CallAuthority key requested'" and "answer_of (run_calls sched s calls) j = Some (Inr (AuthorityIs b))"
  shows "a = b \<and> semantic_authority_projection a = semantic_authority_projection requested"
proof -
  let ?t = "fst (run_calls sched s calls)"
  have "authority_of key a ?t" "semantic_authority_projection a = semantic_authority_projection requested"
    using run_calls_keep(3) [OF assms(1,2,4)] assms(3) by (simp_all add: granted_by_def)
  moreover have "authority_of key b ?t"
    using run_calls_keep(3) [OF assms(1,2,6)] assms(5) by (simp add: granted_by_def)
  moreover have "keys_ok ?t" using run_calls_keep(1) [OF assms(1,2)] by (simp add: journal_ok_def)
  ultimately show ?thesis using authority_of_unique by blast
qed

theorem authorities_agree_witness:
  "\<exists>a b. answer_of (run_calls preparing empty_journal trial_calls) 0 = Some (Inr (AuthorityIs a))
     \<and> answer_of (run_calls preparing empty_journal trial_calls) 1 = Some (Inr (AuthorityIs b))
     \<and> a = b \<and> semantic_authority_projection a = semantic_authority_projection trial_authority"
proof -
  have answers: "answer_of (run_calls preparing empty_journal trial_calls) i = Some (Inr (AuthorityIs trial_authority))"
    if "i \<le> 1" for i using that by (auto simp: trial_prepares le_Suc_eq)
  have calls: "trial_calls i = CallAuthority trial_hash trial_authority" if "i \<le> 1" for i
    using that by (simp add: trial_calls_def)
  have "trial_authority = trial_authority
      \<and> semantic_authority_projection trial_authority = semantic_authority_projection trial_authority"
    by (rule authorities_agree [OF empty_journal_ok trial_calls_ok calls answers calls answers, of 0 1]) simp_all
  with answers [of 0] answers [of 1] show ?thesis by auto
qed

subsection \<open>What may be invoked at all\<close>

text \<open>
  C23. A request finds an entry in the manifest built from a snapshot and a grant if and only if it
  names both and the snapshot offers the operation and the grant allows its source, and for a tool
  also its name.
\<close>

theorem manifest_authorizes_what_is_granted:
  assumes "grant_ok g" and "build_invocation_manifest collation s g = Inr m" and "op_request_ok r"
  shows "(\<exists>e. resolve_operation_entry m r = Inr e) \<longleftrightarrow>
    scope_grant (rq_scope r) = cg_id g \<and> rq_snapshot r = sn_id s
    \<and> offered s g (kind_of (rq_operation r)) (rq_target r) (rq_source r)"
proof
  assume "\<exists>e. resolve_operation_entry m r = Inr e"
  then obtain e where e: "resolve_operation_entry m r = Inr e" by blast
  have "\<exists>c \<in> set (entry_list (mf_entries m)). entry_matches r c"
    using e by (auto simp: resolve_operation_entry_def simp flip: find_iff split: if_splits option.splits)
  with entry_in_manifest [OF assms(1,2)] resolved_entry(4,5) [OF e]
  show "scope_grant (rq_scope r) = cg_id g \<and> rq_snapshot r = sn_id s
    \<and> offered s g (kind_of (rq_operation r)) (rq_target r) (rq_source r)"
    by (simp add: manifest_entries(1,2) [OF assms(2)])
next
  assume "scope_grant (rq_scope r) = cg_id g \<and> rq_snapshot r = sn_id s
    \<and> offered s g (kind_of (rq_operation r)) (rq_target r) (rq_source r)"
  with entry_in_manifest [OF assms(1,2)] show "\<exists>e. resolve_operation_entry m r = Inr e"
    by (intro resolve_total assms(3)) (simp_all only: manifest_entries(1-3) [OF assms(2)])
qed

theorem manifest_authorizes_what_is_granted_witness:
  "(\<exists>e. resolve_operation_entry trial_manifest trial_request = Inr e)
   \<and> resolve_operation_entry trial_manifest (trial_request\<lparr>rq_target := ''v''\<rparr>) = Inl (PlainError ''not authorized'')"
proof
  have "grant_ok trial_grant" "build_invocation_manifest (\<lambda>x. x) trial_snapshot trial_grant = Inr trial_manifest"
    "op_request_ok trial_request" by code_simp+
  moreover have "offered trial_snapshot trial_grant KindResource ''u'' ''src''" by code_simp
  ultimately show "\<exists>e. resolve_operation_entry trial_manifest trial_request = Inr e"
    using manifest_authorizes_what_is_granted [of trial_grant "\<lambda>x. x" trial_snapshot trial_manifest trial_request]
    by (simp add: trial_request_def trial_grant_def trial_snapshot_def)
qed code_simp

end
