(* ===== verification/Spec2Isabelle.thy ===== *)
theory Spec2Isabelle
  imports Loop_Body Scheduler_Outcome Workflow_Compiler Ssrf_Guard For_Each Output_Mask
    Outbox_Recovery Runtime_Lease_Safety Finding_Reconciliation
    Invocation_Guarantees
begin

section \<open>Sentris: workflows, delivery and leases\<close>

text \<open>
  Sentris lets its users draw workflows of security tools as graphs of components, compiles them,
  runs them on Temporal, and keeps what the runs find.  This library models the part of the
  program that decides: what a graph means and whether it is accepted, in which order its actions
  run and what they are given, what is recorded of them, and how the services hand work to one
  another without losing or repeating it.  Paths below are under \<open>src/\<close>.

  The parts and how they interact.  The builder saves a graph
  (\<open>packages/shared/src/workflow-graph.ts\<close>); the backend compiles it
  (\<open>backend/src/dsl/compiler.ts\<close>), which looks its components up in the registry of
  \<open>packages/component-sdk\<close>, takes the loop bodies out and sorts the rest
  (\<open>backend/src/dsl/loop-body.ts\<close>), and validates the result
  (\<open>backend/src/dsl/validator.ts\<close>).  The worker runs the definition with the scheduler
  (\<open>worker/src/temporal/workflow-scheduler.ts\<close>), which calls one activity per action with inputs made
  from the results of its predecessors (\<open>input-resolver.ts\<close>); a for-each action runs its body by
  calling the scheduler again (\<open>workflows/for-each-handler.ts\<close>).  Requests that components
  make pass the SSRF guard, and what is recorded passes the masking of
  \<open>utils/component-output.ts\<close>.  The backend's services hand events to each other through the
  outbox (\<open>backend/src/outbox\<close>), and the processes that run MCP servers share them under leases in
  Redis (\<open>worker/src/mcp-runtime\<close>).  Calls of MCP tools, resources and prompts are authorized by
  grants and manifests (\<open>packages/shared/src/mcp-invocation.ts\<close>) and recorded in a journal that
  dispatches each of them at most once (\<open>backend/src/mcp-runtime\<close>), under the fence of such a lease.

  The theories, and what each shows.

  \<^item> \<open>Prelude\<close>, \<open>Json\<close>: results with thrown errors, the ordered maps and sets of JavaScript,
    JavaScript values and the string methods the code calls; lists in dependency order.
  \<^item> \<open>Graph_Types\<close>, \<open>Port_Types\<close>, \<open>Component_Registry\<close>: the data of graphs and definitions, the types
    of ports and which of them connect, components and what a tool call may pass to them.
  \<^item> \<open>Loop_Body\<close>, \<open>Validator\<close>, \<open>Workflow_Compiler\<close>: from a graph to a definition.  A body is what its
    entry reaches, the sort is correct and complete, a compiled definition is acyclic, typed and in
    dependency order, and each input has one source.
  \<^item> \<open>Scheduler\<close> (the model), \<open>Scheduler_Contract\<close> (the locales \<open>propagation_invariant\<close> and
    \<open>scheduler_invariant\<close>: what an invariant has to satisfy to hold in every run),
    \<open>Scheduler_Accounting\<close>, \<open>Scheduler_Ordering\<close>, \<open>Scheduler_Liveness\<close>, \<open>Scheduler_Outcome\<close> (its
    interpretations): no action is lost, repeated or started too early, no failure goes unreported,
    and the run does not deadlock except for one shape of join, which is shown to.
  \<^item> \<open>Action_Inputs\<close>, \<open>For_Each\<close>, \<open>Output_Mask\<close>: the payload of an activity, the iterations of a loop and
    what is recorded.
  \<^item> \<open>Ssrf_Guard\<close>: host names, addresses in all their notations, and the decision on a URL.
  \<^item> \<open>Fencing\<close>: the interface of a store whose entries are held under a token; the outbox and the
    leases interpret it.
  \<^item> \<open>Outbox\<close> (the model), \<open>Outbox_Order\<close> (its reachable tables, the order of delivery and the
    refinement to queues), \<open>Outbox_Leases\<close>, \<open>Outbox_Recovery\<close>.
  \<^item> \<open>Runtime_Lease\<close> (the Lua scripts and the repository on them), \<open>Runtime_Lease_Safety\<close>.
  \<^item> \<open>Triage\<close> (records, requests and their transactions), \<open>Triage_History\<close>: in every interleaving of
    requests the stored history of a finding is a legal run of its state machine that ends in its
    present state.
  \<^item> \<open>Finding_Projection\<close> (documents, the projector, the reconciler, the health of the projection),
    \<open>Finding_Projection_Safety\<close>: the health can be trusted; \<open>Finding_Reconciliation\<close>: the
    reconciliation ends, and what a rebuild of the index during it leads to.
  \<^item> \<open>Transactions\<close>: calls as programs of statements, schedules that interleave them, and two locales:
    \<open>guarded_store\<close>, what statements rely on and guarantee, and \<open>exclusive_claims\<close>, answers that at
    most one call can get.
  \<^item> \<open>Mcp_Capabilities\<close>: scopes, grants, snapshots and the manifests that say which MCP operations may
    be invoked.
  \<^item> \<open>Invocation_Rows\<close>, \<open>Invocation_Journal\<close>: the rows of invocations and all operations of
    \<open>backend/src/mcp-runtime/mcp-runtime.repository.ts\<close>.  \<open>Invocation_Invariant\<close>,
    \<open>Invocation_Safety\<close>, \<open>Invocation_Calls\<close>, \<open>Invocation_Runs\<close>, \<open>Invocation_Schedules\<close>: what each
    statement keeps, what each call promises, and both for any schedule (the interpretations of the
    two locales).  \<open>Invocation_Trial\<close>: a run, statement by statement.  \<open>Invocation_Guarantees\<close>: an
    operation is dispatched once, its result is the same for all, only the fence of the dispatch settles
    it, cancelling a run ends its invocations, and what is stored can be read.

  How the code is modelled.  A class or interface is a record, a union of literals a datatype, an
  object used as a dictionary and a \<open>Map\<close> an association list in insertion order.  A thrown error
  is \<open>Inl\<close>, \<open>undefined\<close> and \<open>null\<close> are \<open>None\<close> where the code treats them alike.  State that a function
  changes is passed in and returned.  A statement or a transaction of the database and a script of
  Redis are one atomic step, except in the invocation journal, whose transactions are sequences of
  statements that interleave (read committed).  What is decided outside the code is an argument: the results of the
  activities and the order in which they end (the world \<open>w\<close> of the scheduler), the parser of URLs and
  the answers of DNS, fresh identifiers, clocks (the clock of a process and that of the database are
  different arguments), the rows that \<open>SKIP LOCKED\<close> passes over, hashes and serializations, the
  printing and parsing of numbers.

  Termination and bounds.  Every function is total.  The recursion of the scheduler terminates by the
  number of pending and running actions, the worklists of \<open>Loop_Body\<close> by the nodes that are left;
  the four attempts of \<open>reserve\<close> and the twenty batches of ten thousand rows of a cleanup are
  recursions on lists and numbers.  \<open>dead_letter_pages\<close>, which is not a function of the code but
  a client of it, reads as many pages as it is told; one more than there are dead letters is enough.
  A call of the invocation journal is a finite tree, with two rounds in its reconciliations; that is
  enough, since an invocation changes its status twice at most.  \<open>call_within\<close> bounds each call but the
  cancellation of a run by five statements.

  Not modelled.  The user interface, the generated API client, controllers and DTOs (they parse and
  forward), the modules that wire services together, logging, metrics and tracing, database
  migrations and scripts, the clients of GitHub, Jira, Slack, OpenSearch, Kafka and MinIO, and the
  components themselves, each a call of an external tool.  Within the modelled files: log messages;
  the order in which JavaScript lists keys that look like numbers (the model keeps insertion order);
  characters beyond the first 256 code points; the maximal lengths of database columns; timers,
  which only start operations that the model lets happen at any time.
\<close>

end
